(* ===== verification/Prelude.thy ===== *)
theory Prelude
  imports Main
begin

text \<open>
  Shared vocabulary of the development: the names of the model's base types, the arithmetic of Go's
  signed 64-bit integers, and the list and map lemmas that several components use.

  Go's \<open>int64\<close> and \<open>int\<close> (64 bits on every platform the bot is built for) are \<open>int\<close> here. Where a
  component computes with them and the claim is about overflow, each operation is written with
  \<open>wrap64\<close>, which folds a result back into the two's complement range exactly as Go does. Instants and
  durations are integers (nanoseconds unless a theory says otherwise).
\<close>

section \<open>Types\<close>

type_synonym i64 = int
type_synonym instant = int
type_synonym duration = int

definition go_second :: duration where "go_second = 10 ^ 9"
definition go_minute :: duration where "go_minute = 60 * go_second"

section \<open>Collections used by the component proofs\<close>

named_theorems frame \<open>what an operation leaves unchanged\<close>
named_theorems inv_intros \<open>invariant preservation, one rule per operation\<close>

section \<open>Go's signed 64-bit arithmetic\<close>

definition wrap64 :: "int \<Rightarrow> i64" where
  "wrap64 x = (x + 2 ^ 63) mod 2 ^ 64 - 2 ^ 63"

definition in_i64 :: "int \<Rightarrow> bool" where
  "in_i64 x \<longleftrightarrow> - (2 ^ 63) \<le> x \<and> x < 2 ^ 63"

lemma wrap64_id [simp]: "in_i64 x \<Longrightarrow> wrap64 x = x"
  by (simp add: wrap64_def in_i64_def)

lemma in_i64_wrap64 [simp]: "in_i64 (wrap64 x)"
  by (simp add: wrap64_def in_i64_def)

text \<open>Go's \<open>/\<close> and \<open>%\<close> truncate towards zero.\<close>

definition go_div :: "int \<Rightarrow> int \<Rightarrow> int" where
  "go_div a b = sgn a * sgn b * (\<bar>a\<bar> div \<bar>b\<bar>)"

definition go_mod :: "int \<Rightarrow> int \<Rightarrow> int" where
  "go_mod a b = a - go_div a b * b"

lemma go_div_nonneg [simp]: "0 \<le> a \<Longrightarrow> 0 < b \<Longrightarrow> go_div a b = a div b"
  by (cases "a = 0") (simp_all add: go_div_def)

lemma go_mod_nonneg [simp]: "0 \<le> a \<Longrightarrow> 0 < b \<Longrightarrow> go_mod a b = a mod b"
  by (simp add: go_mod_def minus_div_mult_eq_mod)

section \<open>Lists\<close>

text \<open>\<open>update_where P f xs\<close> rewrites the elements that satisfy \<open>P\<close> in place.\<close>

definition update_where :: "('a \<Rightarrow> bool) \<Rightarrow> ('a \<Rightarrow> 'a) \<Rightarrow> 'a list \<Rightarrow> 'a list" where
  "update_where P f xs = map (\<lambda>x. if P x then f x else x) xs"

lemma update_where_Nil [simp]: "update_where P f [] = []"
  by (simp add: update_where_def)

lemma update_where_Cons [simp]:
  "update_where P f (x # xs) = (if P x then f x else x) # update_where P f xs"
  by (simp add: update_where_def)

lemma length_update_where [simp]: "length (update_where P f xs) = length xs"
  by (simp add: update_where_def)

lemma update_where_append [simp]:
  "update_where P f (xs @ ys) = update_where P f xs @ update_where P f ys"
  by (simp add: update_where_def)

lemma set_update_where:
  "y \<in> set (update_where P f xs) \<longleftrightarrow> (\<exists>x \<in> set xs. y = (if P x then f x else x))"
  by (auto simp: update_where_def)

lemma update_where_none: "(\<And>x. x \<in> set xs \<Longrightarrow> \<not> P x) \<Longrightarrow> update_where P f xs = xs"
  by (induction xs) auto

lemma update_where_cong [cong]:
  "xs = ys \<Longrightarrow> (\<And>x. x \<in> set ys \<Longrightarrow> P x = Q x) \<Longrightarrow> (\<And>x. x \<in> set ys \<Longrightarrow> Q x \<Longrightarrow> f x = g x)
    \<Longrightarrow> update_where P f xs = update_where Q g ys"
  by (auto simp: update_where_def)

lemma map_update_where:
  "(\<And>x. x \<in> set xs \<Longrightarrow> P x \<Longrightarrow> g (f x) = g x) \<Longrightarrow> map g (update_where P f xs) = map g xs"
  by (induction xs) auto

lemma filter_update_where_other:
  "(\<And>x. x \<in> set xs \<Longrightarrow> P x \<Longrightarrow> \<not> Q x \<and> \<not> Q (f x)) \<Longrightarrow> filter Q (update_where P f xs) = filter Q xs"
  by (induction xs) auto

lemma find_filter_hd: "find P xs = (case filter P xs of [] \<Rightarrow> None | x # _ \<Rightarrow> Some x)"
  by (induction xs) auto

lemma find_Some_iff_mem: "find P xs = Some x \<Longrightarrow> x \<in> set xs \<and> P x"
  by (induction xs) (auto split: if_splits)

lemma find_append: "find P (xs @ ys) = (case find P xs of None \<Rightarrow> find P ys | Some x \<Rightarrow> Some x)"
  by (induction xs) auto

lemma find_None_iff_all: "find P xs = None \<longleftrightarrow> (\<forall>x \<in> set xs. \<not> P x)"
  by (induction xs) auto

lemma filter_filter_neg [simp]: "filter P (filter (\<lambda>x. \<not> P x) xs) = []"
  by (induction xs) auto

text \<open>With distinct keys, an element is determined by its key.\<close>

lemma distinct_map_inj_on: "distinct (map k xs) \<Longrightarrow> x \<in> set xs \<Longrightarrow> y \<in> set xs \<Longrightarrow> k x = k y \<Longrightarrow> x = y"
  by (induction xs) (auto simp: rev_image_eqI)


lemma filter_neq_last:
  "distinct (map k xs) \<Longrightarrow> xs \<noteq> [] \<Longrightarrow> filter (\<lambda>x. k x \<noteq> k (last xs)) xs = butlast xs"
proof (induction xs rule: rev_induct)
  case Nil
  then show ?case by simp
next
  case (snoc x xs)
  then have "\<forall>y \<in> set xs. k y \<noteq> k x" by (auto simp: image_iff)
  then have "filter (\<lambda>y. k y \<noteq> k x) xs = xs" by (simp add: filter_id_conv)
  then show ?case by simp
qed


text \<open>The distinct elements of a list in the order of their first occurrence, and the place of one among them.\<close>

definition first_of_each :: "'a list \<Rightarrow> 'a list" where
  "first_of_each xs = rev (remdups (rev xs))"

lemma first_of_each_snoc:
  "first_of_each (xs @ [x]) = (if x \<in> set xs then first_of_each xs else first_of_each xs @ [x])"
  by (simp add: first_of_each_def)

lemma set_first_of_each [simp]: "set (first_of_each xs) = set xs"
  by (simp add: first_of_each_def)

lemma distinct_first_of_each [simp]: "distinct (first_of_each xs)"
  by (simp add: first_of_each_def)

fun place :: "'a \<Rightarrow> 'a list \<Rightarrow> nat option" where
  "place x [] = None"
| "place x (y # ys) = (if x = y then Some 0 else map_option Suc (place x ys))"

lemma place_None [simp]: "place x ys = None \<longleftrightarrow> x \<notin> set ys"
  by (induction ys) auto

lemma place_Some: "place x ys = Some i \<Longrightarrow> i < length ys \<and> ys ! i = x"
  by (induction ys arbitrary: i) (auto split: if_splits)

lemma place_snoc:
  "place x (ys @ [y]) = (if x \<in> set ys then place x ys else if x = y then Some (length ys) else None)"
  by (induction ys) auto

section \<open>Running a sequence of operations\<close>

text \<open>
  A component whose methods hold its mutex is a step function from an instant, an operation and a state to
  an answer and the next state; \<open>run_ops\<close> is a sequence of calls with the answers they got.
\<close>

fun run_ops :: "(instant \<Rightarrow> 'op \<Rightarrow> 's \<Rightarrow> 'r \<times> 's) \<Rightarrow> (instant \<times> 'op) list \<Rightarrow> 's \<Rightarrow> 'r list \<times> 's" where
  "run_ops step [] s = ([], s)"
| "run_ops step ((now, op) # ops) s =
     (let (r, s') = step now op s; (rs, s'') = run_ops step ops s' in (r # rs, s''))"

lemma run_ops_Cons:
  "run_ops step (p # ops) s =
    (fst (step (fst p) (snd p) s) # fst (run_ops step ops (snd (step (fst p) (snd p) s))),
     snd (run_ops step ops (snd (step (fst p) (snd p) s))))"
  by (cases p) (simp add: Let_def split: prod.splits)

lemma run_ops_invariant:
  assumes "\<And>now op s. I s \<Longrightarrow> I (snd (step now op s))"
  shows "I s \<Longrightarrow> I (snd (run_ops step ops s))"
  using assms by (induction ops arbitrary: s) (simp_all add: run_ops_Cons del: run_ops.simps(2))

text \<open>A simulation step by step is a simulation of whole runs, with the same answers.\<close>

lemma run_ops_simulation:
  assumes "\<And>now op s. I s \<Longrightarrow> I (snd (step now op s))"
    and "\<And>now op s. I s \<Longrightarrow> spec now op (h s) = (fst (step now op s), h (snd (step now op s)))"
  shows "I s \<Longrightarrow> run_ops spec ops (h s) = (fst (run_ops step ops s), h (snd (run_ops step ops s)))"
  using assms by (induction ops arbitrary: s) (simp_all add: run_ops_Cons del: run_ops.simps(2))

end
