(* ===== verification/Connection_Cache.thy ===== *)
theory Connection_Cache
  imports Prelude "HOL-Library.AList"
begin

text \<open>
  \<open>bot/internal/business/cache.go\<close>: the bounded, expiring, least-recently-used cache of resolved
  Business connections.

  The Go type keeps a map from connection ids to list elements and a doubly linked list of those
  elements, and the two share the entries. Here an element is a number, \<open>cells\<close> is the memory the
  elements point into, \<open>by_id\<close> is the map (in its iteration order) and \<open>order\<close> the list, most recently
  used first. Every operation takes the instant its call of \<open>c.now()\<close> returns; the mutex makes each
  operation one step.

  The second half states what the cache promises, on a plain list of entries, and shows that the two
  linked structures implement it: the invariant \<open>cache_inv\<close>, the abstraction \<open>entries\<close>, and one
  simulation lemma per operation.
\<close>

section \<open>State\<close>

record connection =
  conn_ID :: string
  conn_OwnerUserID :: i64
  conn_OwnerTelegramUserID :: i64
  conn_CanReply :: bool
  conn_IsEnabled :: bool

definition zero_connection :: connection where
  "zero_connection = \<lparr>conn_ID = [], conn_OwnerUserID = 0, conn_OwnerTelegramUserID = 0,
     conn_CanReply = False, conn_IsEnabled = False\<rparr>"

datatype entry_kind = EntryResolved | EntryUnknown | EntryRefused

record cache_entry =
  ce_id :: string
  ce_kind :: entry_kind
  ce_conn :: connection
  ce_refusedOwner :: i64
  ce_expiresAt :: instant

type_synonym elem = nat

record connection_cache =
  cc_ttl :: duration
  cc_max :: i64
  by_id :: "(string \<times> elem) list"
  order :: "elem list"
  cells :: "elem \<Rightarrow> cache_entry"
  next_elem :: elem
  disabledOwners :: "i64 set"

definition blank_entry :: cache_entry where
  "blank_entry = \<lparr>ce_id = [], ce_kind = EntryResolved, ce_conn = zero_connection,
     ce_refusedOwner = 0, ce_expiresAt = 0\<rparr>"

definition connectionCacheTTL :: duration where
  "connectionCacheTTL = 60 * 10 ^ 9"

definition connectionCacheMaxEntries :: i64 where
  "connectionCacheMaxEntries = 4096"

definition newConnectionCache :: "duration \<Rightarrow> i64 \<Rightarrow> connection_cache" where
  "newConnectionCache ttl mx = \<lparr>cc_ttl = ttl, cc_max = mx, by_id = [], order = [],
     cells = (\<lambda>_. blank_entry), next_elem = 0, disabledOwners = {}\<rparr>"

section \<open>Operations\<close>

text \<open>\<open>remove\<close> unlinks an element from the map and from the list.\<close>

definition cache_remove :: "elem \<Rightarrow> connection_cache \<Rightarrow> connection_cache" where
  "cache_remove h c = c\<lparr>by_id := AList.delete (ce_id (cells c h)) (by_id c), order := removeAll h (order c)\<rparr>"

definition move_to_front :: "elem \<Rightarrow> elem list \<Rightarrow> elem list" where
  "move_to_front h hs = h # removeAll h hs"

definition cache_lookup :: "instant \<Rightarrow> string \<Rightarrow> connection_cache \<Rightarrow> cache_entry option \<times> connection_cache" where
  "cache_lookup now i c =
     (case map_of (by_id c) i of
        None \<Rightarrow> (None, c)
      | Some h \<Rightarrow>
          if \<not> now < ce_expiresAt (cells c h) then (None, cache_remove h c)
          else (Some (cells c h), c\<lparr>order := move_to_front h (order c)\<rparr>))"

definition cache_putLocked :: "instant \<Rightarrow> cache_entry \<Rightarrow> connection_cache \<Rightarrow> connection_cache" where
  "cache_putLocked now e0 c =
     (let e = e0\<lparr>ce_expiresAt := now + cc_ttl c\<rparr> in
      case map_of (by_id c) (ce_id e) of
        Some h \<Rightarrow> c\<lparr>cells := (cells c)(h := e), order := move_to_front h (order c)\<rparr>
      | None \<Rightarrow>
          let h = next_elem c;
              c1 = c\<lparr>cells := (cells c)(h := e), order := h # order c,
                     by_id := AList.update (ce_id e) h (by_id c), next_elem := Suc h\<rparr>
          in if cc_max c < int (length (order c1)) then cache_remove (last (order c1)) c1 else c1)"

definition resolved_entry :: "connection \<Rightarrow> cache_entry" where
  "resolved_entry conn = blank_entry\<lparr>ce_id := conn_ID conn, ce_kind := EntryResolved, ce_conn := conn\<rparr>"

definition cache_store :: "instant \<Rightarrow> connection \<Rightarrow> connection_cache \<Rightarrow> connection_cache" where
  "cache_store now conn c =
     cache_putLocked now (resolved_entry conn)
       (if conn_IsEnabled conn
        then c\<lparr>disabledOwners := disabledOwners c - {conn_OwnerUserID conn}\<rparr>
        else c\<lparr>disabledOwners := insert (conn_OwnerUserID conn) (disabledOwners c)\<rparr>)"

definition cache_storeDB :: "instant \<Rightarrow> connection \<Rightarrow> connection_cache \<Rightarrow> connection_cache" where
  "cache_storeDB now conn c =
     (if \<not> conn_IsEnabled conn then cache_putLocked now (resolved_entry conn) c
      else if (case map_of (by_id c) (conn_ID conn) of
                 Some h \<Rightarrow> ce_kind (cells c h) = EntryResolved \<and> \<not> conn_IsEnabled (ce_conn (cells c h))
               | None \<Rightarrow> False) then c
      else cache_putLocked now
             (resolved_entry (if conn_OwnerUserID conn \<in> disabledOwners c
                              then conn\<lparr>conn_IsEnabled := False\<rparr> else conn)) c)"

definition cache_storeUnknown :: "instant \<Rightarrow> string \<Rightarrow> connection_cache \<Rightarrow> connection_cache" where
  "cache_storeUnknown now i c = cache_putLocked now (blank_entry\<lparr>ce_id := i, ce_kind := EntryUnknown\<rparr>) c"

definition cache_storeRefused :: "instant \<Rightarrow> string \<Rightarrow> i64 \<Rightarrow> connection_cache \<Rightarrow> connection_cache" where
  "cache_storeRefused now i owner c =
     cache_putLocked now (blank_entry\<lparr>ce_id := i, ce_kind := EntryRefused, ce_refusedOwner := owner\<rparr>) c"

text \<open>\<open>disableOwner\<close> walks the map and patches the entries of one owner in place.\<close>

definition disable_entry :: "i64 \<Rightarrow> cache_entry \<Rightarrow> cache_entry" where
  "disable_entry owner e =
     (if ce_kind e = EntryResolved \<and> conn_OwnerUserID (ce_conn e) = owner
      then e\<lparr>ce_conn := (ce_conn e)\<lparr>conn_IsEnabled := False\<rparr>\<rparr> else e)"

definition cache_disableOwner :: "i64 \<Rightarrow> connection_cache \<Rightarrow> connection_cache" where
  "cache_disableOwner owner c =
     c\<lparr>disabledOwners := insert owner (disabledOwners c),
       cells := foldl (\<lambda>m (i, h). m(h := disable_entry owner (m h))) (cells c) (by_id c)\<rparr>"

definition cache_len :: "connection_cache \<Rightarrow> nat" where
  "cache_len c = length (order c)"

section \<open>What the cache promises: a list of entries\<close>

type_synonym lru = "cache_entry list \<times> i64 set"

definition lru_put :: "duration \<Rightarrow> i64 \<Rightarrow> instant \<Rightarrow> cache_entry \<Rightarrow> cache_entry list \<Rightarrow> cache_entry list" where
  "lru_put ttl mx now e es =
     take (nat mx) (e\<lparr>ce_expiresAt := now + ttl\<rparr> # filter (\<lambda>x. ce_id x \<noteq> ce_id e) es)"

definition lru_lookup :: "instant \<Rightarrow> string \<Rightarrow> cache_entry list \<Rightarrow> cache_entry option \<times> cache_entry list" where
  "lru_lookup now i es =
     (case find (\<lambda>x. ce_id x = i) es of
        None \<Rightarrow> (None, es)
      | Some e \<Rightarrow> if now < ce_expiresAt e then (Some e, e # filter (\<lambda>x. ce_id x \<noteq> i) es)
                  else (None, filter (\<lambda>x. ce_id x \<noteq> i) es))"

datatype cache_op =
    Lookup string
  | Store connection
  | StoreDB connection
  | StoreUnknown string
  | StoreRefused string i64
  | DisableOwner i64

fun cache_step :: "instant \<Rightarrow> cache_op \<Rightarrow> connection_cache \<Rightarrow> cache_entry option \<times> connection_cache" where
  "cache_step now (Lookup i) c = cache_lookup now i c"
| "cache_step now (Store conn) c = (None, cache_store now conn c)"
| "cache_step now (StoreDB conn) c = (None, cache_storeDB now conn c)"
| "cache_step now (StoreUnknown i) c = (None, cache_storeUnknown now i c)"
| "cache_step now (StoreRefused i owner) c = (None, cache_storeRefused now i owner c)"
| "cache_step now (DisableOwner owner) c = (None, cache_disableOwner owner c)"

fun lru_step :: "duration \<Rightarrow> i64 \<Rightarrow> instant \<Rightarrow> cache_op \<Rightarrow> lru \<Rightarrow> cache_entry option \<times> lru" where
  "lru_step ttl mx now (Lookup i) (es, ds) = (case lru_lookup now i es of (r, es') \<Rightarrow> (r, es', ds))"
| "lru_step ttl mx now (Store conn) (es, ds) =
     (None, lru_put ttl mx now (resolved_entry conn) es,
      if conn_IsEnabled conn then ds - {conn_OwnerUserID conn} else insert (conn_OwnerUserID conn) ds)"
| "lru_step ttl mx now (StoreDB conn) (es, ds) =
     (None,
      (if \<not> conn_IsEnabled conn then lru_put ttl mx now (resolved_entry conn) es
       else if (\<exists>e \<in> set es. ce_id e = conn_ID conn \<and> ce_kind e = EntryResolved \<and> \<not> conn_IsEnabled (ce_conn e)) then es
       else lru_put ttl mx now
              (resolved_entry (if conn_OwnerUserID conn \<in> ds then conn\<lparr>conn_IsEnabled := False\<rparr> else conn)) es),
      ds)"
| "lru_step ttl mx now (StoreUnknown i) (es, ds) =
     (None, lru_put ttl mx now (blank_entry\<lparr>ce_id := i, ce_kind := EntryUnknown\<rparr>) es, ds)"
| "lru_step ttl mx now (StoreRefused i owner) (es, ds) =
     (None, lru_put ttl mx now (blank_entry\<lparr>ce_id := i, ce_kind := EntryRefused, ce_refusedOwner := owner\<rparr>) es, ds)"
| "lru_step ttl mx now (DisableOwner owner) (es, ds) = (None, map (disable_entry owner) es, insert owner ds)"

section \<open>The linked structures agree\<close>

text \<open>
  \<open>cache_links\<close>: the map and the list hold the same elements, each under the id its entry carries, once
  each. \<open>cache_inv\<close> adds the bound.
\<close>

definition cache_links :: "connection_cache \<Rightarrow> bool" where
  "cache_links c \<longleftrightarrow> distinct (order c) \<and> distinct (map fst (by_id c)) \<and>
     (\<forall>i h. (i, h) \<in> set (by_id c) \<longleftrightarrow> h \<in> set (order c) \<and> ce_id (cells c h) = i) \<and>
     (\<forall>h \<in> set (order c). h < next_elem c)"

definition cache_inv :: "connection_cache \<Rightarrow> bool" where
  "cache_inv c \<longleftrightarrow> cache_links c \<and> 0 < cc_max c \<and> int (length (order c)) \<le> cc_max c"

definition entries :: "connection_cache \<Rightarrow> cache_entry list" where
  "entries c = map (cells c) (order c)"

definition cache_abs :: "connection_cache \<Rightarrow> lru" where
  "cache_abs c = (entries c, disabledOwners c)"

lemma cache_links_lookup:
  "cache_links c \<Longrightarrow> map_of (by_id c) i = Some h \<longleftrightarrow> h \<in> set (order c) \<and> ce_id (cells c h) = i"
  by (auto simp: cache_links_def)

lemma cache_links_lookup_None:
  "cache_links c \<Longrightarrow> map_of (by_id c) i = None \<longleftrightarrow> (\<forall>h \<in> set (order c). ce_id (cells c h) \<noteq> i)"
  using cache_links_lookup [of c i] by (metis not_None_eq)

lemma cache_links_inj:
  assumes "cache_links c" "h \<in> set (order c)" "h' \<in> set (order c)" "ce_id (cells c h) = ce_id (cells c h')"
  shows "h = h'"
  using cache_links_lookup [OF assms(1), of "ce_id (cells c h)" h]
    cache_links_lookup [OF assms(1), of "ce_id (cells c h)" h'] assms(2-) by simp

lemma cache_links_distinct_ids: "cache_links c \<Longrightarrow> distinct (map ce_id (entries c))"
  by (auto simp: entries_def distinct_map o_def inj_on_def cache_links_inj)
     (auto simp: cache_links_def)

lemma filter_ids_removeAll:
  assumes "cache_links c" "h \<in> set (order c)"
  shows "filter (\<lambda>e. ce_id e \<noteq> ce_id (cells c h)) (entries c) = map (cells c) (removeAll h (order c))"
proof -
  have "\<forall>k \<in> set (order c). (ce_id (cells c k) \<noteq> ce_id (cells c h)) \<longleftrightarrow> k \<noteq> h"
    using cache_links_inj [OF assms(1)] assms(2) by blast
  then show ?thesis
    by (auto simp: entries_def filter_map o_def removeAll_filter_not_eq intro!: arg_cong [where f = "map (cells c)"] filter_cong)
qed

lemma cache_links_remove:
  assumes "cache_links c" "h \<in> set (order c)"
  shows "cache_links (cache_remove h c)"
proof -
  have "(i, k) \<in> set (AList.delete (ce_id (cells c h)) (by_id c)) \<longleftrightarrow>
      k \<in> set (removeAll h (order c)) \<and> ce_id (cells c k) = i" for i k
    using assms cache_links_inj [OF assms(1)]
    by (auto simp: AList.delete_eq cache_links_def)
  then show ?thesis
    using assms(1) by (auto simp: cache_links_def cache_remove_def distinct_removeAll AList.distinct_delete)
qed

lemma entries_remove:
  "cache_links c \<Longrightarrow> h \<in> set (order c) \<Longrightarrow>
    entries (cache_remove h c) = filter (\<lambda>e. ce_id e \<noteq> ce_id (cells c h)) (entries c)"
  by (simp add: filter_ids_removeAll) (simp add: entries_def cache_remove_def)

lemma cache_remove_fields [simp]:
  "cc_ttl (cache_remove h c) = cc_ttl c" "cc_max (cache_remove h c) = cc_max c"
  "disabledOwners (cache_remove h c) = disabledOwners c" "cells (cache_remove h c) = cells c"
  "order (cache_remove h c) = removeAll h (order c)"
  by (simp_all add: cache_remove_def)

lemma cache_putLocked_fields [simp]:
  "cc_ttl (cache_putLocked now e c) = cc_ttl c" "cc_max (cache_putLocked now e c) = cc_max c"
  "disabledOwners (cache_putLocked now e c) = disabledOwners c"
  by (simp_all add: cache_putLocked_def Let_def split: option.splits)

lemma find_entries:
  assumes "cache_links c"
  shows "find (\<lambda>x. ce_id x = i) (entries c) = map_option (cells c) (map_of (by_id c) i)"
proof (cases "map_of (by_id c) i")
  case None
  then show ?thesis
    using cache_links_lookup_None [OF assms, of i] by (simp add: find_None_iff_all entries_def)
next
  case (Some h)
  then have h: "h \<in> set (order c)" "ce_id (cells c h) = i"
    using cache_links_lookup [OF assms] by auto
  obtain e where e: "find (\<lambda>x. ce_id x = i) (entries c) = Some e"
    using h by (cases "find (\<lambda>x. ce_id x = i) (entries c)") (auto simp: find_None_iff_all entries_def)
  then obtain k where "k \<in> set (order c)" "e = cells c k" "ce_id e = i"
    using find_Some_iff_mem [OF e] by (auto simp: entries_def)
  then show ?thesis using e Some h cache_links_inj [OF assms, of k h] by simp
qed

section \<open>Simulation, operation by operation\<close>

lemma cache_links_move:
  "cache_links c \<Longrightarrow> h \<in> set (order c) \<Longrightarrow> cache_links (c\<lparr>order := move_to_front h (order c)\<rparr>)"
  by (auto simp: cache_links_def move_to_front_def distinct_removeAll)

lemma length_move_to_front: "distinct hs \<Longrightarrow> h \<in> set hs \<Longrightarrow> length (move_to_front h hs) = length hs"
  by (simp add: move_to_front_def distinct_remove1_removeAll [symmetric] length_remove1)
     (metis One_nat_def Suc_pred length_pos_if_in_set)

lemma lookup_sim:
  assumes "cache_inv c"
  shows "cache_inv (snd (cache_lookup now i c)) \<and>
    lru_lookup now i (entries c) = (fst (cache_lookup now i c), entries (snd (cache_lookup now i c))) \<and>
    disabledOwners (snd (cache_lookup now i c)) = disabledOwners c"
proof -
  have links: "cache_links c" using assms by (simp add: cache_inv_def)
  show ?thesis
  proof (cases "map_of (by_id c) i")
    case None
    then show ?thesis
      using assms by (simp add: cache_lookup_def lru_lookup_def find_entries [OF links])
  next
    case (Some h)
    then have h: "h \<in> set (order c)" "ce_id (cells c h) = i"
      using cache_links_lookup [OF links] by auto
    have dist: "distinct (order c)" using links by (simp add: cache_links_def)
    have "int (length (removeAll h (order c))) \<le> int (length (order c))" by simp
    also have "\<dots> \<le> cc_max c" using assms by (simp add: cache_inv_def)
    finally have len: "int (length (removeAll h (order c))) \<le> cc_max c" .
    have ents: "entries (c\<lparr>order := move_to_front h (order c)\<rparr>)
        = cells c h # filter (\<lambda>e. ce_id e \<noteq> i) (entries c)"
      using filter_ids_removeAll [OF links h(1)] h(2) by (simp add: entries_def move_to_front_def)
    show ?thesis
      using assms Some h links cache_links_remove [OF links h(1)] cache_links_move [OF links h(1)]
        entries_remove [OF links h(1)] ents length_move_to_front [OF dist h(1)]
        len
      by (auto simp: cache_lookup_def lru_lookup_def find_entries [OF links] cache_inv_def)
  qed
qed


lemma put_hit_sim:
  assumes "cache_inv c" "map_of (by_id c) (ce_id e) = Some h"
  shows "cache_inv (cache_putLocked now e c) \<and>
    entries (cache_putLocked now e c) = lru_put (cc_ttl c) (cc_max c) now e (entries c)"
proof -
  let ?e = "e\<lparr>ce_expiresAt := now + cc_ttl c\<rparr>"
  let ?c = "c\<lparr>cells := (cells c)(h := ?e), order := move_to_front h (order c)\<rparr>"
  have links: "cache_links c" using assms by (simp add: cache_inv_def)
  have h: "h \<in> set (order c)" "ce_id (cells c h) = ce_id e"
    using cache_links_lookup [OF links] assms(2) by auto
  have dist: "distinct (order c)" using links by (simp add: cache_links_def)
  have len: "length (h # removeAll h (order c)) = length (order c)"
    using length_move_to_front [OF dist h(1)] by (simp only: move_to_front_def)
  have put: "cache_putLocked now e c = ?c" using assms(2) by (simp add: cache_putLocked_def)
  have "map (cells ?c) (removeAll h (order c)) = map (cells c) (removeAll h (order c))" by simp
  also have "\<dots> = filter (\<lambda>x. ce_id x \<noteq> ce_id e) (entries c)"
    using filter_ids_removeAll [OF links h(1)] h(2) by simp
  finally have ents: "entries ?c = ?e # filter (\<lambda>x. ce_id x \<noteq> ce_id e) (entries c)"
    by (simp add: entries_def move_to_front_def)
  have "length (entries ?c) = length (order c)" using len by (simp add: entries_def move_to_front_def)
  moreover have "length (order c) \<le> nat (cc_max c)" using assms(1) by (simp add: cache_inv_def le_nat_iff)
  ultimately have "lru_put (cc_ttl c) (cc_max c) now e (entries c) = entries ?c"
    unfolding lru_put_def ents [symmetric] by simp
  moreover have "cache_links ?c"
    using cache_links_move [OF links h(1)] h(2) by (auto simp: cache_links_def)
  ultimately show ?thesis
    using assms(1) len put by (simp add: cache_inv_def move_to_front_def)
qed

lemma put_miss_sim:
  assumes "cache_inv c" "map_of (by_id c) (ce_id e) = None"
  shows "cache_inv (cache_putLocked now e c) \<and>
    entries (cache_putLocked now e c) = lru_put (cc_ttl c) (cc_max c) now e (entries c)"
proof -
  let ?e = "e\<lparr>ce_expiresAt := now + cc_ttl c\<rparr>" and ?h = "next_elem c"
  let ?c = "c\<lparr>cells := (cells c)(?h := ?e), order := ?h # order c,
    by_id := AList.update (ce_id e) ?h (by_id c), next_elem := Suc ?h\<rparr>"
  have links: "cache_links c" using assms by (simp add: cache_inv_def)
  have fresh: "?h \<notin> set (order c)" using links by (auto simp: cache_links_def)
  have ids: "\<forall>k \<in> set (order c). ce_id (cells c k) \<noteq> ce_id e"
    using cache_links_lookup_None [OF links] assms(2) by simp
  have same: "map (cells ?c) (order c) = entries c" using fresh by (auto simp: entries_def)
  have keys: "distinct (map fst (AList.update (ce_id e) ?h (by_id c)))"
    using links by (simp add: cache_links_def AList.distinct_update)
  have "(i, k) \<in> set (AList.update (ce_id e) ?h (by_id c)) \<longleftrightarrow>
      k \<in> set (?h # order c) \<and> ce_id (cells ?c k) = i" for i k
    using keys links cache_links_lookup [OF links, of i k] fresh ids
    by (auto simp: map_of_eq_Some_iff [symmetric] AList.update_conv')
  then have links1: "cache_links ?c"
    using links fresh keys by (auto simp: cache_links_def less_SucI)
  have "filter (\<lambda>x. ce_id x \<noteq> ce_id e) (entries c) = entries c"
    using ids by (auto simp: filter_id_conv entries_def)
  then have spec: "lru_put (cc_ttl c) (cc_max c) now e (entries c) = take (nat (cc_max c)) (entries ?c)"
    using same by (simp add: lru_put_def entries_def del: map_eq_conv)
  show ?thesis
  proof (cases "cc_max c < int (length (order ?c))")
    case False
    then show ?thesis
      using assms links1 spec by (auto simp: cache_putLocked_def cache_inv_def entries_def Let_def)
  next
    case True
    have last: "last (order ?c) \<in> set (order ?c)" by (rule last_in_set) simp
    have len: "length (order ?c) = Suc (nat (cc_max c))" using True assms(1) by (auto simp: cache_inv_def)
    have lastid: "ce_id (cells ?c (last (order ?c))) = ce_id (last (entries ?c))"
      unfolding entries_def by (subst last_map) simp_all
    have "entries (cache_remove (last (order ?c)) ?c) = butlast (entries ?c)"
      unfolding entries_remove [OF links1 last] lastid
      by (rule filter_neq_last [OF cache_links_distinct_ids [OF links1]]) (simp add: entries_def)
    also have "\<dots> = take (nat (cc_max c)) (entries ?c)"
      using len by (simp add: butlast_conv_take entries_def)
    finally have ents: "entries (cache_remove (last (order ?c)) ?c) = take (nat (cc_max c)) (entries ?c)" .
    have "length (removeAll (last (order ?c)) (order ?c)) < length (order ?c)"
      by (rule length_removeAll_less [OF last])
    then have bound: "int (length (order (cache_remove (last (order ?c)) ?c))) \<le> cc_max c"
      unfolding cache_remove_fields using len assms(1) by (simp only: cache_inv_def) linarith
    have put: "cache_putLocked now e c = cache_remove (last (order ?c)) ?c"
      using assms(2) True by (simp add: cache_putLocked_def Let_def)
    show ?thesis
      unfolding put spec ents
      using cache_links_remove [OF links1 last] bound assms(1) by (simp add: cache_inv_def)
  qed
qed

lemma put_sim:
  "cache_inv c \<Longrightarrow> cache_inv (cache_putLocked now e c) \<and>
    entries (cache_putLocked now e c) = lru_put (cc_ttl c) (cc_max c) now e (entries c)"
  by (cases "map_of (by_id c) (ce_id e)") (simp_all add: put_hit_sim put_miss_sim)

lemma disable_entry_id [simp]: "ce_id (disable_entry owner e) = ce_id e"
  by (simp add: disable_entry_def)

lemma disable_cells:
  "distinct (map snd al) \<Longrightarrow>
    foldl (\<lambda>m (i, h). m(h := disable_entry owner (m h))) m al k =
      (if k \<in> snd ` set al then disable_entry owner (m k) else m k)"
  by (induction al arbitrary: m) (auto simp: image_iff split: prod.splits)

lemma disable_sim:
  assumes "cache_inv c"
  shows "cache_inv (cache_disableOwner owner c) \<and>
    entries (cache_disableOwner owner c) = map (disable_entry owner) (entries c)"
proof -
  have links: "cache_links c" using assms by (simp add: cache_inv_def)
  have pair: "(i, h) \<in> set (by_id c) \<longleftrightarrow> h \<in> set (order c) \<and> ce_id (cells c h) = i" for i h
    using links by (simp add: cache_links_def)
  have mem: "snd ` set (by_id c) = set (order c)"
  proof (rule set_eqI)
    fix h
    have "h \<in> snd ` set (by_id c)" if "h \<in> set (order c)"
    proof -
      have "(ce_id (cells c h), h) \<in> set (by_id c)" using that by (simp add: pair)
      then show ?thesis by (rule rev_image_eqI) simp
    qed
    then show "h \<in> snd ` set (by_id c) \<longleftrightarrow> h \<in> set (order c)" by (auto simp: pair)
  qed
  have "inj_on snd (set (by_id c))"
    by (auto simp: inj_on_def pair)
  then have dist: "distinct (map snd (by_id c))"
    using links by (auto simp: cache_links_def distinct_map)
  have cells: "cells (cache_disableOwner owner c) k =
      (if k \<in> set (order c) then disable_entry owner (cells c k) else cells c k)" for k
    by (simp add: cache_disableOwner_def disable_cells [OF dist] mem)
  then have "entries (cache_disableOwner owner c) = map (disable_entry owner) (entries c)"
    by (simp add: entries_def) (simp add: cache_disableOwner_def)
  moreover have "cache_links (cache_disableOwner owner c)"
    using links cells unfolding cache_links_def
    by (auto simp: cache_disableOwner_def split: if_splits)
  ultimately show ?thesis using assms by (simp add: cache_inv_def cache_disableOwner_def)
qed


lemma storeDB_guard:
  assumes "cache_links c"
  shows "(case map_of (by_id c) i of Some h \<Rightarrow> P (cells c h) | None \<Rightarrow> False)
     \<longleftrightarrow> (\<exists>e \<in> set (entries c). ce_id e = i \<and> P e)"
proof (cases "map_of (by_id c) i")
  case None
  then show ?thesis using cache_links_lookup_None [OF assms, of i] by (auto simp: entries_def)
next
  case (Some h)
  then have "h \<in> set (order c)" "ce_id (cells c h) = i" using cache_links_lookup [OF assms] by auto
  then show ?thesis using Some cache_links_inj [OF assms] by (force simp: entries_def)
qed

lemma cache_inv_disabledOwners [simp]: "cache_inv (c\<lparr>disabledOwners := d\<rparr>) = cache_inv c"
  by (simp add: cache_inv_def cache_links_def)

lemma entries_disabledOwners [simp]: "entries (c\<lparr>disabledOwners := d\<rparr>) = entries c"
  by (simp add: entries_def)

text \<open>One operation of the Go cache is one operation of the list.\<close>

lemma cache_step_sim:
  assumes "cache_inv c"
  shows "cache_inv (snd (cache_step now op c)) \<and>
    lru_step (cc_ttl c) (cc_max c) now op (cache_abs c) =
      (fst (cache_step now op c), cache_abs (snd (cache_step now op c))) \<and>
    cc_ttl (snd (cache_step now op c)) = cc_ttl c \<and> cc_max (snd (cache_step now op c)) = cc_max c"
proof (cases op)
  case (Lookup i)
  have "cc_ttl (snd (cache_lookup now i c)) = cc_ttl c" "cc_max (snd (cache_lookup now i c)) = cc_max c"
    by (simp_all add: cache_lookup_def split: option.splits)
  then show ?thesis using Lookup lookup_sim [OF assms, of now i] by (simp add: cache_abs_def)
next
  case (Store conn)
  let ?d = "if conn_IsEnabled conn then disabledOwners c - {conn_OwnerUserID conn}
    else insert (conn_OwnerUserID conn) (disabledOwners c)"
  have "cache_inv (c\<lparr>disabledOwners := ?d\<rparr>)" using assms by simp
  from put_sim [OF this, of now "resolved_entry conn"] show ?thesis
    using Store by (cases "conn_IsEnabled conn") (simp_all add: cache_store_def cache_abs_def)
next
  case (StoreDB conn)
  have links: "cache_links c" using assms by (simp add: cache_inv_def)
  show ?thesis
    unfolding StoreDB
    using assms put_sim [OF assms, of now]
      storeDB_guard [OF links, where i = "conn_ID conn" and P = "\<lambda>e. ce_kind e = EntryResolved \<and> \<not> conn_IsEnabled (ce_conn e)"]
    by (auto simp: cache_storeDB_def cache_abs_def)
next
  case (StoreUnknown i)
  then show ?thesis using put_sim [OF assms] by (simp add: cache_storeUnknown_def cache_abs_def)
next
  case (StoreRefused i owner)
  then show ?thesis using put_sim [OF assms] by (simp add: cache_storeRefused_def cache_abs_def)
next
  case (DisableOwner owner)
  then show ?thesis
    using disable_sim [OF assms, of owner] by (simp add: cache_abs_def) (simp add: cache_disableOwner_def)
qed

lemma cache_inv_new [simp]: "0 < mx \<Longrightarrow> cache_inv (newConnectionCache ttl mx)"
  by (simp add: cache_inv_def cache_links_def newConnectionCache_def)

lemma cache_abs_new [simp]: "cache_abs (newConnectionCache ttl mx) = ([], {})"
  by (simp add: cache_abs_def entries_def newConnectionCache_def)

lemma newConnectionCache_fields [simp]:
  "cc_ttl (newConnectionCache ttl mx) = ttl" "cc_max (newConnectionCache ttl mx) = mx"
  by (simp_all add: newConnectionCache_def)

lemma cache_run_inv:
  "cache_inv c \<Longrightarrow> cache_inv (snd (run_ops cache_step ops c)) \<and> cc_max (snd (run_ops cache_step ops c)) = cc_max c"
  by (rule run_ops_invariant [where I = "\<lambda>s. cache_inv s \<and> cc_max s = cc_max c"])
     (use cache_step_sim in auto)

section \<open>The contract a caller of the cache relies on\<close>

text \<open>
  The erasure disables an owner and then relies on no later lookup serving one of the owner's connections
  as enabled, until Telegram reports the owner's reconnection (\<open>reconnects\<close>). The locale states that as
  laws of one step; its lemma is about any sequence of calls.
\<close>

definition reconnects :: "i64 \<Rightarrow> cache_op \<Rightarrow> bool" where
  "reconnects owner op = (case op of Store conn \<Rightarrow> conn_IsEnabled conn \<and> conn_OwnerUserID conn = owner | _ \<Rightarrow> False)"

definition served_enabled :: "i64 \<Rightarrow> cache_entry \<Rightarrow> bool" where
  "served_enabled owner e \<longleftrightarrow>
     ce_kind e = EntryResolved \<and> conn_OwnerUserID (ce_conn e) = owner \<and> conn_IsEnabled (ce_conn e)"

locale disabling_cache =
  fixes step :: "instant \<Rightarrow> cache_op \<Rightarrow> 'c \<Rightarrow> cache_entry option \<times> 'c"
    and I :: "'c \<Rightarrow> bool"
    and off :: "i64 \<Rightarrow> 'c \<Rightarrow> bool"
  assumes step_inv: "I c \<Longrightarrow> I (snd (step now op c))"
    and off_disable: "I c \<Longrightarrow> off owner (snd (step now (DisableOwner owner) c))"
    and off_step: "I c \<Longrightarrow> off owner c \<Longrightarrow> \<not> reconnects owner op \<Longrightarrow> off owner (snd (step now op c))"
    and off_serve: "I c \<Longrightarrow> off owner c \<Longrightarrow> fst (step now op c) = Some e \<Longrightarrow> \<not> served_enabled owner e"
begin

lemma off_run:
  "I c \<Longrightarrow> off owner c \<Longrightarrow> \<forall>(now, op) \<in> set ops. \<not> reconnects owner op \<Longrightarrow>
    off owner (snd (run_ops step ops c)) \<and> (\<forall>e. Some e \<in> set (fst (run_ops step ops c)) \<longrightarrow> \<not> served_enabled owner e)"
proof (induction ops arbitrary: c)
  case Nil
  then show ?case by simp
next
  case (Cons p ops)
  obtain now op where p: "p = (now, op)" by (cases p)
  have "off owner (snd (step now op c))" "I (snd (step now op c))"
    using Cons.prems p by (auto intro: off_step step_inv)
  then have "off owner (snd (run_ops step ops (snd (step now op c)))) \<and>
      (\<forall>e. Some e \<in> set (fst (run_ops step ops (snd (step now op c)))) \<longrightarrow> \<not> served_enabled owner e)"
    using Cons.IH Cons.prems(3) by simp
  then show ?case
    using off_serve [OF Cons.prems(1,2), of now op] p
    by (auto simp: run_ops_Cons simp del: run_ops.simps(2))
qed

lemma never_enabled_after_disable:
  assumes "I c" "\<forall>(now, op) \<in> set ops. \<not> reconnects owner op"
    and "Some e \<in> set (fst (run_ops step ops (snd (step now (DisableOwner owner) c))))"
  shows "\<not> served_enabled owner e"
  using off_run [OF step_inv [OF assms(1)] off_disable [OF assms(1)] assms(2)] assms(3) by blast

end

definition owner_off :: "i64 \<Rightarrow> connection_cache \<Rightarrow> bool" where
  "owner_off owner c \<longleftrightarrow> owner \<in> disabledOwners c \<and> (\<forall>e \<in> set (entries c). \<not> served_enabled owner e)"

text \<open>The laws, proved on the list and carried over by the simulation.\<close>

lemma lru_put_subset: "x \<in> set (lru_put ttl mx now e es) \<Longrightarrow> x = e\<lparr>ce_expiresAt := now + ttl\<rparr> \<or> x \<in> set es"
  unfolding lru_put_def by (drule in_set_takeD) auto

lemma served_enabled_expires [simp]: "served_enabled owner (e\<lparr>ce_expiresAt := t\<rparr>) = served_enabled owner e"
  by (simp add: served_enabled_def)

lemma served_enabled_resolved [simp]:
  "served_enabled owner (resolved_entry conn) = (conn_OwnerUserID conn = owner \<and> conn_IsEnabled conn)"
  by (simp add: served_enabled_def resolved_entry_def blank_entry_def)

lemma served_enabled_disable: "served_enabled owner (disable_entry o' e) \<Longrightarrow> served_enabled owner e \<and> owner \<noteq> o'"
  by (auto simp: served_enabled_def disable_entry_def split: if_splits)

definition lru_off :: "i64 \<Rightarrow> lru \<Rightarrow> bool" where
  "lru_off owner s \<longleftrightarrow> owner \<in> snd s \<and> (\<forall>e \<in> set (fst s). \<not> served_enabled owner e)"

lemma lru_lookup_subset:
  "lru_lookup now i es = (r, es') \<Longrightarrow> set es' \<subseteq> set es \<and> (\<forall>e. r = Some e \<longrightarrow> e \<in> set es)"
  by (auto simp: lru_lookup_def split: option.splits if_splits dest: find_Some_iff_mem find_Some_iff_mem [OF sym])

lemma lru_lookup_mem: "lru_lookup now i es = (r, es') \<Longrightarrow> e \<in> set es' \<Longrightarrow> e \<in> set es"
  using lru_lookup_subset by blast

lemma lru_off_step:
  assumes "lru_off owner s" "\<not> reconnects owner op"
  shows "lru_off owner (snd (lru_step ttl mx now op s))"
proof -
  obtain es ds where s: "s = (es, ds)" by (cases s)
  show ?thesis
    using assms unfolding s
    by (cases op)
       (auto simp: lru_off_def reconnects_def served_enabled_def blank_entry_def resolved_entry_def disable_entry_def
          split: prod.splits if_splits dest!: lru_put_subset dest: lru_lookup_subset)
qed

lemma lru_off_serve:
  assumes "lru_off owner s" "fst (lru_step ttl mx now op s) = Some e"
  shows "\<not> served_enabled owner e"
  using assms by (cases op; cases s) (auto simp: lru_off_def split: prod.splits dest: lru_lookup_subset)

lemma owner_off_abs: "owner_off owner c = lru_off owner (cache_abs c)"
  by (simp add: owner_off_def lru_off_def cache_abs_def)

interpretation conn_cache: disabling_cache cache_step cache_inv owner_off
proof (unfold_locales, goal_cases)
  case (1 c now op)
  then show ?case using cache_step_sim by blast
next
  case (2 c owner now)
  then have "cache_abs (snd (cache_step now (DisableOwner owner) c))
      = (map (disable_entry owner) (entries c), insert owner (disabledOwners c))"
    using cache_step_sim [of c now "DisableOwner owner"] by (simp add: cache_abs_def)
  then show ?case unfolding owner_off_abs by (auto simp: lru_off_def dest!: served_enabled_disable)
next
  case (3 c owner op now)
  then show ?case
    using cache_step_sim [of c now op] lru_off_step [of owner "cache_abs c" op "cc_ttl c" "cc_max c" now]
    by (simp add: owner_off_abs)
next
  case (4 c owner now op e)
  then show ?case
    using cache_step_sim [of c now op] lru_off_serve [of owner "cache_abs c" "cc_ttl c" "cc_max c" now op e]
    by (simp add: owner_off_abs)
qed


section \<open>Properties\<close>

text \<open>C29. For any sequence of lookups, stores, negative stores and owner disables, the map and the linked
  list of the cache answer exactly what a least-recently-used list of expiring entries answers, end with the
  entries of that list, and never hold more than the configured maximum.\<close>

theorem cache_refines_lru:
  assumes "0 < mx"
  shows "run_ops (lru_step ttl mx) ops ([], {}) =
      (fst (run_ops cache_step ops (newConnectionCache ttl mx)),
       cache_abs (snd (run_ops cache_step ops (newConnectionCache ttl mx))))
    \<and> int (cache_len (snd (run_ops cache_step ops (newConnectionCache ttl mx)))) \<le> mx"
proof -
  let ?c = "newConnectionCache ttl mx"
  let ?I = "\<lambda>c. cache_inv c \<and> cc_ttl c = ttl \<and> cc_max c = mx"
  have I: "?I ?c" using assms by simp
  have "run_ops (lru_step ttl mx) ops (cache_abs ?c) =
      (fst (run_ops cache_step ops ?c), cache_abs (snd (run_ops cache_step ops ?c)))"
    by (rule run_ops_simulation [where I = ?I, OF _ _ I]) (use cache_step_sim in auto)
  then show ?thesis
    using cache_run_inv [of ?c ops] I by (simp add: cache_inv_def cache_len_def)
qed

theorem cache_refines_lru_witness:
  "(0::i64) < 1 \<and> run_ops (lru_step 10 1) [(0, StoreUnknown ''a''), (1, StoreUnknown ''b''), (2, Lookup ''a'')] ([], {})
     = (fst (run_ops cache_step [(0, StoreUnknown ''a''), (1, StoreUnknown ''b''), (2, Lookup ''a'')] (newConnectionCache 10 1)),
        cache_abs (snd (run_ops cache_step [(0, StoreUnknown ''a''), (1, StoreUnknown ''b''), (2, Lookup ''a'')] (newConnectionCache 10 1))))
   \<and> fst (run_ops cache_step [(0, StoreUnknown ''a''), (1, StoreUnknown ''b''), (2, Lookup ''a'')] (newConnectionCache 10 1))
     = [None, None, None]"
proof -
  have h: "(0::i64) < 1" by simp
  show ?thesis
    using h cache_refines_lru [OF h, of 10 "[(0, StoreUnknown ''a''), (1, StoreUnknown ''b''), (2, Lookup ''a'')]"]
    by (simp add: cache_storeUnknown_def cache_putLocked_def cache_lookup_def cache_remove_def
        newConnectionCache_def blank_entry_def)
qed

text \<open>C7. Once an owner is disabled in the cache, no later lookup serves a connection of the owner as
  enabled, whatever is stored meanwhile from the database (a row read before the disable included), from
  Telegram for other owners, or as a refusal, as long as Telegram does not report one of the owner's
  connections enabled again.\<close>

theorem disabled_owner_never_served:
  assumes "0 < mx"
    and "\<forall>(now, op) \<in> set later. \<not> reconnects owner op"
    and "Some e \<in> set (fst (run_ops cache_step later
          (cache_disableOwner owner (snd (run_ops cache_step earlier (newConnectionCache ttl mx))))))"
  shows "\<not> served_enabled owner e"
proof -
  let ?c = "snd (run_ops cache_step earlier (newConnectionCache ttl mx))"
  have "cache_inv ?c" using cache_run_inv assms(1) by simp
  moreover have "cache_disableOwner owner ?c = snd (cache_step 0 (DisableOwner owner) ?c)" by simp
  ultimately show ?thesis
    using conn_cache.never_enabled_after_disable [of ?c later owner e 0] assms(2,3) by simp
qed

definition sample_conn :: connection where
  "sample_conn = \<lparr>conn_ID = ''A'', conn_OwnerUserID = 7, conn_OwnerTelegramUserID = 70,
     conn_CanReply = True, conn_IsEnabled = True\<rparr>"

theorem disabled_owner_never_served_witness:
  "\<exists>e. Some e \<in> set (fst (run_ops cache_step [(5, StoreDB sample_conn), (6, Lookup ''A'')]
        (cache_disableOwner 7 (snd (run_ops cache_step [] (newConnectionCache 100 8))))))
     \<and> conn_OwnerUserID (ce_conn e) = 7 \<and> \<not> served_enabled 7 e"
proof -
  let ?run = "fst (run_ops cache_step [(5, StoreDB sample_conn), (6, Lookup ''A'')]
        (cache_disableOwner 7 (snd (run_ops cache_step [] (newConnectionCache 100 8)))))"
  let ?e = "(resolved_entry (sample_conn\<lparr>conn_IsEnabled := False\<rparr>))\<lparr>ce_expiresAt := 105\<rparr>"
  have run: "?run = [None, Some ?e]"
    by (simp add: cache_storeDB_def cache_putLocked_def cache_lookup_def cache_disableOwner_def
        newConnectionCache_def sample_conn_def resolved_entry_def blank_entry_def)
  have "\<not> served_enabled 7 ?e"
    by (rule disabled_owner_never_served
        [of 8 "[(5, StoreDB sample_conn), (6, Lookup ''A'')]" 7 _ "[]" 100])
       (simp_all only: run, simp_all add: reconnects_def)
  then show ?thesis using run by (auto simp: resolved_entry_def sample_conn_def)
qed

end
