(* ===== verification/Errors.thy ===== *)
theory Errors
  imports Prelude
begin

text \<open>
  The errors of the program. A Go error value is a chain of wrapped causes, outermost first, and the code
  only ever inspects it with \<open>errors.Is\<close> (is this cause in the chain) and \<open>errors.As\<close> (the first cause of
  this type). So an error is a list of causes here. \<open>Cause\<close> covers the sentinels of the bot's packages, the
  Bot API error of \<open>telegram/client.go\<close>, and the errors of the standard library and of the PostgreSQL
  driver that the code tells apart; \<open>Msg\<close> is any other message.
\<close>

datatype cause =
    Msg string
  | CtxCanceled
  | CtxDeadlineExceeded
  | APIError int int \<comment> \<open>\<open>error_code\<close> and \<open>retry_after\<close> in seconds\<close>
  | NoRows
  | PgError string \<comment> \<open>the SQLSTATE\<close>
  | PgConnectError
  | NetError bool \<comment> \<open>whether it is a timeout\<close>
  | UnexpectedEOF
  | HTTPStatusError int
  | ErrOwnerNotAllowed
  | ErrConnectionUnknown
  | ErrConnectionOwnerConflict
  | ErrLeaseLost
  | ErrNoMediaDelivery
  | ErrMediaUnavailable
  | ErrMediaTooLarge
  | ErrUnsafeRelativePath
  | ErrInvalidSHA256
  | ErrMediaNotFound
  | ErrStoreTooLarge
  | ErrPathTraversal
  | ErrUpdateNotSubmitted
  | ErrNotExist
  | ErrUnsafeTarget
  | ErrDownloadTimeout
  | ErrHashMismatch
  | ErrEOF
  | OsError string \<comment> \<open>a system call that failed: an error number under its \<open>PathError\<close> or \<open>LinkError\<close>\<close>
  | URLError "nat list" \<comment> \<open>\<open>*url.Error\<close>, with the URL it carries; what it wraps follows\<close>
  | MsgText "nat list" \<comment> \<open>a message rebuilt from the text of another error\<close>

type_synonym go_error = "cause list"

definition errors_is :: "go_error \<Rightarrow> cause \<Rightarrow> bool" where
  "errors_is err c \<longleftrightarrow> c \<in> set err"

text \<open>\<open>errors.As(err, &apiErr)\<close>: the code and retry delay of the first Bot API error of the chain.\<close>

fun as_api_error :: "go_error \<Rightarrow> (int \<times> int) option" where
  "as_api_error [] = None"
| "as_api_error (APIError code retry # _) = Some (code, retry)"
| "as_api_error (_ # cs) = as_api_error cs"

fun as_pg_error :: "go_error \<Rightarrow> string option" where
  "as_pg_error [] = None"
| "as_pg_error (PgError sqlstate # _) = Some sqlstate"
| "as_pg_error (_ # cs) = as_pg_error cs"

fun as_net_error :: "go_error \<Rightarrow> bool option" where
  "as_net_error [] = None"
| "as_net_error (NetError timeout # _) = Some timeout"
| "as_net_error (OsError _ # _) = Some False"
| "as_net_error (_ # cs) = as_net_error cs"

fun as_url_error :: "go_error \<Rightarrow> go_error option" where
  "as_url_error [] = None"
| "as_url_error (URLError url # cs) = Some cs"
| "as_url_error (_ # cs) = as_url_error cs"

fun as_http_status :: "go_error \<Rightarrow> int option" where
  "as_http_status [] = None"
| "as_http_status (HTTPStatusError status # _) = Some status"
| "as_http_status (_ # cs) = as_http_status cs"

definition statusBadRequest :: int where "statusBadRequest = 400"
definition statusRequestTimeout :: int where "statusRequestTimeout = 408"
definition statusTooManyRequests :: int where "statusTooManyRequests = 429"
definition statusInternalServerError :: int where "statusInternalServerError = 500"

lemmas http_status_defs =
  statusBadRequest_def statusRequestTimeout_def statusTooManyRequests_def statusInternalServerError_def

text \<open>\<open>APIError.IsRateLimited\<close>: a 429 with a usable delay.\<close>

definition IsRateLimited :: "int \<Rightarrow> int \<Rightarrow> bool" where
  "IsRateLimited code retry \<longleftrightarrow> code = statusTooManyRequests \<and> 0 < retry"

text \<open>A 4xx other than 429: the definitive refusal several packages test for.\<close>

definition definitive_4xx :: "int \<Rightarrow> bool" where
  "definitive_4xx code \<longleftrightarrow>
     statusBadRequest \<le> code \<and> code < statusInternalServerError \<and> code \<noteq> statusTooManyRequests"

lemma as_api_error_SomeD: "as_api_error err = Some (code, retry) \<Longrightarrow> APIError code retry \<in> set err"
  by (induction err rule: as_api_error.induct) auto

end
