(* ===== verification/Users.thy ===== *)
theory Users
  imports Errors
begin

text \<open>
  \<open>bot/internal/users/repository.go\<close>: the users table, which gives each account holder the internal id
  that keys every tenant table, and each tenant its retention period. The table is outside row level
  security. A row's \<open>created_at\<close> is not modelled: no code of the bot reads it. \<open>db_ok\<close> says whether
  PostgreSQL answered.
\<close>

record User =
  user_ID :: i64
  user_TelegramUserID :: i64
  user_RetentionDays :: int

record users_table =
  ut_rows :: "User list"
  ut_seq :: i64

definition MinRetentionDays :: int where "MinRetentionDays = 1"
definition MaxRetentionDays :: int where "MaxRetentionDays = 365"
definition DefaultRetentionDays :: int where "DefaultRetentionDays = 7"

definition empty_users :: users_table where
  "empty_users = \<lparr>ut_rows = [], ut_seq = 1\<rparr>"

text \<open>The insert draws its id from the sequence before it meets the conflict, so the sequence moves in both
  cases; the conflict branch rewrites the key with itself and returns the existing row.\<close>

definition UpsertByTelegramID :: "bool \<Rightarrow> i64 \<Rightarrow> users_table \<Rightarrow> (go_error + User) \<times> users_table" where
  "UpsertByTelegramID db_ok tg t =
     (if \<not> db_ok then (Inl [Msg ''upsert user''], t)
      else case find (\<lambda>u. user_TelegramUserID u = tg) (ut_rows t) of
          Some u \<Rightarrow> (Inr u, t\<lparr>ut_seq := ut_seq t + 1\<rparr>)
        | None \<Rightarrow>
            let u = \<lparr>user_ID = ut_seq t, user_TelegramUserID = tg, user_RetentionDays = DefaultRetentionDays\<rparr>
            in (Inr u, t\<lparr>ut_rows := ut_rows t @ [u], ut_seq := ut_seq t + 1\<rparr>))"

definition GetRetentionDays :: "bool \<Rightarrow> i64 \<Rightarrow> users_table \<Rightarrow> go_error + int" where
  "GetRetentionDays db_ok owner t =
     (if \<not> db_ok then Inl [Msg ''reading retention'']
      else case find (\<lambda>u. user_ID u = owner) (ut_rows t) of
          None \<Rightarrow> Inl [Msg ''reading retention'', NoRows]
        | Some u \<Rightarrow> Inr (user_RetentionDays u))"

definition SetRetentionDays :: "bool \<Rightarrow> i64 \<Rightarrow> int \<Rightarrow> users_table \<Rightarrow> (go_error + unit) \<times> users_table" where
  "SetRetentionDays db_ok owner days t =
     (if days < MinRetentionDays \<or> MaxRetentionDays < days then (Inl [Msg ''retention out of bounds''], t)
      else if \<not> db_ok then (Inl [Msg ''setting retention''], t)
      else if \<not> (\<exists>u \<in> set (ut_rows t). user_ID u = owner) then (Inl [Msg ''no such tenant''], t)
      else (Inr (), t\<lparr>ut_rows := update_where (\<lambda>u. user_ID u = owner) (\<lambda>u. u\<lparr>user_RetentionDays := days\<rparr>) (ut_rows t)\<rparr>))"

record TenantRetention =
  tr_OwnerUserID :: i64
  tr_RetentionDays :: int

definition ListTenantsForRetention :: "bool \<Rightarrow> users_table \<Rightarrow> go_error + TenantRetention list" where
  "ListTenantsForRetention db_ok t =
     (if \<not> db_ok then Inl [Msg ''listing tenants'']
      else Inr (map (\<lambda>u. \<lparr>tr_OwnerUserID = user_ID u, tr_RetentionDays = user_RetentionDays u\<rparr>) (ut_rows t)))"

section \<open>Invariant: the constraints of the table\<close>

text \<open>Primary key, unique Telegram id, ids below the sequence, and the retention \<open>CHECK\<close>.\<close>

definition users_inv :: "users_table \<Rightarrow> bool" where
  "users_inv t \<longleftrightarrow> distinct (map user_ID (ut_rows t)) \<and> distinct (map user_TelegramUserID (ut_rows t)) \<and>
     (\<forall>u \<in> set (ut_rows t). 0 < user_ID u \<and> user_ID u < ut_seq t \<and>
        MinRetentionDays \<le> user_RetentionDays u \<and> user_RetentionDays u \<le> MaxRetentionDays) \<and> 0 < ut_seq t"

lemmas retention_bounds = MinRetentionDays_def MaxRetentionDays_def DefaultRetentionDays_def

lemma users_inv_empty [simp]: "users_inv empty_users"
  by (simp add: users_inv_def empty_users_def)

lemma users_inv_upsert [inv_intros]: "users_inv t \<Longrightarrow> users_inv (snd (UpsertByTelegramID ok tg t))"
  by (force simp: users_inv_def UpsertByTelegramID_def Let_def retention_bounds find_None_iff_all split: option.splits)

lemma users_inv_set [inv_intros]:
  assumes "users_inv t"
  shows "users_inv (snd (SetRetentionDays ok owner days t))"
proof -
  have "map user_ID (update_where P (\<lambda>u. u\<lparr>user_RetentionDays := days\<rparr>) rows) = map user_ID rows"
    "map user_TelegramUserID (update_where P (\<lambda>u. u\<lparr>user_RetentionDays := days\<rparr>) rows) = map user_TelegramUserID rows"
    for P :: "User \<Rightarrow> bool" and rows by (simp_all add: map_update_where)
  then show ?thesis
    using assms by (auto simp: users_inv_def SetRetentionDays_def set_update_where)
qed

text \<open>The upsert is a function of the Telegram id: it returns the same tenant each time, and never two
  tenants for one holder or one tenant for two.\<close>

lemma upsert_same_owner:
  assumes "users_inv t" "UpsertByTelegramID True tg t = (Inr u, t')"
  shows "user_TelegramUserID u = tg \<and> u \<in> set (ut_rows t') \<and>
    UpsertByTelegramID True tg t' = (Inr u, t'\<lparr>ut_seq := ut_seq t' + 1\<rparr>)"
proof (cases "find (\<lambda>u. user_TelegramUserID u = tg) (ut_rows t)")
  case None
  then show ?thesis using assms(2) by (auto simp: UpsertByTelegramID_def Let_def find_append)
next
  case (Some v)
  then show ?thesis using assms(2) by (auto simp: UpsertByTelegramID_def dest: find_Some_iff_mem)
qed

lemma upsert_rows: "set (ut_rows t) \<subseteq> set (ut_rows (snd (UpsertByTelegramID ok tg t)))"
  by (auto simp: UpsertByTelegramID_def Let_def split: option.splits)

end
