(* ===== verification/Text.thy ===== *)
theory Text
  imports Prelude
begin

text \<open>
  Go strings as the code reads them, and the functions of the standard library it reads them with.

  A string that is iterated, cut or measured by runes is the list of its runes (code points); the texts the
  bot handles come out of a JSON decoder, which only produces valid UTF-8, so cutting at an ASCII byte and
  cutting at that rune are the same thing. \<open>unicode.IsSpace\<close>, \<open>strings.Fields\<close>, \<open>strings.TrimSpace\<close>,
  \<open>strings.TrimRight\<close>, \<open>utf16.RuneLen\<close>, \<open>%d\<close> and \<open>strconv.Atoi\<close> are written out.
\<close>

type_synonym rune = nat
type_synonym gostr = "rune list"

definition runes :: "string \<Rightarrow> gostr" where
  "runes s = map of_char s"

section \<open>White space\<close>

definition IsSpace :: "rune \<Rightarrow> bool" where
  "IsSpace r \<longleftrightarrow> (9 \<le> r \<and> r \<le> 13) \<or> (8192 \<le> r \<and> r \<le> 8202) \<or>
     r \<in> {32, 133, 160, 5760, 8232, 8233, 8239, 8287, 12288}"

text \<open>\<open>strings.FieldsFunc\<close>: the maximal runs without a separator.\<close>

fun fields_acc :: "(rune \<Rightarrow> bool) \<Rightarrow> gostr \<Rightarrow> gostr \<Rightarrow> gostr list" where
  "fields_acc sep word [] = (if word = [] then [] else [word])"
| "fields_acc sep word (r # rs) =
     (if sep r then (if word = [] then fields_acc sep [] rs else word # fields_acc sep [] rs)
      else fields_acc sep (word @ [r]) rs)"

definition FieldsFunc :: "(rune \<Rightarrow> bool) \<Rightarrow> gostr \<Rightarrow> gostr list" where
  "FieldsFunc sep t = fields_acc sep [] t"

definition Fields :: "gostr \<Rightarrow> gostr list" where
  "Fields t = FieldsFunc IsSpace t"

definition TrimLeft :: "(rune \<Rightarrow> bool) \<Rightarrow> gostr \<Rightarrow> gostr" where
  "TrimLeft P t = dropWhile P t"

definition TrimRight :: "(rune \<Rightarrow> bool) \<Rightarrow> gostr \<Rightarrow> gostr" where
  "TrimRight P t = rev (dropWhile P (rev t))"

definition TrimSpace :: "gostr \<Rightarrow> gostr" where
  "TrimSpace t = TrimRight IsSpace (TrimLeft IsSpace t)"

lemma TrimRight_prefix: "\<exists>suf. t = TrimRight P t @ suf \<and> list_all P suf"
proof -
  have "rev t = takeWhile P (rev t) @ dropWhile P (rev t)" by simp
  then have "t = rev (dropWhile P (rev t)) @ rev (takeWhile P (rev t))" by (metis rev_append rev_rev_ident)
  moreover have "list_all P (rev (takeWhile P (rev t)))" by (simp add: list_all_iff) (meson set_takeWhileD)
  ultimately show ?thesis unfolding TrimRight_def by blast
qed

lemma TrimRight_id: "t = [] \<or> \<not> P (last t) \<Longrightarrow> TrimRight P t = t"
proof (cases t rule: rev_cases)
  case (snoc ys y)
  then show "t = [] \<or> \<not> P (last t) \<Longrightarrow> ?thesis" by (simp add: TrimRight_def)
qed (simp add: TrimRight_def)

lemma TrimLeft_id: "t = [] \<or> \<not> P (hd t) \<Longrightarrow> TrimLeft P t = t"
  by (cases t) (simp_all add: TrimLeft_def)

lemma TrimLeft_append: "list_all P xs \<Longrightarrow> TrimLeft P (xs @ ys) = TrimLeft P ys"
  by (simp add: TrimLeft_def list_all_iff)

lemma TrimRight_append: "list_all P ys \<Longrightarrow> TrimRight P (xs @ ys) = TrimRight P xs"
  using dropWhile_append2 [of "rev ys" P "rev xs"] by (simp add: TrimRight_def list_all_iff)

lemma fields_acc_word: "list_all (\<lambda>r. \<not> sep r) xs \<Longrightarrow> fields_acc sep word (xs @ ys) = fields_acc sep (word @ xs) ys"
  by (induction xs arbitrary: word) simp_all

lemma fields_acc_nonempty: "\<forall>f \<in> set (fields_acc sep word t). f \<noteq> []"
proof (induction t arbitrary: word)
  case (Cons r rs)
  then show ?case by simp
qed simp

lemma Fields_single:
  "list_all IsSpace pre \<Longrightarrow> list_all IsSpace suf \<Longrightarrow> list_all (\<lambda>r. \<not> IsSpace r) w \<Longrightarrow> w \<noteq> [] \<Longrightarrow>
    Fields (pre @ w @ suf) = [w]"
proof -
  assume a: "list_all IsSpace pre" "list_all IsSpace suf" "list_all (\<lambda>r. \<not> IsSpace r) w" "w \<noteq> []"
  have pre: "fields_acc IsSpace [] (pre @ t) = fields_acc IsSpace [] t" for t using a(1) by (induction pre) simp_all
  have suf: "fields_acc IsSpace [] suf = []" using a(2) by (induction suf) simp_all
  have "fields_acc IsSpace w suf = [w]" using a(2,4) suf by (cases suf) simp_all
  then show ?thesis using pre fields_acc_word [of IsSpace w "[]" suf] a(3) by (simp add: Fields_def FieldsFunc_def)
qed

section \<open>UTF-16 lengths\<close>

text \<open>\<open>utf16.RuneLen\<close> answers -1 for what UTF-16 cannot encode; every caller counts that as one unit.\<close>

definition RuneLen :: "rune \<Rightarrow> int" where
  "RuneLen r =
     (if r < 55296 \<or> (57344 \<le> r \<and> r < 65536) then 1
      else if 65536 \<le> r \<and> r \<le> 1114111 then 2
      else - 1)"

definition runeUTF16Units :: "rune \<Rightarrow> nat" where
  "runeUTF16Units r = (let units = RuneLen r in if units < 1 then 1 else nat units)"

fun utf16Units :: "gostr \<Rightarrow> nat" where
  "utf16Units [] = 0"
| "utf16Units (r # rs) = runeUTF16Units r + utf16Units rs"

lemma runeUTF16Units_bounds: "1 \<le> runeUTF16Units r \<and> runeUTF16Units r \<le> 2"
  by (simp add: runeUTF16Units_def RuneLen_def Let_def)

lemma utf16Units_append [simp]: "utf16Units (xs @ ys) = utf16Units xs + utf16Units ys"
  by (induction xs) simp_all

lemma utf16Units_ge_length: "length xs \<le> utf16Units xs"
proof (induction xs)
  case (Cons r rs)
  then show ?case using runeUTF16Units_bounds [of r] by simp
qed simp

lemma utf16Units_le: "utf16Units xs \<le> 2 * length xs"
proof (induction xs)
  case (Cons r rs)
  then show ?case using runeUTF16Units_bounds [of r] by simp
qed simp

lemma utf16Units_zero [simp]: "utf16Units xs = 0 \<longleftrightarrow> xs = []"
  using utf16Units_ge_length [of xs] by auto

lemma utf16Units_ascii: "list_all (\<lambda>r. r < 128) xs \<Longrightarrow> utf16Units xs = length xs"
  by (induction xs) (simp_all add: runeUTF16Units_def RuneLen_def)

section \<open>Decimal numbers\<close>

text \<open>\<open>%d\<close> of a non-negative number.\<close>

fun dec :: "nat \<Rightarrow> gostr" where
  "dec n = (if n < 10 then [48 + n] else dec (n div 10) @ [48 + n mod 10])"

declare dec.simps [simp del]

definition isDigit :: "rune \<Rightarrow> bool" where
  "isDigit r \<longleftrightarrow> 48 \<le> r \<and> r \<le> 57"

definition undec :: "gostr \<Rightarrow> nat" where
  "undec t = foldl (\<lambda>n r. 10 * n + (r - 48)) 0 t"

text \<open>\<open>strconv.Atoi\<close> and \<open>ParseInt(s, 10, 64)\<close> on a token of digits: the only error left is the range.\<close>

definition Atoi :: "gostr \<Rightarrow> int option" where
  "Atoi t = (if t \<noteq> [] \<and> list_all isDigit t \<and> int (undec t) < 2 ^ 63 then Some (int (undec t)) else None)"

lemma undec_snoc [simp]: "undec (t @ [r]) = 10 * undec t + (r - 48)"
  by (simp add: undec_def)

lemma undec_Nil [simp]: "undec [] = 0"
  by (simp add: undec_def)

lemma dec_not_Nil [simp]: "dec n \<noteq> []"
  by (subst dec.simps) simp

lemma dec_digits: "list_all isDigit (dec n)"
proof (induction n rule: dec.induct)
  case (1 n)
  have d: "isDigit (48 + n mod 10)" "n < 10 \<Longrightarrow> isDigit (48 + n)" by (simp_all add: isDigit_def)
  show ?case using 1 d by (subst dec.simps) simp
qed

lemma undec_dec [simp]: "undec (dec n) = n"
proof (induction n rule: dec.induct)
  case (1 n)
  then show ?case by (subst dec.simps) (auto simp: undec_def)
qed

lemma dec_hd: "0 < n \<Longrightarrow> hd (dec n) \<noteq> 48"
proof (induction n rule: dec.induct)
  case (1 n)
  show ?case
  proof (cases "n < 10")
    case True
    then show ?thesis using 1 by (subst dec.simps) simp
  next
    case False
    then have "hd (dec n) = hd (dec (n div 10))" by (subst dec.simps) simp
    then show ?thesis using 1 False by simp
  qed
qed

text \<open>A token of digits without a leading zero is the numeral of its value.\<close>

lemma dec_undec:
  "t \<noteq> [] \<Longrightarrow> list_all isDigit t \<Longrightarrow> hd t \<noteq> 48 \<or> t = [48] \<Longrightarrow> dec (undec t) = t"
proof (induction t rule: rev_induct)
  case (snoc r t)
  have r: "48 \<le> r" "r \<le> 57" using snoc.prems(2) by (auto simp: isDigit_def)
  show ?case
  proof (cases "t = []")
    case True
    then show ?thesis using r by (subst dec.simps) (auto simp: undec_def)
  next
    case False
    then have h: "hd t \<noteq> 48" using snoc.prems(3) by (cases t) auto
    then have IH: "dec (undec t) = t" using snoc False by auto
    have "undec t \<noteq> 0" using IH h by (metis dec.simps list.sel(1) add.right_neutral zero_less_numeral)
    then have "10 \<le> undec (t @ [r])" by simp
    moreover have "undec (t @ [r]) = (r - 48) + 10 * undec t" by simp
    moreover have "r - 48 < 10" using r by simp
    ultimately have "undec (t @ [r]) div 10 = undec t" "undec (t @ [r]) mod 10 = r - 48" by simp_all
    then show ?thesis using IH r \<open>10 \<le> undec (t @ [r])\<close> by (subst dec.simps) (simp del: undec_snoc)
  qed
qed simp

lemma dec_length_mono: "m \<le> n \<Longrightarrow> length (dec m) \<le> length (dec n)"
proof (induction n arbitrary: m rule: dec.induct)
  case (1 n)
  show ?case
  proof (cases "m < 10")
    case True
    then have "length (dec m) = 1" by (subst dec.simps) simp
    then show ?thesis by (simp add: Suc_le_eq)
  next
    case False
    then have "length (dec (m div 10)) \<le> length (dec (n div 10))" using 1 by (simp add: div_le_mono)
    then show ?thesis using False 1(2) by (subst (1 2) dec.simps) auto
  qed
qed

lemma dec_length: "n < 10 ^ k \<Longrightarrow> 0 < k \<Longrightarrow> length (dec n) \<le> k"
proof (induction n arbitrary: k rule: dec.induct)
  case (1 n)
  show ?case
  proof (cases "n < 10")
    case True
    then show ?thesis using 1(3) by (subst dec.simps) simp
  next
    case False
    then obtain j where j: "k = Suc j" "0 < j" using 1(2,3) by (cases k; cases "k - 1") auto
    then have "n div 10 < 10 ^ j" using 1(2) by (simp add: less_mult_imp_div_less mult.commute)
    then show ?thesis using 1(1) [OF False, of j] j False by (subst dec.simps) simp
  qed
qed

end
