(* ===== verification/Telegram_Types.thy ===== *)
theory Telegram_Types
  imports Errors Text
begin

text \<open>
  \<open>bot/internal/telegram/types.go\<close>: the part of the Bot API the bot decodes. A Go pointer field is an
  \<open>option\<close>. The raw message kept by \<open>Message.UnmarshalJSON\<close> is a JSON value, \<open>None\<close> for a message that was
  not decoded from one. What a person typed or chose as a name is the list of its
  runes, and so is what describes a file; the other identifiers are ASCII strings. Thumbnails, caption entities and the descriptive fields no code reads
  (\<open>Performer\<close>, \<open>Emoji\<close>, \<open>SetName\<close>, \<open>SupportsStreaming\<close>, ...) are left out.
\<close>

datatype json = JNull | JBool bool | JNum int | JStr gostr | JArr "json list" | JObj "(string \<times> json) list"

record TgUser =
  tu_ID :: i64
  tu_IsBot :: bool
  tu_FirstName :: gostr
  tu_LastName :: gostr
  tu_Username :: gostr

record BusinessConnection =
  tbc_ID :: string
  tbc_User :: TgUser
  tbc_UserChatID :: i64
  tbc_IsEnabled :: bool
  tbc_Rights :: "bool option" \<comment> \<open>\<open>BusinessBotRights.CanReply\<close>\<close>
  tbc_CanReplyLegacy :: bool

definition tbc_CanReply :: "BusinessConnection \<Rightarrow> bool" where
  "tbc_CanReply c = (case tbc_Rights c of Some r \<Rightarrow> r | None \<Rightarrow> tbc_CanReplyLegacy c)"

record Chat =
  chat_ID :: i64
  chat_Type :: string
  chat_FirstName :: gostr
  chat_LastName :: gostr
  chat_Username :: gostr
  chat_Title :: gostr

record PhotoSize =
  ps_FileID :: gostr
  ps_FileUniqueID :: gostr
  ps_Width :: int
  ps_Height :: int
  ps_FileSize :: i64

text \<open>The seven other media objects of the Bot API share their descriptive fields; \<open>MediaObject\<close> is their
  union, a field an object does not have being its zero value.\<close>

record MediaObject =
  mo_FileID :: gostr
  mo_FileUniqueID :: gostr
  mo_FileName :: gostr
  mo_MimeType :: gostr
  mo_FileSize :: i64
  mo_Width :: int
  mo_Height :: int
  mo_Length :: int
  mo_Duration :: int

record Message =
  msg_MessageID :: i64
  msg_From :: "TgUser option"
  msg_Chat :: Chat
  msg_Date :: i64
  msg_Text :: gostr
  msg_BusinessConnectionID :: string
  msg_MediaGroupID :: string
  msg_Caption :: gostr
  msg_Photo :: "PhotoSize list"
  msg_Video :: "MediaObject option"
  msg_Animation :: "MediaObject option"
  msg_Document :: "MediaObject option"
  msg_Audio :: "MediaObject option"
  msg_Voice :: "MediaObject option"
  msg_VideoNote :: "MediaObject option"
  msg_Sticker :: "MediaObject option"
  msg_raw :: "json option"

record BusinessMessagesDeleted =
  bmd_BusinessConnectionID :: string
  bmd_Chat :: Chat
  bmd_MessageIDs :: "i64 list"

record Update =
  upd_UpdateID :: i64
  upd_BusinessConnection :: "BusinessConnection option"
  upd_BusinessMessage :: "Message option"
  upd_EditedBusinessMessage :: "Message option"
  upd_DeletedBusinessMessages :: "BusinessMessagesDeleted option"

record SendMessageRequest =
  smr_ChatID :: i64
  smr_Text :: gostr

definition allowedUpdates :: "string list" where
  "allowedUpdates = [''business_connection'', ''business_message'', ''edited_business_message'',
     ''deleted_business_messages'']"

text \<open>\<open>AllowedUpdates\<close> copies the list.\<close>

definition AllowedUpdates :: "string list" where
  "AllowedUpdates = map (\<lambda>s. s) allowedUpdates"

section \<open>Zero values, for the examples\<close>

definition zero_user :: TgUser where
  "zero_user = \<lparr>tu_ID = 0, tu_IsBot = False, tu_FirstName = [], tu_LastName = [], tu_Username = []\<rparr>"

definition zero_chat :: Chat where
  "zero_chat = \<lparr>chat_ID = 0, chat_Type = [], chat_FirstName = [], chat_LastName = [], chat_Username = [],
     chat_Title = []\<rparr>"

definition zero_media :: MediaObject where
  "zero_media = \<lparr>mo_FileID = [], mo_FileUniqueID = [], mo_FileName = [], mo_MimeType = [], mo_FileSize = 0,
     mo_Width = 0, mo_Height = 0, mo_Length = 0, mo_Duration = 0\<rparr>"

definition zero_message :: Message where
  "zero_message = \<lparr>msg_MessageID = 0, msg_From = None, msg_Chat = zero_chat, msg_Date = 0, msg_Text = [],
     msg_BusinessConnectionID = [], msg_MediaGroupID = [], msg_Caption = [], msg_Photo = [], msg_Video = None,
     msg_Animation = None, msg_Document = None, msg_Audio = None, msg_Voice = None, msg_VideoNote = None,
     msg_Sticker = None, msg_raw = None\<rparr>"

definition zero_update :: Update where
  "zero_update = \<lparr>upd_UpdateID = 0, upd_BusinessConnection = None, upd_BusinessMessage = None,
     upd_EditedBusinessMessage = None, upd_DeletedBusinessMessages = None\<rparr>"

end
