(* ===== verification/Business.thy ===== *)
theory Business
  imports Connection_Cache Users Telegram_Types
begin

text \<open>
  \<open>bot/internal/business/service.go\<close>: the resolution of a Business connection through the cache, the
  database and the Bot API, and the connection lifecycle.

  The state is the cache, the \<open>users\<close> and \<open>business_connections\<close> tables (both outside row level security)
  and the trace of its reads of a connection, Bot API calls and connection upserts, in order. What the outside answers during one
  call is its argument \<open>resolve_env\<close>: the instants \<open>c.now()\<close> returned, whether PostgreSQL answered each
  statement, and what \<open>getBusinessConnection\<close> returned. A welcome that
  fails is only logged, so its outcome is not an argument. \<open>allowed\<close> is the onboarding
  allowlist. The timestamps of the table are not modelled: nothing reads them.
\<close>

record bc_row =
  bc_id :: string
  bc_owner_user_id :: i64
  bc_can_reply :: bool
  bc_is_enabled :: bool

datatype business_call =
    ReadConnection string
  | ApiGetBusinessConnection string
  | SendWelcome i64
  | UpsertConnection string

record business_state =
  bs_cache :: connection_cache
  bs_users :: users_table
  bs_conns :: "bc_row list"
  bs_calls :: "business_call list"

record resolve_env =
  re_now_lookup :: instant
  re_now_store :: instant
  re_read_ok :: bool
  re_api :: "go_error + BusinessConnection"
  re_users_ok :: bool
  re_upsert_ok :: bool

definition ownerAllowed :: "i64 list \<Rightarrow> i64 \<Rightarrow> bool" where
  "ownerAllowed allowed tg \<longleftrightarrow> allowed = [] \<or> tg \<in> set allowed"

definition isUnknownConnection :: "go_error \<Rightarrow> bool" where
  "isUnknownConnection err = (case as_api_error err of Some (code, _) \<Rightarrow> code = statusBadRequest | None \<Rightarrow> False)"

definition bs_call :: "business_call \<Rightarrow> business_state \<Rightarrow> business_state" where
  "bs_call x s = s\<lparr>bs_calls := bs_calls s @ [x]\<rparr>"

definition bs_on_cache :: "(connection_cache \<Rightarrow> connection_cache) \<Rightarrow> business_state \<Rightarrow> business_state" where
  "bs_on_cache f s = s\<lparr>bs_cache := f (bs_cache s)\<rparr>"

text \<open>The join of \<open>getFromDB\<close>: the connection row and its owner's Telegram id.\<close>

definition getFromDB :: "bool \<Rightarrow> string \<Rightarrow> business_state \<Rightarrow> go_error + connection" where
  "getFromDB read_ok i s =
     (if \<not> read_ok then Inl [Msg ''reading business_connections'']
      else case find (\<lambda>r. bc_id r = i) (bs_conns s) of
          None \<Rightarrow> Inl [NoRows]
        | Some r \<Rightarrow>
            (case find (\<lambda>u. user_ID u = bc_owner_user_id r) (ut_rows (bs_users s)) of
               None \<Rightarrow> Inl [NoRows]
             | Some u \<Rightarrow> Inr \<lparr>conn_ID = bc_id r, conn_OwnerUserID = bc_owner_user_id r,
                 conn_OwnerTelegramUserID = user_TelegramUserID u, conn_CanReply = bc_can_reply r,
                 conn_IsEnabled = bc_is_enabled r\<rparr>))"

text \<open>The conditional upsert of \<open>business_connections\<close>: \<open>None\<close> when the row belongs to another owner.\<close>

definition upsert_bc :: "bc_row \<Rightarrow> bc_row list \<Rightarrow> (i64 \<times> bc_row list) option" where
  "upsert_bc new rows =
     (case find (\<lambda>r. bc_id r = bc_id new) rows of
        None \<Rightarrow> Some (bc_owner_user_id new, rows @ [new])
      | Some r \<Rightarrow>
          if bc_owner_user_id r = bc_owner_user_id new
          then Some (bc_owner_user_id r,
                 update_where (\<lambda>r. bc_id r = bc_id new)
                   (\<lambda>r. r\<lparr>bc_can_reply := bc_can_reply new, bc_is_enabled := bc_is_enabled new\<rparr>) rows)
          else None)"

text \<open>\<open>upsertFromTelegram\<close>: \<open>Inr None\<close> is the refusal by the allowlist, which writes nothing.\<close>

definition upsertFromTelegram ::
  "i64 list \<Rightarrow> resolve_env \<Rightarrow> BusinessConnection \<Rightarrow> business_state \<Rightarrow> (go_error + connection option) \<times> business_state" where
  "upsertFromTelegram allowed env tc s =
     (if tbc_ID tc = [] \<or> tu_ID (tbc_User tc) = 0 then (Inl [Msg ''business connection with empty id or zero user id''], s)
      else if \<not> ownerAllowed allowed (tu_ID (tbc_User tc)) then (Inr None, s)
      else case UpsertByTelegramID (re_users_ok env) (tu_ID (tbc_User tc)) (bs_users s) of
          (Inl err, ut) \<Rightarrow> (Inl (Msg ''upsert owner'' # err), s\<lparr>bs_users := ut\<rparr>)
        | (Inr u, ut) \<Rightarrow>
            let s1 = bs_call (UpsertConnection (tbc_ID tc)) (s\<lparr>bs_users := ut\<rparr>);
                c = \<lparr>conn_ID = tbc_ID tc, conn_OwnerUserID = user_ID u,
                     conn_OwnerTelegramUserID = tu_ID (tbc_User tc), conn_CanReply = tbc_CanReply tc,
                     conn_IsEnabled = tbc_IsEnabled tc\<rparr>
            in if \<not> re_upsert_ok env then (Inl [Msg ''upsert business_connections''], s1)
               else case upsert_bc \<lparr>bc_id = conn_ID c, bc_owner_user_id = conn_OwnerUserID c,
                       bc_can_reply = conn_CanReply c, bc_is_enabled = conn_IsEnabled c\<rparr> (bs_conns s1) of
                   None \<Rightarrow> (Inl [ErrConnectionOwnerConflict], s1)
                 | Some (_, rows) \<Rightarrow> (Inr (Some c), s1\<lparr>bs_conns := rows\<rparr>))"

text \<open>
  \<open>Resolve\<close> is cut where another goroutine can run between its two halves: \<open>resolve_begin\<close> is the cache
  lookup and, when it does not settle the resolution, the read of the database; \<open>resolve_finish\<close> acts on the
  row that read returned, which may be stale by then.
\<close>

datatype resolve_point = Settled "go_error + connection" | Read "go_error + connection"

definition resolve_begin ::
  "i64 list \<Rightarrow> resolve_env \<Rightarrow> string \<Rightarrow> business_state \<Rightarrow> resolve_point \<times> business_state" where
  "resolve_begin allowed env i s =
     (if i = [] then (Settled (Inl [Msg ''empty business_connection_id'']), s)
      else
        let (entry, cache) = cache_lookup (re_now_lookup env) i (bs_cache s);
            s1 = s\<lparr>bs_cache := cache\<rparr>;
            from_db = (Read (getFromDB (re_read_ok env) i s1), bs_call (ReadConnection i) s1)
        in case entry of
            None \<Rightarrow> from_db
          | Some e \<Rightarrow>
              (case ce_kind e of
                 EntryUnknown \<Rightarrow> (Settled (Inl [ErrConnectionUnknown]), s1)
               | EntryRefused \<Rightarrow>
                   if \<not> ownerAllowed allowed (ce_refusedOwner e) then (Settled (Inl [ErrOwnerNotAllowed]), s1)
                   else from_db
               | EntryResolved \<Rightarrow>
                   if \<not> ownerAllowed allowed (conn_OwnerTelegramUserID (ce_conn e))
                   then (Settled (Inl [ErrOwnerNotAllowed]), s1)
                   else (Settled (Inr (ce_conn e)), s1)))"

definition resolve_from_api ::
  "i64 list \<Rightarrow> resolve_env \<Rightarrow> string \<Rightarrow> business_state \<Rightarrow> (go_error + connection) \<times> business_state" where
  "resolve_from_api allowed env i s0 =
     (let s = bs_call (ApiGetBusinessConnection i) s0 in
      case re_api env of
        Inl err \<Rightarrow>
          if isUnknownConnection err
          then (Inl [ErrConnectionUnknown], bs_on_cache (cache_storeUnknown (re_now_store env) i) s)
          else (Inl (Msg ''getBusinessConnection'' # err), s)
      | Inr tc \<Rightarrow>
          if tbc_ID tc \<noteq> i then (Inl [Msg ''getBusinessConnection answered for another connection''], s)
          else case upsertFromTelegram allowed env tc s of
              (Inl err, s1) \<Rightarrow> (Inl err, s1)
            | (Inr None, s1) \<Rightarrow>
                (Inl [ErrOwnerNotAllowed],
                 bs_on_cache (cache_storeRefused (re_now_store env) i (tu_ID (tbc_User tc))) s1)
            | (Inr (Some c), s1) \<Rightarrow> (Inr c, bs_on_cache (cache_store (re_now_store env) c) s1))"

definition resolve_finish ::
  "i64 list \<Rightarrow> resolve_env \<Rightarrow> string \<Rightarrow> resolve_point \<Rightarrow> business_state \<Rightarrow> (go_error + connection) \<times> business_state" where
  "resolve_finish allowed env i p s =
     (case p of
        Settled r \<Rightarrow> (r, s)
      | Read (Inr conn) \<Rightarrow>
          if \<not> ownerAllowed allowed (conn_OwnerTelegramUserID conn)
          then (Inl [ErrOwnerNotAllowed],
                bs_on_cache (cache_storeRefused (re_now_store env) i (conn_OwnerTelegramUserID conn)) s)
          else (Inr conn, bs_on_cache (cache_storeDB (re_now_store env) conn) s)
      | Read (Inl err) \<Rightarrow>
          if \<not> errors_is err NoRows then (Inl (Msg ''reading business_connections'' # err), s)
          else resolve_from_api allowed env i s)"

definition Resolve ::
  "i64 list \<Rightarrow> resolve_env \<Rightarrow> string \<Rightarrow> business_state \<Rightarrow> (go_error + connection) \<times> business_state" where
  "Resolve allowed env i s = (let (p, s1) = resolve_begin allowed env i s in resolve_finish allowed env i p s1)"

text \<open>\<open>DisableOwner\<close>: the table first, then the cache, so that a failed statement leaves both agreeing.\<close>

definition bs_DisableOwner :: "bool \<Rightarrow> i64 \<Rightarrow> business_state \<Rightarrow> (go_error + int) \<times> business_state" where
  "bs_DisableOwner db_ok owner s =
     (if \<not> db_ok then (Inl [Msg ''disabling business connections''], s)
      else
        let P = (\<lambda>r. bc_owner_user_id r = owner \<and> bc_is_enabled r) in
        (Inr (int (length (filter P (bs_conns s)))),
         bs_on_cache (cache_disableOwner owner)
           (s\<lparr>bs_conns := update_where P (\<lambda>r. r\<lparr>bc_is_enabled := False\<rparr>) (bs_conns s)\<rparr>)))"

text \<open>\<open>BuildWelcomeMessageRequest\<close>'s target: the chat with the holder, or the holder's own id.\<close>

definition welcome_chat :: "i64 \<Rightarrow> i64 \<Rightarrow> i64" where
  "welcome_chat userChatID userID = (if userChatID = 0 then userID else userChatID)"

definition notifyWelcome :: "BusinessConnection \<Rightarrow> business_state \<Rightarrow> business_state" where
  "notifyWelcome tc s = bs_call (SendWelcome (welcome_chat (tbc_UserChatID tc) (tu_ID (tbc_User tc)))) s"

definition HandleBusinessConnection ::
  "i64 list \<Rightarrow> resolve_env \<Rightarrow> BusinessConnection \<Rightarrow> business_state \<Rightarrow> (go_error + unit) \<times> business_state" where
  "HandleBusinessConnection allowed env tc s =
     (case upsertFromTelegram allowed env tc s of
        (Inl err, s1) \<Rightarrow> (Inl err, s1)
      | (Inr None, s1) \<Rightarrow> (Inr (), s1)
      | (Inr (Some c), s1) \<Rightarrow>
          let s2 = bs_on_cache (cache_store (re_now_store env) c) s1
          in if \<not> conn_IsEnabled c then (Inr (), s2) else (Inr (), notifyWelcome tc s2))"

definition NewService :: "business_state" where
  "NewService = \<lparr>bs_cache = newConnectionCache connectionCacheTTL connectionCacheMaxEntries,
     bs_users = empty_users, bs_conns = [], bs_calls = []\<rparr>"


section \<open>Sequences of service calls\<close>

datatype business_op =
    OpResolve resolve_env string
  | OpHandle resolve_env BusinessConnection
  | OpDisable bool i64

fun business_step :: "i64 list \<Rightarrow> instant \<Rightarrow> business_op \<Rightarrow> business_state \<Rightarrow> (go_error + connection) option \<times> business_state" where
  "business_step allowed now (OpResolve env i) s = (let (r, s') = Resolve allowed env i s in (Some r, s'))"
| "business_step allowed now (OpHandle env tc) s = (None, snd (HandleBusinessConnection allowed env tc s))"
| "business_step allowed now (OpDisable ok owner) s = (None, snd (bs_DisableOwner ok owner s))"

text \<open>The state after a sequence of service calls.\<close>

definition business_after :: "i64 list \<Rightarrow> (instant \<times> business_op) list \<Rightarrow> business_state \<Rightarrow> business_state" where
  "business_after allowed ops s = snd (run_ops (business_step allowed) ops s)"

section \<open>What every entry of the cache says\<close>

fun op_entries :: "cache_op \<Rightarrow> cache_entry set" where
  "op_entries (Lookup i) = {}"
| "op_entries (Store conn) = {resolved_entry conn}"
| "op_entries (StoreDB conn) = {resolved_entry conn, resolved_entry (conn\<lparr>conn_IsEnabled := False\<rparr>)}"
| "op_entries (StoreUnknown i) = {blank_entry\<lparr>ce_id := i, ce_kind := EntryUnknown\<rparr>}"
| "op_entries (StoreRefused i owner) = {blank_entry\<lparr>ce_id := i, ce_kind := EntryRefused, ce_refusedOwner := owner\<rparr>}"
| "op_entries (DisableOwner owner) = {}"

text \<open>A property of entries that neither the expiry nor a disable can break holds of all entries after an
  operation if it held before and holds of what the operation puts in.\<close>

lemma cache_step_all:
  assumes "cache_inv c"
    and "\<And>e t. P e \<Longrightarrow> P (e\<lparr>ce_expiresAt := t\<rparr>)" and "\<And>e owner. P e \<Longrightarrow> P (disable_entry owner e)"
    and "\<forall>e \<in> set (entries c). P e" and "\<forall>e \<in> op_entries op. P e"
  shows "(\<forall>e \<in> set (entries (snd (cache_step now op c))). P e) \<and>
    (\<forall>e. fst (cache_step now op c) = Some e \<longrightarrow> P e)"
proof -
  have sim: "lru_step (cc_ttl c) (cc_max c) now op (entries c, disabledOwners c)
      = (fst (cache_step now op c), entries (snd (cache_step now op c)), disabledOwners (snd (cache_step now op c)))"
    using cache_step_sim [OF assms(1), of now op] by (simp add: cache_abs_def)
  have "(\<forall>e \<in> set (fst (snd (lru_step (cc_ttl c) (cc_max c) now op (entries c, disabledOwners c)))). P e) \<and>
      (\<forall>e. fst (lru_step (cc_ttl c) (cc_max c) now op (entries c, disabledOwners c)) = Some e \<longrightarrow> P e)"
    using assms(2-) by (cases op) (auto split: prod.splits if_splits dest!: lru_put_subset dest: lru_lookup_mem lru_lookup_subset)
  then show ?thesis by (simp add: sim)
qed

lemma cache_ops_as_steps:
  "cache_lookup now i c = cache_step now (Lookup i) c"
  "cache_store now conn c = snd (cache_step now (Store conn) c)"
  "cache_storeDB now conn c = snd (cache_step now (StoreDB conn) c)"
  "cache_storeUnknown now i c = snd (cache_step now (StoreUnknown i) c)"
  "cache_storeRefused now i tg c = snd (cache_step now (StoreRefused i tg) c)"
  "cache_disableOwner owner c = snd (cache_step 0 (DisableOwner owner) c)"
  by simp_all

text \<open>\<open>owned\<close>: the connection row of this id belongs to this tenant, and this tenant is this holder.\<close>

definition owned :: "business_state \<Rightarrow> string \<Rightarrow> i64 \<Rightarrow> i64 \<Rightarrow> bool" where
  "owned s i owner tg \<longleftrightarrow>
     (\<exists>r \<in> set (bs_conns s). bc_id r = i \<and> bc_owner_user_id r = owner) \<and>
     (\<exists>u \<in> set (ut_rows (bs_users s)). user_ID u = owner \<and> user_TelegramUserID u = tg)"

definition entry_owned :: "business_state \<Rightarrow> cache_entry \<Rightarrow> bool" where
  "entry_owned s e \<longleftrightarrow> (ce_kind e = EntryResolved \<longrightarrow>
     ce_id e = conn_ID (ce_conn e) \<and>
     owned s (conn_ID (ce_conn e)) (conn_OwnerUserID (ce_conn e)) (conn_OwnerTelegramUserID (ce_conn e)))"

definition bs_inv :: "business_state \<Rightarrow> bool" where
  "bs_inv s \<longleftrightarrow> cache_inv (bs_cache s) \<and> users_inv (bs_users s) \<and> distinct (map bc_id (bs_conns s)) \<and>
     (\<forall>e \<in> set (entries (bs_cache s)). entry_owned s e)"

text \<open>\<open>grows s s'\<close>: no connection changed hands and no holder changed tenant.\<close>

definition grows :: "business_state \<Rightarrow> business_state \<Rightarrow> bool" where
  "grows s s' \<longleftrightarrow> (\<forall>i owner tg. owned s i owner tg \<longrightarrow> owned s' i owner tg) \<and>
     set (ut_rows (bs_users s)) \<subseteq> set (ut_rows (bs_users s'))"

lemma grows_refl [simp]: "grows s s"
  by (simp add: grows_def)

lemma grows_trans: "grows s s1 \<Longrightarrow> grows s1 s2 \<Longrightarrow> grows s s2"
  by (auto simp: grows_def)

lemma owned_tables [simp]:
  "owned (s\<lparr>bs_cache := c\<rparr>) = owned s" "owned (s\<lparr>bs_calls := xs\<rparr>) = owned s"
  by (simp_all add: owned_def fun_eq_iff)

lemma owned_unique:
  "bs_inv s \<Longrightarrow> owned s i owner tg \<Longrightarrow> owned s i owner' tg' \<Longrightarrow> owner' = owner \<and> tg' = tg"
  unfolding bs_inv_def users_inv_def owned_def by (metis distinct_map_inj_on)

lemma bs_call_fields [simp]:
  "bs_cache (bs_call x s) = bs_cache s" "bs_users (bs_call x s) = bs_users s" "bs_conns (bs_call x s) = bs_conns s"
  "bs_calls (bs_call x s) = bs_calls s @ [x]"
  by (simp_all add: bs_call_def)

lemma bs_on_cache_fields [simp]:
  "bs_cache (bs_on_cache f s) = f (bs_cache s)" "bs_users (bs_on_cache f s) = bs_users s"
  "bs_conns (bs_on_cache f s) = bs_conns s" "bs_calls (bs_on_cache f s) = bs_calls s"
  by (simp_all add: bs_on_cache_def)

lemma bs_inv_call [simp]: "bs_inv (bs_call x s) = bs_inv s"
  by (simp add: bs_inv_def bs_call_def entry_owned_def)

lemma grows_same_tables [simp]:
  "grows s (bs_call x s')  = grows s s'" "grows s (bs_on_cache f s') = grows s s'"
  by (simp_all add: grows_def bs_call_def bs_on_cache_def)

lemma entry_owned_closed:
  "entry_owned s e \<Longrightarrow> entry_owned s (e\<lparr>ce_expiresAt := t\<rparr>)"
  "entry_owned s e \<Longrightarrow> entry_owned s (disable_entry owner e)"
  by (auto simp: entry_owned_def disable_entry_def)

lemma entry_owned_resolved [simp]:
  "entry_owned s (resolved_entry conn) = owned s (conn_ID conn) (conn_OwnerUserID conn) (conn_OwnerTelegramUserID conn)"
  "entry_owned s (blank_entry\<lparr>ce_id := i, ce_kind := EntryUnknown\<rparr>)"
  "entry_owned s (blank_entry\<lparr>ce_id := i, ce_kind := EntryRefused, ce_refusedOwner := tg\<rparr>)"
  by (simp_all add: entry_owned_def resolved_entry_def blank_entry_def)

text \<open>Any cache operation whose new entries are owned keeps the invariant.\<close>

lemma bs_inv_cache_step:
  assumes "bs_inv s" "\<forall>e \<in> op_entries op. entry_owned s e"
  shows "bs_inv (s\<lparr>bs_cache := snd (cache_step now op (bs_cache s))\<rparr>) \<and>
    (\<forall>e. fst (cache_step now op (bs_cache s)) = Some e \<longrightarrow> entry_owned s e)"
proof -
  have inv: "cache_inv (bs_cache s)" "\<forall>e \<in> set (entries (bs_cache s)). entry_owned s e"
    using assms(1) by (simp_all add: bs_inv_def)
  have "entry_owned (s\<lparr>bs_cache := c\<rparr>) = entry_owned s" for c by (simp add: entry_owned_def fun_eq_iff)
  then show ?thesis
    using assms(1) cache_step_sim [OF inv(1), of now op]
      cache_step_all [where P = "entry_owned s", OF inv(1) entry_owned_closed inv(2) assms(2), of now]
    by (simp add: bs_inv_def)
qed

lemma bs_inv_on_cache:
  "bs_inv s \<Longrightarrow> \<forall>e \<in> op_entries op. entry_owned s e \<Longrightarrow> bs_inv (bs_on_cache (\<lambda>c. snd (cache_step now op c)) s)"
  using bs_inv_cache_step [of s op now] by (simp add: bs_on_cache_def)

lemma owned_effects [simp]: "owned (bs_call x s) = owned s" "owned (bs_on_cache f s) = owned s"
  by (simp_all add: bs_call_def bs_on_cache_def)

lemma bs_inv_stores [inv_intros]:
  "bs_inv s \<Longrightarrow> bs_inv (bs_on_cache (cache_storeUnknown now i) s)"
  "bs_inv s \<Longrightarrow> bs_inv (bs_on_cache (cache_storeRefused now i tg) s)"
  "bs_inv s \<Longrightarrow> bs_inv (bs_on_cache (cache_disableOwner owner) s)"
  "bs_inv s \<Longrightarrow> owned s (conn_ID conn) (conn_OwnerUserID conn) (conn_OwnerTelegramUserID conn) \<Longrightarrow>
    bs_inv (bs_on_cache (cache_store now conn) s)"
  "bs_inv s \<Longrightarrow> owned s (conn_ID conn) (conn_OwnerUserID conn) (conn_OwnerTelegramUserID conn) \<Longrightarrow>
    bs_inv (bs_on_cache (cache_storeDB now conn) s)"
  using bs_inv_on_cache [of s "StoreUnknown i" now] bs_inv_on_cache [of s "StoreRefused i tg" now]
    bs_inv_on_cache [of s "DisableOwner owner" now] bs_inv_on_cache [of s "Store conn" now]
    bs_inv_on_cache [of s "StoreDB conn" now]
  by simp_all


section \<open>Every call keeps the invariant and the ownership\<close>

lemma getFromDB_owned:
  "getFromDB ok i s = Inr conn \<Longrightarrow> conn_ID conn = i \<and> owned s i (conn_OwnerUserID conn) (conn_OwnerTelegramUserID conn)"
  by (auto simp: getFromDB_def owned_def split: if_splits option.splits dest!: find_Some_iff_mem)

lemma upsert_bc_facts:
  assumes "upsert_bc new rows = Some (owner, rows')" "distinct (map bc_id rows)"
  shows "distinct (map bc_id rows') \<and>
    (\<exists>r \<in> set rows'. bc_id r = bc_id new \<and> bc_owner_user_id r = bc_owner_user_id new) \<and>
    (\<forall>r \<in> set rows. \<exists>r' \<in> set rows'. bc_id r' = bc_id r \<and> bc_owner_user_id r' = bc_owner_user_id r)"
proof (cases "find (\<lambda>r. bc_id r = bc_id new) rows")
  case None
  then have "bc_id new \<notin> bc_id ` set rows" by (metis (mono_tags, lifting) find_None_iff_all image_iff)
  then show ?thesis using None assms by (auto simp: upsert_bc_def)
next
  case (Some r)
  let ?f = "\<lambda>r. r\<lparr>bc_can_reply := bc_can_reply new, bc_is_enabled := bc_is_enabled new\<rparr>"
  have rows': "rows' = update_where (\<lambda>r. bc_id r = bc_id new) ?f rows"
    and owner: "bc_owner_user_id r = bc_owner_user_id new"
    using assms(1) Some by (auto simp: upsert_bc_def split: if_splits)
  have r: "r \<in> set rows" "bc_id r = bc_id new" using find_Some_iff_mem [OF Some] by auto
  have "map bc_id rows' = map bc_id rows" unfolding rows' by (rule map_update_where) simp
  then show ?thesis
    using assms(2) owner r unfolding rows' set_update_where Bex_def by fastforce
qed

lemma upsertFromTelegram_inv:
  assumes "bs_inv s" "upsertFromTelegram allowed env tc s = (r, s')"
  shows "bs_inv s' \<and> grows s s' \<and> bs_cache s' = bs_cache s \<and>
    (\<forall>c. r = Inr (Some c) \<longrightarrow> conn_ID c = tbc_ID tc \<and> conn_OwnerTelegramUserID c = tu_ID (tbc_User tc) \<and>
       conn_IsEnabled c = tbc_IsEnabled tc \<and> ownerAllowed allowed (conn_OwnerTelegramUserID c) \<and>
       owned s' (conn_ID c) (conn_OwnerUserID c) (conn_OwnerTelegramUserID c))"
proof (cases "tbc_ID tc = [] \<or> tu_ID (tbc_User tc) = 0 \<or> \<not> ownerAllowed allowed (tu_ID (tbc_User tc))")
  case True
  then show ?thesis using assms by (auto simp: upsertFromTelegram_def split: if_splits)
next
  case False
  obtain ru ut where up: "UpsertByTelegramID (re_users_ok env) (tu_ID (tbc_User tc)) (bs_users s) = (ru, ut)"
    by (cases "UpsertByTelegramID (re_users_ok env) (tu_ID (tbc_User tc)) (bs_users s)")
  have inv: "users_inv (bs_users s)" "distinct (map bc_id (bs_conns s))"
    using assms(1) by (simp_all add: bs_inv_def)
  have ut: "users_inv ut" "set (ut_rows (bs_users s)) \<subseteq> set (ut_rows ut)"
    using users_inv_upsert [OF inv(1), of "re_users_ok env" "tu_ID (tbc_User tc)"]
      upsert_rows [of "bs_users s" "re_users_ok env" "tu_ID (tbc_User tc)"] up by simp_all
  let ?s1 = "s\<lparr>bs_users := ut\<rparr>"
  have own1: "owned s i owner tg \<Longrightarrow> owned ?s1 i owner tg" for i owner tg
    using ut(2) by (auto simp: owned_def)
  then have s1: "bs_inv ?s1" "grows s ?s1"
    using assms(1) ut by (auto simp: bs_inv_def grows_def entry_owned_def)
  show ?thesis
  proof (cases ru)
    case (Inl err)
    then show ?thesis using assms(2) False up s1 by (auto simp: upsertFromTelegram_def)
  next
    case (Inr u)
    have u: "u \<in> set (ut_rows ut)" "user_TelegramUserID u = tu_ID (tbc_User tc)"
      using upsert_same_owner [OF inv(1), of "tu_ID (tbc_User tc)" u ut] up Inr
      by (auto simp: UpsertByTelegramID_def split: if_splits)
    let ?new = "\<lparr>bc_id = tbc_ID tc, bc_owner_user_id = user_ID u, bc_can_reply = tbc_CanReply tc,
        bc_is_enabled = tbc_IsEnabled tc\<rparr>"
    show ?thesis
    proof (cases "re_upsert_ok env \<and> upsert_bc ?new (bs_conns s) \<noteq> None")
      case False2: False
      then show ?thesis
        using assms(2) False up s1 Inr by (auto simp: upsertFromTelegram_def Let_def split: if_splits option.splits)
    next
      case True
      then obtain o2 rows where rows: "upsert_bc ?new (bs_conns s) = Some (o2, rows)" by auto
      have facts: "distinct (map bc_id rows)" "\<exists>r \<in> set rows. bc_id r = tbc_ID tc \<and> bc_owner_user_id r = user_ID u"
        "\<forall>r \<in> set (bs_conns s). \<exists>r' \<in> set rows. bc_id r' = bc_id r \<and> bc_owner_user_id r' = bc_owner_user_id r"
        using upsert_bc_facts [OF rows inv(2)] by simp_all
      have s': "s' = bs_call (UpsertConnection (tbc_ID tc)) (?s1\<lparr>bs_conns := rows\<rparr>)"
        using assms(2) False up Inr True rows by (auto simp: upsertFromTelegram_def Let_def bs_call_def)
      have own2: "owned ?s1 i owner tg \<Longrightarrow> owned (?s1\<lparr>bs_conns := rows\<rparr>) i owner tg" for i owner tg
        using facts(3) by (fastforce simp: owned_def)
      have "bs_inv (?s1\<lparr>bs_conns := rows\<rparr>)" "grows s (?s1\<lparr>bs_conns := rows\<rparr>)"
        using s1 facts(1) own2 by (auto simp: bs_inv_def grows_def entry_owned_def)
      moreover have "owned (?s1\<lparr>bs_conns := rows\<rparr>) (tbc_ID tc) (user_ID u) (tu_ID (tbc_User tc))"
        using facts(2) u by (auto simp: owned_def)
      ultimately show ?thesis
        using assms(2) False up Inr True rows unfolding s'
        by (auto simp: upsertFromTelegram_def Let_def)
    qed
  qed
qed

lemma resolve_begin_inv:
  assumes "bs_inv s" "resolve_begin allowed env i s = (p, s')"
  shows "bs_inv s' \<and> grows s s' \<and>
    (\<forall>conn. p = Read (Inr conn) \<longrightarrow> conn_ID conn = i \<and> owned s' i (conn_OwnerUserID conn) (conn_OwnerTelegramUserID conn)) \<and>
    (\<forall>conn. p = Settled (Inr conn) \<longrightarrow> ownerAllowed allowed (conn_OwnerTelegramUserID conn) \<and>
       conn_ID conn = i \<and> owned s' i (conn_OwnerUserID conn) (conn_OwnerTelegramUserID conn))"
proof (cases "i = []")
  case True
  then show ?thesis using assms by (auto simp: resolve_begin_def)
next
  case False
  obtain entry cache where look: "cache_lookup (re_now_lookup env) i (bs_cache s) = (entry, cache)"
    by (cases "cache_lookup (re_now_lookup env) i (bs_cache s)")
  let ?s1 = "s\<lparr>bs_cache := cache\<rparr>"
  have inv: "bs_inv ?s1" "\<forall>e. entry = Some e \<longrightarrow> entry_owned s e"
    using bs_inv_cache_step [OF assms(1), of "Lookup i" "re_now_lookup env"] look by simp_all
  have id: "\<forall>e. entry = Some e \<longrightarrow> ce_id e = i"
    using lookup_sim [of "bs_cache s" "re_now_lookup env" i] assms(1) look
    by (auto simp: bs_inv_def lru_lookup_def split: option.splits if_splits dest!: find_Some_iff_mem)
  have grow: "grows s ?s1" by (simp add: grows_def)
  have from_db: "bs_inv (bs_call (ReadConnection i) ?s1) \<and> grows s (bs_call (ReadConnection i) ?s1) \<and>
      (\<forall>conn. getFromDB (re_read_ok env) i ?s1 = Inr conn \<longrightarrow> conn_ID conn = i \<and>
        owned (bs_call (ReadConnection i) ?s1) i (conn_OwnerUserID conn) (conn_OwnerTelegramUserID conn))"
    using inv(1) grow getFromDB_owned [of "re_read_ok env" i ?s1] by auto
  show ?thesis
  proof (cases entry)
    case None
    then show ?thesis using assms(2) False look from_db by (auto simp: resolve_begin_def Let_def)
  next
    case (Some e)
    have "ce_kind e = EntryResolved \<Longrightarrow> conn_ID (ce_conn e) = i \<and>
        owned ?s1 i (conn_OwnerUserID (ce_conn e)) (conn_OwnerTelegramUserID (ce_conn e))"
      using inv(2) id Some by (auto simp: entry_owned_def)
    then show ?thesis
      using assms(2) False look from_db inv(1) grow Some
      by (cases "ce_kind e") (auto simp: resolve_begin_def Let_def split: if_splits)
  qed
qed

lemma resolve_from_api_inv:
  assumes "bs_inv s" "resolve_from_api allowed env i s = (r, s')"
  shows "bs_inv s' \<and> grows s s' \<and>
    (\<forall>conn. r = Inr conn \<longrightarrow> ownerAllowed allowed (conn_OwnerTelegramUserID conn) \<and> conn_ID conn = i \<and>
       owned s' i (conn_OwnerUserID conn) (conn_OwnerTelegramUserID conn))"
proof (cases "re_api env")
  case (Inl err)
  then show ?thesis
    using assms by (auto simp: resolve_from_api_def Let_def intro: inv_intros split: if_splits)
next
  case (Inr tc)
  let ?s = "bs_call (ApiGetBusinessConnection i) s"
  obtain ru s1 where up: "upsertFromTelegram allowed env tc ?s = (ru, s1)"
    by (cases "upsertFromTelegram allowed env tc ?s")
  have u: "bs_inv s1 \<and> grows s s1 \<and>
    (\<forall>c. ru = Inr (Some c) \<longrightarrow> conn_ID c = tbc_ID tc \<and> ownerAllowed allowed (conn_OwnerTelegramUserID c) \<and>
       owned s1 (conn_ID c) (conn_OwnerUserID c) (conn_OwnerTelegramUserID c))"
    using upsertFromTelegram_inv [OF _ up] assms(1) by (auto simp: grows_def)
  show ?thesis
  proof (cases "tbc_ID tc = i")
    case False
    then show ?thesis using assms Inr by (auto simp: resolve_from_api_def Let_def)
  next
    case True
    show ?thesis
      using assms(2) Inr True up u
      by (auto simp: resolve_from_api_def Let_def intro!: inv_intros split: sum.splits option.splits)
  qed
qed

lemma resolve_finish_inv:
  assumes "bs_inv s" "resolve_finish allowed env i p s = (r, s')"
    and "\<forall>conn. p = Read (Inr conn) \<longrightarrow> conn_ID conn = i \<and> owned s i (conn_OwnerUserID conn) (conn_OwnerTelegramUserID conn)"
    and "\<forall>conn. p = Settled (Inr conn) \<longrightarrow> ownerAllowed allowed (conn_OwnerTelegramUserID conn) \<and>
       conn_ID conn = i \<and> owned s i (conn_OwnerUserID conn) (conn_OwnerTelegramUserID conn)"
  shows "bs_inv s' \<and> grows s s' \<and>
    (\<forall>conn. r = Inr conn \<longrightarrow> ownerAllowed allowed (conn_OwnerTelegramUserID conn) \<and> conn_ID conn = i \<and>
       owned s' i (conn_OwnerUserID conn) (conn_OwnerTelegramUserID conn))"
proof (cases p)
  case (Settled r0)
  then show ?thesis using assms by (auto simp: resolve_finish_def)
next
  case (Read r0)
  show ?thesis
  proof (cases r0)
    case (Inl err)
    then show ?thesis
      using assms(1,2) Read resolve_from_api_inv [OF assms(1), of allowed env i r s']
      by (auto simp: resolve_finish_def split: if_splits)
  next
    case (Inr conn)
    then show ?thesis
      using assms Read by (auto simp: resolve_finish_def intro!: inv_intros split: if_splits)
  qed
qed


lemma Resolve_inv:
  assumes "bs_inv s" "Resolve allowed env i s = (r, s')"
  shows "bs_inv s' \<and> grows s s' \<and>
    (\<forall>conn. r = Inr conn \<longrightarrow> ownerAllowed allowed (conn_OwnerTelegramUserID conn) \<and> conn_ID conn = i \<and>
       owned s' i (conn_OwnerUserID conn) (conn_OwnerTelegramUserID conn))"
proof -
  obtain p s1 where b: "resolve_begin allowed env i s = (p, s1)" by (cases "resolve_begin allowed env i s")
  have f: "resolve_finish allowed env i p s1 = (r, s')" using assms(2) b by (simp add: Resolve_def)
  note B = resolve_begin_inv [OF assms(1) b]
  then have "bs_inv s'" "grows s1 s'"
    "\<forall>conn. r = Inr conn \<longrightarrow> ownerAllowed allowed (conn_OwnerTelegramUserID conn) \<and> conn_ID conn = i \<and>
       owned s' i (conn_OwnerUserID conn) (conn_OwnerTelegramUserID conn)"
    using resolve_finish_inv [OF _ f] by blast+
  then show ?thesis using B grows_trans by blast
qed

lemma HandleBusinessConnection_inv:
  assumes "bs_inv s" "HandleBusinessConnection allowed env tc s = (r, s')"
  shows "bs_inv s' \<and> grows s s'"
proof -
  obtain ru s1 where up: "upsertFromTelegram allowed env tc s = (ru, s1)"
    by (cases "upsertFromTelegram allowed env tc s")
  show ?thesis
    using assms(2) up upsertFromTelegram_inv [OF assms(1) up]
    by (auto simp: HandleBusinessConnection_def Let_def notifyWelcome_def intro!: inv_intros
        split: sum.splits option.splits if_splits)
qed

lemma bs_DisableOwner_inv:
  assumes "bs_inv s" "bs_DisableOwner ok owner s = (r, s')"
  shows "bs_inv s' \<and> grows s s'"
proof (cases ok)
  case False
  then show ?thesis using assms by (simp add: bs_DisableOwner_def)
next
  case True
  let ?rows = "update_where (\<lambda>r. bc_owner_user_id r = owner \<and> bc_is_enabled r) (\<lambda>r. r\<lparr>bc_is_enabled := False\<rparr>) (bs_conns s)"
  let ?s1 = "s\<lparr>bs_conns := ?rows\<rparr>"
  have mem: "(\<exists>r \<in> set rows. bc_id r = i \<and> bc_owner_user_id r = o1)
      \<longleftrightarrow> (i, o1) \<in> set (map (\<lambda>r. (bc_id r, bc_owner_user_id r)) rows)" for rows i o1
    by force
  have "map (\<lambda>r. (bc_id r, bc_owner_user_id r)) ?rows = map (\<lambda>r. (bc_id r, bc_owner_user_id r)) (bs_conns s)"
    by (rule map_update_where) simp
  then have own: "owned ?s1 = owned s"
    unfolding owned_def mem by (simp add: fun_eq_iff)
  have "map bc_id ?rows = map bc_id (bs_conns s)" by (rule map_update_where) simp
  then have "bs_inv ?s1" "grows s ?s1"
    using assms(1) own by (auto simp: bs_inv_def entry_owned_def grows_def)
  moreover have "s' = bs_on_cache (cache_disableOwner owner) ?s1"
    using assms(2) True by (auto simp: bs_DisableOwner_def Let_def)
  ultimately show ?thesis by (auto intro: inv_intros)
qed

lemma business_step_inv:
  assumes "bs_inv s"
  shows "bs_inv (snd (business_step allowed now op s)) \<and> grows s (snd (business_step allowed now op s))"
proof (cases op)
  case (OpResolve env i)
  then show ?thesis
    using Resolve_inv [OF assms, of allowed env i] by (cases "Resolve allowed env i s") simp
next
  case (OpHandle env tc)
  then show ?thesis using HandleBusinessConnection_inv [OF assms prod.collapse [symmetric]] by simp
next
  case (OpDisable ok owner)
  then show ?thesis using bs_DisableOwner_inv [OF assms prod.collapse [symmetric]] by simp
qed

lemma business_run_inv:
  assumes "bs_inv s"
  shows "bs_inv (snd (run_ops (business_step allowed) ops s)) \<and>
    grows s (snd (run_ops (business_step allowed) ops s))"
proof (rule run_ops_invariant [where I = "\<lambda>s'. bs_inv s' \<and> grows s s'"])
  fix now op s' assume "bs_inv s' \<and> grows s s'"
  then show "bs_inv (snd (business_step allowed now op s')) \<and> grows s (snd (business_step allowed now op s'))"
    using business_step_inv [of s' allowed now op] grows_trans by blast
qed (use assms in simp)

lemma bs_inv_NewService [simp]: "bs_inv NewService"
  by (simp add: bs_inv_def NewService_def connectionCacheMaxEntries_def entries_def newConnectionCache_def
      cache_inv_def cache_links_def)


section \<open>A tenant whose capture is off\<close>

text \<open>
  \<open>tenant_off\<close>: the cache serves no connection of the owner as enabled and the table has none enabled. It
  is what \<open>DisableOwner\<close> establishes, and every call keeps it until Telegram announces one of the holder's
  connections enabled (\<open>announces\<close>), the half-finished calls that read the table before included.
\<close>

definition tenant_off :: "i64 \<Rightarrow> business_state \<Rightarrow> bool" where
  "tenant_off owner s \<longleftrightarrow> owner_off owner (bs_cache s) \<and>
     (\<forall>r \<in> set (bs_conns s). bc_owner_user_id r = owner \<longrightarrow> \<not> bc_is_enabled r)"

definition holder :: "business_state \<Rightarrow> i64 \<Rightarrow> i64 \<Rightarrow> bool" where
  "holder s owner tg \<longleftrightarrow> (\<exists>u \<in> set (ut_rows (bs_users s)). user_ID u = owner \<and> user_TelegramUserID u = tg)"

definition announces :: "i64 \<Rightarrow> BusinessConnection \<Rightarrow> bool" where
  "announces tg tc \<longleftrightarrow> tbc_IsEnabled tc \<and> tu_ID (tbc_User tc) = tg"

definition api_announces :: "i64 \<Rightarrow> resolve_env \<Rightarrow> bool" where
  "api_announces tg env = (case re_api env of Inr tc \<Rightarrow> announces tg tc | Inl _ \<Rightarrow> False)"

fun reconnecting :: "i64 \<Rightarrow> business_op \<Rightarrow> bool" where
  "reconnecting tg (OpResolve env i) = api_announces tg env"
| "reconnecting tg (OpHandle env tc) = announces tg tc"
| "reconnecting tg (OpDisable ok owner) = False"

lemma holder_grows: "grows s s' \<Longrightarrow> holder s owner tg \<Longrightarrow> holder s' owner tg"
  by (auto simp: grows_def holder_def)

lemma holder_effects [simp]:
  "holder (bs_call x s) = holder s" "holder (bs_on_cache f s) = holder s" "holder (s\<lparr>bs_cache := c\<rparr>) = holder s"
  by (simp_all add: holder_def fun_eq_iff bs_call_def bs_on_cache_def)

lemma owned_holder: "bs_inv s \<Longrightarrow> holder s owner tg \<Longrightarrow> owned s i owner tg' \<Longrightarrow> tg' = tg"
  unfolding bs_inv_def users_inv_def owned_def holder_def by (metis distinct_map_inj_on)

lemma tenant_off_call [simp]: "tenant_off owner (bs_call x s) = tenant_off owner s"
  by (simp add: tenant_off_def)

lemma tenant_off_on_cache:
  "bs_inv s \<Longrightarrow> tenant_off owner s \<Longrightarrow> \<not> reconnects owner op \<Longrightarrow>
    tenant_off owner (s\<lparr>bs_cache := snd (cache_step now op (bs_cache s))\<rparr>)"
  using conn_cache.off_step [of "bs_cache s" owner op now] by (auto simp: tenant_off_def bs_inv_def)

lemma tenant_off_stores:
  assumes "bs_inv s" "tenant_off owner s"
  shows "tenant_off owner (bs_on_cache (cache_storeUnknown now i) s)"
    "tenant_off owner (bs_on_cache (cache_storeRefused now i tg) s)"
    "tenant_off owner (bs_on_cache (cache_storeDB now conn) s)"
    "\<not> (conn_OwnerUserID conn = owner \<and> conn_IsEnabled conn) \<Longrightarrow> tenant_off owner (bs_on_cache (cache_store now conn) s)"
  using tenant_off_on_cache [OF assms, of "StoreUnknown i" now] tenant_off_on_cache [OF assms, of "StoreRefused i tg" now]
    tenant_off_on_cache [OF assms, of "StoreDB conn" now] tenant_off_on_cache [OF assms, of "Store conn" now]
  by (auto simp: reconnects_def bs_on_cache_def)

lemma upsert_bc_enabled:
  assumes "upsert_bc new rows = Some (o2, rows')" "distinct (map bc_id rows)"
    and "\<forall>r \<in> set rows. bc_owner_user_id r = owner \<longrightarrow> \<not> bc_is_enabled r"
    and "\<not> (bc_owner_user_id new = owner \<and> bc_is_enabled new)"
  shows "\<forall>r \<in> set rows'. bc_owner_user_id r = owner \<longrightarrow> \<not> bc_is_enabled r"
proof (cases "find (\<lambda>r. bc_id r = bc_id new) rows")
  case None
  then show ?thesis using assms by (auto simp: upsert_bc_def)
next
  case (Some r)
  let ?f = "\<lambda>r. r\<lparr>bc_can_reply := bc_can_reply new, bc_is_enabled := bc_is_enabled new\<rparr>"
  have rows': "rows' = update_where (\<lambda>r. bc_id r = bc_id new) ?f rows"
    and own: "bc_owner_user_id r = bc_owner_user_id new"
    using assms(1) Some by (auto simp: upsert_bc_def split: if_splits)
  have "x = r" if "x \<in> set rows" "bc_id x = bc_id new" for x
    using that find_Some_iff_mem [OF Some] distinct_map_inj_on [OF assms(2)] by metis
  then show ?thesis using assms(3,4) own unfolding rows' by (auto simp: set_update_where split: if_splits)
qed

lemma upsertFromTelegram_off:
  assumes "bs_inv s" "tenant_off owner s" "holder s owner tg" "\<not> announces tg tc"
    and "upsertFromTelegram allowed env tc s = (r, s')"
  shows "tenant_off owner s' \<and> (\<forall>c. r = Inr (Some c) \<longrightarrow> \<not> (conn_OwnerUserID c = owner \<and> conn_IsEnabled c))"
proof -
  note up = upsertFromTelegram_inv [OF assms(1,5)]
  have c: "\<not> (conn_OwnerUserID c = owner \<and> conn_IsEnabled c)" if "r = Inr (Some c)" for c
  proof
    assume off: "conn_OwnerUserID c = owner \<and> conn_IsEnabled c"
    have "holder s' owner tg" using holder_grows up assms(3) by blast
    then have "conn_OwnerTelegramUserID c = tg"
      using owned_holder [of s' owner tg "conn_ID c" "conn_OwnerTelegramUserID c"] up that off by auto
    then show False using up that off assms(4) by (auto simp: announces_def)
  qed
  have "\<forall>x \<in> set (bs_conns s'). bc_owner_user_id x = owner \<longrightarrow> \<not> bc_is_enabled x"
  proof (cases "r = Inr None \<or> (\<exists>err. r = Inl err)")
    case True
    then have "bs_conns s' = bs_conns s"
      using assms(5) by (auto simp: upsertFromTelegram_def Let_def split: if_splits sum.splits prod.splits option.splits)
    then show ?thesis using assms(2) by (simp add: tenant_off_def)
  next
    case False
    then obtain k where k: "r = Inr (Some k)" by (metis not_None_eq obj_sumE)
    have rows: "\<exists>o2. upsert_bc \<lparr>bc_id = conn_ID k, bc_owner_user_id = conn_OwnerUserID k,
        bc_can_reply = conn_CanReply k, bc_is_enabled = conn_IsEnabled k\<rparr> (bs_conns s) = Some (o2, bs_conns s')"
      using assms(5) k by (auto simp: upsertFromTelegram_def Let_def split: if_splits sum.splits prod.splits option.splits)
    have "distinct (map bc_id (bs_conns s))" using assms(1) by (simp add: bs_inv_def)
    then show ?thesis
      using rows c [OF k] assms(2) upsert_bc_enabled by (fastforce simp: tenant_off_def)
  qed
  then show ?thesis using c up assms(2) by (auto simp: tenant_off_def)
qed

lemma resolve_finish_off:
  assumes "bs_inv s" "tenant_off owner s" "holder s owner tg" "\<not> api_announces tg env"
    and "resolve_finish allowed env i p s = (r, s')"
  shows "tenant_off owner s' \<and>
    ((\<forall>conn. p \<noteq> Read (Inr conn) \<and> p \<noteq> Settled (Inr conn)) \<longrightarrow>
       (\<forall>conn. r = Inr conn \<longrightarrow> \<not> (conn_OwnerUserID conn = owner \<and> conn_IsEnabled conn)))"
proof (cases "\<exists>err. p = Read (Inl err) \<and> errors_is err NoRows")
  case False
  then show ?thesis
    using assms tenant_off_stores [OF assms(1,2)]
    by (auto simp: resolve_finish_def split: resolve_point.splits sum.splits if_splits)
next
  case True
  then have api: "resolve_from_api allowed env i s = (r, s')" using assms(5) by (auto simp: resolve_finish_def)
  let ?s = "bs_call (ApiGetBusinessConnection i) s"
  show ?thesis
  proof (cases "re_api env")
    case (Inl err)
    then show ?thesis
      using api assms tenant_off_stores [of ?s owner]
      by (auto simp: resolve_from_api_def Let_def split: if_splits)
  next
    case (Inr tc)
    obtain ru s1 where up: "upsertFromTelegram allowed env tc ?s = (ru, s1)"
      by (cases "upsertFromTelegram allowed env tc ?s")
    have "\<not> announces tg tc" using assms(4) Inr by (simp add: api_announces_def)
    then have "tenant_off owner s1" "bs_inv s1"
      "\<forall>c. ru = Inr (Some c) \<longrightarrow> \<not> (conn_OwnerUserID c = owner \<and> conn_IsEnabled c)"
      using upsertFromTelegram_off [OF _ _ _ _ up, of owner tg] upsertFromTelegram_inv [OF _ up] assms by auto
    then show ?thesis
      using api Inr up tenant_off_stores [of s1 owner] assms(1,2)
      by (auto simp: resolve_from_api_def Let_def split: if_splits sum.splits option.splits)
  qed
qed

lemma getFromDB_off:
  "tenant_off owner s \<Longrightarrow> getFromDB ok i s = Inr conn \<Longrightarrow> \<not> (conn_OwnerUserID conn = owner \<and> conn_IsEnabled conn)"
  by (auto simp: getFromDB_def tenant_off_def split: if_splits option.splits dest!: find_Some_iff_mem)

lemma resolve_begin_off:
  assumes "bs_inv s" "tenant_off owner s" "resolve_begin allowed env i s = (p, s')"
  shows "tenant_off owner s' \<and>
    (\<forall>conn. p = Read (Inr conn) \<or> p = Settled (Inr conn) \<longrightarrow> \<not> (conn_OwnerUserID conn = owner \<and> conn_IsEnabled conn))"
proof (cases "i = []")
  case True
  then show ?thesis using assms by (auto simp: resolve_begin_def)
next
  case False
  obtain entry cache where look: "cache_lookup (re_now_lookup env) i (bs_cache s) = (entry, cache)"
    by (cases "cache_lookup (re_now_lookup env) i (bs_cache s)")
  let ?s1 = "s\<lparr>bs_cache := cache\<rparr>"
  have off: "tenant_off owner ?s1"
    using tenant_off_on_cache [OF assms(1,2), of "Lookup i" "re_now_lookup env"] look by (simp add: reconnects_def)
  have entry: "\<not> served_enabled owner e" if "entry = Some e" for e
    using conn_cache.off_serve [of "bs_cache s" owner "re_now_lookup env" "Lookup i" e] assms(1,2) look that
    by (simp add: bs_inv_def tenant_off_def)
  note db = getFromDB_off [OF off, of "re_read_ok env" i]
  show ?thesis
  proof (cases entry)
    case None
    then show ?thesis using assms(3) False look off db by (auto simp: resolve_begin_def Let_def)
  next
    case (Some e)
    then show ?thesis using assms(3) False look off db entry [OF Some]
      by (cases "ce_kind e") (auto simp: resolve_begin_def Let_def served_enabled_def split: if_splits)
  qed
qed

lemma Resolve_off:
  assumes "bs_inv s" "tenant_off owner s" "holder s owner tg" "\<not> api_announces tg env"
    and "Resolve allowed env i s = (r, s')"
  shows "tenant_off owner s' \<and> (\<forall>conn. r = Inr conn \<longrightarrow> \<not> (conn_OwnerUserID conn = owner \<and> conn_IsEnabled conn))"
proof -
  obtain p s1 where b: "resolve_begin allowed env i s = (p, s1)" by (cases "resolve_begin allowed env i s")
  have f: "resolve_finish allowed env i p s1 = (r, s')" using assms(5) b by (simp add: Resolve_def)
  note B = resolve_begin_off [OF assms(1,2) b] and I = resolve_begin_inv [OF assms(1) b]
  have h: "bs_inv s1" "tenant_off owner s1" "holder s1 owner tg" using B I assms(3) holder_grows by blast+
  note F = resolve_finish_off [OF h assms(4) f]
  show ?thesis
  proof (cases "\<exists>conn. p = Read (Inr conn) \<or> p = Settled (Inr conn)")
    case True
    then obtain conn where p: "p = Read (Inr conn) \<or> p = Settled (Inr conn)" by blast
    then have "\<not> (conn_OwnerUserID conn = owner \<and> conn_IsEnabled conn)" using B by blast
    moreover have "r = Inr conn \<or> (\<exists>err. r = Inl err)" using f p by (auto simp: resolve_finish_def split: if_splits)
    ultimately show ?thesis using F by auto
  next
    case False
    then show ?thesis using F by blast
  qed
qed

lemma business_step_off:
  assumes "bs_inv s" "tenant_off owner s" "holder s owner tg" "\<not> reconnecting tg op"
  shows "tenant_off owner (snd (business_step allowed now op s))"
proof (cases op)
  case (OpResolve env i)
  then show ?thesis
    using Resolve_off [OF assms(1-3), of env allowed i] assms(4) by (cases "Resolve allowed env i s") simp
next
  case (OpHandle env tc)
  obtain ru s1 where up: "upsertFromTelegram allowed env tc s = (ru, s1)"
    by (cases "upsertFromTelegram allowed env tc s")
  have "\<not> announces tg tc" using assms(4) OpHandle by simp
  note U = upsertFromTelegram_off [OF assms(1-3) this up] and I = upsertFromTelegram_inv [OF assms(1) up]
  have "ru = Inr (Some c) \<Longrightarrow> tenant_off owner (bs_on_cache (cache_store (re_now_store env) c) s1)" for c
    using U I tenant_off_stores(4) by blast
  then show ?thesis
    using OpHandle up U
    by (auto simp: HandleBusinessConnection_def Let_def notifyWelcome_def split: sum.splits option.splits)
next
  case (OpDisable ok o2)
  let ?P = "\<lambda>r. bc_owner_user_id r = o2 \<and> bc_is_enabled r"
  have "owner_off owner (cache_disableOwner o2 (bs_cache s))"
    using conn_cache.off_step [of "bs_cache s" owner "DisableOwner o2" 0] assms(1,2)
    by (simp add: bs_inv_def tenant_off_def reconnects_def)
  then show ?thesis
    using OpDisable assms(2) by (auto simp: bs_DisableOwner_def Let_def tenant_off_def set_update_where)
qed

lemma business_run_off:
  assumes "bs_inv s" "tenant_off owner s" "holder s owner tg" "\<forall>(now, op) \<in> set ops. \<not> reconnecting tg op"
  shows "tenant_off owner (snd (run_ops (business_step allowed) ops s))"
  using assms
proof (induction ops arbitrary: s)
  case (Cons p ops)
  obtain now op where p: "p = (now, op)" by (cases p)
  let ?s = "snd (business_step allowed now op s)"
  have "bs_inv ?s" "grows s ?s" using business_step_inv [OF Cons.prems(1)] by blast+
  moreover have "tenant_off owner ?s" by (rule business_step_off) (use Cons.prems p in auto)
  ultimately show ?case
    using Cons.IH [of ?s] Cons.prems(3,4) holder_grows p by (simp add: run_ops_Cons del: run_ops.simps(2))
qed simp

lemma DisableOwner_off:
  assumes "bs_inv s" "bs_DisableOwner True owner s = (r, s')"
  shows "tenant_off owner s'"
proof -
  have "\<not> bc_is_enabled x" if x: "x \<in> set (bs_conns s')" "bc_owner_user_id x = owner" for x
  proof -
    have "bs_conns s' = update_where (\<lambda>x. bc_owner_user_id x = owner \<and> bc_is_enabled x)
        (\<lambda>x. x\<lparr>bc_is_enabled := False\<rparr>) (bs_conns s)"
      using assms(2) by (auto simp: bs_DisableOwner_def Let_def)
    then obtain y where "x = (if bc_owner_user_id y = owner \<and> bc_is_enabled y then y\<lparr>bc_is_enabled := False\<rparr> else y)"
      using x(1) by (auto simp: set_update_where)
    then show ?thesis using x(2) by (cases "bc_owner_user_id y = owner \<and> bc_is_enabled y") auto
  qed
  then show ?thesis
    using assms conn_cache.off_disable [of "bs_cache s" owner 0]
    by (auto simp: bs_DisableOwner_def Let_def tenant_off_def bs_inv_def)
qed


section \<open>Refusals and unknown ids are remembered\<close>

lemma lookup_after_put:
  assumes "cache_inv c" "now < now' + cc_ttl c"
  shows "fst (cache_lookup now (ce_id e) (cache_putLocked now' e c)) = Some (e\<lparr>ce_expiresAt := now' + cc_ttl c\<rparr>)"
proof -
  have put: "cache_inv (cache_putLocked now' e c)"
    "entries (cache_putLocked now' e c) = lru_put (cc_ttl c) (cc_max c) now' e (entries c)"
    using put_sim [OF assms(1)] by simp_all
  have "0 < nat (cc_max c)" using assms(1) by (simp add: cache_inv_def)
  then show ?thesis
    using lookup_sim [OF put(1), of now "ce_id e"] assms(2) put(2)
    by (cases "nat (cc_max c)") (auto simp: lru_put_def lru_lookup_def)
qed

lemma resolve_begin_hit:
  assumes "i \<noteq> []" "fst (cache_lookup (re_now_lookup env) i (bs_cache s)) = Some e"
    "ce_kind e = EntryUnknown \<and> err = ErrConnectionUnknown \<or>
     ce_kind e = EntryRefused \<and> \<not> ownerAllowed allowed (ce_refusedOwner e) \<and> err = ErrOwnerNotAllowed"
  shows "fst (Resolve allowed env i s) = Inl [err] \<and> bs_calls (snd (Resolve allowed env i s)) = bs_calls s"
  using assms
  by (cases "cache_lookup (re_now_lookup env) i (bs_cache s)")
     (auto simp: Resolve_def resolve_begin_def resolve_finish_def Let_def)

definition remembers :: "i64 list \<Rightarrow> cache_entry \<Rightarrow> cause \<Rightarrow> bool" where
  "remembers allowed e err \<longleftrightarrow> ce_kind e = EntryUnknown \<and> err = ErrConnectionUnknown \<or>
     ce_kind e = EntryRefused \<and> \<not> ownerAllowed allowed (ce_refusedOwner e) \<and> err = ErrOwnerNotAllowed"

lemma stores_as_put:
  "cache_storeUnknown now i = cache_putLocked now (blank_entry\<lparr>ce_id := i, ce_kind := EntryUnknown\<rparr>)"
  "cache_storeRefused now i tg = cache_putLocked now (blank_entry\<lparr>ce_id := i, ce_kind := EntryRefused, ce_refusedOwner := tg\<rparr>)"
  by (simp_all add: fun_eq_iff cache_storeUnknown_def cache_storeRefused_def)

text \<open>The time to live is set once.\<close>

lemma cache_ttl_put [simp]: "cc_ttl (cache_putLocked now e c) = cc_ttl c"
  by (simp add: cache_putLocked_def Let_def cache_remove_def split: option.splits)

lemma cache_ttl_step [simp]: "cc_ttl (snd (cache_step now op c)) = cc_ttl c"
  by (cases op)
     (auto simp: cache_lookup_def cache_store_def cache_storeDB_def stores_as_put cache_disableOwner_def
       cache_remove_def split: option.splits)

lemmas cache_ttl_ops [simp] =
  cache_ttl_step [of _ "Store conn" for conn, simplified] cache_ttl_step [of _ "StoreDB conn" for conn, simplified]
  cache_ttl_step [of _ "StoreUnknown i" for i, simplified] cache_ttl_step [of _ "StoreRefused i tg" for i tg, simplified]
  cache_ttl_step [of _ "DisableOwner owner" for owner, simplified]

lemma ttl_upsertFromTelegram [simp]: "bs_cache (snd (upsertFromTelegram allowed env tc s)) = bs_cache s"
  by (auto simp: upsertFromTelegram_def Let_def split: sum.splits prod.splits option.splits)

lemma upsertFromTelegram_cache: "upsertFromTelegram allowed env tc s = (r, s') \<Longrightarrow> bs_cache s' = bs_cache s"
  using ttl_upsertFromTelegram [of allowed env tc s] by simp

lemma ttl_resolve_begin:
  "resolve_begin allowed env i s = (p, s') \<Longrightarrow> cc_ttl (bs_cache s') = cc_ttl (bs_cache s)"
  using cache_ttl_step [of "re_now_lookup env" "Lookup i" "bs_cache s"]
  by (cases "cache_lookup (re_now_lookup env) i (bs_cache s)")
     (auto simp: resolve_begin_def Let_def split: if_splits option.splits entry_kind.splits)

lemma ttl_resolve_finish:
  "resolve_finish allowed env i p s = (r, s') \<Longrightarrow> cc_ttl (bs_cache s') = cc_ttl (bs_cache s)"
proof (cases "\<exists>err. p = Read (Inl err) \<and> errors_is err NoRows")
  case False
  then show "resolve_finish allowed env i p s = (r, s') \<Longrightarrow> ?thesis"
    by (auto simp: resolve_finish_def split: resolve_point.splits sum.splits if_splits)
next
  case True
  then show "resolve_finish allowed env i p s = (r, s') \<Longrightarrow> ?thesis"
    by (auto simp: resolve_finish_def resolve_from_api_def Let_def dest!: upsertFromTelegram_cache
        split: sum.splits if_splits prod.splits option.splits)
qed

lemma ttl_step: "cc_ttl (bs_cache (snd (business_step allowed now op s))) = cc_ttl (bs_cache s)"
proof (cases op)
  case (OpResolve env i)
  obtain p s1 where b: "resolve_begin allowed env i s = (p, s1)" by (cases "resolve_begin allowed env i s")
  obtain r s2 where f: "resolve_finish allowed env i p s1 = (r, s2)" by (cases "resolve_finish allowed env i p s1")
  show ?thesis using OpResolve b f ttl_resolve_begin [OF b] ttl_resolve_finish [OF f] by (simp add: Resolve_def)
next
  case (OpHandle env tc)
  have "bs_cache (snd (upsertFromTelegram allowed env tc s)) = bs_cache s" by simp
  then show ?thesis
    using OpHandle
    by (cases "upsertFromTelegram allowed env tc s")
       (auto simp: HandleBusinessConnection_def Let_def notifyWelcome_def split: sum.splits option.splits)
next
  case (OpDisable ok owner)
  then show ?thesis by (auto simp: bs_DisableOwner_def Let_def)
qed

lemma upsertFromTelegram_errors:
  assumes "upsertFromTelegram allowed env tc s = (Inl [err], s')"
  shows "err \<noteq> ErrConnectionUnknown \<and> err \<noteq> ErrOwnerNotAllowed"
  using assms
  by (auto simp: upsertFromTelegram_def UpsertByTelegramID_def Let_def split: if_splits option.splits)

lemma upsertFromTelegram_refused:
  assumes "upsertFromTelegram allowed env tc s = (Inr None, s')"
  shows "s' = s \<and> \<not> ownerAllowed allowed (tu_ID (tbc_User tc))"
  using assms
  by (auto simp: upsertFromTelegram_def Let_def split: if_splits option.splits sum.splits prod.splits)

lemma from_api_remembers:
  assumes "resolve_from_api allowed env i s = (Inl [err], s1)"
    and "err = ErrConnectionUnknown \<or> err = ErrOwnerNotAllowed" "cache_inv (bs_cache s)"
  shows "\<exists>e s0. s1 = bs_on_cache (cache_putLocked (re_now_store env) e) s0 \<and> ce_id e = i \<and> remembers allowed e err \<and>
    cache_inv (bs_cache s0) \<and> cc_ttl (bs_cache s0) = cc_ttl (bs_cache s)"
proof (cases "re_api env")
  case (Inl ae)
  then show ?thesis
    using assms
    by (intro exI [of _ "blank_entry\<lparr>ce_id := i, ce_kind := EntryUnknown\<rparr>"] exI [of _ "bs_call (ApiGetBusinessConnection i) s"])
       (auto simp: resolve_from_api_def Let_def stores_as_put remembers_def split: if_splits)
next
  case (Inr tc)
  obtain ru s2 where up: "upsertFromTelegram allowed env tc (bs_call (ApiGetBusinessConnection i) s) = (ru, s2)"
    by (cases "upsertFromTelegram allowed env tc (bs_call (ApiGetBusinessConnection i) s)")
  have "ru = Inr None"
    using assms(1,2) Inr up upsertFromTelegram_errors
    by (auto simp: resolve_from_api_def Let_def split: if_splits sum.splits option.splits)
  then show ?thesis
    using assms Inr up upsertFromTelegram_refused [of allowed env tc "bs_call (ApiGetBusinessConnection i) s" s2]
    by (intro exI [of _ "blank_entry\<lparr>ce_id := i, ce_kind := EntryRefused, ce_refusedOwner := tu_ID (tbc_User tc)\<rparr>"]
        exI [of _ s2])
       (auto simp: resolve_from_api_def Let_def stores_as_put remembers_def split: if_splits)
qed

lemma ttl_after: "cc_ttl (bs_cache (business_after allowed ops NewService)) = connectionCacheTTL"
proof -
  have "cc_ttl (bs_cache (snd (run_ops (business_step allowed) ops NewService))) = cc_ttl (bs_cache NewService)"
    by (rule run_ops_invariant [where I = "\<lambda>s. cc_ttl (bs_cache s) = cc_ttl (bs_cache NewService)"])
       (simp_all add: ttl_step)
  then show ?thesis by (simp add: business_after_def NewService_def)
qed

lemma Resolve_remembers:
  assumes "bs_inv s" "Resolve allowed env i s = (Inl [err], s1)"
    and "err = ErrConnectionUnknown \<or> err = ErrOwnerNotAllowed" "bs_calls s1 \<noteq> bs_calls s"
  shows "\<exists>e s0. s1 = bs_on_cache (cache_putLocked (re_now_store env) e) s0 \<and> ce_id e = i \<and> remembers allowed e err \<and>
    cache_inv (bs_cache s0) \<and> cc_ttl (bs_cache s0) = cc_ttl (bs_cache s)"
proof -
  obtain p s2 where b: "resolve_begin allowed env i s = (p, s2)" by (cases "resolve_begin allowed env i s")
  have f: "resolve_finish allowed env i p s2 = (Inl [err], s1)" using assms(2) b by (simp add: Resolve_def)
  have inv: "cache_inv (bs_cache s2)" using resolve_begin_inv [OF assms(1) b] by (simp add: bs_inv_def)
  note ttl = ttl_resolve_begin [OF b]
  have not_settled: "p \<noteq> Settled r" for r
  proof
    assume "p = Settled r"
    then show False using b f assms(4)
      by (auto simp: resolve_begin_def resolve_finish_def Let_def
          split: if_splits prod.splits option.splits entry_kind.splits)
  qed
  show ?thesis
  proof (cases "\<exists>err. p = Read (Inl err)")
    case False
    then obtain conn where p: "p = Read (Inr conn)" using not_settled by (metis obj_sumE resolve_point.exhaust)
    show ?thesis
      using f p assms(3) inv ttl
      by (intro exI [of _ "blank_entry\<lparr>ce_id := i, ce_kind := EntryRefused, ce_refusedOwner := conn_OwnerTelegramUserID conn\<rparr>"]
          exI [of _ s2]) (auto simp: resolve_finish_def stores_as_put remembers_def split: if_splits)
  next
    case True
    then have "resolve_from_api allowed env i s2 = (Inl [err], s1)"
      using f assms(3) by (auto simp: resolve_finish_def split: if_splits)
    then show ?thesis using from_api_remembers [OF _ assms(3) inv] ttl by metis
  qed
qed

section \<open>Properties\<close>

lemma bs_inv_after: "bs_inv s \<Longrightarrow> bs_inv (business_after allowed ops s) \<and> grows s (business_after allowed ops s)"
  unfolding business_after_def by (rule business_run_inv)

text \<open>A small world for the witnesses: the holder 70 with the connections A and B, both enabled.\<close>

definition sample_env :: "instant \<Rightarrow> resolve_env" where
  "sample_env now = \<lparr>re_now_lookup = now, re_now_store = now, re_read_ok = True,
     re_api = Inl [APIError 400 0], re_users_ok = True, re_upsert_ok = True\<rparr>"

definition sample_tc :: "string \<Rightarrow> bool \<Rightarrow> BusinessConnection" where
  "sample_tc i enabled = \<lparr>tbc_ID = i, tbc_User = zero_user\<lparr>tu_ID := 70\<rparr>, tbc_UserChatID = 0,
     tbc_IsEnabled = enabled, tbc_Rights = None, tbc_CanReplyLegacy = False\<rparr>"

definition sample_start :: "(instant \<times> business_op) list" where
  "sample_start = [(1, OpHandle (sample_env 1) (sample_tc ''A'' True)), (2, OpHandle (sample_env 2) (sample_tc ''B'' True))]"

definition second :: duration where "second = 10 ^ 9"

lemma answered: "case fst p of Inr c \<Rightarrow> P c | Inl _ \<Rightarrow> False \<Longrightarrow> \<exists>c. p = (Inr c, snd p) \<and> P c"
  by (cases p) (auto split: sum.splits)

text \<open>C13. A Business connection never changes hands: when an id resolves twice, whatever connection updates,
  resolutions and owner disables came between, both resolutions name the same tenant and the same holder, and
  that holder is on the onboarding allowlist.\<close>

theorem resolution_stays_with_tenant:
  assumes "Resolve allowed env1 i (business_after allowed ops1 NewService) = (Inr c1, s1)"
    and "Resolve allowed env2 i (business_after allowed ops2 s1) = (Inr c2, s2)"
  shows "conn_OwnerUserID c1 = conn_OwnerUserID c2 \<and> conn_OwnerTelegramUserID c1 = conn_OwnerTelegramUserID c2 \<and>
    ownerAllowed allowed (conn_OwnerTelegramUserID c2)"
proof -
  have "bs_inv (business_after allowed ops1 NewService)" using bs_inv_after by simp
  note R1 = Resolve_inv [OF this assms(1)]
  then have "bs_inv (business_after allowed ops2 s1)" "grows s1 (business_after allowed ops2 s1)"
    using bs_inv_after by blast+
  note R2 = this Resolve_inv [OF this(1) assms(2)]
  have "owned s2 i (conn_OwnerUserID c1) (conn_OwnerTelegramUserID c1)"
    using R1 R2 by (auto simp: grows_def)
  then show ?thesis using owned_unique R2 by blast
qed

theorem resolution_stays_with_tenant_witness:
  "\<exists>c1 s1 c2 s2. Resolve [70] (sample_env 3) ''A'' (business_after [70] sample_start NewService) = (Inr c1, s1) \<and>
     Resolve [70] (sample_env (90 * second)) ''A'' (business_after [70] [(4, OpDisable True 1)] s1) = (Inr c2, s2) \<and>
     conn_OwnerUserID c1 = conn_OwnerUserID c2 \<and> conn_IsEnabled c1 \<and> \<not> conn_IsEnabled c2"
proof -
  let ?r1 = "Resolve [70] (sample_env 3) ''A'' (business_after [70] sample_start NewService)"
  let ?r2 = "Resolve [70] (sample_env (90 * second)) ''A'' (business_after [70] [(4, OpDisable True 1)] (snd ?r1))"
  have "case fst ?r1 of Inr c \<Rightarrow> conn_IsEnabled c | Inl _ \<Rightarrow> False" by code_simp
  then obtain c1 where 1: "?r1 = (Inr c1, snd ?r1)" "conn_IsEnabled c1" by (metis answered)
  have "case fst ?r2 of Inr c \<Rightarrow> \<not> conn_IsEnabled c | Inl _ \<Rightarrow> False" by code_simp
  then obtain c2 where 2: "?r2 = (Inr c2, snd ?r2)" "\<not> conn_IsEnabled c2" by (metis answered)
  show ?thesis using resolution_stays_with_tenant [OF 1(1) 2(1)] 1 2 by blast
qed

text \<open>C14. The second resolution of a message's connection, made under the shared lock of the tenant's owner,
  sees every erasure that committed: a resolution that read the connection before the disable and stores what
  it read after it leaves nothing enabled behind. Whatever calls come between, until Telegram announces one of
  the holder's connections enabled, no resolution returns a connection of the owner as enabled.\<close>

theorem recheck_after_disable:
  assumes "resolve_begin allowed env1 i (business_after allowed ops1 NewService) = (p, s1)"
    and "holder s1 owner tg"
    and "bs_DisableOwner True owner (business_after allowed ops2 s1) = (r, s2)"
    and "resolve_finish allowed env1 i p (business_after allowed ops3 s2) = (stale, s3)"
    and "Resolve allowed env2 j (business_after allowed ops4 s3) = (Inr c, s4)"
    and "\<forall>(now, op) \<in> set (ops3 @ ops4). \<not> reconnecting tg op"
    and "\<not> api_announces tg env1" "\<not> api_announces tg env2"
  shows "\<not> (conn_OwnerUserID c = owner \<and> conn_IsEnabled c)"
proof -
  note I = bs_inv_after [OF bs_inv_NewService] and B = resolve_begin_inv [OF _ assms(1)]
  have s1: "bs_inv s1" using I B by blast
  then have s1': "bs_inv (business_after allowed ops2 s1)" "holder (business_after allowed ops2 s1) owner tg"
    using bs_inv_after assms(2) holder_grows by blast+
  have s2: "bs_inv s2" "tenant_off owner s2" "holder s2 owner tg" "grows (business_after allowed ops2 s1) s2"
    using bs_DisableOwner_inv [OF s1'(1) assms(3)] DisableOwner_off [OF s1'(1) assms(3)] s1'(2) holder_grows by blast+
  let ?s2 = "business_after allowed ops3 s2"
  have s3': "bs_inv ?s2" "grows s2 ?s2" "holder ?s2 owner tg" "tenant_off owner ?s2"
    using bs_inv_after [OF s2(1), of allowed ops3] holder_grows [OF _ s2(3)]
      business_run_off [OF s2(1-3), of ops3 allowed] assms(6)
    by (auto simp: business_after_def)
  have "grows s1 ?s2" using bs_inv_after [OF s1] s2(4) s3'(2) grows_trans by blast
  then have own: "owned s1 k o1 t1 \<Longrightarrow> owned ?s2 k o1 t1" for k o1 t1 by (simp add: grows_def)
  have s3: "bs_inv s3" "grows ?s2 s3"
    using resolve_finish_inv [OF s3'(1) assms(4)] B [of] I own by blast+
  have off3: "tenant_off owner s3" using resolve_finish_off [OF s3'(1,4,3) assms(7,4)] by blast
  let ?s3 = "business_after allowed ops4 s3"
  have hold3: "holder s3 owner tg" using s3(2) s3'(3) holder_grows by blast
  then have "bs_inv ?s3" "holder ?s3 owner tg" "tenant_off owner ?s3"
    using bs_inv_after [OF s3(1), of allowed ops4] holder_grows [OF _ hold3]
      business_run_off [OF s3(1) off3 hold3, of ops4 allowed] assms(6)
    by (auto simp: business_after_def)
  then show ?thesis using Resolve_off [OF _ _ _ assms(8,5)] by blast
qed

theorem recheck_after_disable_witness:
  "\<exists>p s1 r s2 stale s3 c s4.
     resolve_begin [] (sample_env (90 * second)) ''A'' (business_after [] sample_start NewService) = (p, s1) \<and>
     bs_DisableOwner True 1 (business_after [] [] s1) = (r, s2) \<and>
     resolve_finish [] (sample_env (90 * second)) ''A'' p (business_after [] [] s2) = (Inr stale, s3) \<and>
     conn_IsEnabled stale \<and>
     Resolve [] (sample_env (91 * second)) ''A'' (business_after [] [] s3) = (Inr c, s4) \<and>
     \<not> (conn_OwnerUserID c = 1 \<and> conn_IsEnabled c)"
proof -
  let ?b = "resolve_begin [] (sample_env (90 * second)) ''A'' (business_after [] sample_start NewService)"
  let ?d = "bs_DisableOwner True 1 (business_after [] [] (snd ?b))"
  let ?f = "resolve_finish [] (sample_env (90 * second)) ''A'' (fst ?b) (business_after [] [] (snd ?d))"
  let ?r = "Resolve [] (sample_env (91 * second)) ''A'' (business_after [] [] (snd ?f))"
  have b: "?b = (fst ?b, snd ?b)" and d: "?d = (fst ?d, snd ?d)" by simp_all
  have "case fst ?f of Inr c \<Rightarrow> conn_IsEnabled c | Inl _ \<Rightarrow> False" by code_simp
  then obtain stale where f: "?f = (Inr stale, snd ?f)" "conn_IsEnabled stale" by (metis answered)
  have "case fst ?r of Inr c \<Rightarrow> True | Inl _ \<Rightarrow> False" by code_simp
  then obtain c where r: "?r = (Inr c, snd ?r)" by (metis answered)
  have h: "holder (snd ?b) 1 70" unfolding holder_def by code_simp
  have q: "\<not> api_announces 70 (sample_env t)" for t by (simp add: api_announces_def sample_env_def)
  have "\<not> (conn_OwnerUserID c = 1 \<and> conn_IsEnabled c)"
    by (rule recheck_after_disable [OF b h d f(1) r _ q q]) simp
  then show ?thesis using b d f r by blast
qed

text \<open>What the bot learned about an id it may not serve costs nothing twice: when a resolution reached the
  database or Telegram and ended with an unknown connection or a holder the allowlist refuses, another one
  within the time to live of the cache gives the same answer and makes no call outside the process.\<close>

theorem refusal_is_remembered:
  assumes "Resolve allowed env1 i (business_after allowed ops NewService) = (Inl [err], s1)"
    and "err = ErrConnectionUnknown \<or> err = ErrOwnerNotAllowed"
    and "bs_calls s1 \<noteq> bs_calls (business_after allowed ops NewService)"
    and "re_now_lookup env2 < re_now_store env1 + connectionCacheTTL"
  shows "fst (Resolve allowed env2 i s1) = Inl [err] \<and> bs_calls (snd (Resolve allowed env2 i s1)) = bs_calls s1"
proof -
  let ?s = "business_after allowed ops NewService"
  have i: "i \<noteq> []" using assms(1,2) by (auto simp: Resolve_def resolve_begin_def resolve_finish_def)
  obtain e s0 where e: "s1 = bs_on_cache (cache_putLocked (re_now_store env1) e) s0" "ce_id e = i" "remembers allowed e err"
    and s0: "cache_inv (bs_cache s0)" "cc_ttl (bs_cache s0) = connectionCacheTTL"
    using Resolve_remembers [OF _ assms(1-3)] bs_inv_after [OF bs_inv_NewService, of allowed ops]
      ttl_after [of allowed ops] by auto
  show ?thesis
    using resolve_begin_hit [OF i, of env2 s1 "e\<lparr>ce_expiresAt := re_now_store env1 + connectionCacheTTL\<rparr>" err allowed]
      lookup_after_put [OF s0(1), of "re_now_lookup env2" "re_now_store env1" e] assms(4) e s0(2)
    by (auto simp: remembers_def)
qed

theorem refusal_is_remembered_witness:
  "fst (Resolve [] (sample_env (30 * second)) ''C'' (snd (Resolve [] (sample_env 3) ''C'' (business_after [] sample_start NewService))))
      = Inl [ErrConnectionUnknown]"
proof -
  let ?s = "business_after [] sample_start NewService"
  let ?r = "Resolve [] (sample_env 3) ''C'' ?s"
  have "fst ?r = Inl [ErrConnectionUnknown]" by code_simp
  then have r: "?r = (Inl [ErrConnectionUnknown], snd ?r)" by (metis prod.collapse)
  have calls: "bs_calls (snd ?r) \<noteq> bs_calls ?s" by code_simp
  have t: "re_now_lookup (sample_env (30 * second)) < re_now_store (sample_env 3) + connectionCacheTTL" by code_simp
  show ?thesis using refusal_is_remembered [OF r _ calls t] by blast
qed

text \<open>A holder may keep several connections, yet one of them being announced disabled marks the whole owner
  in the cache: a connection of the same owner that the database holds enabled resolves enabled the first time
  and disabled the second, since \<open>storeDB\<close> masks it. The handler resolves twice and drops the message.\<close>

theorem sibling_connection_masked:
  assumes "bs_inv s" "re_read_ok env1" "getFromDB True i s = Inr c" "i \<noteq> []"
    and "conn_IsEnabled c" "ownerAllowed allowed (conn_OwnerTelegramUserID c)"
    and "conn_OwnerUserID c \<in> disabledOwners (bs_cache s)"
    and "fst (cache_lookup (re_now_lookup env1) i (bs_cache s)) = None"
    and "re_now_lookup env2 < re_now_store env1 + cc_ttl (bs_cache s)"
  shows "fst (Resolve allowed env1 i s) = Inr c \<and>
    fst (Resolve allowed env2 i (snd (Resolve allowed env1 i s))) = Inr (c\<lparr>conn_IsEnabled := False\<rparr>)"
proof -
  obtain k where look: "cache_lookup (re_now_lookup env1) i (bs_cache s) = (None, k)"
    using assms(8) by (metis prod.collapse)
  have k: "cache_inv k" "disabledOwners k = disabledOwners (bs_cache s)" "\<forall>e \<in> set (entries k). ce_id e \<noteq> i"
    "cc_ttl k = cc_ttl (bs_cache s)"
    using lookup_sim [of "bs_cache s" "re_now_lookup env1" i] look assms(1)
      cache_ttl_step [of "re_now_lookup env1" "Lookup i" "bs_cache s"]
    by (auto simp: bs_inv_def lru_lookup_def find_None_iff_all split: option.splits if_splits dest!: sym [of "filter _ _"])
  have links: "cache_links k" using k(1) by (simp add: cache_inv_def)
  have id: "conn_ID c = i" using getFromDB_owned assms(3) by blast
  have miss: "map_of (by_id k) i = None"
    using k(3) cache_links_lookup [OF links] by (cases "map_of (by_id k) i") (auto simp: entries_def)
  have db: "getFromDB True i (s\<lparr>bs_cache := k\<rparr>) = Inr c" using assms(3) by (simp add: getFromDB_def cong: option.case_cong)
  let ?e = "resolved_entry (c\<lparr>conn_IsEnabled := False\<rparr>)"
  let ?s1 = "bs_on_cache (cache_putLocked (re_now_store env1) ?e) (bs_call (ReadConnection i) (s\<lparr>bs_cache := k\<rparr>))"
  have 1: "Resolve allowed env1 i s = (Inr c, ?s1)"
    using assms(2,4-7) look db miss id k(2)
    by (simp add: Resolve_def resolve_begin_def resolve_finish_def Let_def cache_storeDB_def bs_on_cache_def bs_call_def)
  have "fst (cache_lookup (re_now_lookup env2) i (bs_cache ?s1)) =
      Some (?e\<lparr>ce_expiresAt := re_now_store env1 + cc_ttl k\<rparr>)"
    using lookup_after_put [OF k(1), of _ _ ?e] assms(9) k(4) id by (simp add: resolved_entry_def)
  then have "fst (Resolve allowed env2 i ?s1) = Inr (c\<lparr>conn_IsEnabled := False\<rparr>)"
    using assms(4,6)
    by (cases "cache_lookup (re_now_lookup env2) i (bs_cache ?s1)")
       (auto simp: Resolve_def resolve_begin_def resolve_finish_def Let_def resolved_entry_def blank_entry_def)
  then show ?thesis using 1 by simp
qed

theorem sibling_connection_masked_witness:
  "\<exists>s c. s = business_after [] (sample_start @ [(3, OpHandle (sample_env 3) (sample_tc ''A'' False))]) NewService \<and>
     fst (Resolve [] (sample_env (70 * second)) ''B'' s) = Inr c \<and> conn_IsEnabled c \<and>
     fst (Resolve [] (sample_env (71 * second)) ''B'' (snd (Resolve [] (sample_env (70 * second)) ''B'' s)))
       = Inr (c\<lparr>conn_IsEnabled := False\<rparr>)"
proof -
  let ?s = "business_after [] (sample_start @ [(3, OpHandle (sample_env 3) (sample_tc ''A'' False))]) NewService"
  let ?c = "\<lparr>conn_ID = ''B'', conn_OwnerUserID = 1, conn_OwnerTelegramUserID = 70, conn_CanReply = False, conn_IsEnabled = True\<rparr>"
  have inv: "bs_inv ?s" using bs_inv_after by simp
  have db: "getFromDB True ''B'' ?s = Inr ?c" by code_simp
  have off: "conn_OwnerUserID ?c \<in> disabledOwners (bs_cache ?s)" by code_simp
  have miss: "Option.is_none (fst (cache_lookup (70 * second) ''B'' (bs_cache ?s)))" by code_simp
  have t: "71 * second < 70 * second + cc_ttl (bs_cache ?s)" by code_simp
  have "fst (Resolve [] (sample_env (70 * second)) ''B'' ?s) = Inr ?c \<and>
     fst (Resolve [] (sample_env (71 * second)) ''B'' (snd (Resolve [] (sample_env (70 * second)) ''B'' ?s)))
       = Inr (?c\<lparr>conn_IsEnabled := False\<rparr>)"
    by (rule sibling_connection_masked [OF inv _ db])
       (use off miss t in \<open>simp_all add: sample_env_def ownerAllowed_def is_none_simps Option.is_none_def\<close>)
  then show ?thesis by (intro exI [of _ ?s] exI [of _ ?c]) simp
qed

end
