(* ===== verification/Guard.thy ===== *)
theory Guard
  imports Prelude
begin

text \<open>
  \<open>bot/internal/tenantexcl/guard.go\<close>: the per-tenant readers/writer lock that keeps an erasure and the
  workers of the same tenant apart.

  The state is the map from tenants to locks, the heap of \<open>sync.RWMutex\<close> values the map points to, and
  every acquisition ever started, with the point its goroutines are at. \<open>acquire\<close> starts a goroutine that
  calls \<open>lock()\<close> and then selects between the context and that goroutine; the phases below are the points
  between which the scheduler may run anybody else. Of \<open>sync.RWMutex\<close> the model has what its documentation
  promises: a writer excludes everybody, readers exclude writers. That it also makes new readers wait behind
  a waiting writer is left out, so the steps here include all of those the real lock allows.
\<close>

section \<open>State\<close>

datatype lock_mode = SharedMode | ExclusiveMode

text \<open>
  \<open>Waiting\<close>: \<open>lock()\<close> called, the caller in the select. \<open>Locked\<close>: \<open>lock()\<close> returned, the select not yet
  taken. \<open>Holding\<close>: the caller has the release function. \<open>Abandoned\<close>: the caller got the context's error,
  \<open>lock()\<close> still waits. \<open>AbandonedLocked\<close>: it went through after that, the clean-up goroutine is about to
  unlock. \<open>Released\<close> and \<open>Refused\<close>: over.
\<close>

datatype phase = Waiting | Locked | Holding | Abandoned | AbandonedLocked | Released | Refused

record rwmutex =
  rw_readers :: nat
  rw_writer :: bool

record acquisition =
  aq_tenant :: i64
  aq_mode :: lock_mode
  aq_lock :: nat
  aq_phase :: phase

record guard_state =
  g_locks :: "(i64 \<times> nat) list"
  g_heap :: "rwmutex list"
  g_acqs :: "acquisition list"

definition Guard_New :: guard_state where
  "Guard_New = \<lparr>g_locks = [], g_heap = [], g_acqs = []\<rparr>"

section \<open>Operations\<close>

definition free_lock :: rwmutex where
  "free_lock = \<lparr>rw_readers = 0, rw_writer = False\<rparr>"

definition forTenant :: "i64 \<Rightarrow> guard_state \<Rightarrow> nat \<times> guard_state" where
  "forTenant t g =
     (case map_of (g_locks g) t of
        Some l \<Rightarrow> (l, g)
      | None \<Rightarrow> (length (g_heap g),
          g\<lparr>g_locks := (t, length (g_heap g)) # g_locks g, g_heap := g_heap g @ [free_lock]\<rparr>))"

fun can_lock :: "lock_mode \<Rightarrow> rwmutex \<Rightarrow> bool" where
  "can_lock SharedMode l \<longleftrightarrow> \<not> rw_writer l"
| "can_lock ExclusiveMode l \<longleftrightarrow> \<not> rw_writer l \<and> rw_readers l = 0"

fun do_lock :: "lock_mode \<Rightarrow> rwmutex \<Rightarrow> rwmutex" where
  "do_lock SharedMode l = l\<lparr>rw_readers := rw_readers l + 1\<rparr>"
| "do_lock ExclusiveMode l = l\<lparr>rw_writer := True\<rparr>"

fun do_unlock :: "lock_mode \<Rightarrow> rwmutex \<Rightarrow> rwmutex" where
  "do_unlock SharedMode l = l\<lparr>rw_readers := rw_readers l - 1\<rparr>"
| "do_unlock ExclusiveMode l = l\<lparr>rw_writer := False\<rparr>"

text \<open>\<open>Shared\<close> and \<open>Exclusive\<close> up to the select of \<open>acquire\<close>: a context that is already cancelled starts
  nothing.\<close>

definition acquire_begin :: "bool \<Rightarrow> i64 \<Rightarrow> lock_mode \<Rightarrow> guard_state \<Rightarrow> guard_state" where
  "acquire_begin cancelled t m g =
     (let (l, g1) = forTenant t g in
      g1\<lparr>g_acqs := g_acqs g1 @ [\<lparr>aq_tenant = t, aq_mode = m, aq_lock = l,
                                    aq_phase = (if cancelled then Refused else Waiting)\<rparr>]\<rparr>)"

definition set_phase :: "nat \<Rightarrow> phase \<Rightarrow> guard_state \<Rightarrow> guard_state" where
  "set_phase i p g = g\<lparr>g_acqs := (g_acqs g)[i := (g_acqs g ! i)\<lparr>aq_phase := p\<rparr>]\<rparr>"

definition on_lock :: "(lock_mode \<Rightarrow> rwmutex \<Rightarrow> rwmutex) \<Rightarrow> nat \<Rightarrow> guard_state \<Rightarrow> guard_state" where
  "on_lock f i g =
     (let a = g_acqs g ! i in g\<lparr>g_heap := (g_heap g)[aq_lock a := f (aq_mode a) (g_heap g ! aq_lock a)]\<rparr>)"

definition lock_of :: "nat \<Rightarrow> guard_state \<Rightarrow> rwmutex" where
  "lock_of i g = g_heap g ! aq_lock (g_acqs g ! i)"

abbreviation at_phase :: "guard_state \<Rightarrow> nat \<Rightarrow> phase \<Rightarrow> bool" where
  "at_phase g i p \<equiv> i < length (g_acqs g) \<and> aq_phase (g_acqs g ! i) = p"

inductive guard_step :: "guard_state \<Rightarrow> guard_state \<Rightarrow> bool" where
  begin_acquire: "guard_step g (acquire_begin cancelled t m g)"
| lock_returns: "at_phase g i Waiting \<Longrightarrow> can_lock (aq_mode (g_acqs g ! i)) (lock_of i g) \<Longrightarrow>
    guard_step g (set_phase i Locked (on_lock do_lock i g))"
| late_lock_returns: "at_phase g i Abandoned \<Longrightarrow> can_lock (aq_mode (g_acqs g ! i)) (lock_of i g) \<Longrightarrow>
    guard_step g (set_phase i AbandonedLocked (on_lock do_lock i g))"
| select_done: "at_phase g i Locked \<Longrightarrow> guard_step g (set_phase i Holding g)"
| select_cancelled: "at_phase g i Waiting \<Longrightarrow> guard_step g (set_phase i Abandoned g)"
| select_both_ready: "at_phase g i Locked \<Longrightarrow> guard_step g (set_phase i AbandonedLocked g)"
| release: "at_phase g i Holding \<Longrightarrow> guard_step g (set_phase i Released (on_lock do_unlock i g))"
| cleanup: "at_phase g i AbandonedLocked \<Longrightarrow> guard_step g (set_phase i Refused (on_lock do_unlock i g))"

inductive guard_reachable :: "guard_state \<Rightarrow> bool" where
  start: "guard_reachable Guard_New"
| step: "guard_reachable g \<Longrightarrow> guard_step g g' \<Longrightarrow> guard_reachable g'"

section \<open>Counting the holders\<close>

definition holds_lock :: "acquisition \<Rightarrow> bool" where
  "holds_lock a \<longleftrightarrow> aq_phase a \<in> {Locked, Holding, AbandonedLocked}"

definition holders :: "guard_state \<Rightarrow> nat \<Rightarrow> lock_mode \<Rightarrow> nat" where
  "holders g l m = length (filter (\<lambda>a. holds_lock a \<and> aq_lock a = l \<and> aq_mode a = m) (g_acqs g))"

lemma length_filter_update:
  "i < length xs \<Longrightarrow> length (filter P (xs[i := x])) + (if P (xs ! i) then 1 else 0)
    = length (filter P xs) + (if P x then 1 else 0)"
proof (induction xs arbitrary: i)
  case (Cons y ys)
  then show ?case by (cases i) auto
qed simp

lemma length_filter_two:
  "i < length xs \<Longrightarrow> j < length xs \<Longrightarrow> i \<noteq> j \<Longrightarrow> P (xs ! i) \<Longrightarrow> P (xs ! j) \<Longrightarrow> 2 \<le> length (filter P xs)"
  using card_mono [of "{k. k < length xs \<and> P (xs ! k)}" "{i, j}"] by (simp add: length_filter_conv_card)

lemma length_filter_one: "i < length xs \<Longrightarrow> P (xs ! i) \<Longrightarrow> 1 \<le> length (filter P xs)"
  using card_mono [of "{k. k < length xs \<and> P (xs ! k)}" "{i}"] by (simp add: length_filter_conv_card)

text \<open>The locks count exactly the acquisitions that hold them, and each tenant has a lock of its own.\<close>

definition guard_inv :: "guard_state \<Rightarrow> bool" where
  "guard_inv g \<longleftrightarrow>
     (\<forall>(t, l) \<in> set (g_locks g). l < length (g_heap g)) \<and> inj_on snd (set (g_locks g)) \<and>
     (\<forall>a \<in> set (g_acqs g). map_of (g_locks g) (aq_tenant a) = Some (aq_lock a)) \<and>
     (\<forall>l < length (g_heap g). rw_readers (g_heap g ! l) = holders g l SharedMode \<and>
        (if rw_writer (g_heap g ! l) then 1 else 0) = holders g l ExclusiveMode \<and>
        (rw_writer (g_heap g ! l) \<longrightarrow> rw_readers (g_heap g ! l) = 0))"

lemma acq_lock_bound: "guard_inv g \<Longrightarrow> i < length (g_acqs g) \<Longrightarrow> aq_lock (g_acqs g ! i) < length (g_heap g)"
  using map_of_SomeD by (fastforce simp: guard_inv_def)

lemma holders_set_phase:
  "i < length (g_acqs g) \<Longrightarrow>
    holders (set_phase i p g) l m + (if holds_lock (g_acqs g ! i) \<and> aq_lock (g_acqs g ! i) = l \<and> aq_mode (g_acqs g ! i) = m then 1 else 0)
    = holders g l m + (if p \<in> {Locked, Holding, AbandonedLocked} \<and> aq_lock (g_acqs g ! i) = l \<and> aq_mode (g_acqs g ! i) = m then 1 else 0)"
  using length_filter_update [of i "g_acqs g" "\<lambda>a. holds_lock a \<and> aq_lock a = l \<and> aq_mode a = m"
      "(g_acqs g ! i)\<lparr>aq_phase := p\<rparr>"]
  by (simp add: holders_def set_phase_def holds_lock_def)

lemma guard_fields [simp]:
  "g_locks (set_phase i p g) = g_locks g" "g_heap (set_phase i p g) = g_heap g"
  "length (g_acqs (set_phase i p g)) = length (g_acqs g)"
  "g_locks (on_lock f i g) = g_locks g" "g_acqs (on_lock f i g) = g_acqs g"
  "length (g_heap (on_lock f i g)) = length (g_heap g)"
  "holders (on_lock f i g) = holders g"
  by (simp_all add: set_phase_def on_lock_def Let_def holders_def fun_eq_iff)

lemma acqs_set_phase:
  "a \<in> set (g_acqs (set_phase i p g)) \<Longrightarrow> i < length (g_acqs g) \<Longrightarrow>
    \<exists>b \<in> set (g_acqs g). aq_tenant a = aq_tenant b \<and> aq_lock a = aq_lock b"
  using set_update_subset_insert [of "g_acqs g" i] by (fastforce simp: set_phase_def)

text \<open>The two kinds of step on an acquisition: with its lock untouched, and with it locked or unlocked.\<close>

lemma guard_inv_silent:
  assumes "guard_inv g" "i < length (g_acqs g)"
    and "holds_lock (g_acqs g ! i) \<longleftrightarrow> p \<in> {Locked, Holding, AbandonedLocked}"
  shows "guard_inv (set_phase i p g)"
proof -
  have "holders (set_phase i p g) l m = holders g l m" for l m
    using holders_set_phase [OF assms(2), of p l m] assms(3) by (simp split: if_splits)
  then show ?thesis using assms(1,2) acqs_set_phase [of _ i p g] by (fastforce simp: guard_inv_def)
qed

lemma guard_inv_lock:
  assumes "guard_inv g" "i < length (g_acqs g)" "\<not> holds_lock (g_acqs g ! i)"
    and "can_lock (aq_mode (g_acqs g ! i)) (lock_of i g)" "p \<in> {Locked, Holding, AbandonedLocked}"
  shows "guard_inv (set_phase i p (on_lock do_lock i g))"
proof -
  let ?a = "g_acqs g ! i" and ?g = "set_phase i p (on_lock do_lock i g)"
  have b: "aq_lock ?a < length (g_heap g)" using assms(1,2) by (rule acq_lock_bound)
  have h: "holders ?g l m = holders g l m + (if aq_lock ?a = l \<and> aq_mode ?a = m then 1 else 0)" for l m
    using holders_set_phase [of i "on_lock do_lock i g" p l m] assms(2,3,5) by simp
  have heap: "g_heap ?g ! l = (if l = aq_lock ?a then do_lock (aq_mode ?a) (g_heap g ! l) else g_heap g ! l)" for l
    using b by (simp add: on_lock_def Let_def)
  have locks: "\<forall>l < length (g_heap ?g). rw_readers (g_heap ?g ! l) = holders ?g l SharedMode \<and>
        (if rw_writer (g_heap ?g ! l) then 1 else 0) = holders ?g l ExclusiveMode \<and>
        (rw_writer (g_heap ?g ! l) \<longrightarrow> rw_readers (g_heap ?g ! l) = 0)"
    unfolding heap h using assms(1,4) by (cases "aq_mode ?a") (auto simp: guard_inv_def lock_of_def)
  show ?thesis
    using assms(1,2) locks acqs_set_phase [of _ i p "on_lock do_lock i g"] unfolding guard_inv_def by fastforce
qed

lemma guard_inv_unlock:
  assumes "guard_inv g" "i < length (g_acqs g)" "holds_lock (g_acqs g ! i)" "p \<notin> {Locked, Holding, AbandonedLocked}"
  shows "guard_inv (set_phase i p (on_lock do_unlock i g))"
proof -
  let ?a = "g_acqs g ! i" and ?g = "set_phase i p (on_lock do_unlock i g)"
  have b: "aq_lock ?a < length (g_heap g)" using assms(1,2) by (rule acq_lock_bound)
  have h: "holders ?g l m + (if aq_lock ?a = l \<and> aq_mode ?a = m then 1 else 0) = holders g l m" for l m
    using holders_set_phase [of i "on_lock do_unlock i g" p l m] assms(2,3,4) by simp
  have heap: "g_heap ?g ! l = (if l = aq_lock ?a then do_unlock (aq_mode ?a) (g_heap g ! l) else g_heap g ! l)" for l
    using b by (simp add: on_lock_def Let_def)
  have locks: "rw_readers (g_heap ?g ! l) = holders ?g l SharedMode \<and>
        (if rw_writer (g_heap ?g ! l) then 1 else 0) = holders ?g l ExclusiveMode \<and>
        (rw_writer (g_heap ?g ! l) \<longrightarrow> rw_readers (g_heap ?g ! l) = 0)" if "l < length (g_heap g)" for l
  proof -
    have "rw_readers (g_heap g ! l) = holders g l SharedMode"
      "(if rw_writer (g_heap g ! l) then 1 else 0) = holders g l ExclusiveMode"
      "rw_writer (g_heap g ! l) \<longrightarrow> rw_readers (g_heap g ! l) = 0"
      using assms(1) that unfolding guard_inv_def by blast+
    then show ?thesis
      unfolding heap using h [of l SharedMode] h [of l ExclusiveMode]
      by (cases "aq_mode ?a") (auto split: if_splits)
  qed
  show ?thesis
    using assms(1,2) locks acqs_set_phase [of _ i p "on_lock do_unlock i g"] unfolding guard_inv_def by fastforce
qed

lemma guard_inv_forTenant:
  assumes "guard_inv g" "forTenant t g = (l, g1)"
  shows "guard_inv g1 \<and> map_of (g_locks g1) t = Some l \<and> g_acqs g1 = g_acqs g \<and>
    (\<forall>u k. map_of (g_locks g) u = Some k \<longrightarrow> map_of (g_locks g1) u = Some k)"
proof (cases "map_of (g_locks g) t")
  case (Some k)
  then show ?thesis using assms by (auto simp: forTenant_def)
next
  case None
  have bound: "\<forall>(t, l) \<in> set (g_locks g). l < length (g_heap g)" "inj_on snd (set (g_locks g))"
    using assms(1) by (simp_all add: guard_inv_def)
  have "length (g_heap g) \<notin> snd ` set (g_locks g)" using bound(1) by fastforce
  then have inj: "inj_on snd (insert (t, length (g_heap g)) (set (g_locks g)))"
    using bound(2) unfolding inj_on_insert by auto
  have none: "aq_lock a \<noteq> length (g_heap g)" if "a \<in> set (g_acqs g)" for a
    using assms(1) that bound(1) by (fastforce simp: guard_inv_def dest: map_of_SomeD)
  then have "holders g (length (g_heap g)) m = 0" for m by (simp add: holders_def filter_empty_conv)
  then show ?thesis
    using assms None inj bound(1)
    by (fastforce simp: forTenant_def guard_inv_def nth_append free_lock_def holders_def less_Suc_eq)
qed

lemma guard_inv_begin: "guard_inv g \<Longrightarrow> guard_inv (acquire_begin cancelled t m g)"
proof -
  assume inv: "guard_inv g"
  obtain l g1 where f: "forTenant t g = (l, g1)" by (cases "forTenant t g")
  note F = guard_inv_forTenant [OF inv f]
  let ?a = "\<lparr>aq_tenant = t, aq_mode = m, aq_lock = l, aq_phase = (if cancelled then Refused else Waiting)\<rparr>"
  have "holders (g1\<lparr>g_acqs := g_acqs g1 @ [?a]\<rparr>) k m' = holders g1 k m'" for k m'
    by (simp add: holders_def holds_lock_def)
  then show ?thesis using F f by (auto simp: acquire_begin_def guard_inv_def)
qed

lemma guard_inv_step: "guard_step g g' \<Longrightarrow> guard_inv g \<Longrightarrow> guard_inv g'"
proof (induction rule: guard_step.induct)
  case (begin_acquire g cancelled t m)
  then show ?case by (rule guard_inv_begin)
qed (simp_all add: guard_inv_silent guard_inv_lock guard_inv_unlock holds_lock_def)

lemma guard_inv_reachable: "guard_reachable g \<Longrightarrow> guard_inv g"
proof (induction rule: guard_reachable.induct)
  case start
  then show ?case by (simp add: guard_inv_def Guard_New_def)
next
  case (step g g')
  then show ?case using guard_inv_step by blast
qed

text \<open>Two acquisitions of one tenant use one lock.\<close>

lemma same_tenant_same_lock:
  "guard_inv g \<Longrightarrow> i < length (g_acqs g) \<Longrightarrow> j < length (g_acqs g) \<Longrightarrow>
    aq_tenant (g_acqs g ! i) = aq_tenant (g_acqs g ! j) \<longleftrightarrow> aq_lock (g_acqs g ! i) = aq_lock (g_acqs g ! j)"
proof -
  assume a: "guard_inv g" "i < length (g_acqs g)" "j < length (g_acqs g)"
  then have m: "map_of (g_locks g) (aq_tenant (g_acqs g ! i)) = Some (aq_lock (g_acqs g ! i))"
    "map_of (g_locks g) (aq_tenant (g_acqs g ! j)) = Some (aq_lock (g_acqs g ! j))"
    by (simp_all add: guard_inv_def)
  have "inj_on snd (set (g_locks g))" using a(1) by (simp add: guard_inv_def)
  then have "aq_lock (g_acqs g ! i) = aq_lock (g_acqs g ! j) \<Longrightarrow> aq_tenant (g_acqs g ! i) = aq_tenant (g_acqs g ! j)"
    using inj_onD [of snd, OF _ _ map_of_SomeD [OF m(1)] map_of_SomeD [OF m(2)]] by simp
  then show ?thesis using m by auto
qed

lemma exclusive_alone:
  assumes "guard_inv g" "i < length (g_acqs g)" "j < length (g_acqs g)" "i \<noteq> j"
    and "holds_lock (g_acqs g ! i)" "holds_lock (g_acqs g ! j)" "aq_mode (g_acqs g ! i) = ExclusiveMode"
    and "aq_lock (g_acqs g ! i) = aq_lock (g_acqs g ! j)"
  shows False
proof -
  let ?l = "aq_lock (g_acqs g ! i)"
  have b: "?l < length (g_heap g)" using assms(1,2) by (rule acq_lock_bound)
  have inv: "rw_readers (g_heap g ! ?l) = holders g ?l SharedMode"
    "(if rw_writer (g_heap g ! ?l) then 1 else 0) = holders g ?l ExclusiveMode"
    "rw_writer (g_heap g ! ?l) \<longrightarrow> rw_readers (g_heap g ! ?l) = 0"
    using assms(1) b unfolding guard_inv_def by blast+
  let ?P = "\<lambda>m a. holds_lock a \<and> aq_lock a = ?l \<and> aq_mode a = m"
  have w: "1 \<le> holders g ?l ExclusiveMode"
    unfolding holders_def by (rule length_filter_one [OF assms(2)]) (use assms in simp)
  show False
  proof (cases "aq_mode (g_acqs g ! j)")
    case SharedMode
    then have "1 \<le> holders g ?l SharedMode"
      unfolding holders_def by (intro length_filter_one [OF assms(3)]) (use assms in simp)
    then show False using inv w by (simp split: if_splits)
  next
    case ExclusiveMode
    then have "2 \<le> holders g ?l ExclusiveMode"
      unfolding holders_def by (intro length_filter_two [OF assms(2-4)]) (use assms in simp_all)
    then show False using inv by (simp split: if_splits)
  qed
qed


section \<open>Properties\<close>

text \<open>C17. While an erasure holds the exclusive side of a tenant's lock, no worker holds the shared side of it
  and no second erasure runs: of two different acquisitions of one tenant that both reached their caller, both
  are shared. This holds in every interleaving of the acquisitions, cancellations and releases, the
  acquisitions that were cancelled halfway included.\<close>

theorem erasure_excludes_workers:
  assumes "guard_reachable g" "at_phase g i Holding" "at_phase g j Holding" "i \<noteq> j"
    and "aq_tenant (g_acqs g ! i) = aq_tenant (g_acqs g ! j)"
  shows "aq_mode (g_acqs g ! i) = SharedMode \<and> aq_mode (g_acqs g ! j) = SharedMode"
proof -
  note inv = guard_inv_reachable [OF assms(1)]
  have "aq_lock (g_acqs g ! i) = aq_lock (g_acqs g ! j)" using same_tenant_same_lock [OF inv] assms by blast
  then show ?thesis
    using exclusive_alone [OF inv, of i j] exclusive_alone [OF inv, of j i] assms(2-4) lock_mode.exhaust
    by (auto simp: holds_lock_def)
qed

definition two_readers :: "guard_state" where
  "two_readers = set_phase 1 Holding (set_phase 1 Locked (on_lock do_lock 1 (set_phase 0 Holding (set_phase 0 Locked (on_lock do_lock 0
     (acquire_begin False 7 SharedMode (acquire_begin False 7 SharedMode Guard_New)))))))"

lemma two_readers_reachable: "guard_reachable two_readers"
  unfolding two_readers_def
  by (rule guard_reachable.step [OF _ select_done], rule guard_reachable.step [OF _ lock_returns],
      rule guard_reachable.step [OF _ select_done], rule guard_reachable.step [OF _ lock_returns],
      rule guard_reachable.step [OF _ begin_acquire], rule guard_reachable.step [OF _ begin_acquire],
      rule guard_reachable.start)
     (simp_all add: acquire_begin_def forTenant_def Guard_New_def set_phase_def on_lock_def Let_def lock_of_def free_lock_def)

theorem erasure_excludes_workers_witness:
  "guard_reachable two_readers \<and> at_phase two_readers 0 Holding \<and> at_phase two_readers 1 Holding \<and>
   aq_mode (g_acqs two_readers ! 0) = SharedMode \<and> aq_mode (g_acqs two_readers ! 1) = SharedMode"
proof -
  have h: "at_phase two_readers 0 Holding" "at_phase two_readers 1 Holding"
    "aq_tenant (g_acqs two_readers ! 0) = aq_tenant (g_acqs two_readers ! 1)"
    by (simp_all add: two_readers_def acquire_begin_def forTenant_def Guard_New_def set_phase_def on_lock_def Let_def)
  show ?thesis using erasure_excludes_workers [OF two_readers_reachable h(1,2) _ h(3)] h two_readers_reachable by simp
qed

text \<open>A cancelled acquisition leaks nothing: once every caller has its release done or its error, and the
  clean-up goroutines have run, every lock is free, with no reader and no writer, whatever was cancelled and
  when; so the next exclusive acquisition of any tenant can go through at once.\<close>

theorem cancelled_acquisition_never_leaks:
  assumes "guard_reachable g" "\<forall>a \<in> set (g_acqs g). aq_phase a \<notin> {Locked, Holding, AbandonedLocked}"
    and "l < length (g_heap g)"
  shows "g_heap g ! l = free_lock \<and> can_lock ExclusiveMode (g_heap g ! l)"
proof -
  have "holders g l m = 0" for m using assms(2) by (auto simp: holders_def filter_empty_conv holds_lock_def)
  moreover have "rw_readers (g_heap g ! l) = holders g l SharedMode"
    "(if rw_writer (g_heap g ! l) then 1 else 0) = holders g l ExclusiveMode"
    using guard_inv_reachable [OF assms(1)] assms(3) unfolding guard_inv_def by blast+
  ultimately show ?thesis by (cases "g_heap g ! l") (simp add: free_lock_def split: if_splits)
qed

definition cancelled_reader :: "guard_state" where
  "cancelled_reader = set_phase 0 Refused (on_lock do_unlock 0 (set_phase 0 AbandonedLocked (on_lock do_lock 0
     (set_phase 0 Abandoned (acquire_begin False 7 SharedMode Guard_New)))))"

theorem cancelled_acquisition_never_leaks_witness:
  "guard_reachable cancelled_reader \<and> length (g_heap cancelled_reader) = 1 \<and>
   g_heap cancelled_reader ! 0 = free_lock \<and> can_lock ExclusiveMode (g_heap cancelled_reader ! 0)"
proof -
  note defs = acquire_begin_def forTenant_def Guard_New_def set_phase_def on_lock_def Let_def lock_of_def free_lock_def
  have r: "guard_reachable cancelled_reader"
    unfolding cancelled_reader_def
    by (rule guard_reachable.step [OF _ cleanup], rule guard_reachable.step [OF _ late_lock_returns],
        rule guard_reachable.step [OF _ select_cancelled], rule guard_reachable.step [OF _ begin_acquire],
        rule guard_reachable.start) (simp_all add: defs)
  have q: "\<forall>a \<in> set (g_acqs cancelled_reader). aq_phase a \<notin> {Locked, Holding, AbandonedLocked}"
    "length (g_heap cancelled_reader) = 1"
    by (simp_all add: cancelled_reader_def defs)
  have "0 < length (g_heap cancelled_reader)" by (simp add: q(2))
  from cancelled_acquisition_never_leaks [OF r q(1) this] q(2) r show ?thesis by blast
qed

end
