(* ===== verification/Quotas.thy ===== *)
theory Quotas
  imports Prelude "HOL-Library.AList"
begin

text \<open>
  \<open>bot/internal/quotas/quotas.go\<close>: the per-tenant capture quotas and the tracker that admits captures.

  The ledger of a tenant, the tracker and each of its methods, as state passing. A call that re-reads the
  database takes what the source answered as an argument (\<open>None\<close> when one of its three counts failed), one
  answer for the seeding read and one for the verification read; \<open>tk_reads\<close> counts the re-reads. An
  admission is one step here: the interleaving of two admissions at a re-read is not modelled. Counters
  are \<open>int64\<close> in the code, far from their bound; \<open>warnThreshold\<close>, whose operands the operator chooses, is
  written with the wrap-around of \<open>int64\<close>.
\<close>

section \<open>State\<close>

datatype QuotaKind = QuotaMessages | QuotaMediaFiles | QuotaMediaBytes | QuotaCaptureRate

definition rateWindow :: duration where "rateWindow = 60 * 10 ^ 9"
definition recheckInterval :: duration where "recheckInterval = 60 * 10 ^ 9"
definition maxTenants :: int where "maxTenants = 4096"

record Limits =
  MaxMessages :: i64
  MaxMediaFiles :: i64
  MaxMediaBytes :: i64
  CapturesPerMinute :: i64
  WarnPercent :: int

definition DefaultLimits :: Limits where
  "DefaultLimits = \<lparr>MaxMessages = 100000, MaxMediaFiles = 10000, MaxMediaBytes = 5 * 2 ^ 30,
     CapturesPerMinute = 300, WarnPercent = 80\<rparr>"

text \<open>\<open>Validate\<close>: the first field that is out of range, if any.\<close>

datatype limits_error = BadMaxMessages i64 | BadMaxMediaFiles i64 | BadMaxMediaBytes i64
  | BadCapturesPerMinute i64 | BadWarnPercent int

definition Limits_Validate :: "Limits \<Rightarrow> limits_error option" where
  "Limits_Validate l =
     (if MaxMessages l \<le> 0 then Some (BadMaxMessages (MaxMessages l))
      else if MaxMediaFiles l \<le> 0 then Some (BadMaxMediaFiles (MaxMediaFiles l))
      else if MaxMediaBytes l \<le> 0 then Some (BadMaxMediaBytes (MaxMediaBytes l))
      else if CapturesPerMinute l \<le> 0 then Some (BadCapturesPerMinute (CapturesPerMinute l))
      else if WarnPercent l \<le> 0 \<or> 100 \<le> WarnPercent l then Some (BadWarnPercent (WarnPercent l))
      else None)"

definition warnThreshold :: "Limits \<Rightarrow> i64 \<Rightarrow> i64" where
  "warnThreshold l limit =
     (let percent = WarnPercent l
      in wrap64 (wrap64 (go_div limit 100 * percent) + go_div (wrap64 (go_mod limit 100 * percent)) 100))"

record Admission =
  Allowed :: bool
  Warn :: bool
  Quota :: QuotaKind
  Usage :: i64
  Limit :: i64

record tenant =
  te_messages :: i64
  te_mediaFiles :: i64
  te_mediaBytes :: i64
  te_seeded :: bool
  te_rate :: "instant list"
  te_warned :: "QuotaKind set"
  te_blocked :: "(QuotaKind \<times> instant) list"
  te_lastSeen :: instant

text \<open>The map of tenants is the list of its entries in the order a \<open>range\<close> over it visits them.\<close>

record Tracker =
  tk_limits :: Limits
  tk_has_source :: bool
  tk_tenants :: "(i64 \<times> tenant) list"
  tk_reads :: nat

definition NewTracker :: "Limits \<Rightarrow> bool \<Rightarrow> limits_error + Tracker" where
  "NewTracker limits has_source =
     (case Limits_Validate limits of
        Some err \<Rightarrow> Inl err
      | None \<Rightarrow> Inr \<lparr>tk_limits = limits, tk_has_source = has_source, tk_tenants = [], tk_reads = 0\<rparr>)"

section \<open>Operations\<close>

definition pruneBefore :: "instant list \<Rightarrow> instant \<Rightarrow> instant list" where
  "pruneBefore stamps cutoff = filter (\<lambda>ts. cutoff < ts) stamps"

fun currentOf :: "tenant \<Rightarrow> QuotaKind \<Rightarrow> i64" where
  "currentOf te QuotaMediaFiles = te_mediaFiles te"
| "currentOf te QuotaMediaBytes = te_mediaBytes te"
| "currentOf te k = te_messages te"

fun limitOf :: "Limits \<Rightarrow> QuotaKind \<Rightarrow> i64" where
  "limitOf l QuotaMediaFiles = MaxMediaFiles l"
| "limitOf l QuotaMediaBytes = MaxMediaBytes l"
| "limitOf l k = MaxMessages l"

text \<open>\<open>evictLocked\<close>: the loop over the map keeps the first entry of the smallest \<open>lastSeen\<close>.\<close>

fun evict_victim :: "(i64 \<times> tenant) option \<Rightarrow> (i64 \<times> tenant) list \<Rightarrow> (i64 \<times> tenant) option" where
  "evict_victim v [] = v"
| "evict_victim None (e # es) = evict_victim (Some e) es"
| "evict_victim (Some v) (e # es) =
     evict_victim (Some (if te_lastSeen (snd e) < te_lastSeen (snd v) then e else v)) es"

definition evictLocked :: "(i64 \<times> tenant) list \<Rightarrow> (i64 \<times> tenant) list" where
  "evictLocked ts = (case evict_victim None ts of Some v \<Rightarrow> AList.delete (fst v) ts | None \<Rightarrow> ts)"

definition new_tenant :: "instant \<Rightarrow> tenant" where
  "new_tenant now = \<lparr>te_messages = 0, te_mediaFiles = 0, te_mediaBytes = 0, te_seeded = False, te_rate = [],
     te_warned = {}, te_blocked = [], te_lastSeen = now\<rparr>"

text \<open>\<open>tenantLocked\<close> returns a pointer into the map: here the tenant, and the map with it in place. \<open>put_tenant\<close>
  is a write through that pointer.\<close>

definition put_tenant :: "i64 \<Rightarrow> tenant \<Rightarrow> Tracker \<Rightarrow> Tracker" where
  "put_tenant owner te tk = tk\<lparr>tk_tenants := AList.update owner te (tk_tenants tk)\<rparr>"

definition tenantLocked :: "i64 \<Rightarrow> instant \<Rightarrow> Tracker \<Rightarrow> tenant \<times> Tracker" where
  "tenantLocked owner now tk =
     (case map_of (tk_tenants tk) owner of
        Some te \<Rightarrow> let te' = te\<lparr>te_lastSeen := now\<rparr> in (te', put_tenant owner te' tk)
      | None \<Rightarrow>
          let tk' = (if maxTenants \<le> int (length (tk_tenants tk)) then tk\<lparr>tk_tenants := evictLocked (tk_tenants tk)\<rparr> else tk)
          in (new_tenant now, put_tenant owner (new_tenant now) tk'))"

type_synonym source_answer = "(int \<times> int \<times> int) option"

text \<open>The end of \<open>resync\<close>: the ledger takes the source's numbers, and each kind that fell back under its
  limit or threshold loses its block or its warning.\<close>

definition clear_kind :: "Limits \<Rightarrow> QuotaKind \<Rightarrow> tenant \<Rightarrow> tenant" where
  "clear_kind l kind te0 =
     (let te1 = (if currentOf te0 kind < limitOf l kind
                 then te0\<lparr>te_blocked := AList.delete kind (te_blocked te0)\<rparr> else te0)
      in if currentOf te1 kind < warnThreshold l (limitOf l kind)
         then te1\<lparr>te_warned := te_warned te1 - {kind}\<rparr> else te1)"

definition apply_source :: "Limits \<Rightarrow> int \<times> int \<times> int \<Rightarrow> tenant \<Rightarrow> tenant" where
  "apply_source l answer te =
     (case answer of (m, f, b) \<Rightarrow>
        foldl (\<lambda>t kind. clear_kind l kind t)
          (te\<lparr>te_messages := max m 0, te_mediaFiles := max f 0, te_mediaBytes := max b 0, te_seeded := True\<rparr>)
          [QuotaMessages, QuotaMediaFiles, QuotaMediaBytes])"

definition resync :: "source_answer \<Rightarrow> i64 \<Rightarrow> Tracker \<Rightarrow> Tracker" where
  "resync answer owner tk0 =
     (if \<not> tk_has_source tk0
      then (case map_of (tk_tenants tk0) owner of
              Some te \<Rightarrow> put_tenant owner (te\<lparr>te_seeded := True\<rparr>) tk0
            | None \<Rightarrow> tk0)
      else
        let tk = tk0\<lparr>tk_reads := tk_reads tk0 + 1\<rparr> in
        case answer of
          None \<Rightarrow> tk
        | Some a \<Rightarrow>
            (case map_of (tk_tenants tk) owner of
               None \<Rightarrow> tk
             | Some te \<Rightarrow> put_tenant owner (apply_source (tk_limits tk) a te) tk))"

definition count_unit :: "QuotaKind \<Rightarrow> tenant \<Rightarrow> tenant" where
  "count_unit kind te =
     (case kind of QuotaMediaFiles \<Rightarrow> te\<lparr>te_mediaFiles := te_mediaFiles te + 1\<rparr>
      | _ \<Rightarrow> te\<lparr>te_messages := te_messages te + 1\<rparr>)"

definition allowLocked :: "QuotaKind \<Rightarrow> i64 \<Rightarrow> i64 \<Rightarrow> bool \<Rightarrow> tenant \<Rightarrow> Admission \<times> tenant" where
  "allowLocked kind limit threshold inc te0 =
     (let te = (if inc then count_unit kind te0 else te0);
          usage = currentOf te kind;
          warn = (threshold \<le> usage \<and> kind \<notin> te_warned te)
      in (\<lparr>Allowed = True, Warn = warn, Quota = kind, Usage = usage, Limit = limit\<rparr>,
          if warn then te\<lparr>te_warned := insert kind (te_warned te)\<rparr> else te))"

definition admit_allow :: "i64 \<Rightarrow> QuotaKind \<Rightarrow> bool \<Rightarrow> tenant \<Rightarrow> Tracker \<Rightarrow> Admission \<times> Tracker" where
  "admit_allow owner kind inc te tk =
     (let limit = limitOf (tk_limits tk) kind;
          (adm, te') = allowLocked kind limit (warnThreshold (tk_limits tk) limit) inc te
      in (adm, put_tenant owner te' tk))"

text \<open>The second half of \<open>admitVolume\<close>: the ledger says over quota, so the source is asked before refusing.\<close>

definition admit_verified :: "source_answer \<Rightarrow> i64 \<Rightarrow> instant \<Rightarrow> QuotaKind \<Rightarrow> bool \<Rightarrow> Tracker \<Rightarrow> Admission \<times> Tracker" where
  "admit_verified verify owner now kind inc tk0 =
     (let (te, tk) = tenantLocked owner now (resync verify owner tk0);
          limit = limitOf (tk_limits tk) kind;
          usage = currentOf te kind
      in if \<not> te_seeded te \<or> usage < limit
         then admit_allow owner kind inc (te\<lparr>te_blocked := AList.delete kind (te_blocked te)\<rparr>) tk
         else (\<lparr>Allowed = False, Warn = True, Quota = kind, Usage = usage, Limit = limit\<rparr>,
               put_tenant owner (te\<lparr>te_blocked := AList.update kind (now + recheckInterval) (te_blocked te),
                                    te_warned := insert kind (te_warned te)\<rparr>) tk))"

definition seeded_tenant :: "source_answer \<Rightarrow> i64 \<Rightarrow> instant \<Rightarrow> Tracker \<Rightarrow> tenant \<times> Tracker" where
  "seeded_tenant seed owner now tk0 =
     (let (te, tk) = tenantLocked owner now tk0
      in if te_seeded te then (te, tk) else tenantLocked owner now (resync seed owner tk))"

definition admitVolume :: "source_answer \<Rightarrow> source_answer \<Rightarrow> i64 \<Rightarrow> instant \<Rightarrow> QuotaKind \<Rightarrow> bool \<Rightarrow> Tracker \<Rightarrow> Admission \<times> Tracker" where
  "admitVolume seed verify owner now kind inc tk0 =
     (let (te, tk) = seeded_tenant seed owner now tk0;
          limit = limitOf (tk_limits tk) kind;
          usage = currentOf te kind
      in if \<not> te_seeded te \<or> usage < limit then admit_allow owner kind inc te tk
         else case map_of (te_blocked te) kind of
             Some until \<Rightarrow>
               if now < until then (\<lparr>Allowed = False, Warn = False, Quota = kind, Usage = usage, Limit = limit\<rparr>, tk)
               else admit_verified verify owner now kind inc tk
           | None \<Rightarrow> admit_verified verify owner now kind inc tk)"

definition refused_owner :: "bool \<Rightarrow> bool \<Rightarrow> QuotaKind \<Rightarrow> i64 \<Rightarrow> Admission" where
  "refused_owner allowed warn kind limit = \<lparr>Allowed = allowed, Warn = warn, Quota = kind, Usage = 0, Limit = limit\<rparr>"

definition AdmitCapture :: "source_answer \<Rightarrow> source_answer \<Rightarrow> i64 \<Rightarrow> instant \<Rightarrow> Tracker \<Rightarrow> Admission \<times> Tracker" where
  "AdmitCapture seed verify owner now tk0 =
     (if owner \<le> 0 then (refused_owner False True QuotaMessages (MaxMessages (tk_limits tk0)), tk0)
      else
        let (te, tk) = tenantLocked owner now tk0;
            kept = pruneBefore (te_rate te) (now - rateWindow);
            cap = CapturesPerMinute (tk_limits tk)
        in if cap \<le> int (length kept)
           then (\<lparr>Allowed = False, Warn = False, Quota = QuotaCaptureRate, Usage = int (length kept), Limit = cap\<rparr>,
                 put_tenant owner (te\<lparr>te_rate := kept\<rparr>) tk)
           else admitVolume seed verify owner now QuotaMessages True (put_tenant owner (te\<lparr>te_rate := kept @ [now]\<rparr>) tk))"

definition AdmitMediaFile :: "source_answer \<Rightarrow> source_answer \<Rightarrow> i64 \<Rightarrow> instant \<Rightarrow> Tracker \<Rightarrow> Admission \<times> Tracker" where
  "AdmitMediaFile seed verify owner now tk =
     (if owner \<le> 0 then (refused_owner False True QuotaMediaFiles (MaxMediaFiles (tk_limits tk)), tk)
      else admitVolume seed verify owner now QuotaMediaFiles True tk)"

definition AdmitMediaBytes :: "source_answer \<Rightarrow> source_answer \<Rightarrow> i64 \<Rightarrow> instant \<Rightarrow> Tracker \<Rightarrow> Admission \<times> Tracker" where
  "AdmitMediaBytes seed verify owner now tk =
     (if owner \<le> 0 then (refused_owner False True QuotaMediaBytes (MaxMediaBytes (tk_limits tk)), tk)
      else admitVolume seed verify owner now QuotaMediaBytes False tk)"

definition AddMediaBytes :: "source_answer \<Rightarrow> i64 \<Rightarrow> int \<Rightarrow> instant \<Rightarrow> Tracker \<Rightarrow> Admission \<times> Tracker" where
  "AddMediaBytes seed owner n now tk0 =
     (if owner \<le> 0 then (refused_owner True False QuotaMediaBytes (MaxMediaBytes (tk_limits tk0)), tk0)
      else
        let (te0, tk) = seeded_tenant seed owner now tk0;
            te = te0\<lparr>te_mediaBytes := te_mediaBytes te0 + max n 0\<rparr>;
            limit = MaxMediaBytes (tk_limits tk);
            warn = (warnThreshold (tk_limits tk) limit \<le> te_mediaBytes te \<and> QuotaMediaBytes \<notin> te_warned te);
            te' = (if warn then te\<lparr>te_warned := insert QuotaMediaBytes (te_warned te)\<rparr> else te)
        in (\<lparr>Allowed = True, Warn = warn, Quota = QuotaMediaBytes, Usage = te_mediaBytes te, Limit = limit\<rparr>,
            put_tenant owner te' tk))"

definition Tracker_Usage :: "i64 \<Rightarrow> Tracker \<Rightarrow> i64 \<times> i64 \<times> i64 \<times> bool" where
  "Tracker_Usage owner tk =
     (case map_of (tk_tenants tk) owner of
        None \<Rightarrow> (0, 0, 0, False)
      | Some te \<Rightarrow> (te_messages te, te_mediaFiles te, te_mediaBytes te, te_seeded te))"

datatype tracker_op =
    OpCapture source_answer source_answer i64
  | OpMediaFile source_answer source_answer i64
  | OpMediaBytes source_answer source_answer i64
  | OpAddBytes source_answer i64 int

fun tracker_step :: "instant \<Rightarrow> tracker_op \<Rightarrow> Tracker \<Rightarrow> Admission \<times> Tracker" where
  "tracker_step now (OpCapture s v owner) tk = AdmitCapture s v owner now tk"
| "tracker_step now (OpMediaFile s v owner) tk = AdmitMediaFile s v owner now tk"
| "tracker_step now (OpMediaBytes s v owner) tk = AdmitMediaBytes s v owner now tk"
| "tracker_step now (OpAddBytes s owner n) tk = AddMediaBytes s owner n now tk"

fun op_owner :: "tracker_op \<Rightarrow> i64" where
  "op_owner (OpCapture s v owner) = owner"
| "op_owner (OpMediaFile s v owner) = owner"
| "op_owner (OpMediaBytes s v owner) = owner"
| "op_owner (OpAddBytes s owner n) = owner"

section \<open>The warning threshold\<close>

lemma percent_split:
  fixes limit p :: int
  assumes "0 \<le> limit" "1 \<le> p" "p < 100"
  shows "limit div 100 * p + (limit mod 100) * p div 100 = limit * p div 100 \<and>
    0 \<le> limit div 100 * p \<and> limit div 100 * p \<le> limit \<and>
    0 \<le> (limit mod 100) * p \<and> (limit mod 100) * p < 10000 \<and> limit * p div 100 \<le> limit"
proof -
  have split: "limit * p = (limit mod 100) * p + 100 * (limit div 100 * p)"
    by (metis (no_types, lifting) add.commute distrib_right mult.assoc mult_div_mod_eq)
  have "limit * p div 100 = (limit mod 100) * p div 100 + limit div 100 * p"
    by (subst split) simp
  moreover have "limit div 100 * p \<le> limit div 100 * 100" using assms by (intro mult_left_mono) auto
  moreover have "(limit mod 100) * p \<le> 99 * 99" using assms by (intro mult_mono) auto
  moreover have "limit * p \<le> limit * 100" using assms by (intro mult_left_mono) auto
  moreover have "limit * p div 100 \<le> limit"
    using zdiv_mono1 [of "limit * p" "limit * 100" 100] assms mult_left_mono [of p 100 limit] by simp
  moreover have "0 \<le> limit div 100 * p" "0 \<le> (limit mod 100) * p" "limit div 100 * 100 \<le> limit"
    using assms by (auto intro: mult_nonneg_nonneg)
  ultimately show ?thesis by linarith
qed

section \<open>The effect of a step on the ledgers\<close>

text \<open>\<open>roomy K\<close>: all tenants ever seen are in \<open>K\<close>, which fits the tracker, so nothing is evicted.\<close>

definition roomy :: "i64 set \<Rightarrow> Tracker \<Rightarrow> bool" where
  "roomy K tk \<longleftrightarrow> finite K \<and> int (card K) \<le> maxTenants \<and> fst ` set (tk_tenants tk) \<subseteq> K \<and>
     distinct (map fst (tk_tenants tk))"

definition rate_of :: "i64 \<Rightarrow> Tracker \<Rightarrow> instant list" where
  "rate_of owner tk = (case map_of (tk_tenants tk) owner of Some te \<Rightarrow> te_rate te | None \<Rightarrow> [])"

definition ledger_step :: "i64 set \<Rightarrow> i64 \<Rightarrow> instant list \<Rightarrow> Tracker \<Rightarrow> Tracker \<Rightarrow> bool" where
  "ledger_step K owner r tk tk' \<longleftrightarrow> roomy K tk' \<and> tk_limits tk' = tk_limits tk \<and> tk_has_source tk' = tk_has_source tk \<and>
     (\<forall>u. u \<noteq> owner \<longrightarrow> map_of (tk_tenants tk') u = map_of (tk_tenants tk) u) \<and> rate_of owner tk' = r"

lemma ledger_step_trans:
  "ledger_step K owner r tk tk1 \<Longrightarrow> ledger_step K owner r' tk1 tk2 \<Longrightarrow> ledger_step K owner r' tk tk2"
  by (auto simp: ledger_step_def)

lemma ledger_step_refl: "roomy K tk \<Longrightarrow> ledger_step K owner (rate_of owner tk) tk tk"
  by (simp add: ledger_step_def)

lemma put_tenant_get [simp]:
  "map_of (tk_tenants (put_tenant owner te tk)) u = (if u = owner then Some te else map_of (tk_tenants tk) u)"
  "tk_limits (put_tenant owner te tk) = tk_limits tk" "tk_has_source (put_tenant owner te tk) = tk_has_source tk"
  "tk_reads (put_tenant owner te tk) = tk_reads tk"
  by (simp_all add: put_tenant_def update_conv')

lemma ledger_step_put:
  "roomy K tk \<Longrightarrow> owner \<in> K \<Longrightarrow> ledger_step K owner (te_rate te) tk (put_tenant owner te tk)"
  by (auto simp: ledger_step_def roomy_def rate_of_def put_tenant_def update_conv' distinct_update
      dom_update [unfolded dom_map_of_conv_image_fst])

text \<open>With room, \<open>tenantLocked\<close> finds or creates the tenant and touches no other.\<close>

lemma tenantLocked_roomy:
  assumes "roomy K tk" "owner \<in> K" "tenantLocked owner now tk = (te, tk')"
  shows "ledger_step K owner (rate_of owner tk) tk tk' \<and> te_rate te = rate_of owner tk \<and>
    map_of (tk_tenants tk') owner = Some te \<and> tk_reads tk' = tk_reads tk \<and>
    (case map_of (tk_tenants tk) owner of Some te0 \<Rightarrow> te = te0\<lparr>te_lastSeen := now\<rparr> | None \<Rightarrow> te = new_tenant now)"
proof (cases "map_of (tk_tenants tk) owner")
  case None
  have "fst ` set (tk_tenants tk) \<subset> K" using assms(1,2) None by (auto simp: roomy_def map_of_eq_None_iff)
  then have "card (fst ` set (tk_tenants tk)) < card K" using assms(1) by (simp add: roomy_def psubset_card_mono)
  moreover have "card (fst ` set (tk_tenants tk)) = length (tk_tenants tk)"
    using assms(1) by (metis roomy_def distinct_card image_set length_map)
  ultimately have "\<not> maxTenants \<le> int (length (tk_tenants tk))" using assms(1) by (simp add: roomy_def)
  then show ?thesis
    using None assms ledger_step_put [OF assms(1,2), of "new_tenant now"]
    by (auto simp: tenantLocked_def Let_def rate_of_def new_tenant_def)
next
  case (Some te0)
  then show ?thesis
    using assms ledger_step_put [OF assms(1,2), of "te0\<lparr>te_lastSeen := now\<rparr>"]
    by (auto simp: tenantLocked_def Let_def rate_of_def)
qed

lemma clear_kind_fields [simp]:
  "te_rate (clear_kind l kind te) = te_rate te" "currentOf (clear_kind l kind te) k = currentOf te k"
  "te_seeded (clear_kind l kind te) = te_seeded te" "te_messages (clear_kind l kind te) = te_messages te"
  "te_mediaFiles (clear_kind l kind te) = te_mediaFiles te" "te_mediaBytes (clear_kind l kind te) = te_mediaBytes te"
  by (cases k; simp add: clear_kind_def Let_def)+

lemma apply_source_fields [simp]:
  "te_rate (apply_source l a te) = te_rate te" "te_seeded (apply_source l a te)"
  by (cases a; simp add: apply_source_def)+

lemma resync_roomy:
  assumes "roomy K tk" "owner \<in> K"
  shows "ledger_step K owner (rate_of owner tk) tk (resync answer owner tk)"
proof -
  have reads: "roomy K (tk\<lparr>tk_reads := n\<rparr>)" for n using assms(1) by (simp add: roomy_def)
  have same: "ledger_step K owner (rate_of owner tk) tk (tk\<lparr>tk_reads := n\<rparr>)" for n
    using reads by (simp add: ledger_step_def rate_of_def)
  show ?thesis
  proof (cases "map_of (tk_tenants tk) owner")
    case None
    then show ?thesis using same ledger_step_refl [OF assms(1)] by (auto simp: resync_def Let_def split: option.splits)
  next
    case (Some te)
    then have r: "te_rate te = rate_of owner tk" by (simp add: rate_of_def)
    have "ledger_step K owner (te_rate te) tk (put_tenant owner (te\<lparr>te_seeded := True\<rparr>) tk)"
      using ledger_step_put [OF assms, of "te\<lparr>te_seeded := True\<rparr>"] by simp
    moreover have "ledger_step K owner (te_rate te) tk (put_tenant owner (apply_source (tk_limits tk) a te) (tk\<lparr>tk_reads := n\<rparr>))" for a n
      using ledger_step_trans [OF same [of n] ledger_step_put [OF reads assms(2), of "apply_source (tk_limits tk) a te"]] by simp
    ultimately show ?thesis using Some r same by (auto simp: resync_def Let_def split: option.splits)
  qed
qed

lemma allowLocked_rate [simp]: "te_rate (snd (allowLocked kind limit threshold inc te)) = te_rate te"
  by (cases kind) (simp_all add: allowLocked_def count_unit_def Let_def)

lemma admit_allow_roomy:
  assumes "roomy K tk" "owner \<in> K"
  shows "ledger_step K owner (te_rate te) tk (snd (admit_allow owner kind inc te tk))"
  using ledger_step_put [OF assms]
  by (auto simp: admit_allow_def Let_def split: prod.splits) (metis allowLocked_rate snd_conv)

lemma admit_verified_roomy:
  assumes "roomy K tk" "owner \<in> K"
  shows "ledger_step K owner (rate_of owner tk) tk (snd (admit_verified verify owner now kind inc tk))"
proof -
  have r: "ledger_step K owner (rate_of owner tk) tk (resync verify owner tk)" using assms by (rule resync_roomy)
  obtain te tk' where t: "tenantLocked owner now (resync verify owner tk) = (te, tk')"
    by (cases "tenantLocked owner now (resync verify owner tk)")
  have T: "ledger_step K owner (rate_of owner tk) tk tk'" "te_rate te = rate_of owner tk" "roomy K tk'"
    using tenantLocked_roomy [OF _ assms(2) t] r ledger_step_trans by (auto simp: ledger_step_def)
  have put: "ledger_step K owner (rate_of owner tk) tk (put_tenant owner te' tk')" if "te_rate te' = te_rate te" for te'
    using ledger_step_trans [OF T(1) ledger_step_put [OF T(3) assms(2), of te']] that T(2) by simp
  have allow: "ledger_step K owner (rate_of owner tk) tk (snd (admit_allow owner kind inc te' tk'))"
    if "te_rate te' = te_rate te" for te'
    using ledger_step_trans [OF T(1) admit_allow_roomy [OF T(3) assms(2), of te' kind inc]] that T(2) by simp
  show ?thesis using t put allow by (simp add: admit_verified_def Let_def)
qed

lemma seeded_tenant_roomy:
  assumes "roomy K tk" "owner \<in> K" "seeded_tenant seed owner now tk = (te, tk')"
  shows "ledger_step K owner (rate_of owner tk) tk tk' \<and> te_rate te = rate_of owner tk \<and>
    map_of (tk_tenants tk') owner = Some te"
proof -
  obtain te1 tk1 where t: "tenantLocked owner now tk = (te1, tk1)" by (cases "tenantLocked owner now tk")
  note T = tenantLocked_roomy [OF assms(1,2) t]
  show ?thesis
  proof (cases "te_seeded te1")
    case True
    then show ?thesis using T t assms(3) by (simp add: seeded_tenant_def)
  next
    case False
    have roomy1: "roomy K tk1" "rate_of owner tk1 = rate_of owner tk" using T by (simp_all add: ledger_step_def)
    have r: "ledger_step K owner (rate_of owner tk) tk (resync seed owner tk1)"
      using ledger_step_trans [of K owner _ tk tk1] T resync_roomy [OF roomy1(1) assms(2)] roomy1(2) by metis
    have t2: "tenantLocked owner now (resync seed owner tk1) = (te, tk')"
      using False t assms(3) by (simp add: seeded_tenant_def)
    have "roomy K (resync seed owner tk1)" "rate_of owner (resync seed owner tk1) = rate_of owner tk"
      using r by (simp_all add: ledger_step_def)
    then show ?thesis using tenantLocked_roomy [OF _ assms(2) t2] ledger_step_trans [OF r] by simp
  qed
qed

lemma admitVolume_roomy:
  assumes "roomy K tk" "owner \<in> K"
  shows "ledger_step K owner (rate_of owner tk) tk (snd (admitVolume seed verify owner now kind inc tk))"
proof -
  obtain te tk' where t: "seeded_tenant seed owner now tk = (te, tk')" by (cases "seeded_tenant seed owner now tk")
  have T: "ledger_step K owner (rate_of owner tk) tk tk'" "te_rate te = rate_of owner tk" "roomy K tk'"
      "rate_of owner tk' = rate_of owner tk"
    using seeded_tenant_roomy [OF assms t] by (auto simp: ledger_step_def)
  have "ledger_step K owner (rate_of owner tk) tk (snd (admit_allow owner kind inc te tk'))"
    using ledger_step_trans [OF T(1) admit_allow_roomy [OF T(3) assms(2), of te]] T(2) by simp
  moreover have "ledger_step K owner (rate_of owner tk) tk (snd (admit_verified verify owner now kind inc tk'))"
    using ledger_step_trans [OF T(1) admit_verified_roomy [OF T(3) assms(2)]] T(4) by simp
  ultimately show ?thesis using t T(1) by (simp add: admitVolume_def Let_def split: option.splits)
qed

section \<open>The sliding window\<close>

definition in_window :: "instant list \<Rightarrow> instant \<Rightarrow> nat" where
  "in_window xs a = length (filter (\<lambda>x. a < x \<and> x \<le> a + rateWindow) xs)"

text \<open>\<open>history\<close> is every capture of the owner the rate let through, in order: what the ledger keeps of it is what
  no later prune has dropped.\<close>

definition rate_inv :: "i64 set \<Rightarrow> i64 \<Rightarrow> instant \<Rightarrow> instant list \<Rightarrow> Tracker \<Rightarrow> bool" where
  "rate_inv K owner t history tk \<longleftrightarrow> roomy K tk \<and> (\<forall>x \<in> set history. x \<le> t) \<and>
     (\<exists>c. c \<le> t - rateWindow \<and> rate_of owner tk = filter (\<lambda>x. c < x) history) \<and>
     (\<forall>a. int (in_window history a) \<le> CapturesPerMinute (tk_limits tk))"

definition passed_rate :: "i64 \<Rightarrow> tracker_op \<Rightarrow> Admission \<Rightarrow> bool" where
  "passed_rate owner op adm \<longleftrightarrow> 0 < owner \<and> op_owner op = owner \<and> Quota adm \<noteq> QuotaCaptureRate \<and>
     (case op of OpCapture s v w \<Rightarrow> True | _ \<Rightarrow> False)"

text \<open>The times at which a run let captures of the owner through the rate.\<close>

definition rate_passes :: "i64 \<Rightarrow> (instant \<times> tracker_op) list \<Rightarrow> Admission list \<Rightarrow> instant list" where
  "rate_passes owner ops adms = map (fst \<circ> fst) (filter (\<lambda>((now, op), adm). passed_rate owner op adm) (zip ops adms))"

lemma admit_allow_quota [simp]: "Quota (fst (admit_allow owner kind inc te tk)) = kind"
  by (simp add: admit_allow_def allowLocked_def Let_def)

lemma admitVolume_quota [simp]: "Quota (fst (admitVolume seed verify owner now kind inc tk)) = kind"
  by (simp add: admitVolume_def admit_verified_def Let_def split: prod.splits option.splits)

lemma AdmitCapture_rate:
  assumes "rate_inv K owner t history tk" "owner \<in> K" "0 < owner" "t \<le> now" "AdmitCapture seed verify owner now tk = (adm, tk')"
  shows "rate_inv K owner now (if Quota adm = QuotaCaptureRate then history else history @ [now]) tk' \<and>
    tk_limits tk' = tk_limits tk"
proof -
  obtain te tk1 where t: "tenantLocked owner now tk = (te, tk1)" by (cases "tenantLocked owner now tk")
  have roomy: "roomy K tk" using assms(1) by (simp add: rate_inv_def)
  note T = tenantLocked_roomy [OF roomy assms(2) t]
  obtain c where c: "c \<le> t - rateWindow" "rate_of owner tk = filter (\<lambda>x. c < x) history"
    using assms(1) by (auto simp: rate_inv_def)
  let ?kept = "filter (\<lambda>x. now - rateWindow < x) history"
  have kept: "pruneBefore (te_rate te) (now - rateWindow) = ?kept"
    using T c assms(4) by (simp add: pruneBefore_def) (rule filter_cong, auto)
  let ?cap = "CapturesPerMinute (tk_limits tk)"
  have step: "ledger_step K owner r tk (put_tenant owner (te\<lparr>te_rate := r\<rparr>) tk1)" for r
    using T ledger_step_trans [of K owner _ tk tk1 r] ledger_step_put [of K tk1 owner "te\<lparr>te_rate := r\<rparr>"] assms(2)
    by (simp add: ledger_step_def)
  show ?thesis
  proof (cases "?cap \<le> int (length ?kept)")
    case True
    then have tk': "tk' = put_tenant owner (te\<lparr>te_rate := ?kept\<rparr>) tk1" and q: "Quota adm = QuotaCaptureRate"
      using assms(3,5) t kept T by (auto simp: AdmitCapture_def Let_def ledger_step_def)
    show ?thesis
      using step [of ?kept] assms(1,4) q unfolding tk' rate_inv_def
      by (auto simp: ledger_step_def intro: exI [of _ "now - rateWindow"])
  next
    case False
    let ?h = "history @ [now]" and ?tk2 = "put_tenant owner (te\<lparr>te_rate := ?kept @ [now]\<rparr>) tk1"
    have r: "(adm, tk') = admitVolume seed verify owner now QuotaMessages True ?tk2"
      using False assms(3,5) t kept T by (auto simp: AdmitCapture_def Let_def ledger_step_def)
    have q: "Quota adm = QuotaMessages" using admitVolume_quota r by (metis fst_conv)
    have s2: "ledger_step K owner (?kept @ [now]) tk ?tk2" by (rule step)
    have s3: "ledger_step K owner (?kept @ [now]) tk tk'"
      using ledger_step_trans [OF s2 admitVolume_roomy [of K ?tk2 owner seed verify now QuotaMessages True]] s2 assms(2) r
      by (metis ledger_step_def snd_conv)
    have "int (in_window ?h a) \<le> ?cap" for a
    proof (cases "a < now \<and> now \<le> a + rateWindow")
      case True
      have "in_window history a \<le> length ?kept"
      proof -
        have "filter (\<lambda>x. a < x \<and> x \<le> a + rateWindow) history
            = filter (\<lambda>x. a < x \<and> x \<le> a + rateWindow) ?kept"
          using True by (simp add: conj_ac) (rule filter_cong, auto)
        then show ?thesis unfolding in_window_def by (metis length_filter_le)
      qed
      then show ?thesis using True False by (simp add: in_window_def)
    next
      case False
      then show ?thesis using assms(1) by (auto simp: in_window_def rate_inv_def)
    qed
    moreover have "rateWindow > 0" by (simp add: rateWindow_def)
    ultimately show ?thesis
      using s3 q assms(1,4) unfolding rate_inv_def
      by (auto simp: ledger_step_def intro!: exI [of _ "now - rateWindow"])
  qed
qed

lemma other_op_rate:
  assumes "rate_inv K owner t history tk" "op_owner op \<in> K" "t \<le> now" "\<not> (\<exists>s v. op = OpCapture s v owner)"
  shows "rate_inv K owner now history (snd (tracker_step now op tk)) \<and> tk_limits (snd (tracker_step now op tk)) = tk_limits tk"
proof -
  let ?tk = "snd (tracker_step now op tk)" and ?w = "op_owner op"
  have roomy: "roomy K tk" using assms(1) by (simp add: rate_inv_def)
  have "\<exists>r. ledger_step K ?w r tk ?tk \<and> (?w = owner \<longrightarrow> r = rate_of owner tk)"
  proof (cases op)
    case (OpCapture s v w)
    obtain te tk1 where t: "tenantLocked w now tk = (te, tk1)" by (cases "tenantLocked w now tk")
    have w: "w \<in> K" "w \<noteq> owner" using assms(2,4) OpCapture by auto
    note T = tenantLocked_roomy [OF roomy w(1) t]
    have put: "ledger_step K w r tk (put_tenant w (te\<lparr>te_rate := r\<rparr>) tk1)" for r
      using T ledger_step_trans [of K w _ tk tk1 r] ledger_step_put [of K tk1 w "te\<lparr>te_rate := r\<rparr>"] w
      by (simp add: ledger_step_def)
    have "ledger_step K w r tk (snd (admitVolume s v w now QuotaMessages True (put_tenant w (te\<lparr>te_rate := r\<rparr>) tk1)))" for r
      using ledger_step_trans [OF put [of r] admitVolume_roomy [OF _ w(1)]] put [of r] by (simp add: ledger_step_def)
    then show ?thesis
      using OpCapture w t put ledger_step_refl [OF roomy, of w] by (auto simp: AdmitCapture_def Let_def)
  next
    case (OpMediaFile s v w)
    then show ?thesis
      using admitVolume_roomy [OF roomy, of w s v now QuotaMediaFiles True] assms(2) ledger_step_refl [OF roomy, of w]
      by (auto simp: AdmitMediaFile_def)
  next
    case (OpMediaBytes s v w)
    then show ?thesis
      using admitVolume_roomy [OF roomy, of w s v now QuotaMediaBytes False] assms(2) ledger_step_refl [OF roomy, of w]
      by (auto simp: AdmitMediaBytes_def)
  next
    case (OpAddBytes s w n)
    obtain te tk1 where t: "seeded_tenant s w now tk = (te, tk1)" by (cases "seeded_tenant s w now tk")
    have w: "w \<in> K" using assms(2) OpAddBytes by simp
    note T = seeded_tenant_roomy [OF roomy w t]
    have "ledger_step K w (rate_of w tk) tk (put_tenant w te' tk1)" if "te_rate te' = te_rate te" for te'
      using T ledger_step_trans [of K w _ tk tk1] ledger_step_put [of K tk1 w te'] w that by (simp add: ledger_step_def)
    then show ?thesis
      using OpAddBytes t ledger_step_refl [OF roomy, of w]
      by (intro exI [of _ "rate_of w tk"]) (auto simp: AddMediaBytes_def Let_def)
  qed
  then obtain r where r: "ledger_step K ?w r tk ?tk" "?w = owner \<longrightarrow> r = rate_of owner tk" by blast
  then have "rate_of owner ?tk = rate_of owner tk" by (cases "?w = owner") (auto simp: ledger_step_def rate_of_def)
  moreover obtain c where "c \<le> t - rateWindow" "rate_of owner tk = filter (\<lambda>x. c < x) history"
    using assms(1) by (auto simp: rate_inv_def)
  then have "\<exists>c \<le> now - rateWindow. rate_of owner tk = filter (\<lambda>x. c < x) history"
    using assms(3) by (intro exI [of _ c]) simp
  moreover have "\<forall>x \<in> set history. x \<le> now" using assms(1,3) by (auto simp: rate_inv_def)
  ultimately show ?thesis using assms(1) r(1) by (simp add: rate_inv_def ledger_step_def)
qed

text \<open>The bound over a whole run: each call extends the history by what it let through.\<close>

lemma rate_run:
  assumes "rate_inv K owner t history tk" "owner \<in> K" "0 < owner"
    and "\<forall>(now, op) \<in> set ops. op_owner op \<in> K" "sorted (t # map fst ops)"
  shows "int (in_window (history @ rate_passes owner ops (fst (run_ops tracker_step ops tk))) a)
    \<le> CapturesPerMinute (tk_limits tk)"
  using assms
proof (induction ops arbitrary: t history tk)
  case Nil
  then show ?case by (simp add: rate_inv_def rate_passes_def)
next
  case (Cons p ops)
  obtain now op where p: "p = (now, op)" by (cases p)
  obtain adm tk' where st: "tracker_step now op tk = (adm, tk')" by (cases "tracker_step now op tk")
  have le: "t \<le> now" and sorted: "sorted (now # map fst ops)" using Cons.prems(5) p by auto
  let ?h = "if passed_rate owner op adm then history @ [now] else history"
  have "rate_inv K owner now ?h tk' \<and> tk_limits tk' = tk_limits tk"
  proof (cases "\<exists>s v. op = OpCapture s v owner")
    case True
    then obtain s v where op: "op = OpCapture s v owner" by blast
    then have "AdmitCapture s v owner now tk = (adm, tk')" using st by simp
    from AdmitCapture_rate [OF Cons.prems(1-3) le this] show ?thesis
      using op Cons.prems(3) by (auto simp: passed_rate_def)
  next
    case False
    then have "\<not> passed_rate owner op adm" by (auto simp: passed_rate_def split: tracker_op.splits)
    then show ?thesis using other_op_rate [OF Cons.prems(1) _ le, of op] Cons.prems(4) p False st by simp
  qed
  then have "int (in_window (?h @ rate_passes owner ops (fst (run_ops tracker_step ops tk'))) a)
      \<le> CapturesPerMinute (tk_limits tk)"
    using Cons.IH [of now ?h tk'] Cons.prems(2-4) sorted by auto
  moreover have "history @ rate_passes owner (p # ops) (fst (run_ops tracker_step (p # ops) tk))
      = ?h @ rate_passes owner ops (fst (run_ops tracker_step ops tk'))"
    using p st by (simp add: rate_passes_def split: prod.splits)
  ultimately show ?case by simp
qed

lemma evict_victim_mem: "evict_victim v es = Some x \<Longrightarrow> x \<in> set es \<or> v = Some x"
  by (induction v es rule: evict_victim.induct) (auto split: if_splits)

lemma evict_victim_some: "evict_victim v es = None \<longleftrightarrow> v = None \<and> es = []"
  by (induction v es rule: evict_victim.induct) auto

lemma evictLocked_length:
  "distinct (map fst ts) \<Longrightarrow> ts \<noteq> [] \<Longrightarrow> Suc (length (evictLocked ts)) = length ts \<and> distinct (map fst (evictLocked ts))"
proof -
  assume d: "distinct (map fst ts)" "ts \<noteq> []"
  then obtain v where v: "evict_victim None ts = Some v" "v \<in> set ts"
    using evict_victim_some [of None ts] evict_victim_mem [of None ts] by fastforce
  have "length (AList.delete (fst v) ts) = length (remove1 (fst v) (map fst ts))"
    using d(1) by (metis delete_keys length_map distinct_remove1_removeAll removeAll_filter_not_eq)
  moreover have "length (remove1 (fst v) (map fst ts)) = length ts - 1" using v(2) by (simp add: length_remove1)
  moreover have "evictLocked ts = AList.delete (fst v) ts" using v(1) by (simp add: evictLocked_def)
  moreover have "length ts > 0" using d(2) by simp
  ultimately show ?thesis using distinct_delete [OF d(1)] by simp
qed

section \<open>The size of the tracker\<close>

definition holds_tenant :: "i64 \<Rightarrow> Tracker \<Rightarrow> bool" where
  "holds_tenant owner tk \<longleftrightarrow> owner \<in> fst ` set (tk_tenants tk)"

definition bounded :: "Tracker \<Rightarrow> bool" where
  "bounded tk \<longleftrightarrow> int (length (tk_tenants tk)) \<le> maxTenants \<and> distinct (map fst (tk_tenants tk))"

lemma bounded_put:
  assumes "bounded tk" "holds_tenant owner tk \<or> int (length (tk_tenants tk)) < maxTenants"
  shows "bounded (put_tenant owner te tk) \<and> holds_tenant owner (put_tenant owner te tk)"
proof -
  have keys: "map fst (AList.update owner te (tk_tenants tk)) =
      (if owner \<in> set (map fst (tk_tenants tk)) then map fst (tk_tenants tk) else map fst (tk_tenants tk) @ [owner])"
    by (rule update_keys)
  have "length (AList.update owner te (tk_tenants tk)) = length (map fst (AList.update owner te (tk_tenants tk)))" by simp
  then show ?thesis
    using assms keys distinct_update [of "tk_tenants tk" owner te]
    by (auto simp: bounded_def holds_tenant_def put_tenant_def update_conv' image_iff
        simp flip: set_map split: if_splits)
qed

lemma tenantLocked_bounded:
  "bounded tk \<Longrightarrow> bounded (snd (tenantLocked owner now tk)) \<and> holds_tenant owner (snd (tenantLocked owner now tk))"
proof (cases "map_of (tk_tenants tk) owner")
  case None
  assume b: "bounded tk"
  let ?tk = "if maxTenants \<le> int (length (tk_tenants tk)) then tk\<lparr>tk_tenants := evictLocked (tk_tenants tk)\<rparr> else tk"
  have "tk_tenants tk \<noteq> []" if "maxTenants \<le> int (length (tk_tenants tk))" using that by (auto simp: maxTenants_def)
  then have "bounded ?tk" "int (length (tk_tenants ?tk)) < maxTenants"
    using b evictLocked_length [of "tk_tenants tk"] by (auto simp: bounded_def)
  then show ?thesis using None bounded_put [of ?tk owner "new_tenant now"] by (simp add: tenantLocked_def Let_def)
next
  case (Some te)
  assume b: "bounded tk"
  have "holds_tenant owner tk" using map_of_SomeD [OF Some] by (force simp: holds_tenant_def)
  then show ?thesis using Some b bounded_put by (simp add: tenantLocked_def Let_def)
qed

lemma resync_bounded:
  assumes "bounded tk" "holds_tenant owner tk"
  shows "bounded (resync answer owner tk) \<and> holds_tenant owner (resync answer owner tk)"
proof -
  have r: "bounded (tk\<lparr>tk_reads := n\<rparr>)" "holds_tenant owner (tk\<lparr>tk_reads := n\<rparr>)" for n
    using assms by (simp_all add: bounded_def holds_tenant_def)
  show ?thesis
    using assms r bounded_put [OF assms(1)] bounded_put [OF r(1)]
    by (auto simp: resync_def Let_def split: option.splits)
qed

lemma admit_bounded:
  assumes "bounded tk" "holds_tenant owner tk"
  shows "bounded (snd (admit_allow owner kind inc te tk))" "bounded (snd (admit_verified verify owner now kind inc tk))"
proof -
  have allow: "bounded (snd (admit_allow owner kind inc te tk))" if "bounded tk" "holds_tenant owner tk" for te tk
    using bounded_put that by (simp add: admit_allow_def Let_def split: prod.splits)
  then show "bounded (snd (admit_allow owner kind inc te tk))" using assms .
  obtain te1 tk1 where t: "tenantLocked owner now (resync verify owner tk) = (te1, tk1)"
    by (cases "tenantLocked owner now (resync verify owner tk)")
  then have "bounded tk1" "holds_tenant owner tk1"
    using tenantLocked_bounded [of "resync verify owner tk" owner now] resync_bounded [OF assms] by simp_all
  then show "bounded (snd (admit_verified verify owner now kind inc tk))"
    using t allow bounded_put by (simp add: admit_verified_def Let_def)
qed

lemma seeded_tenant_bounded:
  assumes "bounded tk" "seeded_tenant seed owner now tk = (te, tk')"
  shows "bounded tk' \<and> holds_tenant owner tk'"
proof -
  obtain te1 tk1 where t: "tenantLocked owner now tk = (te1, tk1)" by (cases "tenantLocked owner now tk")
  have b: "bounded tk1 \<and> holds_tenant owner tk1" using tenantLocked_bounded [OF assms(1), of owner now] t by simp
  then have "bounded (resync seed owner tk1)" using resync_bounded by blast
  then show ?thesis
    using assms(2) t b tenantLocked_bounded [of "resync seed owner tk1" owner now]
    by (auto simp: seeded_tenant_def split: if_splits)
qed

lemma admitVolume_bounded: "bounded tk \<Longrightarrow> bounded (snd (admitVolume seed verify owner now kind inc tk))"
proof -
  assume b: "bounded tk"
  obtain te tk' where t: "seeded_tenant seed owner now tk = (te, tk')" by (cases "seeded_tenant seed owner now tk")
  show ?thesis
    using t seeded_tenant_bounded [OF b t] admit_bounded by (simp add: admitVolume_def Let_def split: option.splits)
qed

lemma tracker_step_bounded: "bounded tk \<Longrightarrow> bounded (snd (tracker_step now op tk))"
proof (cases op)
  case (OpCapture s v w)
  assume b: "bounded tk"
  obtain te tk1 where t: "tenantLocked w now tk = (te, tk1)" by (cases "tenantLocked w now tk")
  have "bounded (put_tenant w te' tk1)" for te' using tenantLocked_bounded [OF b, of w now] t bounded_put by simp
  then show ?thesis using OpCapture b t admitVolume_bounded by (simp add: AdmitCapture_def Let_def)
next
  case (OpAddBytes s w n)
  assume b: "bounded tk"
  obtain te tk1 where t: "seeded_tenant s w now tk = (te, tk1)" by (cases "seeded_tenant s w now tk")
  have "bounded (put_tenant w te' tk1)" for te' using seeded_tenant_bounded [OF b t] bounded_put by simp
  then show ?thesis using OpAddBytes b t by (simp add: AddMediaBytes_def Let_def)
qed (simp_all add: AdmitMediaFile_def AdmitMediaBytes_def admitVolume_bounded)


section \<open>What one volume admission answers\<close>

lemma tenantLocked_get: "tenantLocked owner now tk = (te, tk') \<Longrightarrow>
    map_of (tk_tenants tk') owner = Some te \<and> tk_limits tk' = tk_limits tk \<and> tk_has_source tk' = tk_has_source tk \<and>
    tk_reads tk' = tk_reads tk \<and> (\<forall>te0. map_of (tk_tenants tk) owner = Some te0 \<longrightarrow> te = te0\<lparr>te_lastSeen := now\<rparr>)"
  by (auto simp: tenantLocked_def Let_def split: option.splits if_splits)

lemma resync_get:
  "tk_has_source tk \<Longrightarrow> map_of (tk_tenants tk) owner = Some te \<Longrightarrow>
    map_of (tk_tenants (resync answer owner tk)) owner =
      Some (case answer of Some a \<Rightarrow> apply_source (tk_limits tk) a te | None \<Rightarrow> te) \<and>
    tk_limits (resync answer owner tk) = tk_limits tk \<and> tk_has_source (resync answer owner tk) = tk_has_source tk \<and>
    tk_reads (resync answer owner tk) = tk_reads tk + 1"
  by (auto simp: resync_def Let_def split: option.splits)

lemma tenantLocked_known:
  "map_of (tk_tenants tk) owner = Some te \<Longrightarrow>
    tenantLocked owner now tk = (te\<lparr>te_lastSeen := now\<rparr>, put_tenant owner (te\<lparr>te_lastSeen := now\<rparr>) tk)"
  by (simp add: tenantLocked_def Let_def)

lemma currentOf_updates [simp]:
  "currentOf (te\<lparr>te_lastSeen := t\<rparr>) k = currentOf te k" "currentOf (te\<lparr>te_rate := r\<rparr>) k = currentOf te k"
  "currentOf (te\<lparr>te_warned := w\<rparr>) k = currentOf te k" "currentOf (te\<lparr>te_blocked := b\<rparr>) k = currentOf te k"
  by (cases k; simp)+

lemma seeded_tenant_seeded:
  assumes "tk_has_source tk" "seeded_tenant (Some a) owner now tk = (te, tk')"
  shows "te_seeded te \<and> map_of (tk_tenants tk') owner = Some te \<and> tk_limits tk' = tk_limits tk \<and> tk_has_source tk'"
proof -
  obtain te1 tk1 where t: "tenantLocked owner now tk = (te1, tk1)" by (cases "tenantLocked owner now tk")
  note G = tenantLocked_get [OF t]
  have R: "map_of (tk_tenants (resync (Some a) owner tk1)) owner = Some (apply_source (tk_limits tk) a te1)"
    "tk_limits (resync (Some a) owner tk1) = tk_limits tk" "tk_has_source (resync (Some a) owner tk1)"
    using resync_get [of tk1 owner te1 "Some a"] G assms(1) by simp_all
  show ?thesis using assms(2) t G R assms(1)
    by (auto simp: seeded_tenant_def tenantLocked_known [OF R(1)] split: if_splits)
qed

lemma admit_allow_answer:
  "kind \<noteq> QuotaCaptureRate \<Longrightarrow> admit_allow owner kind (kind \<noteq> QuotaMediaBytes) te tk = (adm, tk') \<Longrightarrow>
    Allowed adm \<and> Usage adm = currentOf te kind + (if kind \<noteq> QuotaMediaBytes then 1 else 0) \<and>
    (\<exists>te'. map_of (tk_tenants tk') owner = Some te' \<and> currentOf te' kind = Usage adm \<and> te_seeded te' = te_seeded te)"
  by (cases kind) (auto simp: admit_allow_def allowLocked_def count_unit_def Let_def)

section \<open>Properties\<close>

definition sample_limits :: Limits where
  "sample_limits = \<lparr>MaxMessages = 2, MaxMediaFiles = 5, MaxMediaBytes = 100, CapturesPerMinute = 3, WarnPercent = 80\<rparr>"

definition sample_tracker :: Tracker where
  "sample_tracker = \<lparr>tk_limits = sample_limits, tk_has_source = True, tk_tenants = [], tk_reads = 0\<rparr>"

text \<open>The warning threshold is the exact percentage of the limit, rounded down: for validated limits and any
  limit of the 64-bit range, the quotient and remainder computation never wraps, and the threshold is at most
  the limit.\<close>

theorem warn_threshold_exact:
  assumes "Limits_Validate l = None" "0 \<le> limit" "in_i64 limit"
  shows "warnThreshold l limit = limit * WarnPercent l div 100 \<and> 0 \<le> warnThreshold l limit \<and> warnThreshold l limit \<le> limit"
proof -
  have p: "1 \<le> WarnPercent l" "WarnPercent l < 100" using assms(1) by (auto simp: Limits_Validate_def split: if_splits)
  note S = percent_split [OF assms(2) p]
  have "in_i64 (limit div 100 * WarnPercent l)" "in_i64 (limit mod 100 * WarnPercent l)"
    using S assms(3) by (auto simp: in_i64_def)
  moreover have "0 \<le> limit * WarnPercent l div 100" using assms(2) p by (simp add: pos_imp_zdiv_nonneg_iff)
  moreover have "in_i64 (limit * WarnPercent l div 100)" using S assms(3) calculation(3) by (auto simp: in_i64_def)
  ultimately show ?thesis using S assms(2) p by (simp add: warnThreshold_def Let_def)
qed

theorem warn_threshold_exact_witness:
  "warnThreshold DefaultLimits (2 ^ 63 - 1) = (2 ^ 63 - 1) * 80 div 100"
  using warn_threshold_exact [of DefaultLimits "2 ^ 63 - 1"]
  by (simp add: DefaultLimits_def Limits_Validate_def in_i64_def)

text \<open>C33. The capture rate is a true sliding window: in any run of admissions of any tenants, of any kind, with
  any answers of the database, no interval of one minute contains more captures of a tenant that passed the
  rate check than \<open>CapturesPerMinute\<close>, as long as the tracker sees no more tenants than it can hold and the
  clock does not run backwards.\<close>

theorem capture_rate_bounded:
  assumes "NewTracker limits src = Inr tk" "sorted (map fst ops)"
    and "int (card (set (map (op_owner \<circ> snd) ops))) \<le> maxTenants"
  shows "int (in_window (rate_passes owner ops (fst (run_ops tracker_step ops tk))) a) \<le> CapturesPerMinute limits"
proof -
  have tk: "tk = \<lparr>tk_limits = limits, tk_has_source = src, tk_tenants = [], tk_reads = 0\<rparr>" "0 < CapturesPerMinute limits"
    using assms(1) by (auto simp: NewTracker_def Limits_Validate_def split: if_splits option.splits)
  let ?K = "set (map (op_owner \<circ> snd) ops)"
  show ?thesis
  proof (cases "owner \<in> ?K \<and> 0 < owner")
    case False
    then have "rate_passes owner ops adms = []" for adms
      by (force simp: rate_passes_def passed_rate_def filter_empty_conv dest: set_zip_leftD)
    then show ?thesis using tk(2) by (simp add: in_window_def)
  next
    case True
    then obtain p ops' where ops: "ops = p # ops'" by (cases ops) auto
    have "rate_inv ?K owner (fst p) [] tk"
      using tk assms(3) by (auto simp: rate_inv_def roomy_def rate_of_def in_window_def intro: exI [of _ "fst p - rateWindow"])
    moreover have "sorted (fst p # map fst ops)" using assms(2) ops by auto
    moreover have "\<forall>(now, op) \<in> set ops. op_owner op \<in> ?K" by force
    ultimately show ?thesis using rate_run [of ?K owner "fst p" "[]" tk ops a] True tk(1) by simp
  qed
qed

definition flood :: "(instant \<times> tracker_op) list" where
  "flood = map (\<lambda>t. (t, OpCapture (Some (0, 0, 0)) None 7)) [1, 2, 3, 4, 5]"

theorem capture_rate_bounded_witness:
  "int (in_window (rate_passes 7 flood (fst (run_ops tracker_step flood sample_tracker))) 0) \<le> 3 \<and>
   rate_passes 7 flood (fst (run_ops tracker_step flood sample_tracker)) = [1, 2, 3]"
proof -
  have new: "NewTracker sample_limits True = Inr sample_tracker"
    by (simp add: NewTracker_def Limits_Validate_def sample_limits_def sample_tracker_def)
  have r: "rate_passes 7 flood (fst (run_ops tracker_step flood sample_tracker)) = [1, 2, 3]" by code_simp
  show ?thesis
    using capture_rate_bounded [OF new, of flood 7 0] r by (simp add: flood_def maxTenants_def sample_limits_def)
qed

text \<open>C34. A volume quota is enforced exactly by the ledger while the database answers: an admission is allowed
  only when the unit it counts still fits the limit, a refusal only happens at or above the limit, and the
  usage it reports is the ledger's, seeded from the database.\<close>

theorem volume_quota_enforced:
  assumes "tk_has_source tk" "kind \<noteq> QuotaCaptureRate"
    and "admitVolume (Some a) verify owner now kind (kind \<noteq> QuotaMediaBytes) tk = (adm, tk')"
  shows "(Allowed adm \<longrightarrow> Usage adm \<le> limitOf (tk_limits tk) kind) \<and> (\<not> Allowed adm \<longrightarrow> limitOf (tk_limits tk) kind \<le> Usage adm) \<and>
    (\<exists>te. map_of (tk_tenants tk') owner = Some te \<and> te_seeded te \<and> currentOf te kind = Usage adm)"
proof -
  let ?inc = "kind \<noteq> QuotaMediaBytes" and ?limit = "limitOf (tk_limits tk) kind"
  obtain te tk1 where t: "seeded_tenant (Some a) owner now tk = (te, tk1)" by (cases "seeded_tenant (Some a) owner now tk")
  note S = seeded_tenant_seeded [OF assms(1) t]
  have allow: ?thesis if "currentOf te1 kind < ?limit" "te_seeded te1" "admit_allow owner kind ?inc te1 tk2 = (adm, tk')" for te1 tk2
    using admit_allow_answer [OF assms(2) that(3)] that(1,2) by auto
  have verified: ?thesis if v: "admit_verified verify owner now kind ?inc tk1 = (adm, tk')"
  proof -
    let ?te = "case verify of Some a \<Rightarrow> apply_source (tk_limits tk) a te | None \<Rightarrow> te"
    have R: "map_of (tk_tenants (resync verify owner tk1)) owner = Some ?te" "tk_limits (resync verify owner tk1) = tk_limits tk"
      using resync_get [of tk1 owner te verify] S by (simp_all split: option.splits)
    have seeded: "te_seeded ?te" using S by (simp split: option.splits)
    show ?thesis
    proof (cases "currentOf ?te kind < ?limit")
      case True
      then show ?thesis
        using v allow [of "?te\<lparr>te_lastSeen := now, te_blocked := AList.delete kind (te_blocked ?te)\<rparr>"] seeded
        by (simp add: admit_verified_def tenantLocked_known [OF R(1)] R(2) Let_def)
    next
      case False
      then show ?thesis
        using v seeded by (auto simp: admit_verified_def tenantLocked_known [OF R(1)] R(2) Let_def)
    qed
  qed
  show ?thesis
    using assms(3) t S allow verified
    by (auto simp: admitVolume_def Let_def split: option.splits if_splits)
qed

theorem volume_quota_enforced_witness:
  "let adm = fst (admitVolume (Some (2, 0, 0)) (Some (2, 0, 0)) 7 10 QuotaMessages True sample_tracker)
   in \<not> Allowed adm \<and> limitOf sample_limits QuotaMessages \<le> Usage adm"
proof -
  let ?r = "admitVolume (Some (2, 0, 0)) (Some (2, 0, 0)) 7 10 QuotaMessages True sample_tracker"
  have no: "\<not> Allowed (fst ?r)" by code_simp
  have src: "tk_has_source sample_tracker" "tk_limits sample_tracker = sample_limits" by (simp_all add: sample_tracker_def)
  have r: "admitVolume (Some (2, 0, 0)) (Some (2, 0, 0)) 7 10 QuotaMessages (QuotaMessages \<noteq> QuotaMediaBytes) sample_tracker
      = (fst ?r, snd ?r)" by simp
  show ?thesis using volume_quota_enforced [OF src(1) _ r] no src(2) by (simp add: Let_def)
qed

text \<open>A saturated tenant is cheap and quiet: after a fresh refusal (the one that warns), every admission of
  the same kind within the recheck interval is refused again, without a read of the database and without
  another warning.\<close>

theorem refusal_memoised:
  assumes "admitVolume seed verify owner now kind inc tk = (adm, tk')" "\<not> Allowed adm" "Warn adm"
    and "now2 < now + recheckInterval"
    and "admitVolume seed2 verify2 owner now2 kind inc2 tk' = (adm2, tk2)"
  shows "\<not> Allowed adm2 \<and> \<not> Warn adm2 \<and> tk_reads tk2 = tk_reads tk' \<and> Usage adm2 = Usage adm"
proof -
  have "\<exists>te. map_of (tk_tenants tk') owner = Some te \<and> te_seeded te \<and> limitOf (tk_limits tk') kind \<le> currentOf te kind \<and>
      currentOf te kind = Usage adm \<and> map_of (te_blocked te) kind = Some (now + recheckInterval)"
    using assms(1-3)
    by (auto simp: admitVolume_def admit_verified_def admit_allow_def allowLocked_def Let_def update_conv'
        dest: tenantLocked_get split: prod.splits option.splits if_splits)
  then obtain te where te: "map_of (tk_tenants tk') owner = Some te" "te_seeded te"
    "limitOf (tk_limits tk') kind \<le> currentOf te kind" "currentOf te kind = Usage adm"
    "map_of (te_blocked te) kind = Some (now + recheckInterval)" by blast
  then show ?thesis
    using assms(4,5) by (auto simp: admitVolume_def seeded_tenant_def tenantLocked_known [OF te(1)] Let_def)
qed

theorem refusal_memoised_witness:
  "let r1 = admitVolume (Some (2, 0, 0)) (Some (2, 0, 0)) 7 10 QuotaMessages True sample_tracker;
     r2 = admitVolume None None 7 20 QuotaMessages True (snd r1)
   in \<not> Allowed (fst r1) \<and> \<not> Allowed (fst r2) \<and> \<not> Warn (fst r2) \<and> tk_reads (snd r2) = 2"
proof -
  let ?r = "admitVolume (Some (2, 0, 0)) (Some (2, 0, 0)) 7 10 QuotaMessages True sample_tracker"
  let ?r2 = "admitVolume None None 7 20 QuotaMessages True (snd ?r)"
  have r: "?r = (fst ?r, snd ?r)" and r2: "?r2 = (fst ?r2, snd ?r2)" by simp_all
  have no: "\<not> Allowed (fst ?r)" "Warn (fst ?r)" "tk_reads (snd ?r) = 2" by code_simp+
  have "(20::int) < 10 + recheckInterval" by (simp add: recheckInterval_def)
  from refusal_memoised [OF r no(1,2) this r2] no show ?thesis by (simp add: Let_def)
qed

text \<open>The tracker's memory is bounded: whatever tenants it sees, it never holds more than \<open>maxTenants\<close>
  ledgers, and one per tenant.\<close>

theorem tracker_bounded:
  assumes "NewTracker limits src = Inr tk"
  shows "int (length (tk_tenants (snd (run_ops tracker_step ops tk)))) \<le> maxTenants \<and>
    distinct (map fst (tk_tenants (snd (run_ops tracker_step ops tk))))"
proof -
  have "bounded tk" using assms by (auto simp: NewTracker_def bounded_def maxTenants_def split: option.splits)
  then have "bounded (snd (run_ops tracker_step ops tk))"
    using run_ops_invariant [where I = bounded] tracker_step_bounded by blast
  then show ?thesis by (simp add: bounded_def)
qed

theorem tracker_bounded_witness:
  "int (length (tk_tenants (snd (run_ops tracker_step flood sample_tracker)))) \<le> maxTenants"
proof -
  have "NewTracker sample_limits True = Inr sample_tracker"
    by (simp add: NewTracker_def Limits_Validate_def sample_limits_def sample_tracker_def)
  then show ?thesis using tracker_bounded by blast
qed

text \<open>During an outage of the database the tracker does not always fail open: a tenant whose ledger is seeded
  and full is refused, and memoised as blocked, on the failure of the very read that was to verify the refusal.\<close>

theorem outage_refuses_full_ledger:
  assumes "0 < owner" "tk_has_source tk" "map_of (tk_tenants tk) owner = Some te" "te_seeded te"
    and "MaxMessages (tk_limits tk) \<le> te_messages te" "map_of (te_blocked te) QuotaMessages = None"
    and "int (length (te_rate te)) < CapturesPerMinute (tk_limits tk)"
  shows "fst (AdmitCapture None None owner now tk) =
    \<lparr>Allowed = False, Warn = True, Quota = QuotaMessages, Usage = te_messages te, Limit = MaxMessages (tk_limits tk)\<rparr>"
proof -
  have "int (length (pruneBefore (te_rate te) c)) < CapturesPerMinute (tk_limits tk)" for c
    unfolding pruneBefore_def using assms(7) length_filter_le [of "\<lambda>ts. c < ts" "te_rate te"] by linarith
  then show ?thesis
    using assms
    by (simp add: AdmitCapture_def tenantLocked_def admitVolume_def seeded_tenant_def admit_verified_def resync_def Let_def
        not_le [symmetric])
qed

definition full_tracker :: Tracker where
  "full_tracker = snd (run_ops tracker_step (take 2 flood) sample_tracker)"

theorem outage_refuses_full_ledger_witness:
  "\<not> Allowed (fst (AdmitCapture None None 7 10 full_tracker))"
proof -
  let ?te = "the (map_of (tk_tenants full_tracker) 7)"
  have "map_of (tk_tenants full_tracker) 7 \<noteq> None" by code_simp
  then have te: "map_of (tk_tenants full_tracker) 7 = Some ?te" by simp
  have h: "tk_has_source full_tracker" "te_seeded ?te" "MaxMessages (tk_limits full_tracker) \<le> te_messages ?te"
    "int (length (te_rate ?te)) < CapturesPerMinute (tk_limits full_tracker)" by code_simp+
  have b: "map_of (te_blocked ?te) QuotaMessages = None" by code_simp
  show ?thesis using outage_refuses_full_ledger [OF _ h(1) te h(2,3) b h(4)] by simp
qed

end

