(* ===== verification/Commands.thy ===== *)
theory Commands
  imports Text
begin

text \<open>
  The parsers of what an operator or an account holder types: \<open>bot/internal/telegram/commands.go\<close>,
  \<open>users.ParseRetentionDays\<close> and the parsers of \<open>bot/internal/config/config.go\<close>. All are pure. The table of
  \<open>unicode.ToLower\<close> is an argument \<open>lower\<close>; the only thing relied on is what it does to ASCII
  (\<open>ascii_lower\<close>). An error message is not modelled: \<open>None\<close> or \<open>Inl\<close> names the refusal.
\<close>

section \<open>Bot commands\<close>

definition CommandPrivacy :: gostr where "CommandPrivacy = runes ''/privacy''"
definition CommandDeleteMyData :: gostr where "CommandDeleteMyData = runes ''/delete_my_data''"
definition CommandRetention :: gostr where "CommandRetention = runes ''/retention''"

definition slash :: rune where "slash = 47"
definition at_sign :: rune where "at_sign = 64"

text \<open>\<open>command[:index]\<close> for the first rune of a kind, or the whole string.\<close>

definition cut_before :: "(rune \<Rightarrow> bool) \<Rightarrow> gostr \<Rightarrow> gostr" where
  "cut_before P t = takeWhile (\<lambda>r. \<not> P r) t"

definition ParseCommand :: "(rune \<Rightarrow> rune) \<Rightarrow> gostr \<Rightarrow> gostr option" where
  "ParseCommand lower t =
     (if \<not> (t \<noteq> [] \<and> hd t = slash) then None
      else
        let command = map lower (cut_before (\<lambda>r. r = at_sign) (cut_before IsSpace t))
        in if command = [slash] then None else Some command)"

definition CommandArgument :: "(rune \<Rightarrow> rune) \<Rightarrow> gostr \<Rightarrow> gostr" where
  "CommandArgument lower t =
     (case ParseCommand lower t of
        None \<Rightarrow> []
      | Some _ \<Rightarrow> if list_all (\<lambda>r. \<not> IsSpace r) t then [] else TrimSpace (dropWhile (\<lambda>r. \<not> IsSpace r) t))"

definition ascii_lower :: "(rune \<Rightarrow> rune) \<Rightarrow> bool" where
  "ascii_lower lower \<longleftrightarrow> (\<forall>r < 128. lower r = (if 65 \<le> r \<and> r \<le> 90 then r + 32 else r))"

text \<open>The part of the table below U+0080, for the examples.\<close>

definition lower_ascii :: "rune \<Rightarrow> rune" where
  "lower_ascii r = (if 65 \<le> r \<and> r \<le> 90 then r + 32 else r)"

section \<open>Retention periods\<close>

definition ParseRetentionDays :: "gostr \<Rightarrow> int option" where
  "ParseRetentionDays argument =
     (case Fields argument of
        [token] \<Rightarrow>
          if 1 < length token \<and> hd token = 48 then None
          else if \<not> list_all isDigit token then None
          else (case Atoi token of
                  None \<Rightarrow> None
                | Some days \<Rightarrow> if days < 1 \<or> 365 < days then None else Some days)
      | _ \<Rightarrow> None)"

section \<open>Configuration values\<close>

definition isCanonicalPositiveDecimal :: "gostr \<Rightarrow> bool" where
  "isCanonicalPositiveDecimal token \<longleftrightarrow>
     token \<noteq> [] \<and> token \<noteq> [48] \<and> hd token \<noteq> 48 \<and> list_all isDigit token"

definition parseCanonicalPositiveInt64 :: "gostr \<Rightarrow> int option" where
  "parseCanonicalPositiveInt64 raw =
     (if \<not> isCanonicalPositiveDecimal raw then None
      else case Atoi raw of None \<Rightarrow> None | Some v \<Rightarrow> if v \<le> 0 then None else Some v)"

definition parseCanonicalWarnPercent :: "gostr \<Rightarrow> int option" where
  "parseCanonicalWarnPercent raw =
     (if \<not> isCanonicalPositiveDecimal raw then None
      else case Atoi raw of None \<Rightarrow> None | Some p \<Rightarrow> if p \<le> 0 \<or> 100 \<le> p then None else Some p)"

fun allowlist_loop :: "gostr list \<Rightarrow> int list \<Rightarrow> int list option" where
  "allowlist_loop [] allowed = Some allowed"
| "allowlist_loop (token # tokens) allowed =
     (if \<not> isCanonicalPositiveDecimal token then None
      else case Atoi token of
          None \<Rightarrow> None
        | Some i \<Rightarrow> allowlist_loop tokens (if i \<in> set allowed then allowed else allowed @ [i]))"

text \<open>The empty list is the open onboarding, as the nil slice is.\<close>

definition parseOwnerAllowlist :: "gostr \<Rightarrow> int list option" where
  "parseOwnerAllowlist raw =
     (let fields = FieldsFunc (\<lambda>r. r = 44 \<or> IsSpace r) raw
      in if fields = [] then Some [] else allowlist_loop fields [])"

section \<open>Numerals\<close>

lemma digit_not_space: "isDigit r \<Longrightarrow> \<not> IsSpace r"
  by (auto simp: isDigit_def IsSpace_def)

lemma canonical_iff: "isCanonicalPositiveDecimal t \<longleftrightarrow> (\<exists>n > 0. t = dec n)"
proof
  assume c: "isCanonicalPositiveDecimal t"
  then have t: "dec (undec t) = t" by (intro dec_undec) (auto simp: isCanonicalPositiveDecimal_def)
  have "undec t \<noteq> 0"
  proof
    assume "undec t = 0"
    then have "t = [48]" using t by (metis dec.simps add.right_neutral zero_less_numeral)
    then show False using c by (simp add: isCanonicalPositiveDecimal_def)
  qed
  then show "\<exists>n > 0. t = dec n" using t by (intro exI [of _ "undec t"]) simp
next
  assume "\<exists>n > 0. t = dec n"
  then obtain n where n: "0 < n" "t = dec n" by blast
  then show "isCanonicalPositiveDecimal t" using dec_hd [of n] dec_digits [of n]
    by (auto simp: isCanonicalPositiveDecimal_def)
qed

lemma Atoi_dec [simp]: "Atoi (dec n) = (if int n < 2 ^ 63 then Some (int n) else None)"
  using dec_digits [of n] by (simp add: Atoi_def)

lemma dec_inj [simp]: "dec n = dec m \<longleftrightarrow> n = m"
  by (metis undec_dec)

text \<open>A parser that tests a token for canonical form before reading it accepts the numerals of a range.\<close>

lemma canonical_cases:
  obtains (canonical) n where "0 < n" "raw = dec n" | (other) "\<not> isCanonicalPositiveDecimal raw" "\<And>n. 0 < n \<Longrightarrow> raw \<noteq> dec n"
  using canonical_iff by blast

lemma parseCanonicalPositiveInt64_iff:
  "parseCanonicalPositiveInt64 raw = Some v \<longleftrightarrow> 0 < v \<and> v < 2 ^ 63 \<and> raw = dec (nat v)"
proof (cases raw rule: canonical_cases)
  case (canonical n)
  then show ?thesis using canonical_iff [of raw] by (auto simp: parseCanonicalPositiveInt64_def)
next
  case other
  then show ?thesis by (auto simp: parseCanonicalPositiveInt64_def)
qed

lemma parseCanonicalWarnPercent_iff:
  "parseCanonicalWarnPercent raw = Some p \<longleftrightarrow> 0 < p \<and> p < 100 \<and> raw = dec (nat p)"
proof (cases raw rule: canonical_cases)
  case (canonical n)
  then show ?thesis using canonical_iff [of raw] by (auto simp: parseCanonicalWarnPercent_def)
next
  case other
  then show ?thesis by (auto simp: parseCanonicalWarnPercent_def)
qed

lemma remdups_dup: "i \<in> set ys \<Longrightarrow> remdups (xs @ i # ys) = remdups (xs @ ys)"
  by (induction xs) auto

lemma allowlist_loop_iff:
  "distinct allowed \<Longrightarrow> allowlist_loop tokens allowed = Some ids \<longleftrightarrow>
    (\<exists>ns. tokens = map dec ns \<and> (\<forall>n \<in> set ns. 0 < n \<and> n < 2 ^ 63) \<and> ids = first_of_each (allowed @ map int ns))"
proof (induction tokens arbitrary: allowed)
  case Nil
  then show ?case by (auto simp: first_of_each_def distinct_remdups_id)
next
  case (Cons token tokens)
  show ?case
  proof (cases token rule: canonical_cases)
    case other
    have "\<not> (\<exists>ns. token # tokens = map dec ns \<and> (\<forall>n \<in> set ns. 0 < n \<and> n < 2 ^ 63))"
      using other(2) by (auto simp: Cons_eq_map_conv simp del: dec_inj) blast
    then show ?thesis using other(1) by auto
  next
    case (canonical n)
    let ?allowed = "if int n \<in> set allowed then allowed else allowed @ [int n]"
    have same: "first_of_each (?allowed @ map int ns) = first_of_each (allowed @ map int (n # ns))" for ns
      by (simp add: first_of_each_def remdups_dup)
    have "distinct ?allowed" using Cons.prems by simp
    note IH = Cons.IH [OF this]
    have step: "allowlist_loop (token # tokens) allowed = (if n < 2 ^ 63 then allowlist_loop tokens ?allowed else None)"
      using canonical canonical_iff [of token] by auto
    let ?ok = "\<lambda>ns. \<forall>k \<in> set ns. 0 < k \<and> k < 2 ^ 63"
    have "(\<exists>ns. token # tokens = map dec ns \<and> ?ok ns \<and> ids = first_of_each (allowed @ map int ns)) \<longleftrightarrow>
       (\<exists>ms. tokens = map dec ms \<and> ?ok (n # ms) \<and> ids = first_of_each (?allowed @ map int ms))"
      (is "(\<exists>ns. ?A ns) \<longleftrightarrow> (\<exists>ms. ?B ms)")
    proof
      assume "\<exists>ns. ?A ns"
      then obtain ns where ns: "?A ns" ..
      then obtain ms where "ns = n # ms" using canonical by (cases ns) auto
      then have "?B ms" using ns unfolding same by simp
      then show "\<exists>ms. ?B ms" ..
    next
      assume "\<exists>ms. ?B ms"
      then obtain ms where "?B ms" ..
      then have "?A (n # ms)" using canonical unfolding same by simp
      then show "\<exists>ns. ?A ns" ..
    qed
    moreover have "(if n < 2 ^ 63 then allowlist_loop tokens ?allowed else None) = Some ids \<longleftrightarrow>
        (\<exists>ms. tokens = map dec ms \<and> ?ok (n # ms) \<and> ids = first_of_each (?allowed @ map int ms))"
      using IH canonical(1) by auto
    ultimately show ?thesis unfolding step by simp
  qed
qed


section \<open>Properties\<close>

text \<open>The parser of a retention period accepts exactly the canonical numerals of 1 to 365, alone between any
  white space, and answers that number: no sign, no leading zero, no second token, no value the database
  constraint would refuse.\<close>

theorem retention_exact:
  "ParseRetentionDays argument = Some days \<longleftrightarrow>
    1 \<le> days \<and> days \<le> 365 \<and> Fields argument = [dec (nat days)]"
proof (cases "\<exists>token. Fields argument = [token]")
  case False
  then show ?thesis by (auto simp: ParseRetentionDays_def split: list.splits)
next
  case True
  then obtain token where f: "Fields argument = [token]" by blast
  have ne: "token \<noteq> []" using fields_acc_nonempty [of IsSpace "[]" argument] f by (simp add: Fields_def FieldsFunc_def)
  show ?thesis
  proof (cases token rule: canonical_cases)
    case (canonical n)
    then show ?thesis using f dec_hd [of n] dec_digits [of n] by (auto simp: ParseRetentionDays_def)
  next
    case other
    then have "hd token = 48 \<or> token = [48] \<or> \<not> list_all isDigit token"
      using ne by (auto simp: isCanonicalPositiveDecimal_def)
    moreover have "Atoi [48] = Some 0" by (simp add: Atoi_def isDigit_def undec_def)
    moreover have "token = [48]" if "hd token = 48" "\<not> 1 < length token" using ne that by (cases token) auto
    ultimately have "ParseRetentionDays argument = None" using f by (auto simp: ParseRetentionDays_def)
    moreover have "[token] \<noteq> [dec (nat days)]" if "1 \<le> days" using other(2) [of "nat days"] that by simp
    ultimately show ?thesis using f by auto
  qed
qed

text \<open>The onboarding allowlist is read without loss and without invention: it parses exactly when every
  entry is the canonical numeral of a positive 64-bit id, and then it is those ids, each once, in the order
  they first appear. Only an empty value opens the onboarding to everybody.\<close>

theorem allowlist_exact:
  "(parseOwnerAllowlist raw = Some ids \<longleftrightarrow>
     (\<exists>ns. FieldsFunc (\<lambda>r. r = 44 \<or> IsSpace r) raw = map dec ns \<and> (\<forall>n \<in> set ns. 0 < n \<and> n < 2 ^ 63) \<and>
        ids = first_of_each (map int ns))) \<and>
   (parseOwnerAllowlist raw = Some [] \<longleftrightarrow> FieldsFunc (\<lambda>r. r = 44 \<or> IsSpace r) raw = [])"
proof -
  let ?f = "FieldsFunc (\<lambda>r. r = 44 \<or> IsSpace r) raw"
  have first: "parseOwnerAllowlist raw = Some ids \<longleftrightarrow> (\<exists>ns. ?f = map dec ns \<and> (\<forall>n \<in> set ns. 0 < n \<and> n < 2 ^ 63) \<and>
        ids = first_of_each (map int ns))" for ids
    using allowlist_loop_iff [of "[]" ?f ids] by (auto simp: parseOwnerAllowlist_def Let_def)
  have "first_of_each (map int ns) = [] \<longleftrightarrow> ns = []" for ns by (simp add: first_of_each_def)
  moreover have "parseOwnerAllowlist raw = Some [] \<longleftrightarrow> (\<exists>ns. ?f = map dec ns \<and> (\<forall>n \<in> set ns. 0 < n \<and> n < 2 ^ 63) \<and>
        first_of_each (map int ns) = [])"
    unfolding first by (auto simp: eq_commute)
  ultimately have "parseOwnerAllowlist raw = Some [] \<longleftrightarrow> ?f = []" by auto
  then show ?thesis using first by blast
qed

theorem allowlist_exact_witness:
  "parseOwnerAllowlist (dec 5 @ [44] @ dec 7 @ [44] @ dec 5) = Some [5, 7] \<and> parseOwnerAllowlist [44] = Some []"
proof -
  have d: "dec 5 = [53]" "dec 7 = [55]" by code_simp+
  have "FieldsFunc (\<lambda>r. r = 44 \<or> IsSpace r) (dec 5 @ [44] @ dec 7 @ [44] @ dec 5) = map dec [5, 7, 5]"
    by (simp add: d FieldsFunc_def IsSpace_def)
  moreover have "first_of_each (map int [5, 7, 5]) = [5, 7]" by code_simp
  moreover have "\<forall>n \<in> set [5, 7, 5 :: nat]. 0 < n \<and> n < 2 ^ 63" by simp
  ultimately have "parseOwnerAllowlist (dec 5 @ [44] @ dec 7 @ [44] @ dec 5) = Some [5, 7]"
    using allowlist_exact [of "dec 5 @ [44] @ dec 7 @ [44] @ dec 5" "[5, 7]"] by metis
  moreover have "FieldsFunc (\<lambda>r. r = 44 \<or> IsSpace r) [44] = []" by (simp add: FieldsFunc_def)
  ultimately show ?thesis using allowlist_exact [of "[44]" "[]"] by simp
qed



end
