(* ===== verification/Alerts.thy ===== *)
theory Alerts
  imports Telegram_Types
begin

text \<open>
  \<open>bot/internal/telegram/alerts.go\<close> and the caption part of \<open>sendmedia.go\<close>: the texts the bot sends and how
  they are cut to Telegram's limits, which count UTF-16 units.

  The loops over runes are folds with the loop's variables as arguments. The formatting of a date
  (\<open>time.Format\<close>) is the argument \<open>fmt_date\<close>. The fixed wording of the answers is not modelled, only the
  labels whose length counts.
\<close>

definition telegramTextLimit :: nat where "telegramTextLimit = 4096"
definition captionLimit :: nat where "captionLimit = 1024"

section \<open>Splitting\<close>

text \<open>\<open>splitTelegramText\<close>: \<open>current\<close> and \<open>units\<close> are the loop's variables.\<close>

fun split_loop :: "nat \<Rightarrow> gostr \<Rightarrow> nat \<Rightarrow> gostr \<Rightarrow> gostr list" where
  "split_loop limit current units [] = (if current \<noteq> [] then [current] else [])"
| "split_loop limit current units (r # rs) =
     (if limit < units + runeUTF16Units r \<and> current \<noteq> []
      then current # split_loop limit [r] (runeUTF16Units r) rs
      else split_loop limit (current @ [r]) (units + runeUTF16Units r) rs)"

definition splitTelegramText :: "gostr \<Rightarrow> nat \<Rightarrow> gostr list" where
  "splitTelegramText t limit = (if t = [] \<or> limit < 1 then [] else split_loop limit [] 0 t)"

definition newline :: rune where "newline = 10"

text \<open>\<open>paragraphSegments\<close>: \<open>cut_blank\<close> is the text up to the first blank line, \<open>\n\n\<close> included.\<close>

fun cut_blank :: "gostr \<Rightarrow> (gostr \<times> gostr) option" where
  "cut_blank (a # b # rest) =
     (if a = newline \<and> b = newline then Some ([a, b], rest)
      else case cut_blank (b # rest) of None \<Rightarrow> None | Some (pre, suf) \<Rightarrow> Some (a # pre, suf))"
| "cut_blank _ = None"

lemma cut_blank_split: "cut_blank t = Some (pre, suf) \<Longrightarrow> t = pre @ suf \<and> pre \<noteq> []"
  by (induction t arbitrary: pre rule: cut_blank.induct) (auto split: if_splits option.splits)

function paragraphSegments :: "gostr \<Rightarrow> gostr list" where
  "paragraphSegments t =
     (if t = [] then []
      else case cut_blank t of
          None \<Rightarrow> [t]
        | Some (pre, suf) \<Rightarrow>
            (pre @ takeWhile (\<lambda>r. r = newline) suf) # paragraphSegments (dropWhile (\<lambda>r. r = newline) suf))"
  by pat_completeness auto
termination
proof (relation "measure length")
  fix t p pre suf
  assume "t \<noteq> []" "cut_blank t = Some p" "(pre, suf) = p"
  then have "t = pre @ suf" "pre \<noteq> []" using cut_blank_split by auto
  moreover have "length (dropWhile (\<lambda>r. r = newline) suf) \<le> length suf" by (rule length_dropWhile_le)
  ultimately show "(dropWhile (\<lambda>r. r = newline) suf, t) \<in> measure length" by (cases pre) auto
qed simp

declare paragraphSegments.simps [simp del]

text \<open>\<open>splitPolicyText\<close>: \<open>current\<close> and \<open>currentUnits\<close> are the loop's variables, the chunks its output.\<close>

fun policy_loop :: "nat \<Rightarrow> gostr \<Rightarrow> nat \<Rightarrow> gostr list \<Rightarrow> gostr list" where
  "policy_loop limit current currentUnits [] = (if current \<noteq> [] then [current] else [])"
| "policy_loop limit current currentUnits (p # ps) =
     (let units = utf16Units p;
          flush = (limit < currentUnits + units \<and> current \<noteq> []);
          out = (if flush then [current] else []);
          current1 = (if flush then [] else current);
          units1 = (if flush then 0 else currentUnits)
      in if limit < units
         then let subs = splitTelegramText p limit
              in out @ butlast subs @ policy_loop limit (current1 @ last subs) (utf16Units (last subs)) ps
         else out @ policy_loop limit (current1 @ p) (units1 + units) ps)"

definition splitPolicyText :: "gostr \<Rightarrow> nat \<Rightarrow> gostr list" where
  "splitPolicyText t limit = (if t = [] \<or> limit < 1 then [] else policy_loop limit [] 0 (paragraphSegments t))"

section \<open>The privacy answer\<close>

definition privacyLabel :: "nat \<Rightarrow> nat \<Rightarrow> gostr" where
  "privacyLabel rank n = runes ''Privacy policy ('' @ dec rank @ runes ''/'' @ dec n @ runes '')''"

definition privacyLabelSeparator :: gostr where
  "privacyLabelSeparator = [newline, newline]"

definition privacyLabelUnits :: "nat \<Rightarrow> nat" where
  "privacyLabelUnits n = utf16Units (privacyLabel n n) + utf16Units privacyLabelSeparator"

lemma split_loop_concat: "concat (split_loop limit current units rs) = current @ rs"
  by (induction limit current units rs rule: split_loop.induct) auto

lemma split_loop_nonempty: "c \<in> set (split_loop limit current units rs) \<Longrightarrow> c \<noteq> []"
  by (induction limit current units rs rule: split_loop.induct) (auto split: if_splits)

lemma split_loop_fits:
  "2 \<le> limit \<Longrightarrow> units = utf16Units current \<Longrightarrow> units \<le> limit \<Longrightarrow> c \<in> set (split_loop limit current units rs) \<Longrightarrow>
    utf16Units c \<le> limit"
proof (induction rs arbitrary: current units)
  case Nil
  then show ?case by (simp split: if_splits)
next
  case (Cons r rs)
  have r: "runeUTF16Units r \<le> limit" using runeUTF16Units_bounds [of r] Cons.prems(1) by linarith
  show ?case
  proof (cases "limit < units + runeUTF16Units r \<and> current \<noteq> []")
    case True
    then have "c = current \<or> c \<in> set (split_loop limit [r] (runeUTF16Units r) rs)" using Cons.prems(4) by simp
    then show ?thesis using Cons.IH [of "runeUTF16Units r" "[r]"] Cons.prems(1-3) r by auto
  next
    case False
    then have "units + runeUTF16Units r \<le> limit" using r Cons.prems(2) by (cases "current = []") auto
    moreover have "c \<in> set (split_loop limit (current @ [r]) (units + runeUTF16Units r) rs)"
      using False Cons.prems(4) by (simp only: split_loop.simps if_False)
    ultimately show ?thesis using Cons.IH [of "units + runeUTF16Units r" "current @ [r]"] Cons.prems(1,2) by simp
  qed
qed

lemma splitTelegramText_concat: "1 \<le> limit \<Longrightarrow> concat (splitTelegramText t limit) = t"
  by (auto simp: splitTelegramText_def split_loop_concat)

lemma splitTelegramText_fits:
  "2 \<le> limit \<Longrightarrow> c \<in> set (splitTelegramText t limit) \<Longrightarrow> c \<noteq> [] \<and> utf16Units c \<le> limit"
  using split_loop_nonempty split_loop_fits [of limit 0 "[]"] by (auto simp: splitTelegramText_def split: if_splits)

lemma paragraphSegments_concat: "concat (paragraphSegments t) = t \<and> (\<forall>p \<in> set (paragraphSegments t). p \<noteq> [])"
proof (induction t rule: paragraphSegments.induct)
  case (1 t)
  note eq = paragraphSegments.simps [of t]
  show ?case
  proof (cases "cut_blank t")
    case None
    then show ?thesis using eq by (cases "t = []") simp_all
  next
    case (Some q)
    obtain pre suf where q: "q = (pre, suf)" by (cases q)
    then have t: "t = pre @ suf" "pre \<noteq> []" using cut_blank_split Some by auto
    let ?suf = "dropWhile (\<lambda>r. r = newline) suf"
    have "concat (paragraphSegments ?suf) = ?suf \<and> (\<forall>p \<in> set (paragraphSegments ?suf). p \<noteq> [])"
      using 1 [OF _ Some q [symmetric]] t by simp
    moreover have "paragraphSegments t = (pre @ takeWhile (\<lambda>r. r = newline) suf) # paragraphSegments ?suf"
      using eq Some q t(2) t(1) by simp
    ultimately show ?thesis using t by simp
  qed
qed

lemma policy_loop_concat: "1 \<le> limit \<Longrightarrow> concat (policy_loop limit current units ps) = current @ concat ps"
proof (induction ps arbitrary: current units)
  case (Cons p ps)
  have subs: "concat (splitTelegramText p limit) = p" using splitTelegramText_concat Cons.prems by blast
  show ?case
  proof (cases "limit < utf16Units p")
    case True
    then have "splitTelegramText p limit \<noteq> []" using subs by auto
    then have "concat (butlast (splitTelegramText p limit)) @ last (splitTelegramText p limit) = p"
      by (metis append_butlast_last_id concat_append concat.simps append_Nil2 subs)
    moreover have "limit < units + utf16Units p" using True by simp
    ultimately show ?thesis using True Cons by (auto simp: Let_def)
  next
    case False
    then show ?thesis using Cons by (auto simp: Let_def)
  qed
qed simp

lemma policy_loop_fits:
  "2 \<le> limit \<Longrightarrow> units = utf16Units current \<Longrightarrow> units \<le> limit \<Longrightarrow> c \<in> set (policy_loop limit current units ps) \<Longrightarrow>
    c \<noteq> [] \<and> utf16Units c \<le> limit"
proof (induction ps arbitrary: current units)
  case Nil
  then show ?case by (auto split: if_splits)
next
  case (Cons p ps)
  let ?subs = "splitTelegramText p limit"
  have subs: "d \<in> set ?subs \<Longrightarrow> d \<noteq> [] \<and> utf16Units d \<le> limit" for d
    using splitTelegramText_fits Cons.prems(1) by blast
  show ?case
  proof (cases "limit < utf16Units p")
    case True
    then have ne: "?subs \<noteq> []" using splitTelegramText_concat [of limit p] Cons.prems(1) by auto
    then have last: "last ?subs \<in> set ?subs" by simp
    have flush: "current \<noteq> [] \<longrightarrow> limit < units + utf16Units p" using True by simp
    let ?rest = "policy_loop limit (last ?subs) (utf16Units (last ?subs)) ps"
    have rest: "c \<in> set ?rest \<Longrightarrow> c \<noteq> [] \<and> utf16Units c \<le> limit"
      by (rule Cons.IH [OF Cons.prems(1) refl]) (use subs [OF last] in auto)
    have "c \<in> set (butlast ?subs) \<or> c \<in> set ?rest \<or> (c = current \<and> current \<noteq> [])"
      using Cons.prems(4) True flush by (auto simp: Let_def split: if_splits)
    then show ?thesis using subs rest Cons.prems(2,3) by (auto dest: in_set_butlastD)
  next
    case False
    show ?thesis
    proof (cases "limit < units + utf16Units p \<and> current \<noteq> []")
      case True
      then have "c = current \<or> c \<in> set (policy_loop limit p (utf16Units p) ps)"
        using Cons.prems(4) False by (simp add: Let_def)
      then show ?thesis using Cons.IH [of "utf16Units p" p] Cons.prems(1-3) False True by auto
    next
      case fits: False
      then have c: "c \<in> set (policy_loop limit (current @ p) (units + utf16Units p) ps)"
        using Cons.prems(4) False by (auto simp: Let_def split: if_splits)
      show ?thesis
        by (rule Cons.IH [OF Cons.prems(1) _ _ c]) (use fits False Cons.prems(2,3) in \<open>auto simp: not_less\<close>)
    qed
  qed
qed

lemma splitPolicyText_concat: "1 \<le> limit \<Longrightarrow> concat (splitPolicyText t limit) = t"
  using paragraphSegments_concat by (auto simp: splitPolicyText_def policy_loop_concat)

lemma splitPolicyText_fits: "2 \<le> limit \<Longrightarrow> c \<in> set (splitPolicyText t limit) \<Longrightarrow> c \<noteq> [] \<and> utf16Units c \<le> limit"
  using policy_loop_fits [of limit 0 "[]" c] by (auto simp: splitPolicyText_def split: if_splits)

lemma policy_loop_nonempty: "c \<in> set (policy_loop limit current units ps) \<Longrightarrow> c \<noteq> []"
proof (induction ps arbitrary: current units)
  case (Cons p ps)
  have "d \<in> set (splitTelegramText p limit) \<Longrightarrow> d \<noteq> []" for d
    using split_loop_nonempty by (auto simp: splitTelegramText_def split: if_splits)
  then show ?case using Cons by (auto simp: Let_def dest: in_set_butlastD split: if_splits)
qed (auto split: if_splits)

lemma length_le_concat: "(\<And>x. x \<in> set xs \<Longrightarrow> x \<noteq> []) \<Longrightarrow> length xs \<le> length (concat xs)"
proof (induction xs)
  case (Cons x xs)
  then have "1 \<le> length x" "length xs \<le> length (concat xs)" by (simp_all add: Suc_le_eq)
  then show ?case by simp
qed simp

lemma splitPolicyText_length: "length (splitPolicyText t limit) \<le> length t"
proof (cases "1 \<le> limit")
  case True
  have "c \<in> set (splitPolicyText t limit) \<Longrightarrow> c \<noteq> []" for c
    using policy_loop_nonempty by (auto simp: splitPolicyText_def split: if_splits)
  then show ?thesis using length_le_concat [of "splitPolicyText t limit"] splitPolicyText_concat [OF True] by simp
qed (simp add: splitPolicyText_def)

text \<open>The loop of \<open>BuildPrivacyMessageRequests\<close>: \<open>n\<close> is the total assumed so far. Each round raises it, and
  no split has more chunks than the text has runes, so it ends.\<close>

function privacy_chunks :: "gostr \<Rightarrow> nat \<Rightarrow> gostr list" where
  "privacy_chunks t n =
     (let chunks = splitPolicyText t (telegramTextLimit - privacyLabelUnits n)
      in if n < length chunks then privacy_chunks t (length chunks) else chunks)"
  by pat_completeness auto
termination
proof (relation "measure (\<lambda>(t, n). length t - n)")
  fix t n chunks
  assume c: "chunks = splitPolicyText t (telegramTextLimit - privacyLabelUnits n)" "n < length chunks"
  then have "length chunks \<le> length t" using splitPolicyText_length by simp
  then show "((t, length chunks), (t, n)) \<in> measure (\<lambda>(t, n). length t - n)" using c(2) by simp
qed simp

declare privacy_chunks.simps [simp del]

definition BuildPrivacyMessageRequests :: "i64 \<Rightarrow> gostr \<Rightarrow> SendMessageRequest list" where
  "BuildPrivacyMessageRequests owner policy =
     (let chunks = privacy_chunks policy 1
      in map (\<lambda>(index, chunk). \<lparr>smr_ChatID = owner,
                 smr_Text = privacyLabel (index + 1) (length chunks) @ privacyLabelSeparator @ chunk\<rparr>)
           (enumerate 0 chunks))"

lemma privacy_chunks_exit:
  "n \<le> max 1 (length t) \<Longrightarrow> \<exists>m. privacy_chunks t n = splitPolicyText t (telegramTextLimit - privacyLabelUnits m) \<and>
    length (privacy_chunks t n) \<le> m \<and> m \<le> max 1 (length t)"
proof (induction t n rule: privacy_chunks.induct)
  case (1 t n)
  let ?c = "splitPolicyText t (telegramTextLimit - privacyLabelUnits n)"
  have len: "length ?c \<le> max 1 (length t)" using splitPolicyText_length [of t] by (simp add: le_max_iff_disj)
  show ?case
  proof (cases "n < length ?c")
    case True
    then have "privacy_chunks t n = privacy_chunks t (length ?c)" by (subst privacy_chunks.simps) (simp add: Let_def)
    then show ?thesis using 1(1) [OF refl True len] by simp
  next
    case False
    then have "privacy_chunks t n = ?c" by (subst privacy_chunks.simps) (simp add: Let_def)
    then show ?thesis using False 1(2) by (intro exI [of _ n]) simp
  qed
qed

section \<open>Labels and lengths\<close>

lemma ascii_runes: "list_all (\<lambda>r. r < 128) (runes s) \<Longrightarrow> utf16Units (runes s) = length s"
  using utf16Units_ascii by (simp add: runes_def)

lemma dec_units [simp]: "utf16Units (dec n) = length (dec n)"
  using dec_digits [of n] by (intro utf16Units_ascii) (auto simp: list_all_iff isDigit_def)

lemma privacyLabel_units: "utf16Units (privacyLabel i n) = 18 + length (dec i) + length (dec n)"
  by (simp add: privacyLabel_def runes_def runeUTF16Units_def RuneLen_def)

lemma separator_units [simp]: "utf16Units privacyLabelSeparator = 2"
  by (simp add: privacyLabelSeparator_def newline_def runeUTF16Units_def RuneLen_def)

lemma privacyLabelUnits_small: "n \<le> 2 ^ 63 \<Longrightarrow> privacyLabelUnits n \<le> 58"
  using dec_length [of n 19] by (simp add: privacyLabelUnits_def privacyLabel_units)

section \<open>Other texts\<close>

text \<open>\<open>%d\<close> of a signed number.\<close>

definition dec_int :: "int \<Rightarrow> gostr" where
  "dec_int i = (if i < 0 then 45 # dec (nat (- i)) else dec (nat i))"

text \<open>The loop that keeps the runes of a text as long as they fit a budget.\<close>

fun take_units :: "nat \<Rightarrow> nat \<Rightarrow> gostr \<Rightarrow> gostr" where
  "take_units budget units [] = []"
| "take_units budget units (r # rs) =
     (if budget < units + runeUTF16Units r then [] else r # take_units budget (units + runeUTF16Units r) rs)"

definition MediaUnavailableNote :: gostr where
  "MediaUnavailableNote = runes ''[media unavailable]''"

definition WithMediaUnavailableNote :: "gostr \<Rightarrow> gostr" where
  "WithMediaUnavailableNote t =
     (let suffix = [newline, newline] @ MediaUnavailableNote
      in if utf16Units t + utf16Units suffix \<le> telegramTextLimit then TrimRight (\<lambda>r. r = newline) t @ suffix
         else take_units (telegramTextLimit - utf16Units suffix) 0 (TrimRight (\<lambda>r. r = newline) t) @ suffix)"

definition ellipsis :: gostr where "ellipsis = [8230]"

definition TruncateCaption :: "gostr \<Rightarrow> gostr" where
  "TruncateCaption caption =
     (if utf16Units caption \<le> captionLimit then caption
      else take_units (captionLimit - utf16Units ellipsis) 0 caption @ ellipsis)"

fun join :: "gostr \<Rightarrow> gostr list \<Rightarrow> gostr" where
  "join sep [] = []"
| "join sep [x] = x"
| "join sep (x # y # ys) = x @ sep @ join sep (y # ys)"

definition BuildMediaAlertText :: "string list \<Rightarrow> gostr" where
  "BuildMediaAlertText mediaTypes =
     (if mediaTypes = [] then runes ''Attached media''
      else runes ''Attached media ('' @ dec (length mediaTypes) @ runes '' file'' @
           (if 1 < length mediaTypes then runes ''s'' else []) @ runes '': '' @
           join (runes '', '') (map runes mediaTypes) @ runes '')'')"

record DeletionAlert =
  da_OwnerTelegramUserID :: i64
  da_ChatID :: i64
  da_ChatTitle :: gostr
  da_ChatUsername :: gostr
  da_FromDisplay :: gostr
  da_FromUserID :: "i64 option"
  da_MessageType :: string
  da_TelegramDate :: i64
  da_Content :: gostr

definition chatLine :: "DeletionAlert \<Rightarrow> gostr" where
  "chatLine a =
     (let title = da_ChatTitle a; username = da_ChatUsername a;
          label = (if title \<noteq> [] \<and> username \<noteq> [] then title @ runes '' (@'' @ username @ runes '')''
                   else if title = [] \<and> username \<noteq> [] then runes ''@'' @ username else title)
      in if label = [] then runes ''chat '' @ dec_int (da_ChatID a)
         else label @ runes '' ('' @ dec_int (da_ChatID a) @ runes '')'')"

definition senderLine :: "DeletionAlert \<Rightarrow> gostr" where
  "senderLine a =
     (let name = (if da_FromDisplay a = [] then runes ''unknown'' else da_FromDisplay a)
      in case da_FromUserID a of None \<Rightarrow> name | Some i \<Rightarrow> name @ runes '' ('' @ dec_int i @ runes '')'')"

definition formatAlertDate :: "(i64 \<Rightarrow> gostr) \<Rightarrow> i64 \<Rightarrow> gostr" where
  "formatAlertDate fmt_date d = (if d = 0 then runes ''unknown'' else fmt_date d)"

definition buildDeletionText :: "(i64 \<Rightarrow> gostr) \<Rightarrow> DeletionAlert \<Rightarrow> gostr" where
  "buildDeletionText fmt_date a =
     runes ''Recovered deleted message'' @ [newline] @
     runes ''Chat: '' @ chatLine a @ [newline] @
     runes ''From: '' @ senderLine a @ [newline] @
     runes ''Type: '' @ runes (if da_MessageType a = [] then ''unknown'' else da_MessageType a) @ [newline] @
     runes ''Date: '' @ formatAlertDate fmt_date (da_TelegramDate a) @
     (if da_Content a \<noteq> [] then [newline, newline] @ da_Content a else [])"

definition BuildDeletionMessageRequests :: "(i64 \<Rightarrow> gostr) \<Rightarrow> DeletionAlert \<Rightarrow> SendMessageRequest list" where
  "BuildDeletionMessageRequests fmt_date a =
     map (\<lambda>chunk. \<lparr>smr_ChatID = da_OwnerTelegramUserID a, smr_Text = chunk\<rparr>)
       (splitTelegramText (buildDeletionText fmt_date a) telegramTextLimit)"

lemma take_units_bound: "units \<le> budget \<Longrightarrow> units + utf16Units (take_units budget units t) \<le> budget"
proof (induction t arbitrary: units)
  case (Cons r rs)
  show ?case
  proof (cases "budget < units + runeUTF16Units r")
    case False
    then show ?thesis using Cons.IH [of "units + runeUTF16Units r"] by (simp add: add.assoc)
  qed (use Cons.prems in simp)
qed simp

lemma take_units_prefix: "\<exists>rest. t = take_units budget units t @ rest"
proof (induction t arbitrary: units)
  case (Cons r rs)
  obtain rest where "rs = take_units budget (units + runeUTF16Units r) rs @ rest" using Cons.IH by blast
  then show ?case by (cases "budget < units + runeUTF16Units r") (simp_all, metis)
qed simp

lemma utf16Units_TrimRight: "utf16Units (TrimRight P t) \<le> utf16Units t"
  using TrimRight_prefix [of t P] by (metis le_add1 utf16Units_append)

section \<open>Properties\<close>

text \<open>C35. A deletion alert loses nothing to Telegram's limit: the messages of an alert concatenate to its whole
  text, header included, in order; there is at least one, each goes to the owner, is not empty and is at most
  4096 UTF-16 units long, and the restored content closes the text.\<close>

theorem deletion_alert_lossless:
  "concat (map smr_Text (BuildDeletionMessageRequests fmt_date a)) = buildDeletionText fmt_date a \<and>
   BuildDeletionMessageRequests fmt_date a \<noteq> [] \<and>
   (\<exists>header. buildDeletionText fmt_date a = header @ da_Content a) \<and>
   list_all (\<lambda>req. smr_ChatID req = da_OwnerTelegramUserID a \<and> smr_Text req \<noteq> [] \<and> utf16Units (smr_Text req) \<le> 4096)
     (BuildDeletionMessageRequests fmt_date a)"
proof -
  let ?t = "buildDeletionText fmt_date a"
  have lim: "1 \<le> telegramTextLimit" "2 \<le> telegramTextLimit" "telegramTextLimit = 4096" by (simp_all add: telegramTextLimit_def)
  have cat: "concat (splitTelegramText ?t telegramTextLimit) = ?t" using lim(1) by (rule splitTelegramText_concat)
  have "?t \<noteq> []" by (simp add: buildDeletionText_def runes_def)
  then have "splitTelegramText ?t telegramTextLimit \<noteq> []" using cat by auto
  moreover have "\<exists>header. ?t = header @ da_Content a" unfolding buildDeletionText_def by (cases "da_Content a = []") auto
  ultimately show ?thesis
    using cat splitTelegramText_fits [OF lim(2)] lim(3)
    by (auto simp: BuildDeletionMessageRequests_def comp_def list_all_iff)
qed

text \<open>C36. The privacy answer is the whole policy: its messages are the policy cut in order, each behind a label
  that gives its rank and the true total, and each message, label included, is at most 4096 UTF-16 units. The
  search for the total, on which the room for the label depends, ends.\<close>

theorem privacy_answer_complete:
  assumes "length policy < 2 ^ 63"
  shows "let reqs = BuildPrivacyMessageRequests owner policy;
             chunk = (\<lambda>i. drop (length (privacyLabel (i + 1) (length reqs) @ privacyLabelSeparator)) (smr_Text (reqs ! i)))
         in concat (map chunk [0..<length reqs]) = policy \<and>
            (\<forall>i < length reqs. smr_ChatID (reqs ! i) = owner \<and>
               smr_Text (reqs ! i) = privacyLabel (i + 1) (length reqs) @ privacyLabelSeparator @ chunk i \<and>
               utf16Units (smr_Text (reqs ! i)) \<le> 4096)"
proof -
  let ?c = "privacy_chunks policy 1" and ?reqs = "BuildPrivacyMessageRequests owner policy"
  obtain m where m: "?c = splitPolicyText policy (telegramTextLimit - privacyLabelUnits m)" "length ?c \<le> m" "m \<le> max 1 (length policy)"
    using privacy_chunks_exit [of 1 policy] by auto
  have small: "privacyLabelUnits m \<le> 58" using m(3) assms by (intro privacyLabelUnits_small) simp
  then have lim: "2 \<le> telegramTextLimit - privacyLabelUnits m" by (simp add: telegramTextLimit_def)
  have len: "length ?reqs = length ?c" by (simp add: BuildPrivacyMessageRequests_def Let_def)
  have req: "?reqs ! i = \<lparr>smr_ChatID = owner, smr_Text = privacyLabel (i + 1) (length ?c) @ privacyLabelSeparator @ ?c ! i\<rparr>"
    if "i < length ?c" for i
    using that by (simp add: BuildPrivacyMessageRequests_def Let_def nth_enumerate_eq)
  have fits: "utf16Units (privacyLabel (i + 1) (length ?c) @ privacyLabelSeparator @ ?c ! i) \<le> 4096" if "i < length ?c" for i
  proof -
    have "utf16Units (?c ! i) \<le> telegramTextLimit - privacyLabelUnits m"
      using splitPolicyText_fits [OF lim] m(1) that by (metis nth_mem)
    moreover have "length (dec (i + 1)) \<le> length (dec m)" "length (dec (length ?c)) \<le> length (dec m)"
      using that m(2) by (auto intro: dec_length_mono)
    ultimately show ?thesis using small by (simp add: privacyLabelUnits_def privacyLabel_units telegramTextLimit_def)
  qed
  have "concat ?c = policy" using m(1) splitPolicyText_concat lim by simp
  moreover have "map (\<lambda>i. drop (length (privacyLabel (i + 1) (length ?c) @ privacyLabelSeparator)) (smr_Text (?reqs ! i))) [0..<length ?c] = ?c"
    by (rule nth_equalityI) (simp_all add: req)
  ultimately show ?thesis using len req fits by (simp add: Let_def)
qed

theorem privacy_answer_complete_witness:
  "let reqs = BuildPrivacyMessageRequests 70 (replicate 100 65)
   in \<forall>i < length reqs. smr_ChatID (reqs ! i) = 70 \<and> utf16Units (smr_Text (reqs ! i)) \<le> 4096"
  using privacy_answer_complete [of "replicate 100 65" 70] by (auto simp: Let_def)

text \<open>The note on unavailable media never pushes a text over the limit, and the text it is added to is only
  ever shortened at its end: the result is a prefix of the text, then the note, within 4096 UTF-16 units. The
  same holds of a caption cut to 1024 units.\<close>

theorem note_and_caption_fit:
  "utf16Units (WithMediaUnavailableNote t) \<le> 4096 \<and>
   (\<exists>kept rest. t = kept @ rest \<and> WithMediaUnavailableNote t = kept @ [newline, newline] @ MediaUnavailableNote) \<and>
   utf16Units (TruncateCaption t) \<le> 1024 \<and>
   (TruncateCaption t = t \<or> (\<exists>kept rest. t = kept @ rest \<and> TruncateCaption t = kept @ ellipsis))"
proof -
  let ?s = "[newline, newline] @ MediaUnavailableNote" and ?t = "TrimRight (\<lambda>r. r = newline) t"
  have s: "utf16Units ?s = 21" by (simp add: newline_def MediaUnavailableNote_def runes_def runeUTF16Units_def RuneLen_def)
  obtain rest where trim: "t = ?t @ rest" using TrimRight_prefix by blast
  obtain rest2 where cut: "?t = take_units 4075 0 ?t @ rest2" using take_units_prefix by blast
  have short: "utf16Units (WithMediaUnavailableNote t) \<le> 4096"
    using s utf16Units_TrimRight [of "\<lambda>r. r = newline" t] take_units_bound [of 0 4075 ?t]
    by (simp add: WithMediaUnavailableNote_def telegramTextLimit_def Let_def)
  have kept: "\<exists>kept rest. t = kept @ rest \<and> WithMediaUnavailableNote t = kept @ ?s"
  proof (cases "utf16Units t + utf16Units ?s \<le> telegramTextLimit")
    case True
    then show ?thesis using trim by (intro exI [of _ ?t] exI [of _ rest]) (simp add: WithMediaUnavailableNote_def Let_def)
  next
    case False
    have "WithMediaUnavailableNote t = take_units 4075 0 ?t @ ?s"
      using False s by (simp add: WithMediaUnavailableNote_def Let_def telegramTextLimit_def)
    moreover have "t = take_units 4075 0 ?t @ rest2 @ rest" using trim cut by (metis append.assoc)
    ultimately show ?thesis by blast
  qed
  have e: "utf16Units ellipsis = 1" by (simp add: ellipsis_def runeUTF16Units_def RuneLen_def)
  have "utf16Units (TruncateCaption t) \<le> 1024"
    using take_units_bound [of 0 1023 t] e by (auto simp: TruncateCaption_def captionLimit_def)
  moreover have "TruncateCaption t = t \<or> (\<exists>kept rest. t = kept @ rest \<and> TruncateCaption t = kept @ ellipsis)"
    using take_units_prefix [of t 1023 0] e by (auto simp: TruncateCaption_def captionLimit_def)
  ultimately show ?thesis using short kept by blast
qed

end
