(* ===== verification/Media_Extract.thy ===== *)
theory Media_Extract
  imports Telegram_Types "HOL-Library.List_Lexorder" "HOL-Library.Char_ord"
begin

text \<open>
  \<open>bot/internal/telegram/media.go\<close>: from a decoded message to the ordered list of its media.

  \<open>extractUnknownMedia\<close> decodes the raw JSON of the message again. \<open>decode_field\<close> is what
  \<open>json.Unmarshal\<close> does to a \<open>rawFile\<close> for one key of an object: a null leaves the field, a value of the
  wrong type or out of range makes the decoding fail (\<open>None\<close>), an unknown key is skipped; later keys win.
  Keys are compared exactly, the Bot API writing them in lower case.
\<close>

record MediaAttachment =
  ma_Type :: string
  ma_FileID :: gostr
  ma_FileUniqueID :: gostr
  ma_MediaGroupID :: string
  ma_Caption :: gostr
  ma_FileName :: gostr
  ma_MimeType :: gostr
  ma_ByteSize :: i64
  ma_Width :: int
  ma_Height :: int
  ma_DurationSec :: int

definition MediaTypePhoto :: string where "MediaTypePhoto = ''photo''"
definition MediaTypeVideo :: string where "MediaTypeVideo = ''video''"
definition MediaTypeAnimation :: string where "MediaTypeAnimation = ''animation''"
definition MediaTypeDocument :: string where "MediaTypeDocument = ''document''"
definition MediaTypeAudio :: string where "MediaTypeAudio = ''audio''"
definition MediaTypeVoice :: string where "MediaTypeVoice = ''voice''"
definition MediaTypeVideoNote :: string where "MediaTypeVideoNote = ''video_note''"
definition MediaTypeSticker :: string where "MediaTypeSticker = ''sticker''"
definition MediaTypeUnknown :: string where "MediaTypeUnknown = ''unknown''"

lemmas media_types = MediaTypePhoto_def MediaTypeVideo_def MediaTypeAnimation_def MediaTypeDocument_def
  MediaTypeAudio_def MediaTypeVoice_def MediaTypeVideoNote_def MediaTypeSticker_def MediaTypeUnknown_def

definition blank_attachment :: MediaAttachment where
  "blank_attachment = \<lparr>ma_Type = [], ma_FileID = [], ma_FileUniqueID = [], ma_MediaGroupID = [], ma_Caption = [],
     ma_FileName = [], ma_MimeType = [], ma_ByteSize = 0, ma_Width = 0, ma_Height = 0, ma_DurationSec = 0\<rparr>"

section \<open>The photo to keep\<close>

fun largest_loop :: "PhotoSize option \<Rightarrow> PhotoSize list \<Rightarrow> PhotoSize option" where
  "largest_loop found [] = found"
| "largest_loop None (sz # sizes) = largest_loop (Some sz) sizes"
| "largest_loop (Some largest) (sz # sizes) =
     (let area = ps_Width sz * ps_Height sz; largestArea = ps_Width largest * ps_Height largest
      in largest_loop
           (Some (if area > largestArea \<or> (area = largestArea \<and> ps_FileSize sz > ps_FileSize largest)
                  then sz else largest)) sizes)"

definition selectLargestPhoto :: "PhotoSize list \<Rightarrow> PhotoSize option" where
  "selectLargestPhoto sizes = largest_loop None sizes"

section \<open>Unknown media\<close>

definition knownMediaFields :: "string list" where
  "knownMediaFields = [MediaTypePhoto, MediaTypeVideo, MediaTypeAnimation, MediaTypeDocument, MediaTypeAudio,
     MediaTypeVoice, MediaTypeVideoNote, MediaTypeSticker]"

record rawFile =
  rf_FileID :: gostr
  rf_FileUniqueID :: gostr
  rf_FileName :: gostr
  rf_MimeType :: gostr
  rf_FileSize :: i64
  rf_Width :: int
  rf_Height :: int
  rf_Duration :: int

definition zero_rawFile :: rawFile where
  "zero_rawFile = \<lparr>rf_FileID = [], rf_FileUniqueID = [], rf_FileName = [], rf_MimeType = [], rf_FileSize = 0,
     rf_Width = 0, rf_Height = 0, rf_Duration = 0\<rparr>"

definition put_string :: "json \<Rightarrow> (gostr \<Rightarrow> rawFile) \<Rightarrow> rawFile \<Rightarrow> rawFile option" where
  "put_string v upd f = (case v of JNull \<Rightarrow> Some f | JStr s \<Rightarrow> Some (upd s) | _ \<Rightarrow> None)"

definition put_int :: "json \<Rightarrow> (int \<Rightarrow> rawFile) \<Rightarrow> rawFile \<Rightarrow> rawFile option" where
  "put_int v upd f = (case v of JNull \<Rightarrow> Some f | JNum n \<Rightarrow> if in_i64 n then Some (upd n) else None | _ \<Rightarrow> None)"

definition decode_field :: "string \<times> json \<Rightarrow> rawFile \<Rightarrow> rawFile option" where
  "decode_field kv f =
     (case kv of (k, v) \<Rightarrow>
        if k = ''file_id'' then put_string v (\<lambda>s. f\<lparr>rf_FileID := s\<rparr>) f
        else if k = ''file_unique_id'' then put_string v (\<lambda>s. f\<lparr>rf_FileUniqueID := s\<rparr>) f
        else if k = ''file_name'' then put_string v (\<lambda>s. f\<lparr>rf_FileName := s\<rparr>) f
        else if k = ''mime_type'' then put_string v (\<lambda>s. f\<lparr>rf_MimeType := s\<rparr>) f
        else if k = ''file_size'' then put_int v (\<lambda>n. f\<lparr>rf_FileSize := n\<rparr>) f
        else if k = ''width'' then put_int v (\<lambda>n. f\<lparr>rf_Width := n\<rparr>) f
        else if k = ''height'' then put_int v (\<lambda>n. f\<lparr>rf_Height := n\<rparr>) f
        else if k = ''duration'' then put_int v (\<lambda>n. f\<lparr>rf_Duration := n\<rparr>) f
        else Some f)"

fun decode_fields :: "(string \<times> json) list \<Rightarrow> rawFile \<Rightarrow> rawFile option" where
  "decode_fields [] f = Some f"
| "decode_fields (kv # kvs) f = (case decode_field kv f of None \<Rightarrow> None | Some f' \<Rightarrow> decode_fields kvs f')"

definition decode_rawFile :: "json \<Rightarrow> rawFile option" where
  "decode_rawFile v =
     (case v of JNull \<Rightarrow> Some zero_rawFile | JObj kvs \<Rightarrow> decode_fields kvs zero_rawFile | _ \<Rightarrow> None)"

fun decode_list :: "json list \<Rightarrow> rawFile list option" where
  "decode_list [] = Some []"
| "decode_list (v # vs) =
     (case decode_rawFile v of
        None \<Rightarrow> None
      | Some f \<Rightarrow> (case decode_list vs of None \<Rightarrow> None | Some fs \<Rightarrow> Some (f # fs)))"

definition decodeRawFiles :: "json \<Rightarrow> rawFile list" where
  "decodeRawFiles v =
     (case decode_rawFile v of
        Some single \<Rightarrow> if rf_FileID single = [] then [] else [single]
      | None \<Rightarrow>
          (case v of
             JArr vs \<Rightarrow> (case decode_list vs of None \<Rightarrow> [] | Some files \<Rightarrow> filter (\<lambda>f. rf_FileID f \<noteq> []) files)
           | _ \<Rightarrow> []))"

definition unknown_attachment :: "rawFile \<Rightarrow> MediaAttachment" where
  "unknown_attachment f = blank_attachment\<lparr>ma_Type := MediaTypeUnknown, ma_FileID := rf_FileID f,
     ma_FileUniqueID := rf_FileUniqueID f, ma_FileName := rf_FileName f, ma_MimeType := rf_MimeType f,
     ma_ByteSize := rf_FileSize f, ma_Width := rf_Width f, ma_Height := rf_Height f, ma_DurationSec := rf_Duration f\<rparr>"

definition extractUnknownMedia :: "json option \<Rightarrow> MediaAttachment list" where
  "extractUnknownMedia raw =
     (case raw of
        Some (JObj kvs) \<Rightarrow>
          concat (map (\<lambda>name. map unknown_attachment
                        (case map_of (rev kvs) name of None \<Rightarrow> [] | Some v \<Rightarrow> decodeRawFiles v))
            (sort (remdups (filter (\<lambda>name. name \<notin> set knownMediaFields) (map fst kvs)))))
      | _ \<Rightarrow> [])"

section \<open>Extraction\<close>

definition add_media :: "Message \<Rightarrow> MediaAttachment list \<Rightarrow> MediaAttachment list" where
  "add_media msg atts =
     map (\<lambda>a. a\<lparr>ma_MediaGroupID := msg_MediaGroupID msg, ma_Caption := msg_Caption msg\<rparr>)
       (filter (\<lambda>a. ma_FileID a \<noteq> []) atts)"

definition from_option :: "('a \<Rightarrow> MediaAttachment) \<Rightarrow> 'a option \<Rightarrow> MediaAttachment list" where
  "from_option f x = (case x of None \<Rightarrow> [] | Some y \<Rightarrow> [f y])"

definition from_object :: "string \<Rightarrow> MediaObject \<Rightarrow> MediaAttachment" where
  "from_object t m = blank_attachment\<lparr>ma_Type := t, ma_FileID := mo_FileID m, ma_FileUniqueID := mo_FileUniqueID m,
     ma_ByteSize := mo_FileSize m\<rparr>"

definition named :: "MediaObject \<Rightarrow> MediaAttachment \<Rightarrow> MediaAttachment" where
  "named m a = a\<lparr>ma_FileName := mo_FileName m, ma_MimeType := mo_MimeType m\<rparr>"

definition sized :: "MediaObject \<Rightarrow> MediaAttachment \<Rightarrow> MediaAttachment" where
  "sized m a = a\<lparr>ma_Width := mo_Width m, ma_Height := mo_Height m\<rparr>"

definition timed :: "MediaObject \<Rightarrow> MediaAttachment \<Rightarrow> MediaAttachment" where
  "timed m a = a\<lparr>ma_DurationSec := mo_Duration m\<rparr>"

definition ExtractMedia :: "Message \<Rightarrow> MediaAttachment list" where
  "ExtractMedia msg = add_media msg (
     from_option (\<lambda>p. blank_attachment\<lparr>ma_Type := MediaTypePhoto, ma_FileID := ps_FileID p,
         ma_FileUniqueID := ps_FileUniqueID p, ma_ByteSize := ps_FileSize p, ma_Width := ps_Width p,
         ma_Height := ps_Height p\<rparr>) (selectLargestPhoto (msg_Photo msg)) @
     from_option (\<lambda>m. timed m (sized m (named m (from_object MediaTypeVideo m)))) (msg_Video msg) @
     from_option (\<lambda>m. timed m (sized m (named m (from_object MediaTypeAnimation m)))) (msg_Animation msg) @
     (if msg_Animation msg = None
      then from_option (\<lambda>m. named m (from_object MediaTypeDocument m)) (msg_Document msg) else []) @
     from_option (\<lambda>m. timed m (named m (from_object MediaTypeAudio m))) (msg_Audio msg) @
     from_option (\<lambda>m. timed m ((from_object MediaTypeVoice m)\<lparr>ma_MimeType := mo_MimeType m\<rparr>)) (msg_Voice msg) @
     from_option (\<lambda>m. timed m ((from_object MediaTypeVideoNote m)\<lparr>ma_Width := mo_Length m, ma_Height := mo_Length m\<rparr>))
       (msg_VideoNote msg) @
     from_option (\<lambda>m. sized m (from_object MediaTypeSticker m)) (msg_Sticker msg) @
     extractUnknownMedia (msg_raw msg))"

section \<open>Properties\<close>

text \<open>The order the choice of a photo maximises.\<close>

definition photo_rank :: "PhotoSize \<Rightarrow> int \<times> int" where
  "photo_rank p = (ps_Width p * ps_Height p, ps_FileSize p)"

definition rank_le :: "int \<times> int \<Rightarrow> int \<times> int \<Rightarrow> bool" where
  "rank_le a b \<longleftrightarrow> fst a < fst b \<or> (fst a = fst b \<and> snd a \<le> snd b)"

lemma largest_loop_max:
  "largest_loop (Some l) ps = Some p \<Longrightarrow>
    (p = l \<or> p \<in> set ps) \<and> rank_le (photo_rank l) (photo_rank p) \<and> (\<forall>q \<in> set ps. rank_le (photo_rank q) (photo_rank p))"
proof (induction ps arbitrary: l)
  case Nil
  then show ?case by (simp add: rank_le_def)
next
  case (Cons q ps)
  let ?l = "if ps_Width q * ps_Height q > ps_Width l * ps_Height l \<or>
      (ps_Width q * ps_Height q = ps_Width l * ps_Height l \<and> ps_FileSize q > ps_FileSize l) then q else l"
  have "largest_loop (Some ?l) ps = Some p" using Cons.prems by (simp add: Let_def)
  note IH = Cons.IH [OF this]
  have up: "rank_le (photo_rank l) (photo_rank ?l)" "rank_le (photo_rank q) (photo_rank ?l)" "?l = l \<or> ?l = q"
    by (auto simp: rank_le_def photo_rank_def)
  have trans: "rank_le a b \<Longrightarrow> rank_le b c \<Longrightarrow> rank_le a c" for a b c by (auto simp: rank_le_def)
  have "rank_le (photo_rank l) (photo_rank p)" "rank_le (photo_rank q) (photo_rank p)"
    using trans [OF up(1)] trans [OF up(2)] IH by blast+
  moreover have "p = l \<or> p \<in> set (q # ps)" using up(3) IH by auto
  ultimately show ?case using IH by simp
qed

lemma largest_loop_some: "\<exists>p. largest_loop (Some l) ps = Some p"
  by (induction ps arbitrary: l) (simp_all add: Let_def)

text \<open>The photo kept of several resolutions is one of those offered, and none offered is better: the largest
  pixel area, then the largest file. There is one as soon as Telegram offers one, whatever the order it
  offers them in.\<close>

theorem largest_photo_kept:
  "(selectLargestPhoto sizes = None \<longleftrightarrow> sizes = []) \<and>
   (\<forall>p. selectLargestPhoto sizes = Some p \<longrightarrow> p \<in> set sizes \<and> (\<forall>q \<in> set sizes. rank_le (photo_rank q) (photo_rank p)))"
proof (cases sizes)
  case Nil
  then show ?thesis by (simp add: selectLargestPhoto_def)
next
  case (Cons l ps)
  then show ?thesis
    using largest_loop_some [of l ps] largest_loop_max [of l ps] by (auto simp: selectLargestPhoto_def)
qed

theorem largest_photo_kept_witness:
  "\<exists>p. selectLargestPhoto [\<lparr>ps_FileID = [1], ps_FileUniqueID = [], ps_Width = 9, ps_Height = 9, ps_FileSize = 0\<rparr>,
      \<lparr>ps_FileID = [2], ps_FileUniqueID = [], ps_Width = 3, ps_Height = 3, ps_FileSize = 5\<rparr>] = Some p \<and> ps_FileID p = [1] \<and>
     rank_le (photo_rank \<lparr>ps_FileID = [2], ps_FileUniqueID = [], ps_Width = 3, ps_Height = 3, ps_FileSize = 5\<rparr>) (photo_rank p)"
proof -
  let ?a = "\<lparr>ps_FileID = [1], ps_FileUniqueID = [], ps_Width = 9, ps_Height = 9, ps_FileSize = 0\<rparr> :: PhotoSize"
  let ?b = "\<lparr>ps_FileID = [2], ps_FileUniqueID = [], ps_Width = 3, ps_Height = 3, ps_FileSize = 5\<rparr> :: PhotoSize"
  have "selectLargestPhoto [?a, ?b] = Some ?a" by (simp add: selectLargestPhoto_def)
  then show ?thesis using largest_photo_kept [of "[?a, ?b]"] by auto
qed

text \<open>No media is dropped for being of a type the bot does not know: whenever the raw message has, at its top
  level, an object with a non-empty file id under a field that is not one of the known media, that file is in
  the result, marked unknown, with the caption and the album of the message.\<close>

theorem unknown_media_kept:
  assumes "msg_raw msg = Some (JObj kvs)" "map_of (rev kvs) name = Some v" "name \<notin> set knownMediaFields"
    and "decode_rawFile v = Some file" "rf_FileID file \<noteq> []"
  shows "(unknown_attachment file)\<lparr>ma_MediaGroupID := msg_MediaGroupID msg, ma_Caption := msg_Caption msg\<rparr>
    \<in> set (ExtractMedia msg)"
proof -
  have "name \<in> fst ` set kvs" using assms(2) by (metis map_of_SomeD fst_conv image_eqI set_rev)
  then have "unknown_attachment file \<in> set (extractUnknownMedia (msg_raw msg))"
    using assms by (auto simp: extractUnknownMedia_def decodeRawFiles_def intro!: bexI [of _ name])
  moreover have "ma_FileID (unknown_attachment file) \<noteq> []"
    using assms(5) by (simp add: unknown_attachment_def blank_attachment_def)
  ultimately show ?thesis unfolding ExtractMedia_def add_media_def by simp
qed

theorem unknown_media_kept_witness:
  "\<exists>a \<in> set (ExtractMedia (zero_message\<lparr>msg_raw := Some (JObj [(''hologram'', JObj [(''file_id'', JStr [72])])])\<rparr>)).
     ma_FileID a = [72] \<and> ma_Type a = MediaTypeUnknown"
proof -
  let ?v = "JObj [(''file_id'', JStr [72])]" and ?f = "zero_rawFile\<lparr>rf_FileID := [72]\<rparr>"
  let ?msg = "zero_message\<lparr>msg_raw := Some (JObj [(''hologram'', ?v)])\<rparr>"
  have "decode_rawFile ?v = Some ?f" by (simp add: decode_rawFile_def decode_field_def put_string_def)
  moreover have "''hologram'' \<notin> set knownMediaFields" by (simp add: knownMediaFields_def media_types)
  ultimately have "(unknown_attachment ?f)\<lparr>ma_MediaGroupID := msg_MediaGroupID ?msg, ma_Caption := msg_Caption ?msg\<rparr> \<in> set (ExtractMedia ?msg)"
    by (intro unknown_media_kept [of ?msg "[(''hologram'', ?v)]" "''hologram''" ?v]) simp_all
  then show ?thesis by (rule bexI [rotated]) (simp add: unknown_attachment_def)
qed

end
