(* ===== verification/Send_Media.thy ===== *)
theory Send_Media
  imports Alerts Media_Extract
begin

text \<open>
  \<open>bot/internal/telegram/sendmedia.go\<close>: the calls that deliver the files of an alert, up to the multipart
  request of each. \<open>lstat\<close> is the filesystem: for a path, whether it is a regular file, and its size. The JSON
  of the \<open>media\<close> field of an album is kept as the list it encodes; writing the body and the HTTP exchange are
  outside, so \<open>SendMediaOnce\<close> takes what each exchange returned and gives the forms it sent.
\<close>

definition maxUploadBytes :: int where "maxUploadBytes = 50 * 2 ^ 20"
definition maxGroupItems :: nat where "maxGroupItems = 10"

record MediaAlertItem =
  ai_Type :: string
  ai_Path :: gostr
  ai_FileName :: gostr
  ai_Caption :: gostr

record MediaAlert =
  al_ChatID :: i64
  al_Items :: "MediaAlertItem list"

record mediaSpec =
  sp_method :: string
  sp_field :: string
  sp_caption :: bool
  sp_groupType :: string
  sp_ext :: string

definition mediaSpecs :: "(string \<times> mediaSpec) list" where
  "mediaSpecs =
    [(MediaTypePhoto, \<lparr>sp_method = ''sendPhoto'', sp_field = ''photo'', sp_caption = True, sp_groupType = ''photo'', sp_ext = ''.jpg''\<rparr>),
     (MediaTypeVideo, \<lparr>sp_method = ''sendVideo'', sp_field = ''video'', sp_caption = True, sp_groupType = ''video'', sp_ext = ''.mp4''\<rparr>),
     (MediaTypeAnimation, \<lparr>sp_method = ''sendAnimation'', sp_field = ''animation'', sp_caption = True, sp_groupType = '''', sp_ext = ''.mp4''\<rparr>),
     (MediaTypeDocument, \<lparr>sp_method = ''sendDocument'', sp_field = ''document'', sp_caption = True, sp_groupType = ''document'', sp_ext = ''.bin''\<rparr>),
     (MediaTypeAudio, \<lparr>sp_method = ''sendAudio'', sp_field = ''audio'', sp_caption = True, sp_groupType = ''audio'', sp_ext = ''.mp3''\<rparr>),
     (MediaTypeVoice, \<lparr>sp_method = ''sendVoice'', sp_field = ''voice'', sp_caption = True, sp_groupType = '''', sp_ext = ''.ogg''\<rparr>),
     (MediaTypeVideoNote, \<lparr>sp_method = ''sendVideoNote'', sp_field = ''video_note'', sp_caption = False, sp_groupType = '''', sp_ext = ''.mp4''\<rparr>),
     (MediaTypeSticker, \<lparr>sp_method = ''sendSticker'', sp_field = ''sticker'', sp_caption = False, sp_groupType = '''', sp_ext = ''.webp''\<rparr>)]"

definition specFor :: "string \<Rightarrow> mediaSpec" where
  "specFor t = (case map_of mediaSpecs t of Some spec \<Rightarrow> spec | None \<Rightarrow> the (map_of mediaSpecs MediaTypeDocument))"

definition groupClass :: "string \<Rightarrow> string" where
  "groupClass t =
     (let g = sp_groupType (specFor t)
      in if g = ''photo'' \<or> g = ''video'' then ''visual''
         else if g = ''document'' then ''document''
         else if g = ''audio'' then ''audio'' else '''')"

section \<open>Batches\<close>

text \<open>\<open>planMediaBatches\<close>: the loop's \<open>current\<close> and \<open>currentClass\<close> are arguments, \<open>flush\<close> is the closure.\<close>

definition flush_batch :: "MediaAlertItem list \<Rightarrow> MediaAlertItem list list" where
  "flush_batch current = (if current \<noteq> [] then [current] else [])"

fun plan_loop :: "MediaAlertItem list \<Rightarrow> string \<Rightarrow> MediaAlertItem list \<Rightarrow> MediaAlertItem list list" where
  "plan_loop current currentClass [] = flush_batch current"
| "plan_loop current currentClass (item # items) =
     (let cls = groupClass (ai_Type item)
      in if cls = '''' then flush_batch current @ [item] # plan_loop [] (if current \<noteq> [] then '''' else currentClass) items
         else if cls \<noteq> currentClass \<or> length current = maxGroupItems
         then flush_batch current @ plan_loop [item] cls items
         else plan_loop (current @ [item]) currentClass items)"

definition planMediaBatches :: "MediaAlertItem list \<Rightarrow> MediaAlertItem list list" where
  "planMediaBatches items = plan_loop [] '''' items"

section \<open>File names\<close>

definition utf8_len :: "rune \<Rightarrow> nat" where
  "utf8_len r = (if r < 128 then 1 else if r < 2048 then 2 else if r < 65536 then 3 else 4)"

text \<open>The longest prefix of whole runes within 128 bytes: what the loop that walks back from byte 128 to valid
  UTF-8 leaves.\<close>

fun take_bytes :: "nat \<Rightarrow> gostr \<Rightarrow> gostr" where
  "take_bytes budget [] = []"
| "take_bytes budget (r # rs) = (if budget < utf8_len r then [] else r # take_bytes (budget - utf8_len r) rs)"

definition utf8_length :: "gostr \<Rightarrow> nat" where
  "utf8_length t = sum_list (map utf8_len t)"

definition sanitize_runes :: "gostr \<Rightarrow> gostr" where
  "sanitize_runes name =
     concat (map (\<lambda>r. if r < 32 \<or> r = 127 then [] else if r = 47 \<or> r = 92 \<or> r = 34 then [95] else [r]) name)"

definition sanitizeFileName :: "gostr \<Rightarrow> gostr" where
  "sanitizeFileName name =
     (let cleaned = TrimSpace (sanitize_runes name)
      in if cleaned = [46] \<or> cleaned = [46, 46] then []
         else if 128 < utf8_length cleaned then take_bytes 128 cleaned else cleaned)"

definition mediaFileName :: "MediaAlertItem \<Rightarrow> gostr" where
  "mediaFileName item =
     (let name = sanitizeFileName (ai_FileName item)
      in if name \<noteq> [] then name
         else runes (if map_of mediaSpecs (ai_Type item) = None then MediaTypeDocument else ai_Type item) @
              runes (sp_ext (specFor (ai_Type item))))"

section \<open>Forms\<close>

record inputMedia =
  im_Type :: string
  im_Media :: gostr
  im_Caption :: gostr

datatype form_value = FieldText gostr | FieldMedia "inputMedia list"

record formFile =
  ff_name :: gostr
  ff_filename :: gostr
  ff_path :: gostr

record mediaForm =
  mf_method :: string
  mf_fields :: "(string \<times> form_value) list"
  mf_files :: "formFile list"

definition checkMediaFile :: "(gostr \<Rightarrow> (bool \<times> int) option) \<Rightarrow> MediaAlertItem \<Rightarrow> go_error option" where
  "checkMediaFile lstat item =
     (if ai_Path item = [] then Some [ErrMediaUnavailable]
      else case lstat (ai_Path item) of
          None \<Rightarrow> Some [ErrMediaUnavailable]
        | Some (regular, sz) \<Rightarrow>
            if \<not> regular then Some [ErrMediaUnavailable]
            else if sz = 0 then Some [ErrMediaUnavailable]
            else if maxUploadBytes < sz then Some [ErrMediaTooLarge]
            else None)"

definition buildSingleForm :: "i64 \<Rightarrow> MediaAlertItem \<Rightarrow> mediaForm" where
  "buildSingleForm chatID item =
     (let spec = specFor (ai_Type item); caption = TruncateCaption (ai_Caption item)
      in \<lparr>mf_method = sp_method spec,
          mf_fields = (''chat_id'', FieldText (dec_int chatID)) #
             (if caption \<noteq> [] \<and> sp_caption spec then [(''caption'', FieldText caption)] else []),
          mf_files = [\<lparr>ff_name = runes (sp_field spec), ff_filename = mediaFileName item, ff_path = ai_Path item\<rparr>]\<rparr>)"

definition part_name :: "nat \<Rightarrow> gostr" where
  "part_name i = runes ''file'' @ dec i"

definition buildGroupForm :: "i64 \<Rightarrow> MediaAlertItem list \<Rightarrow> mediaForm" where
  "buildGroupForm chatID batch =
     \<lparr>mf_method = ''sendMediaGroup'',
      mf_fields = [(''chat_id'', FieldText (dec_int chatID)),
        (''media'', FieldMedia (map (\<lambda>(i, item). \<lparr>im_Type = sp_groupType (specFor (ai_Type item)),
            im_Media = runes ''attach://'' @ part_name i, im_Caption = TruncateCaption (ai_Caption item)\<rparr>) (enumerate 0 batch)))],
      mf_files = map (\<lambda>(i, item). \<lparr>ff_name = part_name i, ff_filename = mediaFileName item, ff_path = ai_Path item\<rparr>)
        (enumerate 0 batch)\<rparr>"

definition buildMediaForm :: "(gostr \<Rightarrow> (bool \<times> int) option) \<Rightarrow> i64 \<Rightarrow> MediaAlertItem list \<Rightarrow> go_error + mediaForm" where
  "buildMediaForm lstat chatID batch =
     (case find (\<lambda>e. e \<noteq> None) (map (checkMediaFile lstat) batch) of
        Some (Some err) \<Rightarrow> Inl err
      | _ \<Rightarrow> Inr (if length batch = 1 then buildSingleForm chatID (hd batch) else buildGroupForm chatID batch))"

text \<open>\<open>SendMediaOnce\<close>: \<open>exchanges\<close> answers each form in turn, \<open>None\<close> for a success. The result is the error
  that stopped it, if any, with the forms it sent.\<close>

fun send_batches :: "(gostr \<Rightarrow> (bool \<times> int) option) \<Rightarrow> (nat \<Rightarrow> go_error option) \<Rightarrow> i64 \<Rightarrow> MediaAlertItem list list \<Rightarrow>
    mediaForm list \<Rightarrow> go_error option \<times> mediaForm list" where
  "send_batches lstat exchanges chatID [] sent = (None, sent)"
| "send_batches lstat exchanges chatID (b # bs) sent =
     (case buildMediaForm lstat chatID b of
        Inl err \<Rightarrow> (Some err, sent)
      | Inr form \<Rightarrow>
          (case exchanges (length sent) of
             Some err \<Rightarrow> (Some err, sent @ [form])
           | None \<Rightarrow> send_batches lstat exchanges chatID bs (sent @ [form])))"

definition SendMediaOnce :: "(gostr \<Rightarrow> (bool \<times> int) option) \<Rightarrow> (nat \<Rightarrow> go_error option) \<Rightarrow> MediaAlert \<Rightarrow> go_error option \<times> mediaForm list" where
  "SendMediaOnce lstat exchanges alert =
     (if al_ChatID alert = 0 then (Some [Msg ''media alert without a target chat''], [])
      else if al_Items alert = [] then (Some [ErrMediaUnavailable], [])
      else send_batches lstat exchanges (al_ChatID alert) (planMediaBatches (al_Items alert)) [])"

section \<open>Properties\<close>

definition good_batch :: "MediaAlertItem list \<Rightarrow> bool" where
  "good_batch b \<longleftrightarrow> b \<noteq> [] \<and> length b \<le> maxGroupItems \<and>
     (1 < length b \<longrightarrow> (\<exists>c. c \<noteq> '''' \<and> (\<forall>item \<in> set b. groupClass (ai_Type item) = c)))"

lemma good_single [simp]: "good_batch [item]"
  by (simp add: good_batch_def maxGroupItems_def)

lemma flush_good: "current = [] \<or> good_batch current \<Longrightarrow> \<forall>b \<in> set (flush_batch current). good_batch b"
  by (auto simp: flush_batch_def)

lemma plan_loop_concat: "concat (plan_loop current c items) = current @ concat (map (\<lambda>i. [i]) items)"
proof (induction items arbitrary: current c)
  case (Cons item items)
  have "concat (flush_batch current) = current" by (simp add: flush_batch_def)
  then show ?case using Cons.IH by (simp add: Let_def)
qed (simp add: flush_batch_def)

lemma plan_loop_good:
  "length current \<le> maxGroupItems \<Longrightarrow> (\<forall>item \<in> set current. groupClass (ai_Type item) = c) \<Longrightarrow>
    current \<noteq> [] \<longrightarrow> c \<noteq> '''' \<Longrightarrow> \<forall>b \<in> set (plan_loop current c items). good_batch b"
proof (induction items arbitrary: current c)
  case Nil
  then have "current = [] \<or> good_batch current" by (auto simp: good_batch_def)
  then show ?case using flush_good by simp
next
  case (Cons item items)
  have cur: "current = [] \<or> good_batch current" using Cons.prems by (auto simp: good_batch_def)
  let ?cls = "groupClass (ai_Type item)"
  show ?case
  proof (cases "?cls = ''''")
    case True
    have "\<forall>b \<in> set (plan_loop [] (if current \<noteq> [] then '''' else c) items). good_batch b" by (rule Cons.IH) auto
    then show ?thesis using True flush_good [OF cur] by (auto simp: Let_def)
  next
    case False
    show ?thesis
    proof (cases "?cls \<noteq> c \<or> length current = maxGroupItems")
      case True
      have "\<forall>b \<in> set (plan_loop [item] ?cls items). good_batch b"
        by (rule Cons.IH) (use False in \<open>auto simp: maxGroupItems_def\<close>)
      then show ?thesis using True False flush_good [OF cur] by (auto simp: Let_def)
    next
      case same: False
      then have "\<forall>b \<in> set (plan_loop (current @ [item]) c items). good_batch b"
        by (intro Cons.IH) (use False Cons.prems in auto)
      then show ?thesis using same False by (simp add: Let_def)
    qed
  qed
qed

text \<open>The files of an alert go out in album order, each exactly once: the batches concatenate to the items as
  given, none is empty or above ten items, and two files share a call only when the Bot API can group them.\<close>

theorem media_batches_partition:
  "concat (planMediaBatches items) = items \<and> list_all good_batch (planMediaBatches items)"
proof -
  have "concat (map (\<lambda>i. [i]) items) = items" by (induction items) simp_all
  then show ?thesis
    using plan_loop_concat [of "[]" "''''" items] plan_loop_good [of "[]" "''''" items]
    by (simp add: planMediaBatches_def list_all_iff)
qed

lemma take_bytes_bound: "utf8_length (take_bytes n t) \<le> n"
proof (induction t arbitrary: n)
  case (Cons r rs)
  show ?case
  proof (cases "n < utf8_len r")
    case False
    then show ?thesis using Cons.IH [of "n - utf8_len r"] by (simp add: utf8_length_def)
  qed (simp add: utf8_length_def)
qed (simp add: utf8_length_def)

lemma take_bytes_subset: "set (take_bytes n t) \<subseteq> set t"
proof (induction t arbitrary: n)
  case (Cons r rs)
  then show ?case using Cons.IH [of "n - utf8_len r"] by auto
qed simp

lemma TrimSpace_subset: "set (TrimSpace t) \<subseteq> set t"
  using TrimRight_prefix [of "TrimLeft IsSpace t" IsSpace] set_dropWhileD [of _ IsSpace t]
  by (auto simp: TrimSpace_def TrimLeft_def) (metis Un_iff set_append)

lemma sanitize_runes_clean: "r \<in> set (sanitize_runes name) \<Longrightarrow> 32 \<le> r \<and> r \<noteq> 127 \<and> r \<noteq> 47 \<and> r \<noteq> 92 \<and> r \<noteq> 34"
  by (auto simp: sanitize_runes_def split: if_splits)

text \<open>The name a sender chose for a file can do no harm in the request that carries it: no control character,
  so no header can be injected, no quote and no path separator; at most 128 bytes; and never empty.\<close>

theorem file_name_safe:
  "mediaFileName item \<noteq> [] \<and> utf8_length (sanitizeFileName (ai_FileName item)) \<le> 128 \<and>
   list_all (\<lambda>r. 32 \<le> r \<and> r \<noteq> 127 \<and> r \<noteq> 47 \<and> r \<noteq> 92 \<and> r \<noteq> 34) (sanitizeFileName (ai_FileName item))"
proof -
  let ?name = "ai_FileName item"
  have "set (sanitizeFileName ?name) \<subseteq> set (sanitize_runes ?name)"
    using TrimSpace_subset [of "sanitize_runes ?name"] take_bytes_subset [of 128 "TrimSpace (sanitize_runes ?name)"]
    by (auto simp: sanitizeFileName_def Let_def split: if_splits)
  then have "list_all (\<lambda>r. 32 \<le> r \<and> r \<noteq> 127 \<and> r \<noteq> 47 \<and> r \<noteq> 92 \<and> r \<noteq> 34) (sanitizeFileName ?name)"
    using sanitize_runes_clean [of _ ?name] by (auto simp: list_all_iff)
  moreover have "utf8_length (sanitizeFileName ?name) \<le> 128"
    using take_bytes_bound [of 128] by (auto simp: sanitizeFileName_def Let_def utf8_length_def)
  moreover have "runes (sp_ext (specFor (ai_Type item))) \<noteq> []"
    by (auto simp: specFor_def mediaSpecs_def runes_def split: option.splits if_splits)
  then have "mediaFileName item \<noteq> []" by (simp add: mediaFileName_def Let_def)
  ultimately show ?thesis by blast
qed

end
