(* ===== verification/Tenant_Table.thy ===== *)
theory Tenant_Table
  imports Errors
begin

text \<open>
  \<open>bot/internal/storage/db.go\<close>: \<open>DB.InTenant\<close>, and the row level security it relies on.

  A table under \<open>FORCE ROW LEVEL SECURITY\<close> is the list of its rows in primary key order. Each of
  them carries its owner, and the policy of every such table (\<open>storage/migrations\<close>, the clause
  \<open>owner_user_id = current_setting('app.current_owner_user_id')\<close>) hides from a statement every row of
  another tenant, and refuses a new row of another tenant. \<open>t_select\<close>, \<open>t_update\<close>, \<open>t_delete\<close> and
  \<open>t_insert\<close> are the four statements under that policy; the tenant they take is the one \<open>InTenant\<close>
  put in the transaction's setting. A statement that fails rolls the whole transaction back, which is
  the \<open>Inl\<close> branch of \<open>in_tenant\<close>: the table is the one before it.

  The locale \<open>tenant_op\<close> is the contract of every repository method that writes such a table: it
  leaves the rows of the other tenants as they are. It is interpreted by each repository.
\<close>

section \<open>Statements under the row level security policy\<close>

definition t_select :: "('r \<Rightarrow> i64) \<Rightarrow> i64 \<Rightarrow> ('r \<Rightarrow> bool) \<Rightarrow> 'r list \<Rightarrow> 'r list" where
  "t_select own t P rows = filter (\<lambda>r. own r = t \<and> P r) rows"

definition t_update :: "('r \<Rightarrow> i64) \<Rightarrow> i64 \<Rightarrow> ('r \<Rightarrow> bool) \<Rightarrow> ('r \<Rightarrow> 'r) \<Rightarrow> 'r list \<Rightarrow> 'r list" where
  "t_update own t P f rows = update_where (\<lambda>r. own r = t \<and> P r) f rows"

definition t_delete :: "('r \<Rightarrow> i64) \<Rightarrow> i64 \<Rightarrow> ('r \<Rightarrow> bool) \<Rightarrow> 'r list \<Rightarrow> 'r list" where
  "t_delete own t P rows = filter (\<lambda>r. \<not> (own r = t \<and> P r)) rows"

definition t_insert :: "('r \<Rightarrow> i64) \<Rightarrow> i64 \<Rightarrow> 'r \<Rightarrow> 'r list \<Rightarrow> 'r list" where
  "t_insert own t r rows = (if own r = t then rows @ [r] else rows)"

text \<open>
  \<open>DB.InTenant\<close>: the transaction of one tenant. \<open>begin_ok\<close> and \<open>commit_ok\<close> say whether PostgreSQL
  opened and committed the transaction; \<open>fn\<close> is the body, which sees the tables and fails or returns
  the new ones with a result.
\<close>

datatype 'e tx_error = BeginFailed | BodyFailed 'e | CommitFailed

definition in_tenant ::
  "bool \<Rightarrow> bool \<Rightarrow> (i64 \<Rightarrow> 's \<Rightarrow> 'e + ('a \<times> 's)) \<Rightarrow> i64 \<Rightarrow> 's \<Rightarrow> ('e tx_error + 'a) \<times> 's" where
  "in_tenant begin_ok commit_ok fn t s =
     (if \<not> begin_ok then (Inl BeginFailed, s)
      else case fn t s of
          Inl e \<Rightarrow> (Inl (BodyFailed e), s)
        | Inr (a, s') \<Rightarrow> if commit_ok then (Inr a, s') else (Inl CommitFailed, s))"

text \<open>A transaction that reports an error changed nothing.\<close>

lemma in_tenant_error_frame [frame]: "in_tenant b c fn t s = (Inl e, s') \<Longrightarrow> s' = s"
  by (auto simp: in_tenant_def split: if_splits sum.splits prod.splits)

lemma in_tenant_commit: "in_tenant b c fn t s = (Inr a, s') \<longleftrightarrow> b \<and> c \<and> fn t s = Inr (a, s')"
  by (auto simp: in_tenant_def split: if_splits sum.splits prod.splits)

text \<open>
  The repositories call \<open>InTenant\<close> with a body that runs statements. \<open>tx\<close> says whether PostgreSQL opened the
  transaction, ran the statements and committed; the errors are the causes Go would see.
\<close>

record tx_env =
  tx_begin :: bool
  tx_exec :: bool
  tx_commit :: bool

definition tx_ok :: "tx_env \<Rightarrow> bool" where
  "tx_ok tx \<longleftrightarrow> tx_begin tx \<and> tx_exec tx \<and> tx_commit tx"

definition good_tx :: tx_env where
  "good_tx = \<lparr>tx_begin = True, tx_exec = True, tx_commit = True\<rparr>"

lemma tx_ok_good [simp]: "tx_ok good_tx"
  by (simp add: tx_ok_def good_tx_def)

definition InTenant :: "tx_env \<Rightarrow> (i64 \<Rightarrow> 's \<Rightarrow> go_error + ('a \<times> 's)) \<Rightarrow> i64 \<Rightarrow> 's \<Rightarrow> (go_error + 'a) \<times> 's" where
  "InTenant tx fn t s =
     (case in_tenant (tx_begin tx) (tx_commit tx)
             (\<lambda>t s. if tx_exec tx then fn t s else Inl [Msg ''statement'']) t s of
        (Inr a, s') \<Rightarrow> (Inr a, s')
      | (Inl BeginFailed, s') \<Rightarrow> (Inl [Msg ''begin transaction''], s')
      | (Inl (BodyFailed e), s') \<Rightarrow> (Inl e, s')
      | (Inl CommitFailed, s') \<Rightarrow> (Inl [Msg ''commit transaction''], s'))"

lemma InTenant_ok:
  "tx_ok tx \<Longrightarrow> InTenant tx fn t s = (case fn t s of Inl e \<Rightarrow> (Inl e, s) | Inr (a, s') \<Rightarrow> (Inr a, s'))"
  by (auto simp: InTenant_def in_tenant_def tx_ok_def split: sum.splits prod.splits)

lemma InTenant_cases:
  "InTenant tx fn t s = (r, s') \<Longrightarrow> (\<exists>e. r = Inl e \<and> s' = s) \<or> (tx_ok tx \<and> (\<exists>a. r = Inr a \<and> fn t s = Inr (a, s')))"
  by (auto simp: InTenant_def in_tenant_def tx_ok_def split: sum.splits prod.splits if_splits tx_error.splits)

lemma InTenant_Inr: "InTenant tx fn t s = (Inr a, s') \<Longrightarrow> tx_ok tx \<and> fn t s = Inr (a, s')"
  using InTenant_cases [of tx fn t s "Inr a" s'] by simp

lemma InTenant_Inl: "InTenant tx fn t s = (Inl e, s') \<Longrightarrow> s' = s"
  using InTenant_cases [of tx fn t s "Inl e" s'] by simp

text \<open>Whatever a transaction's body keeps, the transaction keeps.\<close>

lemma InTenant_keeps:
  assumes "I s" "\<And>a s'. fn t s = Inr (a, s') \<Longrightarrow> I s'"
  shows "I (snd (InTenant tx fn t s))"
proof -
  obtain r s' where r: "InTenant tx fn t s = (r, s')" by (cases "InTenant tx fn t s")
  then show ?thesis using InTenant_cases [OF r] assms by auto
qed

section \<open>The other tenants' rows\<close>

definition others :: "('r \<Rightarrow> i64) \<Rightarrow> i64 \<Rightarrow> 'r list \<Rightarrow> 'r list" where
  "others own t rows = filter (\<lambda>r. own r \<noteq> t) rows"

definition mine :: "('r \<Rightarrow> i64) \<Rightarrow> i64 \<Rightarrow> 'r list \<Rightarrow> 'r list" where
  "mine own t rows = filter (\<lambda>r. own r = t) rows"

lemma t_select_mine [simp]: "t_select own t P (mine own t rows) = t_select own t P rows"
  by (simp add: t_select_def mine_def conj_ac)

lemma set_t_select: "r \<in> set (t_select own t P rows) \<longleftrightarrow> r \<in> set rows \<and> own r = t \<and> P r"
  by (auto simp: t_select_def)

lemma others_append [simp]: "others own t (xs @ ys) = others own t xs @ others own t ys"
  by (simp add: others_def)

lemma others_t_update [frame]:
  "(\<And>r. own r = t \<Longrightarrow> P r \<Longrightarrow> own (f r) = t) \<Longrightarrow> others own t (t_update own t P f rows) = others own t rows"
  unfolding others_def t_update_def by (rule filter_update_where_other) auto

lemma others_t_delete [frame]: "others own t (t_delete own t P rows) = others own t rows"
  by (simp add: others_def t_delete_def) (rule filter_cong, auto)

lemma others_t_insert [frame]: "others own t (t_insert own t r rows) = others own t rows"
  by (simp add: others_def t_insert_def)

lemma mine_t_delete_all: "mine own t (t_delete own t (\<lambda>_. True) rows) = []"
  by (simp add: mine_def t_delete_def filter_empty_conv)

lemma mine_other_eq:
  "others own t rows' = others own t rows \<Longrightarrow> u \<noteq> t \<Longrightarrow> mine own u rows' = mine own u rows"
proof -
  assume eq: "others own t rows' = others own t rows" and ne: "u \<noteq> t"
  have "mine own u xs = filter (\<lambda>r. own r = u) (others own t xs)" for xs
    using ne by (simp add: mine_def others_def) (rule filter_cong, auto)
  then show ?thesis using eq by simp
qed

section \<open>The contract of a tenant-scoped repository method\<close>

locale tenant_op =
  fixes owner_of :: "'r \<Rightarrow> i64"
    and op :: "'x \<Rightarrow> i64 \<Rightarrow> 'r list \<Rightarrow> 'r list"
  assumes op_frame: "others owner_of t (op x t rows) = others owner_of t rows"
begin

text \<open>A tenant sees nothing of what another tenant's call did.\<close>

lemma other_tenant_unaffected: "u \<noteq> t \<Longrightarrow> mine owner_of u (op x t rows) = mine owner_of u rows"
  using op_frame by (rule mine_other_eq)

lemma other_row_kept: "owner_of r \<noteq> t \<Longrightarrow> r \<in> set (op x t rows) \<longleftrightarrow> r \<in> set rows"
proof -
  assume "owner_of r \<noteq> t"
  then have mem: "r \<in> set xs \<longleftrightarrow> r \<in> set (others owner_of t xs)" for xs by (simp add: others_def)
  show ?thesis using mem [of "op x t rows"] mem [of rows] by (simp add: op_frame)
qed

text \<open>Any sequence of calls of other tenants leaves this tenant's rows alone.\<close>

lemma run_unaffected:
  "(\<And>x t. (x, t) \<in> set calls \<Longrightarrow> t \<noteq> u) \<Longrightarrow>
    mine owner_of u (foldl (\<lambda>rows (x, t). op x t rows) rows calls) = mine owner_of u rows"
proof (induction calls arbitrary: rows)
  case Nil
  then show ?case by simp
next
  case (Cons c calls)
  obtain x t where c: "c = (x, t)" by (cases c)
  have "t \<noteq> u" using Cons.prems [of x t] by (simp add: c)
  then have "mine owner_of u (op x t rows) = mine owner_of u rows"
    using other_tenant_unaffected [of u t] by simp
  moreover have "mine owner_of u (foldl (\<lambda>rows (x, t). op x t rows) (op x t rows) calls)
      = mine owner_of u (op x t rows)"
    by (rule Cons.IH) (use Cons.prems in auto)
  ultimately show ?case by (simp add: c)
qed

end

end
