(* ===== verification/Outbox.thy ===== *)
theory Outbox
  imports Tenant_Table Users Text
begin

text \<open>
  \<open>bot/internal/outbox/payload.go\<close> and \<open>repository.go\<close>: the durable queue of deletion alerts.

  The table \<open>notification_outbox\<close> is the list of its rows with the sequence of its ids; every method runs its
  statements under row level security through \<open>InTenant\<close>. The clock of the PostgreSQL server is the argument
  \<open>now\<close>. Two claims never run at once here: \<open>FOR UPDATE SKIP LOCKED\<close> makes the second skip the row of the
  first, which is what the lease does for claims one after the other. A media payload is what its JSON decodes
  to (\<open>None\<close> for a payload that cannot be decoded or has no item). \<open>created_at\<close> is kept for the retention;
  \<open>updated_at\<close> and \<open>sent_at\<close> are read by no code and left out.
\<close>

section \<open>State\<close>

record MediaItem =
  mi_MediaFileID :: i64
  mi_MessageID :: i64
  mi_FileIndex :: int
  mi_MediaType :: string
  mi_RelativePath :: gostr
  mi_FileName :: gostr
  mi_Caption :: gostr

record MediaPayload =
  mp_MediaGroupID :: string
  mp_Items :: "MediaItem list"

definition MediaTypes :: "MediaPayload \<Rightarrow> string list" where
  "MediaTypes p = map mi_MediaType (mp_Items p)"

definition PayloadKindText :: string where "PayloadKindText = ''text''"
definition PayloadKindMedia :: string where "PayloadKindMedia = ''media''"
definition EventDeletedMessage :: string where "EventDeletedMessage = ''deleted_message''"

datatype ob_status = Pending | Processing | Sent | Failed

record ob_row =
  ob_id :: i64
  ob_owner :: i64
  ob_tg :: i64
  ob_conn :: string
  ob_chat :: i64
  ob_msg :: i64
  ob_event :: string
  ob_chunk :: int
  ob_text :: gostr
  ob_kind :: string
  ob_media :: "MediaPayload option"
  ob_status :: ob_status
  ob_attempts :: int
  ob_next :: instant
  ob_locked :: "instant option"
  ob_token :: "string option"
  ob_error :: "string option"
  ob_created :: instant

record outbox =
  ox_rows :: "ob_row list"
  ox_seq :: i64

definition empty_outbox :: outbox where
  "empty_outbox = \<lparr>ox_rows = [], ox_seq = 1\<rparr>"

definition failedResweepDelay :: duration where
  "failedResweepDelay = 6 * 3600 * 10 ^ 9"

text \<open>\<open>decodeMediaPayload\<close>, after the JSON: a payload without items is no payload.\<close>

definition decodeMediaPayload :: "MediaPayload option \<Rightarrow> MediaPayload option" where
  "decodeMediaPayload raw = (case raw of None \<Rightarrow> None | Some p \<Rightarrow> if mp_Items p = [] then None else Some p)"

section \<open>Operations\<close>

definition ob_key :: "ob_row \<Rightarrow> i64 \<times> string \<times> i64 \<times> i64 \<times> string" where
  "ob_key r = (ob_owner r, ob_conn r, ob_chat r, ob_msg r, ob_event r)"

definition insertTx ::
  "instant \<Rightarrow> i64 \<Rightarrow> i64 \<Rightarrow> string \<Rightarrow> i64 \<Rightarrow> i64 \<Rightarrow> string \<Rightarrow> int \<Rightarrow> gostr \<Rightarrow> string \<Rightarrow> MediaPayload option \<Rightarrow> outbox \<Rightarrow> outbox" where
  "insertTx now owner tg conn chat msg event chunk txt kind media ox =
     (let new = \<lparr>ob_id = ox_seq ox, ob_owner = owner, ob_tg = tg, ob_conn = conn, ob_chat = chat, ob_msg = msg,
            ob_event = event, ob_chunk = chunk, ob_text = txt, ob_kind = kind, ob_media = media,
            ob_status = Pending, ob_attempts = 0, ob_next = now, ob_locked = None, ob_token = None,
            ob_error = None, ob_created = now\<rparr>
      in if \<exists>r \<in> set (ox_rows ox). ob_key r = ob_key new \<and> ob_chunk r = chunk
         then ox\<lparr>ox_seq := ox_seq ox + 1\<rparr>
         else ox\<lparr>ox_rows := ox_rows ox @ [new], ox_seq := ox_seq ox + 1\<rparr>)"

definition InsertTx :: "instant \<Rightarrow> i64 \<Rightarrow> i64 \<Rightarrow> string \<Rightarrow> i64 \<Rightarrow> i64 \<Rightarrow> string \<Rightarrow> int \<Rightarrow> gostr \<Rightarrow> outbox \<Rightarrow> outbox" where
  "InsertTx now owner tg conn chat msg event chunk txt =
     insertTx now owner tg conn chat msg event chunk txt PayloadKindText None"

definition InsertMediaTx ::
  "instant \<Rightarrow> i64 \<Rightarrow> i64 \<Rightarrow> string \<Rightarrow> i64 \<Rightarrow> i64 \<Rightarrow> string \<Rightarrow> int \<Rightarrow> gostr \<Rightarrow> MediaPayload \<Rightarrow> outbox \<Rightarrow> outbox" where
  "InsertMediaTx now owner tg conn chat msg event chunk txt payload =
     insertTx now owner tg conn chat msg event chunk txt PayloadKindMedia (Some payload)"

record Job =
  job_ID :: i64
  job_OwnerUserID :: i64
  job_OwnerTelegramUserID :: i64
  job_BusinessConnectionID :: string
  job_ChatID :: i64
  job_MessageID :: i64
  job_EventType :: string
  job_Text :: gostr
  job_Attempts :: int
  job_LeaseToken :: string
  job_PayloadKind :: string
  job_Media :: "MediaPayload option"

text \<open>The \<open>candidate\<close> query of \<open>Claim\<close>: which rows are due, and the first of them by deadline and id.\<close>

definition prior_open :: "ob_row \<Rightarrow> ob_row \<Rightarrow> bool" where
  "prior_open r p \<longleftrightarrow> ob_key p = ob_key r \<and> ob_chunk p < ob_chunk r \<and> ob_status p \<noteq> Sent \<and> ob_status p \<noteq> Failed"

definition claimable :: "instant \<Rightarrow> ob_row list \<Rightarrow> ob_row \<Rightarrow> bool" where
  "claimable now rows r \<longleftrightarrow> ob_status r \<noteq> Sent \<and> ob_next r \<le> now \<and>
     (case ob_locked r of None \<Rightarrow> True | Some until \<Rightarrow> until \<le> now) \<and> \<not> list_ex (prior_open r) rows"

fun earliest :: "ob_row list \<Rightarrow> ob_row option" where
  "earliest [] = None"
| "earliest (r # rs) =
     (case earliest rs of
        None \<Rightarrow> Some r
      | Some q \<Rightarrow> if ob_next q < ob_next r \<or> (ob_next q = ob_next r \<and> ob_id q < ob_id r) then Some q else Some r)"

definition lease_row :: "instant \<Rightarrow> duration \<Rightarrow> string \<Rightarrow> ob_row \<Rightarrow> ob_row" where
  "lease_row now lease token r = r\<lparr>ob_status := Processing,
     ob_attempts := (if ob_status r = Failed then 0 else ob_attempts r),
     ob_locked := Some (now + lease), ob_token := Some token\<rparr>"

definition job_of :: "ob_row \<Rightarrow> Job" where
  "job_of r = \<lparr>job_ID = ob_id r, job_OwnerUserID = ob_owner r, job_OwnerTelegramUserID = ob_tg r,
     job_BusinessConnectionID = ob_conn r, job_ChatID = ob_chat r, job_MessageID = ob_msg r,
     job_EventType = ob_event r, job_Text = ob_text r, job_Attempts = ob_attempts r,
     job_LeaseToken = (case ob_token r of Some tk \<Rightarrow> tk | None \<Rightarrow> []), job_PayloadKind = ob_kind r,
     job_Media = (if ob_kind r = PayloadKindMedia then decodeMediaPayload (ob_media r) else None)\<rparr>"

definition claim_body :: "instant \<Rightarrow> duration \<Rightarrow> string \<Rightarrow> i64 \<Rightarrow> outbox \<Rightarrow> go_error + (Job option \<times> outbox)" where
  "claim_body now lease token t ox =
     (let visible = mine ob_owner t (ox_rows ox) in
      case earliest (filter (claimable now visible) visible) of
        None \<Rightarrow> Inr (None, ox)
      | Some c \<Rightarrow>
          Inr (Some (job_of (lease_row now lease token c)),
               ox\<lparr>ox_rows := t_update ob_owner t (\<lambda>r. ob_id r = ob_id c) (lease_row now lease token) (ox_rows ox)\<rparr>))"

text \<open>\<open>token\<close> is what \<open>newLeaseToken\<close> returned, \<open>None\<close> when the random source failed.\<close>

definition Claim :: "tx_env \<Rightarrow> string option \<Rightarrow> instant \<Rightarrow> i64 \<Rightarrow> duration \<Rightarrow> outbox \<Rightarrow> (go_error + Job option) \<times> outbox" where
  "Claim tx token now owner lease ox =
     (case token of
        None \<Rightarrow> (Inl [Msg ''lease token generation''], ox)
      | Some tk \<Rightarrow> InTenant tx (claim_body now lease tk) owner ox)"

text \<open>The three acknowledgements: an update of the leased row, whose row count \<open>verifyLeaseUpdate\<close> checks.\<close>

definition leased_row :: "i64 \<Rightarrow> string \<Rightarrow> ob_row \<Rightarrow> bool" where
  "leased_row i token r \<longleftrightarrow> ob_id r = i \<and> ob_status r = Processing \<and> ob_token r = Some token"

definition verifyLeaseUpdate :: "nat \<Rightarrow> 'a \<Rightarrow> go_error + 'a" where
  "verifyLeaseUpdate affected x = (if affected \<noteq> 1 then Inl [ErrLeaseLost] else Inr x)"

definition lease_update :: "i64 \<Rightarrow> string \<Rightarrow> (ob_row \<Rightarrow> ob_row) \<Rightarrow> i64 \<Rightarrow> outbox \<Rightarrow> go_error + (unit \<times> outbox)" where
  "lease_update i token f t ox =
     verifyLeaseUpdate (length (t_select ob_owner t (leased_row i token) (ox_rows ox)))
       ((), ox\<lparr>ox_rows := t_update ob_owner t (leased_row i token) f (ox_rows ox)\<rparr>)"

definition MarkSent :: "tx_env \<Rightarrow> i64 \<Rightarrow> i64 \<Rightarrow> string \<Rightarrow> outbox \<Rightarrow> (go_error + unit) \<times> outbox" where
  "MarkSent tx owner i token =
     InTenant tx (lease_update i token (\<lambda>r. r\<lparr>ob_status := Sent, ob_locked := None, ob_token := None, ob_error := None\<rparr>)) owner"

definition MarkRetry :: "tx_env \<Rightarrow> instant \<Rightarrow> i64 \<Rightarrow> i64 \<Rightarrow> string \<Rightarrow> duration \<Rightarrow> string \<Rightarrow> outbox \<Rightarrow> (go_error + unit) \<times> outbox" where
  "MarkRetry tx now owner i token wait errorClass =
     InTenant tx (lease_update i token (\<lambda>r. r\<lparr>ob_status := Pending, ob_attempts := ob_attempts r + 1,
        ob_next := now + wait, ob_locked := None, ob_token := None, ob_error := Some errorClass\<rparr>)) owner"

definition MarkFailed :: "tx_env \<Rightarrow> instant \<Rightarrow> i64 \<Rightarrow> i64 \<Rightarrow> string \<Rightarrow> string \<Rightarrow> outbox \<Rightarrow> (go_error + unit) \<times> outbox" where
  "MarkFailed tx now owner i token errorClass =
     InTenant tx (lease_update i token (\<lambda>r. r\<lparr>ob_status := Failed, ob_attempts := ob_attempts r + 1,
        ob_next := now + failedResweepDelay, ob_locked := None, ob_token := None, ob_error := Some errorClass\<rparr>)) owner"

text \<open>The loops over the tenants stop at the first transaction that fails, with the total so far; \<open>txs\<close> says how
  the transaction of each tenant goes. Both add to their total inside the transaction's body, so what a failed
  commit rolled back is still counted.\<close>

fun CountBacklog :: "(i64 \<Rightarrow> tx_env) \<Rightarrow> TenantRetention list \<Rightarrow> outbox \<Rightarrow> int \<Rightarrow> go_error option \<times> int" where
  "CountBacklog txs [] ox acc = (None, acc)"
| "CountBacklog txs (t # ts) ox acc =
     (case InTenant (txs (tr_OwnerUserID t))
             (\<lambda>w ox. Inr (int (length (t_select ob_owner w (\<lambda>r. ob_owner r = tr_OwnerUserID t \<and> ob_status r \<noteq> Sent) (ox_rows ox))), ox))
             (tr_OwnerUserID t) ox of
        (Inl err, _) \<Rightarrow>
          (Some err,
           (if tx_begin (txs (tr_OwnerUserID t)) \<and> tx_exec (txs (tr_OwnerUserID t))
            then acc + int (length (t_select ob_owner (tr_OwnerUserID t) (\<lambda>r. ob_status r \<noteq> Sent) (ox_rows ox))) else acc))
      | (Inr count, _) \<Rightarrow> CountBacklog txs ts ox (acc + count))"

definition ob_DeleteTenant :: "tx_env \<Rightarrow> i64 \<Rightarrow> outbox \<Rightarrow> (go_error + int) \<times> outbox" where
  "ob_DeleteTenant tx owner =
     InTenant tx (\<lambda>t ox. Inr (int (length (t_select ob_owner t (\<lambda>r. ob_owner r = owner) (ox_rows ox))),
        ox\<lparr>ox_rows := t_delete ob_owner t (\<lambda>r. ob_owner r = owner) (ox_rows ox)\<rparr>)) owner"

definition day :: duration where "day = 24 * 3600 * 10 ^ 9"

definition expired_alert :: "instant \<Rightarrow> TenantRetention \<Rightarrow> ob_row \<Rightarrow> bool" where
  "expired_alert now t r \<longleftrightarrow> ob_owner r = tr_OwnerUserID t \<and> (ob_status r = Sent \<or> ob_status r = Failed) \<and>
     ob_created r < now - tr_RetentionDays t * day"

fun ob_PurgeExpired :: "(i64 \<Rightarrow> tx_env) \<Rightarrow> instant \<Rightarrow> TenantRetention list \<Rightarrow> outbox \<Rightarrow> int \<Rightarrow> go_error option \<times> int \<times> outbox" where
  "ob_PurgeExpired txs now [] ox acc = (None, acc, ox)"
| "ob_PurgeExpired txs now (t # ts) ox acc =
     (case InTenant (txs (tr_OwnerUserID t))
             (\<lambda>w ox. Inr (int (length (t_select ob_owner w (expired_alert now t) (ox_rows ox))),
                ox\<lparr>ox_rows := t_delete ob_owner w (expired_alert now t) (ox_rows ox)\<rparr>))
             (tr_OwnerUserID t) ox of
        (Inl err, ox') \<Rightarrow>
          (Some err,
           (if tx_begin (txs (tr_OwnerUserID t)) \<and> tx_exec (txs (tr_OwnerUserID t))
            then acc + int (length (t_select ob_owner (tr_OwnerUserID t) (expired_alert now t) (ox_rows ox))) else acc),
           ox')
      | (Inr count, ox') \<Rightarrow> ob_PurgeExpired txs now ts ox' (acc + count))"

section \<open>Tenant isolation\<close>

text \<open>Each method is an operation of one tenant on the rows.\<close>

datatype ob_op =
    ObClaim tx_env "string option" instant duration
  | ObMarkSent tx_env i64 string
  | ObMarkRetry tx_env instant i64 string duration string
  | ObMarkFailed tx_env instant i64 string string
  | ObDelete tx_env

fun ob_step :: "ob_op \<Rightarrow> i64 \<Rightarrow> outbox \<Rightarrow> outbox" where
  "ob_step (ObClaim tx token now lease) t ox = snd (Claim tx token now t lease ox)"
| "ob_step (ObMarkSent tx i token) t ox = snd (MarkSent tx t i token ox)"
| "ob_step (ObMarkRetry tx now i token wait cls) t ox = snd (MarkRetry tx now t i token wait cls ox)"
| "ob_step (ObMarkFailed tx now i token cls) t ox = snd (MarkFailed tx now t i token cls ox)"
| "ob_step (ObDelete tx) t ox = snd (ob_DeleteTenant tx t ox)"

definition ob_rows_step :: "ob_op \<Rightarrow> i64 \<Rightarrow> ob_row list \<Rightarrow> ob_row list" where
  "ob_rows_step op t rows = ox_rows (ob_step op t \<lparr>ox_rows = rows, ox_seq = 0\<rparr>)"

lemma InTenant_others:
  assumes "\<And>a ox'. fn t ox = Inr (a, ox') \<Longrightarrow> others ob_owner t (ox_rows ox') = others ob_owner t (ox_rows ox)"
  shows "others ob_owner t (ox_rows (snd (InTenant tx fn t ox))) = others ob_owner t (ox_rows ox)"
proof -
  obtain r ox' where r: "InTenant tx fn t ox = (r, ox')" by (cases "InTenant tx fn t ox")
  then show ?thesis using InTenant_cases [OF r] assms by auto
qed

lemma lease_update_frame:
  assumes "lease_update i token f t ox = Inr (a, ox')" "\<And>r. ob_owner (f r) = ob_owner r"
  shows "others ob_owner t (ox_rows ox') = others ob_owner t (ox_rows ox)"
  using assms by (auto simp: lease_update_def verifyLeaseUpdate_def others_t_update split: if_splits)

lemma claim_body_frame:
  assumes "claim_body now lease token t ox = Inr (a, ox')"
  shows "others ob_owner t (ox_rows ox') = others ob_owner t (ox_rows ox)"
proof -
  have "others ob_owner t (t_update ob_owner t P (lease_row now lease token) rows) = others ob_owner t rows" for P rows
    by (rule others_t_update) (simp add: lease_row_def)
  then show ?thesis using assms by (auto simp: claim_body_def Let_def split: option.splits)
qed

interpretation outbox_tenant: tenant_op ob_owner ob_rows_step
proof
  fix op t rows
  let ?ox = "\<lparr>ox_rows = rows, ox_seq = 0\<rparr>"
  have "others ob_owner t (ox_rows (ob_step op t ?ox)) = others ob_owner t (ox_rows ?ox)"
  proof (cases op)
    case (ObClaim tx token now lease)
    then show ?thesis
      using InTenant_others [of "claim_body now lease tk" t ?ox tx for tk] claim_body_frame
      by (cases token) (simp_all add: Claim_def)
  next
    case (ObDelete tx)
    then show ?thesis
      unfolding ObDelete ob_step.simps ob_DeleteTenant_def by (intro InTenant_others) (auto simp: others_t_delete)
  next
    case (ObMarkSent tx i token)
    then show ?thesis
      unfolding ObMarkSent ob_step.simps MarkSent_def by (intro InTenant_others) (auto dest!: lease_update_frame)
  next
    case (ObMarkRetry tx now i token wait cls)
    then show ?thesis
      unfolding ObMarkRetry ob_step.simps MarkRetry_def by (intro InTenant_others) (auto dest!: lease_update_frame)
  next
    case (ObMarkFailed tx now i token cls)
    then show ?thesis
      unfolding ObMarkFailed ob_step.simps MarkFailed_def by (intro InTenant_others) (auto dest!: lease_update_frame)
  qed
  then show "others ob_owner t (ob_rows_step op t rows) = others ob_owner t rows" by (simp add: ob_rows_step_def)
qed

section \<open>Invariant and what is frozen\<close>

definition ob_inv :: "outbox \<Rightarrow> bool" where
  "ob_inv ox \<longleftrightarrow> distinct (map ob_id (ox_rows ox)) \<and> (\<forall>r \<in> set (ox_rows ox). ob_id r < ox_seq ox) \<and>
     distinct (map (\<lambda>r. (ob_key r, ob_chunk r)) (ox_rows ox))"

text \<open>What an insert wrote and no later statement changes.\<close>

definition frozen :: "ob_row \<Rightarrow> ob_row" where
  "frozen r = r\<lparr>ob_status := Pending, ob_attempts := 0, ob_next := 0, ob_locked := None, ob_token := None, ob_error := None\<rparr>"

lemma frozen_fields:
  "frozen a = frozen b \<Longrightarrow> ob_id a = ob_id b \<and> ob_owner a = ob_owner b \<and> ob_tg a = ob_tg b \<and> ob_text a = ob_text b \<and>
    ob_kind a = ob_kind b \<and> ob_media a = ob_media b \<and> ob_key a = ob_key b \<and> ob_chunk a = ob_chunk b \<and> ob_created a = ob_created b"
  by (cases a; cases b) (simp add: frozen_def ob_key_def)

lemma map_frozen:
  assumes "map frozen rows' = map frozen rows" "\<And>r. f (frozen r) = f r"
  shows "map f rows' = map f rows"
proof -
  have "map f xs = map f (map frozen xs)" for xs by (simp add: assms(2))
  then show ?thesis using assms(1) by metis
qed

lemma ob_inv_frozen:
  assumes "map frozen (ox_rows ox') = map frozen (ox_rows ox)" "ox_seq ox' = ox_seq ox"
  shows "ob_inv ox' = ob_inv ox"
proof -
  have ids: "map ob_id (ox_rows ox') = map ob_id (ox_rows ox)"
    and "map (\<lambda>r. (ob_key r, ob_chunk r)) (ox_rows ox') = map (\<lambda>r. (ob_key r, ob_chunk r)) (ox_rows ox)"
    by (rule map_frozen [OF assms(1)]; simp add: frozen_def ob_key_def)+
  moreover have "(\<forall>r \<in> set (ox_rows ox'). ob_id r < n) \<longleftrightarrow> (\<forall>r \<in> set (ox_rows ox). ob_id r < n)" for n
  proof -
    have all: "(\<forall>r \<in> set rows. ob_id r < n) \<longleftrightarrow> (\<forall>i \<in> set (map ob_id rows). i < n)" for rows by simp
    show ?thesis unfolding all ids ..
  qed
  ultimately show ?thesis using assms(2) by (simp only: ob_inv_def)
qed

lemma frozen_t_update: "(\<And>r. frozen (f r) = frozen r) \<Longrightarrow> map frozen (t_update ob_owner t P f rows) = map frozen rows"
  by (simp add: t_update_def map_update_where)

lemma lease_update_cases:
  assumes "lease_update i token f t ox = Inr (a, ox')"
  shows "ox' = ox\<lparr>ox_rows := t_update ob_owner t (leased_row i token) f (ox_rows ox)\<rparr> \<and>
    (\<exists>r \<in> set (ox_rows ox). ob_owner r = t \<and> leased_row i token r)"
proof -
  have "length (t_select ob_owner t (leased_row i token) (ox_rows ox)) = 1"
    using assms by (auto simp: lease_update_def verifyLeaseUpdate_def split: if_splits)
  then have "t_select ob_owner t (leased_row i token) (ox_rows ox) \<noteq> []" by auto
  then have "\<exists>r \<in> set (ox_rows ox). ob_owner r = t \<and> leased_row i token r"
    by (auto simp: t_select_def filter_empty_conv)
  then show ?thesis using assms by (auto simp: lease_update_def verifyLeaseUpdate_def split: if_splits)
qed

lemma earliest_mem: "earliest rs = Some r \<Longrightarrow> r \<in> set rs"
  by (induction rs) (auto split: option.splits if_splits)

lemma earliest_None [simp]: "earliest rs = None \<longleftrightarrow> rs = []"
  by (cases rs) (auto split: option.splits)

lemma earliest_min: "earliest rs = Some r \<Longrightarrow> q \<in> set rs \<Longrightarrow> ob_next r < ob_next q \<or> (ob_next r = ob_next q \<and> ob_id r \<le> ob_id q)"
  by (induction rs arbitrary: r) (fastforce split: option.splits if_splits)+

lemma Claim_cases:
  assumes "Claim tx token now owner lease ox = (Inr (Some job), ox')"
  obtains tk c where "token = Some tk" "tx_ok tx" "c \<in> set (ox_rows ox)" "ob_owner c = owner"
    "claimable now (mine ob_owner owner (ox_rows ox)) c" "job = job_of (lease_row now lease tk c)"
    "ox' = ox\<lparr>ox_rows := t_update ob_owner owner (\<lambda>r. ob_id r = ob_id c) (lease_row now lease tk) (ox_rows ox)\<rparr>"
    "earliest (filter (claimable now (mine ob_owner owner (ox_rows ox))) (mine ob_owner owner (ox_rows ox))) = Some c"
proof -
  obtain tk where tk: "token = Some tk" using assms by (cases token) (auto simp: Claim_def)
  then have "tx_ok tx" "claim_body now lease tk owner ox = Inr (Some job, ox')"
    using assms InTenant_cases [of tx "claim_body now lease tk" owner ox "Inr (Some job)" ox'] by (auto simp: Claim_def)
  moreover from this(2) obtain c where c: "earliest (filter (claimable now (mine ob_owner owner (ox_rows ox))) (mine ob_owner owner (ox_rows ox))) = Some c"
    "job = job_of (lease_row now lease tk c)"
    "ox' = ox\<lparr>ox_rows := t_update ob_owner owner (\<lambda>r. ob_id r = ob_id c) (lease_row now lease tk) (ox_rows ox)\<rparr>"
    by (auto simp: claim_body_def Let_def split: option.splits)
  moreover have "c \<in> set (ox_rows ox)" "ob_owner c = owner" "claimable now (mine ob_owner owner (ox_rows ox)) c"
    using earliest_mem [OF c(1)] by (auto simp: mine_def)
  ultimately show ?thesis using that tk by blast
qed

lemma Claim_none:
  assumes "Claim tx token now owner lease ox = (r, ox')" "\<not> (\<exists>job. r = Inr (Some job))"
  shows "ox' = ox"
proof (cases token)
  case None
  then show ?thesis using assms by (simp add: Claim_def)
next
  case (Some tk)
  then show ?thesis
    using assms InTenant_cases [of tx "claim_body now lease tk" owner ox r ox']
    by (auto simp: Claim_def claim_body_def Let_def split: option.splits)
qed

lemma lease_row_frozen [simp]: "frozen (lease_row now lease token r) = frozen r"
  by (simp add: frozen_def lease_row_def)

lemma Claim_frozen:
  "Claim tx token now owner lease ox = (r, ox') \<Longrightarrow> map frozen (ox_rows ox') = map frozen (ox_rows ox) \<and> ox_seq ox' = ox_seq ox"
proof (cases "\<exists>job. r = Inr (Some job)")
  case True
  assume c: "Claim tx token now owner lease ox = (r, ox')"
  then obtain job where "Claim tx token now owner lease ox = (Inr (Some job), ox')" using True by auto
  then show ?thesis by (rule Claim_cases) (simp add: frozen_t_update)
next
  case False
  assume "Claim tx token now owner lease ox = (r, ox')"
  then show ?thesis using Claim_none False by blast
qed

text \<open>The three acknowledgements have one shape.\<close>

lemma ack_cases:
  assumes "InTenant tx (lease_update i token f) owner ox = (r, ox')"
  shows "(\<exists>e. r = Inl e \<and> ox' = ox) \<or>
    (r = Inr () \<and> ox' = ox\<lparr>ox_rows := t_update ob_owner owner (leased_row i token) f (ox_rows ox)\<rparr> \<and>
     (\<exists>q \<in> set (ox_rows ox). ob_owner q = owner \<and> leased_row i token q))"
  using InTenant_cases [OF assms] lease_update_cases [of i token f owner ox] by fastforce

lemma ack_frozen:
  assumes "InTenant tx (lease_update i token f) owner ox = (r, ox')" "\<And>r. frozen (f r) = frozen r"
  shows "map frozen (ox_rows ox') = map frozen (ox_rows ox) \<and> ox_seq ox' = ox_seq ox"
  using ack_cases [OF assms(1)] frozen_t_update [of f owner, OF assms(2)] by auto

lemma insertTx_inv [inv_intros]:
  "ob_inv ox \<Longrightarrow> ob_inv (insertTx now owner tg conn chat msg event chunk txt kind media ox)"
  by (fastforce simp: ob_inv_def insertTx_def Let_def ob_key_def)

text \<open>An insert that is repeated adds nothing: the unique key makes the enqueueing idempotent.\<close>

lemma insertTx_idempotent:
  "ox_rows (insertTx now2 owner tg2 conn chat msg event chunk txt2 kind2 media2
      (insertTx now owner tg conn chat msg event chunk txt kind media ox))
    = ox_rows (insertTx now owner tg conn chat msg event chunk txt kind media ox)"
  by (simp add: insertTx_def Let_def ob_key_def)

lemma ob_inv_empty [simp]: "ob_inv empty_outbox"
  by (simp add: ob_inv_def empty_outbox_def)

section \<open>Leases\<close>

text \<open>\<open>held j tk until ox\<close>: the row of this id, while it exists, is leased by this token until then.\<close>

definition held :: "i64 \<Rightarrow> string \<Rightarrow> instant \<Rightarrow> outbox \<Rightarrow> bool" where
  "held j tk until ox \<longleftrightarrow> (\<forall>r \<in> set (ox_rows ox). ob_id r = j \<longrightarrow>
     ob_status r = Processing \<and> ob_token r = Some tk \<and> ob_locked r = Some until)"

lemma held_update:
  assumes "held j tk until ox" "\<And>r. r \<in> set (ox_rows ox) \<Longrightarrow> P r \<Longrightarrow> ob_id r \<noteq> j" "\<And>r. ob_id (f r) = ob_id r"
  shows "held j tk until (ox\<lparr>ox_rows := t_update ob_owner t P f (ox_rows ox)\<rparr>)"
proof -
  have "ob_status r = Processing \<and> ob_token r = Some tk \<and> ob_locked r = Some until"
    if r: "r \<in> set (t_update ob_owner t P f (ox_rows ox))" "ob_id r = j" for r
  proof -
    obtain q where q: "q \<in> set (ox_rows ox)" "r = (if ob_owner q = t \<and> P q then f q else q)"
      using r(1) by (auto simp: t_update_def set_update_where)
    then have "ob_id q = j" using r(2) assms(3) by (auto split: if_splits)
    then have "r = q" using q assms(2) by auto
    then show ?thesis using assms(1) q(1) r(2) by (simp add: held_def)
  qed
  then show ?thesis by (simp add: held_def)
qed

lemma held_not_claimed:
  assumes "held j tk until ox" "Claim tx token now owner lease ox = (Inr (Some job), ox')" "now < until"
  shows "job_ID job \<noteq> j \<and> held j tk until ox'"
proof -
  obtain tk2 c where c: "c \<in> set (ox_rows ox)" "claimable now (mine ob_owner owner (ox_rows ox)) c"
    "job = job_of (lease_row now lease tk2 c)"
    "ox' = ox\<lparr>ox_rows := t_update ob_owner owner (\<lambda>r. ob_id r = ob_id c) (lease_row now lease tk2) (ox_rows ox)\<rparr>"
    using assms(2) by (rule Claim_cases)
  have ne: "ob_id c \<noteq> j" using assms(1,3) c(1,2) by (auto simp: held_def claimable_def)
  have "held j tk until ox'"
    unfolding c(4) by (rule held_update [OF assms(1)]) (use ne in \<open>auto simp: lease_row_def\<close>)
  then show ?thesis using ne c(3) by (simp add: job_of_def lease_row_def)
qed

lemma held_ack:
  assumes "held j tk until ox" "token \<noteq> tk" "\<And>r. ob_id (f r) = ob_id r"
  shows "held j tk until (snd (InTenant tx (lease_update i token f) owner ox))"
proof -
  obtain r ox' where r: "InTenant tx (lease_update i token f) owner ox = (r, ox')"
    by (cases "InTenant tx (lease_update i token f) owner ox")
  have "held j tk until (ox\<lparr>ox_rows := t_update ob_owner owner (leased_row i token) f (ox_rows ox)\<rparr>)"
    by (rule held_update [OF assms(1)]) (use assms in \<open>auto simp: held_def leased_row_def\<close>)
  then show ?thesis using ack_cases [OF r] assms(1) r by auto
qed

fun within_lease :: "instant \<Rightarrow> string \<Rightarrow> ob_op \<Rightarrow> bool" where
  "within_lease until tk (ObClaim tx token now lease) = (now < until)"
| "within_lease until tk (ObMarkSent tx i token) = (token \<noteq> tk)"
| "within_lease until tk (ObMarkRetry tx now i token wait cls) = (token \<noteq> tk)"
| "within_lease until tk (ObMarkFailed tx now i token cls) = (token \<noteq> tk)"
| "within_lease until tk (ObDelete tx) = True"

lemma held_step:
  assumes "held j tk until ox" "within_lease until tk op"
  shows "held j tk until (ob_step op t ox)"
proof (cases op)
  case (ObClaim tx token now lease)
  obtain r ox' where c: "Claim tx token now t lease ox = (r, ox')" by (cases "Claim tx token now t lease ox")
  show ?thesis
  proof (cases "\<exists>job. r = Inr (Some job)")
    case True
    then show ?thesis using ObClaim c held_not_claimed [OF assms(1), of tx token now t lease] assms(2) by auto
  next
    case False
    then show ?thesis using ObClaim c Claim_none [OF c] assms(1) by simp
  qed
next
  case (ObMarkSent tx i token)
  then show ?thesis
    unfolding ObMarkSent ob_step.simps MarkSent_def by (intro held_ack [OF assms(1)]) (use assms(2) ObMarkSent in simp_all)
next
  case (ObMarkRetry tx now i token wait cls)
  then show ?thesis
    unfolding ObMarkRetry ob_step.simps MarkRetry_def by (intro held_ack [OF assms(1)]) (use assms(2) ObMarkRetry in simp_all)
next
  case (ObMarkFailed tx now i token cls)
  then show ?thesis
    unfolding ObMarkFailed ob_step.simps MarkFailed_def by (intro held_ack [OF assms(1)]) (use assms(2) ObMarkFailed in simp_all)
next
  case (ObDelete tx)
  obtain r ox' where d: "ob_DeleteTenant tx t ox = (r, ox')" by (cases "ob_DeleteTenant tx t ox")
  then have "set (ox_rows ox') \<subseteq> set (ox_rows ox)"
    using InTenant_cases [of tx _ t ox r ox'] by (fastforce simp: ob_DeleteTenant_def t_delete_def)
  then show ?thesis using ObDelete d assms(1) by (auto simp: held_def)
qed

section \<open>Properties\<close>

text \<open>A queue with one alert, for the witnesses.\<close>

definition sample_outbox :: outbox where
  "sample_outbox = InsertTx 0 7 70 ''A'' 5 9 EventDeletedMessage 1 [50]
     (InsertTx 0 7 70 ''A'' 5 9 EventDeletedMessage 0 [49] empty_outbox)"

lemma claimed: "case fst p of Inr (Some j) \<Rightarrow> P j | _ \<Rightarrow> False \<Longrightarrow> \<exists>j. p = (Inr (Some j), snd p) \<and> P j"
  by (cases p) (auto split: sum.splits option.splits)

text \<open>C8. A lease is exclusive: from the claim that took an alert until the lease runs out, no other claim by any
  tenant returns that alert, whatever claims, acknowledgements under other tokens and deletions come between;
  and as long as the alert is not deleted the holder's acknowledgement still finds it.\<close>

theorem lease_exclusive:
  assumes "ob_inv ox" "Claim tx (Some tk) now owner lease ox = (Inr (Some job), ox1)"
    and "\<forall>(op, t) \<in> set ops. within_lease (now + lease) tk op"
    and "ox2 = foldl (\<lambda>ox (op, t). ob_step op t ox) ox1 ops"
    and "Claim tx2 token2 now2 t2 lease2 ox2 = (Inr (Some job2), ox3)" "now2 < now + lease"
  shows "job_ID job2 \<noteq> job_ID job \<and>
    (\<forall>r \<in> set (ox_rows ox2). ob_id r = job_ID job \<longrightarrow> leased_row (job_ID job) tk r)"
proof -
  have "held (job_ID job) tk (now + lease) ox1"
  proof -
    obtain c where c: "c \<in> set (ox_rows ox)" "ob_owner c = owner" "job = job_of (lease_row now lease tk c)"
      "ox1 = ox\<lparr>ox_rows := t_update ob_owner owner (\<lambda>r. ob_id r = ob_id c) (lease_row now lease tk) (ox_rows ox)\<rparr>"
      using assms(2) by (rule Claim_cases) simp
    have same: "r = c" if "r \<in> set (ox_rows ox)" "ob_id r = ob_id c" for r
      using assms(1) c(1) that distinct_map_inj_on [of ob_id "ox_rows ox"] by (simp add: ob_inv_def)
    have "ob_status r = Processing \<and> ob_token r = Some tk \<and> ob_locked r = Some (now + lease)" if r: "r \<in> set (ox_rows ox1)" "ob_id r = job_ID job" for r
    proof -
      obtain q where q: "q \<in> set (ox_rows ox)" "r = (if ob_owner q = owner \<and> ob_id q = ob_id c then lease_row now lease tk q else q)"
        using r(1) unfolding c(4) by (auto simp: t_update_def set_update_where)
      then have "ob_id q = ob_id c" using r(2) c(3) by (auto simp: job_of_def lease_row_def split: if_splits)
      then have "q = c" using q(1) same by blast
      then show ?thesis using q(2) c(2) by (simp add: lease_row_def)
    qed
    then show ?thesis by (simp add: held_def)
  qed
  moreover have "held j tk until ox \<Longrightarrow> \<forall>(op, t) \<in> set ops. within_lease until tk op \<Longrightarrow>
      held j tk until (foldl (\<lambda>ox (op, t). ob_step op t ox) ox ops)" for j until ox
    by (induction ops arbitrary: ox) (auto intro: held_step)
  ultimately have h: "held (job_ID job) tk (now + lease) ox2" using assms(3,4) by blast
  have "job_ID job2 \<noteq> job_ID job" using held_not_claimed [OF h assms(5,6)] by blast
  then show ?thesis using h by (simp add: held_def leased_row_def)
qed

theorem lease_exclusive_witness:
  "\<exists>job ox1 job2 ox3.
     Claim good_tx (Some ''t'') 10 7 100 (insertTx 0 7 70 ''A'' 5 8 EventDeletedMessage 0 [] PayloadKindText None sample_outbox)
        = (Inr (Some job), ox1) \<and>
     Claim good_tx (Some ''u'') 20 7 100 (foldl (\<lambda>ox (op, t). ob_step op t ox) ox1 [(ObMarkSent good_tx 1 ''x'', 7)])
        = (Inr (Some job2), ox3) \<and> job_ID job = 1 \<and> job_ID job2 \<noteq> 1"
proof -
  let ?ox = "insertTx 0 7 70 ''A'' 5 8 EventDeletedMessage 0 [] PayloadKindText None sample_outbox"
  let ?c1 = "Claim good_tx (Some ''t'') 10 7 100 ?ox"
  let ?ox2 = "foldl (\<lambda>ox (op, t). ob_step op t ox) (snd ?c1) [(ObMarkSent good_tx 1 ''x'', 7)]"
  let ?c2 = "Claim good_tx (Some ''u'') 20 7 100 ?ox2"
  have inv: "ob_inv ?ox" unfolding sample_outbox_def InsertTx_def by (intro insertTx_inv ob_inv_empty)
  have "case fst ?c1 of Inr (Some job) \<Rightarrow> job_ID job = 1 | _ \<Rightarrow> False" by code_simp
  then obtain job where c1: "?c1 = (Inr (Some job), snd ?c1)" "job_ID job = 1" using claimed [of "\<lambda>j. job_ID j = 1" ?c1] by blast
  have "case fst ?c2 of Inr (Some job) \<Rightarrow> True | _ \<Rightarrow> False" by code_simp
  then obtain job2 where c2: "?c2 = (Inr (Some job2), snd ?c2)" using claimed [of "\<lambda>_. True" ?c2] by blast
  have "job_ID job2 \<noteq> job_ID job"
    using lease_exclusive [OF inv c1(1) _ refl c2] by simp
  then have "job_ID job2 \<noteq> 1" using c1(2) by simp
  then show ?thesis using c1 c2 by blast
qed

text \<open>The chunks of an alert leave in order: a claim only returns a chunk when every earlier chunk of the same
  deletion of that tenant is sent, or parked in the slow lane; and it is the first due by deadline and id among
  the rows it may return.\<close>

theorem claim_in_order:
  assumes "Claim tx token now owner lease ox = (Inr (Some job), ox')"
  shows "\<exists>c \<in> set (ox_rows ox). ob_id c = job_ID job \<and> ob_owner c = owner \<and> ob_status c \<noteq> Sent \<and> ob_next c \<le> now \<and>
    (\<forall>p \<in> set (ox_rows ox). ob_key p = ob_key c \<and> ob_chunk p < ob_chunk c \<longrightarrow> ob_status p = Sent \<or> ob_status p = Failed) \<and>
    (\<forall>q \<in> set (ox_rows ox). ob_owner q = owner \<and> claimable now (mine ob_owner owner (ox_rows ox)) q \<longrightarrow>
       ob_next c < ob_next q \<or> (ob_next c = ob_next q \<and> ob_id c \<le> ob_id q))"
proof -
  obtain tk c where c: "c \<in> set (ox_rows ox)" "ob_owner c = owner" "claimable now (mine ob_owner owner (ox_rows ox)) c"
    "job = job_of (lease_row now lease tk c)"
    "earliest (filter (claimable now (mine ob_owner owner (ox_rows ox))) (mine ob_owner owner (ox_rows ox))) = Some c"
    using assms by (rule Claim_cases)
  have "ob_status p = Sent \<or> ob_status p = Failed" if "p \<in> set (ox_rows ox)" "ob_key p = ob_key c" "ob_chunk p < ob_chunk c" for p
  proof -
    have "p \<in> set (mine ob_owner owner (ox_rows ox))" using that c(2) by (simp add: mine_def ob_key_def)
    then show ?thesis using c(3) that by (auto simp: claimable_def list_ex_iff prior_open_def)
  qed
  moreover have "ob_next c < ob_next q \<or> (ob_next c = ob_next q \<and> ob_id c \<le> ob_id q)"
    if "q \<in> set (ox_rows ox)" "ob_owner q = owner" "claimable now (mine ob_owner owner (ox_rows ox)) q" for q
    using earliest_min [OF c(5), of q] that by (simp add: mine_def)
  ultimately show ?thesis
    using c by (intro bexI [OF _ c(1)]) (auto simp: job_of_def lease_row_def claimable_def)
qed

theorem claim_in_order_witness:
  "\<exists>job ox'. Claim good_tx (Some ''t'') 10 7 100 sample_outbox = (Inr (Some job), ox') \<and>
     (\<exists>c \<in> set (ox_rows sample_outbox). ob_id c = job_ID job \<and> ob_status c \<noteq> Sent)"
proof -
  let ?c = "Claim good_tx (Some ''t'') 10 7 100 sample_outbox"
  have "case fst ?c of Inr (Some job) \<Rightarrow> True | _ \<Rightarrow> False" by code_simp
  then obtain job where c: "?c = (Inr (Some job), snd ?c)" using claimed [of "\<lambda>_. True" ?c] by blast
  show ?thesis using claim_in_order [OF c] c by blast
qed

end

