(* ===== verification/Media_Path.thy ===== *)
theory Media_Path
  imports Errors Text
begin

text \<open>
  \<open>bot/internal/media/path.go\<close>: what a relative path and a digest of the media catalogue look like.
  \<open>components\<close> is \<open>strings.Split(p, "/")\<close>. \<open>resolve\<close> is what the kernel does with the components of a
  relative path below a base directory: it is the specification the validation is proved against.
\<close>

definition sep :: rune where "sep = 47"
definition backslash :: rune where "backslash = 92"

fun split_at :: "rune \<Rightarrow> gostr \<Rightarrow> gostr \<Rightarrow> gostr list" where
  "split_at c word [] = [word]"
| "split_at c word (r # rs) = (if r = c then word # split_at c [] rs else split_at c (word @ [r]) rs)"

definition components :: "gostr \<Rightarrow> gostr list" where
  "components p = split_at sep [] p"

definition ValidateRelativePath :: "gostr \<Rightarrow> go_error option" where
  "ValidateRelativePath p =
     (if p = [] then Some [ErrUnsafeRelativePath]
      else if hd p = sep then Some [ErrUnsafeRelativePath]
      else if backslash \<in> set p then Some [ErrUnsafeRelativePath]
      else if 0 \<in> set p then Some [ErrUnsafeRelativePath]
      else if list_ex (\<lambda>c. c = [] \<or> c = [46] \<or> c = [46, 46]) (components p) then Some [ErrUnsafeRelativePath]
      else None)"

definition ValidateSHA256 :: "gostr \<Rightarrow> go_error option" where
  "ValidateSHA256 h =
     (if length h \<noteq> 64 then Some [ErrInvalidSHA256]
      else if list_ex (\<lambda>c. (c < 48 \<or> 57 < c) \<and> (c < 97 \<or> 102 < c)) h then Some [ErrInvalidSHA256]
      else None)"

text \<open>Where a path leads from a directory, given as the list of its components from the root: an empty component
  or a dot stays, two dots go up (and stay at the root), anything else goes down.\<close>

fun resolve :: "gostr list \<Rightarrow> gostr list \<Rightarrow> gostr list" where
  "resolve dir [] = dir"
| "resolve dir (c # cs) =
     (if c = [] \<or> c = [46] then resolve dir cs
      else if c = [46, 46] then resolve (butlast dir) cs
      else resolve (dir @ [c]) cs)"

lemma split_at_join:
  "split_at c word t \<noteq> [] \<and>
    word @ t = concat (map (\<lambda>w. w @ [c]) (butlast (split_at c word t))) @ last (split_at c word t) \<and>
    (c \<notin> set word \<longrightarrow> (\<forall>w \<in> set (split_at c word t). c \<notin> set w))"
proof (induction t arbitrary: word)
  case Nil
  then show ?case by simp
next
  case (Cons r rs)
  show ?case
  proof (cases "r = c")
    case True
    have "split_at c [] rs \<noteq> []" "rs = concat (map (\<lambda>w. w @ [c]) (butlast (split_at c [] rs))) @ last (split_at c [] rs)"
      "\<forall>w \<in> set (split_at c [] rs). c \<notin> set w" using Cons.IH [of "[]"] by simp_all
    then show ?thesis using True by simp
  next
    case False
    then show ?thesis using Cons.IH [of "word @ [r]"] by simp
  qed
qed

lemma components_join:
  "components p \<noteq> [] \<and> p = concat (map (\<lambda>w. w @ [sep]) (butlast (components p))) @ last (components p) \<and>
    (\<forall>w \<in> set (components p). sep \<notin> set w)"
  using split_at_join [of sep "[]" p] by (auto simp: components_def)

lemma resolve_plain: "list_all (\<lambda>c. c \<noteq> [] \<and> c \<noteq> [46] \<and> c \<noteq> [46, 46]) cs \<Longrightarrow> resolve dir cs = dir @ cs"
  by (induction cs arbitrary: dir) auto

lemma accepted_plain: "ValidateRelativePath p = None \<Longrightarrow> resolve base (components p) = base @ components p \<and> components p \<noteq> []"
  by (rule conjI, rule resolve_plain)
    (use components_join in \<open>auto simp: ValidateRelativePath_def list_all_iff list_ex_iff split: if_splits\<close>)

text \<open>A path the validation accepts stays below the media directory, at a place of its own: resolved against
  any base it leads strictly below it, to exactly its components, none of which holds a separator, a backslash
  or a NUL; and two different accepted paths never lead to the same file.\<close>

theorem accepted_path_contained:
  assumes "ValidateRelativePath p = None" "ValidateRelativePath q = None"
  shows "resolve base (components p) = base @ components p \<and> components p \<noteq> [] \<and>
    (\<forall>c \<in> set (components p). c \<noteq> [] \<and> sep \<notin> set c) \<and> backslash \<notin> set p \<and> 0 \<notin> set p \<and>
    (resolve base (components p) = resolve base (components q) \<longrightarrow> p = q)"
proof -
  have plain: "list_all (\<lambda>c. c \<noteq> [] \<and> c \<noteq> [46] \<and> c \<noteq> [46, 46]) (components x)" if "ValidateRelativePath x = None" for x
    using that by (auto simp: ValidateRelativePath_def list_all_iff list_ex_iff split: if_splits)
  have r: "resolve base (components p) = base @ components p" "resolve base (components q) = base @ components q"
    using resolve_plain plain assms by blast+
  have "p = q" if "components p = components q" using components_join [of p] components_join [of q] that by metis
  then show ?thesis
    using r plain [OF assms(1)] components_join [of p] assms(1)
    by (auto simp: list_all_iff ValidateRelativePath_def split: if_splits)
qed

theorem accepted_path_contained_witness:
  "resolve [runes ''media''] (components (runes ''7/ab/cd.bin'')) = [runes ''media'', runes ''7'', runes ''ab'', runes ''cd.bin'']"
proof -
  have v: "ValidateRelativePath (runes ''7/ab/cd.bin'') = None"
    by (simp add: ValidateRelativePath_def components_def sep_def backslash_def runes_def)
  show ?thesis
    using accepted_path_contained [OF v v, of "[runes ''media'']"] by (simp add: components_def sep_def runes_def)
qed

end
