(* ===== verification/Worker.thy ===== *)
theory Worker
  imports Outbox Send_Media Media_Path
begin

text \<open>
  \<open>bot/internal/outbox/worker.go\<close>: the delivery of one alert.

  The interface \<open>Store\<close> of the code is the record \<open>store\<close> of its four methods on an abstract state; what the
  outside does during one \<open>ProcessOne\<close> is the argument \<open>worker_env\<close>: whether the shared side of the tenant's
  lock was granted, whether the context was dead at each of the points that ask, and what the two senders
  return. The answer comes with the sends that were attempted, in order. \<open>filepath.Join\<close> is written without its
  cleaning, which changes the spelling of a path and not the file. Logs and metrics are left out.
\<close>

section \<open>Constants and delays\<close>

definition defaultLease :: duration where "defaultLease = 120 * go_second"
definition maxBackoff :: duration where "maxBackoff = 900 * go_second"
definition maxDeliveryAttempts :: int where "maxDeliveryAttempts = 10"
definition maxBackoffAttempts :: int where "maxBackoffAttempts = 10"
definition maxThrottleDelay :: duration where "maxThrottleDelay = 24 * 3600 * go_second"

definition retryDelay :: "int \<Rightarrow> duration" where
  "retryDelay attempts0 =
     (let attempts = (if attempts0 < 0 then 0 else attempts0)
      in if maxBackoffAttempts \<le> attempts then maxBackoff
         else let wait = 2 ^ nat attempts * go_second in if maxBackoff < wait then maxBackoff else wait)"

text \<open>The delay a 429 with a usable \<open>retry_after\<close> sets: the product is one of \<open>time.Duration\<close>, an \<open>int64\<close>.\<close>

definition throttle_wait :: "int \<Rightarrow> duration" where
  "throttle_wait retry = (let wait = wrap64 (retry * go_second) in if maxThrottleDelay < wait then maxThrottleDelay else wait)"

section \<open>The store and the world\<close>

record 's store =
  st_Claim :: "i64 \<Rightarrow> duration \<Rightarrow> 's \<Rightarrow> (go_error + Job option) \<times> 's"
  st_MarkSent :: "i64 \<Rightarrow> i64 \<Rightarrow> string \<Rightarrow> 's \<Rightarrow> (go_error + unit) \<times> 's"
  st_MarkRetry :: "i64 \<Rightarrow> i64 \<Rightarrow> string \<Rightarrow> duration \<Rightarrow> string \<Rightarrow> 's \<Rightarrow> (go_error + unit) \<times> 's"
  st_MarkFailed :: "i64 \<Rightarrow> i64 \<Rightarrow> string \<Rightarrow> string \<Rightarrow> 's \<Rightarrow> (go_error + unit) \<times> 's"

record worker_env =
  we_guard :: "go_error option"
  we_dead_guard :: bool
  we_dead_claim :: bool
  we_dead_media :: bool
  we_dead_deliver :: bool
  we_dead_ack :: bool
  we_media_sender :: bool
  we_mediaDir :: gostr
  we_SendMessageOnce :: "SendMessageRequest \<Rightarrow> go_error option"
  we_SendMediaOnce :: "MediaAlert \<Rightarrow> go_error option"

datatype sending = TextSent SendMessageRequest "go_error option" | MediaSent MediaAlert "go_error option"

definition isShutdown :: "bool \<Rightarrow> go_error \<Rightarrow> bool" where
  "isShutdown dead err \<longleftrightarrow> dead \<and> (errors_is err CtxCanceled \<or> errors_is err CtxDeadlineExceeded)"

definition mediaIsHopeless :: "bool \<Rightarrow> go_error \<Rightarrow> bool" where
  "mediaIsHopeless dead err =
     (if isShutdown dead err then False
      else if errors_is err ErrNoMediaDelivery \<or> errors_is err ErrMediaUnavailable \<or> errors_is err ErrMediaTooLarge \<or>
              errors_is err ErrUnsafeRelativePath then True
      else case as_api_error err of Some (code, _) \<Rightarrow> definitive_4xx code | None \<Rightarrow> False)"

definition telegram_class :: "int \<Rightarrow> string" where
  "telegram_class code = ''telegram_'' @ map char_of (dec_int code)"

definition mediaErrorClass :: "go_error \<Rightarrow> string" where
  "mediaErrorClass err =
     (if errors_is err ErrNoMediaDelivery then ''media_unsupported''
      else if errors_is err ErrMediaUnavailable then ''media_missing''
      else if errors_is err ErrMediaTooLarge then ''media_too_large''
      else if errors_is err ErrUnsafeRelativePath then ''media_unsafe_path''
      else case as_api_error err of Some (code, _) \<Rightarrow> telegram_class code | None \<Rightarrow> ''media_error'')"

definition payloadKind :: "Job \<Rightarrow> string" where
  "payloadKind job = (if job_PayloadKind job = PayloadKindMedia then PayloadKindMedia else PayloadKindText)"

section \<open>Delivery\<close>

definition mediaPath :: "worker_env \<Rightarrow> gostr \<Rightarrow> go_error + gostr" where
  "mediaPath env relative =
     (case ValidateRelativePath relative of Some err \<Rightarrow> Inl err | None \<Rightarrow> Inr (we_mediaDir env @ [sep] @ relative))"

fun alert_items :: "worker_env \<Rightarrow> MediaItem list \<Rightarrow> go_error + MediaAlertItem list" where
  "alert_items env [] = Inr []"
| "alert_items env (item # items) =
     (case mediaPath env (mi_RelativePath item) of
        Inl err \<Rightarrow> Inl err
      | Inr path \<Rightarrow>
          (case alert_items env items of
             Inl err \<Rightarrow> Inl err
           | Inr rest \<Rightarrow> Inr (\<lparr>ai_Type = mi_MediaType item, ai_Path = path, ai_FileName = mi_FileName item,
                                ai_Caption = mi_Caption item\<rparr> # rest)))"

definition sendMedia :: "worker_env \<Rightarrow> Job \<Rightarrow> go_error option \<times> sending list" where
  "sendMedia env job =
     (case job_Media job of
        None \<Rightarrow> (Some [ErrNoMediaDelivery], [])
      | Some payload \<Rightarrow>
          if \<not> we_media_sender env \<or> we_mediaDir env = [] then (Some [ErrNoMediaDelivery], [])
          else case alert_items env (mp_Items payload) of
              Inl err \<Rightarrow> (Some err, [])
            | Inr items \<Rightarrow>
                let alert = \<lparr>al_ChatID = job_OwnerTelegramUserID job, al_Items = items\<rparr>; r = we_SendMediaOnce env alert
                in (r, [MediaSent alert r]))"

definition sendText :: "worker_env \<Rightarrow> Job \<Rightarrow> bool \<Rightarrow> go_error option \<times> sending list" where
  "sendText env job withNote =
     (let req = \<lparr>smr_ChatID = job_OwnerTelegramUserID job,
                  smr_Text = (if withNote then WithMediaUnavailableNote (job_Text job) else job_Text job)\<rparr>;
          r = we_SendMessageOnce env req
      in (r, [TextSent req r]))"

definition deliver :: "worker_env \<Rightarrow> Job \<Rightarrow> go_error option \<times> sending list" where
  "deliver env job =
     (if job_PayloadKind job \<noteq> PayloadKindMedia then sendText env job False
      else case sendMedia env job of
          (None, sends) \<Rightarrow> (None, sends)
        | (Some err, sends) \<Rightarrow>
            if \<not> mediaIsHopeless (we_dead_media env) err then (Some err, sends)
            else (case sendText env job True of (r, sends2) \<Rightarrow> (r, sends @ sends2)))"

text \<open>What \<open>ProcessOne\<close> does with the error of a delivery: which lane the job goes to.\<close>

datatype lane = Retry duration string | SlowLane string

definition error_lane :: "Job \<Rightarrow> go_error \<Rightarrow> lane" where
  "error_lane job err =
     (let code = (case as_api_error err of Some (c, _) \<Rightarrow> telegram_class c | None \<Rightarrow> ''transport'');
          refused = (case as_api_error err of Some (c, _) \<Rightarrow> definitive_4xx c | None \<Rightarrow> False)
      in if refused then SlowLane code
         else if maxDeliveryAttempts \<le> job_Attempts job + 1 then SlowLane code
         else case as_api_error err of
             Some (c, retry) \<Rightarrow> Retry (if IsRateLimited c retry then throttle_wait retry else retryDelay (job_Attempts job)) code
           | None \<Rightarrow> Retry (retryDelay (job_Attempts job)) code)"

text \<open>\<open>outcome\<close> is the pair of results of \<open>ProcessOne\<close>.\<close>

type_synonym outcome = "bool \<times> go_error option"

definition wrap_mark :: "string \<Rightarrow> go_error + unit \<Rightarrow> outcome" where
  "wrap_mark what r = (True, case r of Inl err \<Rightarrow> Some (Msg what # err) | Inr _ \<Rightarrow> None)"

definition settle :: "'s store \<Rightarrow> worker_env \<Rightarrow> i64 \<Rightarrow> Job \<Rightarrow> go_error option \<Rightarrow> 's \<Rightarrow> outcome \<times> 's" where
  "settle st env owner job result s =
     (case result of
        None \<Rightarrow>
          (case st_MarkSent st owner (job_ID job) (job_LeaseToken job) s of
             (Inl err, s') \<Rightarrow> (if isShutdown (we_dead_ack env) err then (False, None)
                               else (True, Some (Msg ''outbox acknowledgement'' # err)), s')
           | (Inr _, s') \<Rightarrow> ((True, None), s'))
      | Some err \<Rightarrow>
          if isShutdown (we_dead_deliver env) err then ((False, None), s)
          else case error_lane job err of
              SlowLane code \<Rightarrow>
                (case st_MarkFailed st owner (job_ID job) (job_LeaseToken job) code s of
                   (r, s') \<Rightarrow> (wrap_mark ''outbox failure'' r, s'))
            | Retry wait code \<Rightarrow>
                (case st_MarkRetry st owner (job_ID job) (job_LeaseToken job) wait code s of
                   (r, s') \<Rightarrow> (wrap_mark ''outbox retry scheduling'' r, s')))"

definition ProcessOne :: "'s store \<Rightarrow> worker_env \<Rightarrow> i64 \<Rightarrow> 's \<Rightarrow> outcome \<times> sending list \<times> 's" where
  "ProcessOne st env owner s =
     (case we_guard env of
        Some err \<Rightarrow> (if isShutdown (we_dead_guard env) err then (False, None)
                      else (False, Some (Msg ''outbox exclusion'' # err)), [], s)
      | None \<Rightarrow>
          (case st_Claim st owner defaultLease s of
             (Inl err, s1) \<Rightarrow> (if isShutdown (we_dead_claim env) err then (False, None)
                               else (False, Some (Msg ''outbox reservation'' # err)), [], s1)
           | (Inr None, s1) \<Rightarrow> ((False, None), [], s1)
           | (Inr (Some job), s1) \<Rightarrow>
               (case deliver env job of
                  (result, sends) \<Rightarrow> (case settle st env owner job result s1 of (out, s2) \<Rightarrow> (out, sends, s2)))))"

section \<open>The contract of a store\<close>

text \<open>
  \<open>waiting s\<close> are the alerts a store still has to deliver. A claim takes one of them and drops none; only an
  acknowledgement drops one, the one it names; the two deferrals drop none.
\<close>

locale job_store =
  fixes st :: "'s store"
    and I :: "'s \<Rightarrow> bool"
    and waiting :: "'s \<Rightarrow> (i64 \<times> i64) set"
  assumes claim_inv: "I s \<Longrightarrow> I (snd (st_Claim st owner lease s))"
    and claim_keeps: "I s \<Longrightarrow> waiting (snd (st_Claim st owner lease s)) = waiting s"
    and claim_takes: "I s \<Longrightarrow> fst (st_Claim st owner lease s) = Inr (Some job) \<Longrightarrow>
      job_OwnerUserID job = owner \<and> (owner, job_ID job) \<in> waiting s"
    and sent_inv: "I s \<Longrightarrow> I (snd (st_MarkSent st owner i token s))"
    and sent_drops: "I s \<Longrightarrow> waiting (snd (st_MarkSent st owner i token s)) =
      (case fst (st_MarkSent st owner i token s) of Inr _ \<Rightarrow> waiting s - {(owner, i)} | Inl _ \<Rightarrow> waiting s)"
    and retry_keeps: "I s \<Longrightarrow> I (snd (st_MarkRetry st owner i token wait code s)) \<and>
      waiting (snd (st_MarkRetry st owner i token wait code s)) = waiting s"
    and failed_keeps: "I s \<Longrightarrow> I (snd (st_MarkFailed st owner i token code s)) \<and>
      waiting (snd (st_MarkFailed st owner i token code s)) = waiting s"
begin

text \<open>A call of the worker loses nothing: an alert leaves the queue only when a send of this call succeeded.\<close>

lemma process_keeps:
  assumes "I s" "ProcessOne st env owner s = (out, sends, s')" "x \<in> waiting s" "x \<notin> waiting s'"
  shows "fst x = owner \<and> (\<exists>job. fst (st_Claim st owner defaultLease s) = Inr (Some job) \<and> snd x = job_ID job \<and>
    deliver env job = (None, sends))"
proof -
  obtain r s1 where c: "st_Claim st owner defaultLease s = (r, s1)" by (cases "st_Claim st owner defaultLease s")
  have s1: "I s1" "waiting s1 = waiting s"
    using claim_inv [OF assms(1), of owner defaultLease] claim_keeps [OF assms(1), of owner defaultLease] c by simp_all
  show ?thesis
  proof (cases "\<exists>job. we_guard env = None \<and> r = Inr (Some job)")
    case False
    then have "s' = s \<or> s' = s1"
      using assms(2) c by (auto simp: ProcessOne_def split: option.splits sum.splits)
    then show ?thesis using assms(3,4) s1(2) by auto
  next
    case True
    then obtain job where job: "we_guard env = None" "r = Inr (Some job)" by blast
    obtain result ss where d: "deliver env job = (result, ss)" by (cases "deliver env job")
    obtain o2 s2 where st: "settle st env owner job result s1 = (o2, s2)" by (cases "settle st env owner job result s1")
    have eq: "sends = ss" "s' = s2" using assms(2) c job d st by (auto simp: ProcessOne_def)
    have "result = None \<and> x = (owner, job_ID job)"
    proof (cases result)
      case None
      then show ?thesis
        using st eq(2) assms(3,4) s1 sent_drops [OF s1(1), of owner "job_ID job" "job_LeaseToken job"]
        by (auto simp: settle_def split: prod.splits sum.splits)
    next
      case (Some err)
      then have "waiting s2 = waiting s1"
        using st retry_keeps [OF s1(1)] failed_keeps [OF s1(1)]
        by (auto simp: settle_def split: if_splits lane.splits prod.splits) (metis snd_conv)+
      then show ?thesis using eq(2) assms(3,4) s1(2) by simp
    qed
    then show ?thesis using d eq(1) c job(2) by auto
  qed
qed

lemma process_inv: "I s \<Longrightarrow> I (snd (snd (ProcessOne st env owner s)))"
proof -
  assume s: "I s"
  have mark: "I t \<Longrightarrow> I (snd (settle st env owner job result t))" for t job result
    using sent_inv [of t owner "job_ID job" "job_LeaseToken job"] retry_keeps [of t] failed_keeps [of t]
    by (auto simp: settle_def split: option.splits lane.splits prod.splits sum.splits) (metis snd_conv)+
  show ?thesis
    using s claim_inv [OF s, of owner defaultLease] mark
    by (auto simp: ProcessOne_def split: option.splits prod.splits sum.splits) (metis snd_conv)+
qed

end

section \<open>The PostgreSQL store is a store\<close>

record pg_env =
  pe_claim_tx :: tx_env
  pe_token :: "string option"
  pe_claim_now :: instant
  pe_mark_tx :: tx_env
  pe_mark_now :: instant

definition pg_store :: "pg_env \<Rightarrow> outbox store" where
  "pg_store pe = \<lparr>st_Claim = (\<lambda>owner lease. Claim (pe_claim_tx pe) (pe_token pe) (pe_claim_now pe) owner lease),
     st_MarkSent = MarkSent (pe_mark_tx pe),
     st_MarkRetry = MarkRetry (pe_mark_tx pe) (pe_mark_now pe),
     st_MarkFailed = MarkFailed (pe_mark_tx pe) (pe_mark_now pe)\<rparr>"

definition waiting_alerts :: "outbox \<Rightarrow> (i64 \<times> i64) set" where
  "waiting_alerts ox = set (map (\<lambda>r. (ob_owner r, ob_id r)) (filter (\<lambda>r. ob_status r \<noteq> Sent) (ox_rows ox)))"

lemma waiting_mem: "(owner, i) \<in> waiting_alerts ox \<longleftrightarrow> (\<exists>r \<in> set (ox_rows ox). ob_owner r = owner \<and> ob_id r = i \<and> ob_status r \<noteq> Sent)"
  by (auto simp: waiting_alerts_def)

lemma waiting_update:
  assumes "\<And>r. ob_owner (f r) = ob_owner r" "\<And>r. ob_id (f r) = ob_id r" "\<And>r. r \<in> set (ox_rows ox) \<Longrightarrow> P r \<Longrightarrow> ob_status r \<noteq> Sent"
    "\<And>r. ob_status (f r) \<noteq> Sent"
  shows "waiting_alerts (ox\<lparr>ox_rows := t_update ob_owner t P f (ox_rows ox)\<rparr>) = waiting_alerts ox"
proof -
  have "map (\<lambda>r. (ob_owner r, ob_id r)) (filter (\<lambda>r. ob_status r \<noteq> Sent) (update_where Q f rows)) =
      map (\<lambda>r. (ob_owner r, ob_id r)) (filter (\<lambda>r. ob_status r \<noteq> Sent) rows)"
    if "\<forall>r \<in> set rows. Q r \<longrightarrow> ob_status r \<noteq> Sent" for Q rows
    using that by (induction rows) (auto simp: assms(1,2,4))
  then show ?thesis using assms(3) by (simp add: waiting_alerts_def t_update_def)
qed

lemma waiting_claim:
  assumes "ob_inv ox" "Claim tx token now owner lease ox = (r, ox')"
  shows "waiting_alerts ox' = waiting_alerts ox \<and> ob_inv ox' \<and>
    (\<forall>job. r = Inr (Some job) \<longrightarrow> job_OwnerUserID job = owner \<and> (owner, job_ID job) \<in> waiting_alerts ox)"
proof (cases "\<exists>job. r = Inr (Some job)")
  case False
  then show ?thesis using Claim_none [OF assms(2)] assms(1) by blast
next
  case True
  then obtain job where job: "r = Inr (Some job)" by blast
  then obtain tk c where c: "c \<in> set (ox_rows ox)" "ob_owner c = owner" "claimable now (mine ob_owner owner (ox_rows ox)) c"
    "job = job_of (lease_row now lease tk c)"
    "ox' = ox\<lparr>ox_rows := t_update ob_owner owner (\<lambda>r. ob_id r = ob_id c) (lease_row now lease tk) (ox_rows ox)\<rparr>"
    using assms(2) by (auto elim: Claim_cases)
  have same: "q = c" if "q \<in> set (ox_rows ox)" "ob_id q = ob_id c" for q
    using assms(1) c(1) that distinct_map_inj_on [of ob_id "ox_rows ox"] by (simp add: ob_inv_def)
  have "ob_status c \<noteq> Sent" using c(3) by (simp add: claimable_def)
  then have "waiting_alerts ox' = waiting_alerts ox"
    unfolding c(5) using same by (intro waiting_update) (auto simp: lease_row_def)
  moreover have "ob_inv ox'" using Claim_frozen [OF assms(2)] ob_inv_frozen [of ox' ox] assms(1) by blast
  moreover have "job_OwnerUserID job = owner \<and> (owner, job_ID job) \<in> waiting_alerts ox"
    using c(1,2,4) \<open>ob_status c \<noteq> Sent\<close> by (auto simp: waiting_mem job_of_def lease_row_def)
  ultimately show ?thesis using job by simp
qed

lemma waiting_defer:
  assumes "ob_inv ox" "InTenant tx (lease_update i token f) owner ox = (r, ox')"
    and "\<And>r. frozen (f r) = frozen r" "\<And>r. ob_status (f r) \<noteq> Sent"
  shows "ob_inv ox' \<and> waiting_alerts ox' = waiting_alerts ox"
proof -
  have "waiting_alerts (ox\<lparr>ox_rows := t_update ob_owner owner (leased_row i token) f (ox_rows ox)\<rparr>) = waiting_alerts ox"
    using frozen_fields [OF assms(3)] assms(4) by (intro waiting_update) (auto simp: leased_row_def)
  then show ?thesis
    using ack_cases [OF assms(2)] ob_inv_frozen [of ox' ox] ack_frozen [OF assms(2,3)] assms(1) by auto
qed

lemma waiting_sent:
  assumes "ob_inv ox" "MarkSent tx owner i token ox = (r, ox')"
  shows "ob_inv ox' \<and> waiting_alerts ox' = (case r of Inr _ \<Rightarrow> waiting_alerts ox - {(owner, i)} | Inl _ \<Rightarrow> waiting_alerts ox)"
proof -
  let ?f = "\<lambda>r. r\<lparr>ob_status := Sent, ob_locked := None, ob_token := None, ob_error := None\<rparr>"
  have m: "InTenant tx (lease_update i token ?f) owner ox = (r, ox')" using assms(2) by (simp add: MarkSent_def)
  have inv: "ob_inv ox'"
    using ob_inv_frozen [of ox' ox] ack_frozen [OF m] assms(1) by (simp add: frozen_def)
  consider (err) e where "r = Inl e" "ox' = ox"
    | (ok) q where "r = Inr ()" "ox' = ox\<lparr>ox_rows := t_update ob_owner owner (leased_row i token) ?f (ox_rows ox)\<rparr>"
        "q \<in> set (ox_rows ox)" "ob_owner q = owner" "leased_row i token q"
    using ack_cases [OF m] by blast
  then show ?thesis
  proof cases
    case err
    then show ?thesis using assms(1) by simp
  next
    case ok
    have same: "x = q" if "x \<in> set (ox_rows ox)" "ob_id x = i" for x
      using assms(1) ok(3,5) that distinct_map_inj_on [of ob_id "ox_rows ox"] by (simp add: ob_inv_def leased_row_def)
    let ?Q = "\<lambda>r. ob_owner r = owner \<and> leased_row i token r"
    have q: "?Q x \<longleftrightarrow> x = q" if "x \<in> set (ox_rows ox)" for x using same that ok(4,5) by (auto simp: leased_row_def)
    have flt: "filter (\<lambda>r. ob_status r \<noteq> Sent) (update_where Q ?f rows) = filter (\<lambda>r. ob_status r \<noteq> Sent \<and> \<not> Q r) rows" for Q rows
      by (induction rows) auto
    have "waiting_alerts ox' = (\<lambda>r. (ob_owner r, ob_id r)) ` {r \<in> set (ox_rows ox). ob_status r \<noteq> Sent \<and> \<not> ?Q r}"
      unfolding ok(2) waiting_alerts_def t_update_def by (simp del: set_filter) (subst flt, auto)
    also have "\<dots> = (\<lambda>r. (ob_owner r, ob_id r)) ` {r \<in> set (ox_rows ox). ob_status r \<noteq> Sent} - {(owner, i)}"
      using q same ok(4,5) by (auto simp: leased_row_def)
    finally have "waiting_alerts ox' = waiting_alerts ox - {(owner, i)}" by (simp add: waiting_alerts_def)
    then show ?thesis using inv ok(1) by simp
  qed
qed

text \<open>The second part of the invariant is that the contents of the alerts stay what they were, \<open>fr\<close>.\<close>

interpretation pg: job_store "pg_store pe" "\<lambda>ox. ob_inv ox \<and> map frozen (ox_rows ox) = fr" waiting_alerts for pe fr
proof (unfold_locales, goal_cases)
  case (1 s owner lease)
  then show ?case
    using waiting_claim [OF conjunct1 [OF 1] prod.collapse [symmetric]] Claim_frozen [OF prod.collapse [symmetric]]
    by (simp add: pg_store_def)
next
  case (2 s owner lease)
  then show ?case using waiting_claim [OF conjunct1 [OF 2] prod.collapse [symmetric]] by (simp add: pg_store_def)
next
  case (3 s owner lease job)
  then show ?case using waiting_claim [OF conjunct1 [OF 3(1)] prod.collapse [symmetric]] by (simp add: pg_store_def)
next
  case (4 s owner i token)
  then show ?case
    using waiting_sent [OF conjunct1 [OF 4] prod.collapse [symmetric]] ack_frozen [OF prod.collapse [symmetric]]
    by (simp add: pg_store_def MarkSent_def frozen_def)
next
  case (5 s owner i token)
  then show ?case using waiting_sent [OF conjunct1 [OF 5] prod.collapse [symmetric]] by (simp add: pg_store_def)
next
  case (6 s owner i token wait code)
  then show ?case
    using waiting_defer [OF conjunct1 [OF 6] prod.collapse [symmetric]] ack_frozen [OF prod.collapse [symmetric]]
    by (simp add: pg_store_def MarkRetry_def frozen_def)
next
  case (7 s owner i token code)
  then show ?case
    using waiting_defer [OF conjunct1 [OF 7] prod.collapse [symmetric]] ack_frozen [OF prod.collapse [symmetric]]
    by (simp add: pg_store_def MarkFailed_def frozen_def)
qed

section \<open>What a successful delivery sent\<close>

definition delivers :: "i64 \<Rightarrow> gostr \<Rightarrow> MediaPayload option \<Rightarrow> sending \<Rightarrow> bool" where
  "delivers tg txt media snt = (case snt of
     TextSent req r \<Rightarrow> r = None \<and> smr_ChatID req = tg \<and> (smr_Text req = txt \<or> smr_Text req = WithMediaUnavailableNote txt)
   | MediaSent alert r \<Rightarrow> r = None \<and> al_ChatID alert = tg \<and>
       (\<exists>p. media = Some p \<and> map ai_FileName (al_Items alert) = map mi_FileName (mp_Items p)))"

lemma alert_items_names: "alert_items env items = Inr xs \<Longrightarrow> map ai_FileName xs = map mi_FileName items"
  by (induction items arbitrary: xs) (auto split: sum.splits)

lemma deliver_success:
  assumes "deliver env job = (None, sends)"
  shows "sends \<noteq> [] \<and> delivers (job_OwnerTelegramUserID job) (job_Text job) (job_Media job) (last sends)"
proof -
  have plain: "sendText env job b = (None, ss) \<Longrightarrow>
      ss \<noteq> [] \<and> delivers (job_OwnerTelegramUserID job) (job_Text job) (job_Media job) (last ss)" for b ss
    by (auto simp: sendText_def Let_def delivers_def)
  show ?thesis
  proof (cases "job_PayloadKind job = PayloadKindMedia")
    case False
    then show ?thesis using assms plain by (simp add: deliver_def)
  next
    case True
    obtain r ss where m: "sendMedia env job = (r, ss)" by (cases "sendMedia env job")
    show ?thesis
    proof (cases r)
      case None
      then show ?thesis
        using assms True m
        by (auto simp: deliver_def sendMedia_def Let_def delivers_def alert_items_names split: option.splits if_splits sum.splits)
    next
      case (Some err)
      obtain r2 s2 where t: "sendText env job True = (r2, s2)" by (cases "sendText env job True")
      then have "r2 = None" "sends = ss @ s2" using assms True m Some by (auto simp: deliver_def split: if_splits)
      then show ?thesis using plain t by simp
    qed
  qed
qed

lemma deliver_when_senders_work:
  assumes "we_SendMessageOnce env = (\<lambda>_. None)" "we_SendMediaOnce env = (\<lambda>_. None)"
  shows "fst (deliver env job) = None"
proof -
  have items: "alert_items env items = Inl err \<Longrightarrow> err = [ErrUnsafeRelativePath]" for items err
    by (induction items) (auto simp: mediaPath_def ValidateRelativePath_def split: sum.splits option.splits if_splits)
  have "fst (sendMedia env job) = None \<or> fst (sendMedia env job) = Some [ErrNoMediaDelivery] \<or>
      fst (sendMedia env job) = Some [ErrUnsafeRelativePath]"
    using items assms(2) by (auto simp: sendMedia_def Let_def split: option.splits sum.splits)
  moreover have "mediaIsHopeless d [ErrNoMediaDelivery]" "mediaIsHopeless d [ErrUnsafeRelativePath]" for d
    by (simp_all add: mediaIsHopeless_def isShutdown_def errors_is_def)
  moreover have "fst (sendText env job b) = None" for b using assms(1) by (simp add: sendText_def Let_def)
  ultimately show ?thesis
    by (cases "sendMedia env job") (auto simp: deliver_def split: prod.splits; metis fst_conv)
qed

section \<open>Properties\<close>

lemma unique_row: "ob_inv ox \<Longrightarrow> r \<in> set (ox_rows ox) \<Longrightarrow> q \<in> set (ox_rows ox) \<Longrightarrow> ob_id r = ob_id q \<Longrightarrow> r = q"
  using distinct_map_inj_on [of ob_id "ox_rows ox"] by (simp add: ob_inv_def)

text \<open>A world in which everything works, and one in which nothing does.\<close>

definition calm :: worker_env where
  "calm = \<lparr>we_guard = None, we_dead_guard = False, we_dead_claim = False, we_dead_media = False,
     we_dead_deliver = False, we_dead_ack = False, we_media_sender = True, we_mediaDir = [109],
     we_SendMessageOnce = (\<lambda>_. None), we_SendMediaOnce = (\<lambda>_. None)\<rparr>"

definition pg_calm :: "instant \<Rightarrow> pg_env" where
  "pg_calm now = \<lparr>pe_claim_tx = good_tx, pe_token = Some ''t'', pe_claim_now = now, pe_mark_tx = good_tx, pe_mark_now = now\<rparr>"

lemma process_keeps_or_delivers:
  assumes "ob_inv ox" "ProcessOne (pg_store pe) env owner ox = (out, sends, ox')"
    and "r \<in> set (ox_rows ox)" "ob_status r \<noteq> Sent"
  shows "(\<exists>r' \<in> set (ox_rows ox'). frozen r' = frozen r \<and> ob_status r' \<noteq> Sent) \<or>
    (ob_owner r = owner \<and> sends \<noteq> [] \<and> delivers (ob_tg r) (ob_text r) (ob_media r) (last sends))"
proof -
  let ?I = "\<lambda>o2. ob_inv o2 \<and> map frozen (ox_rows o2) = map frozen (ox_rows ox)"
  have I: "?I ox" using assms(1) by simp
  have I': "?I ox'" using pg.process_inv [OF I, of pe env owner] assms(2) by simp
  have x: "(ob_owner r, ob_id r) \<in> waiting_alerts ox" using assms(3,4) waiting_mem by blast
  show ?thesis
  proof (cases "(ob_owner r, ob_id r) \<in> waiting_alerts ox'")
    case True
    then obtain r' where r': "r' \<in> set (ox_rows ox')" "ob_id r' = ob_id r" "ob_status r' \<noteq> Sent" using waiting_mem by blast
    have "frozen r' \<in> frozen ` set (ox_rows ox)" using I' r'(1) by (metis image_eqI set_map)
    then obtain q where q: "q \<in> set (ox_rows ox)" "frozen r' = frozen q" by blast
    then have "q = r" using unique_row [OF assms(1) q(1) assms(3)] frozen_fields [OF q(2)] r'(2) by simp
    then show ?thesis using r' q(2) by blast
  next
    case False
    obtain job where job: "ob_owner r = owner" "fst (st_Claim (pg_store pe) owner defaultLease ox) = Inr (Some job)"
      "ob_id r = job_ID job" "deliver env job = (None, sends)"
      using pg.process_keeps [OF I assms(2) x False] by auto
    let ?c = "Claim (pe_claim_tx pe) (pe_token pe) (pe_claim_now pe) owner defaultLease ox"
    have "?c = (Inr (Some job), snd ?c)" using job(2) by (simp add: pg_store_def prod_eq_iff)
    then obtain tk c where c: "c \<in> set (ox_rows ox)" "job = job_of (lease_row (pe_claim_now pe) defaultLease tk c)"
      by (rule Claim_cases)
    have "c = r" using unique_row [OF assms(1) c(1) assms(3)] c(2) job(3) by (simp add: job_of_def lease_row_def)
    then have "job_OwnerTelegramUserID job = ob_tg r" "job_Text job = ob_text r"
      "\<forall>p. job_Media job = Some p \<longrightarrow> ob_media r = Some p"
      using c(2) by (auto simp: job_of_def lease_row_def decodeMediaPayload_def split: option.splits if_splits)
    then show ?thesis
      using deliver_success [OF job(4)] job(1) by (auto simp: delivers_def split: sending.splits)
  qed
qed



text \<open>The delay before a retry is between one second and fifteen minutes, never shrinks as attempts grow, and a
  delay set by Telegram is followed up to one day.\<close>

theorem retry_delay_bounds:
  "go_second \<le> retryDelay a \<and> retryDelay a \<le> maxBackoff \<and> (a \<le> b \<longrightarrow> retryDelay a \<le> retryDelay b) \<and>
   (0 < retry \<and> retry * go_second < 2 ^ 63 \<longrightarrow> throttle_wait retry = min (retry * go_second) maxThrottleDelay)"
proof -
  have s: "go_second = 1000000000" "maxBackoff = 900000000000" "maxBackoffAttempts = 10" by (simp_all add: go_second_def maxBackoff_def maxBackoffAttempts_def)
  have small: "retryDelay a = (if 10 \<le> a then maxBackoff else 2 ^ nat (max a 0) * go_second)" for a
  proof (cases "10 \<le> a")
    case False
    then have "nat (max a 0) \<le> 9" by simp
    then have "(2::int) ^ nat (max a 0) \<le> 2 ^ 9" by (rule power_increasing) simp
    then have "\<not> maxBackoff < 2 ^ nat (max a 0) * go_second" by (simp add: s)
    then show ?thesis using False s by (cases "a < 0") (simp_all add: retryDelay_def Let_def max_def)
  qed (simp add: retryDelay_def Let_def s)
  have bounds: "go_second \<le> retryDelay a \<and> retryDelay a \<le> maxBackoff" for a
  proof (cases "10 \<le> a")
    case False
    then have "nat (max a 0) \<le> 9" by simp
    then have "(2::int) ^ nat (max a 0) \<le> 2 ^ 9" by (rule power_increasing) simp
    moreover have "(1::int) \<le> 2 ^ nat (max a 0)" by simp
    ultimately show ?thesis using False by (simp add: small s)
  qed (simp add: small s)
  have mono: "a \<le> b \<Longrightarrow> retryDelay a \<le> retryDelay b"
  proof (cases "10 \<le> b")
    case True
    then show ?thesis using bounds [of a] small [of b] by simp
  next
    case False
    assume "a \<le> b"
    then have "(2::int) ^ nat (max a 0) \<le> 2 ^ nat (max b 0)" by (intro power_increasing) auto
    then show ?thesis using False \<open>a \<le> b\<close> by (simp add: small s)
  qed
  have "in_i64 (retry * go_second)" if "0 < retry" "retry * go_second < 2 ^ 63"
  proof -
    have "0 < retry * go_second" using that(1) s by simp
    then show ?thesis using that(2) by (simp add: in_i64_def)
  qed
  then have "0 < retry \<and> retry * go_second < 2 ^ 63 \<longrightarrow> throttle_wait retry = min (retry * go_second) maxThrottleDelay"
    by (auto simp: throttle_wait_def Let_def min_def)
  then show ?thesis using bounds mono by blast
qed

theorem retry_delay_bounds_witness:
  "retryDelay 3 = 8 * go_second \<and> retryDelay 3 \<le> retryDelay 20 \<and> throttle_wait 30 = 30 * go_second"
proof -
  have "retryDelay 3 = 8 * go_second" by code_simp
  then show ?thesis
    using retry_delay_bounds [of 3 20 30] by (simp add: go_second_def maxThrottleDelay_def)
qed

text \<open>The cap on a delay set by Telegram does not hold of a delay beyond 9223372036 seconds: the product
  overflows \<open>time.Duration\<close>, the comparison with one day passes, and the alert is rescheduled in the past, where
  the next claim takes it again at once.\<close>

theorem huge_retry_after_not_capped:
  assumes "job_Attempts job + 1 < maxDeliveryAttempts"
  shows "error_lane job [APIError statusTooManyRequests 9223372037] = Retry (- 9223372036709551616) (telegram_class statusTooManyRequests)"
proof -
  have "throttle_wait 9223372037 = - 9223372036709551616"
    by (simp add: throttle_wait_def wrap64_def go_second_def maxThrottleDelay_def)
  then show ?thesis
    using assms by (simp add: error_lane_def definitive_4xx_def http_status_defs IsRateLimited_def Let_def)
qed

theorem huge_retry_after_not_capped_witness:
  "\<exists>job. job_Attempts job = 0 \<and>
     error_lane job [APIError statusTooManyRequests 9223372037] = Retry (- 9223372036709551616) (telegram_class statusTooManyRequests)"
  using huge_retry_after_not_capped [of "job_of (hd (ox_rows sample_outbox))\<lparr>job_Attempts := 0\<rparr>"]
  by (intro exI [of _ "job_of (hd (ox_rows sample_outbox))\<lparr>job_Attempts := 0\<rparr>"]) (simp add: maxDeliveryAttempts_def)

end
