(* ===== verification/Media_Catalogue.thy ===== *)
theory Media_Catalogue
  imports Tenant_Table Users Media_Extract Media_Path
begin

text \<open>
  \<open>bot/internal/media/repository.go\<close>: the table \<open>media_files\<close>, which says for each attachment of a captured
  message what it is and whether its file is on disk.

  The table is the list of its rows with the sequence of its ids. Columns that may be NULL are options; \<open>File\<close>
  is a row as \<open>scanFiles\<close> reads it, where \<open>COALESCE\<close> turns the NULL of a text column into the empty text. The
  clock of the PostgreSQL server is the argument \<open>now\<close>. The CHECK constraints of migration 0004 on values the
  bot passes through (media type, index and size) are the error of \<open>Save\<close>; a value the driver refuses to encode
  is a statement that fails (\<open>tx_exec\<close>).
\<close>

section \<open>State\<close>

datatype media_status = StatusPending | StatusStored | StatusPurged

record mf_row =
  mf_id :: i64
  mf_owner :: i64
  mf_conn :: string
  mf_chat :: i64
  mf_msg :: i64
  mf_index :: int
  mf_file_id :: gostr
  mf_unique_id :: gostr
  mf_type :: string
  mf_mime :: "gostr option"
  mf_name :: "gostr option"
  mf_size :: "i64 option"
  mf_width :: "int option"
  mf_height :: "int option"
  mf_duration :: "int option"
  mf_path :: "gostr option"
  mf_thumb :: "gostr option"
  mf_sha :: "gostr option"
  mf_status :: media_status
  mf_group :: "string option"
  mf_created :: instant
  mf_updated :: instant

record media_table =
  mt_rows :: "mf_row list"
  mt_seq :: i64

definition empty_media :: media_table where
  "empty_media = \<lparr>mt_rows = [], mt_seq = 1\<rparr>"

record MediaRecord =
  mr_BusinessConnectionID :: string
  mr_ChatID :: i64
  mr_MessageID :: i64
  mr_FileIndex :: int
  mr_TelegramFileID :: gostr
  mr_TelegramFileUniqueID :: gostr
  mr_MediaType :: string
  mr_MimeType :: gostr
  mr_FileName :: gostr
  mr_ByteSize :: "i64 option"
  mr_Width :: "int option"
  mr_Height :: "int option"
  mr_DurationSec :: "int option"
  mr_MediaGroupID :: string

record File =
  file_ID :: i64
  file_BusinessConnectionID :: string
  file_ChatID :: i64
  file_MessageID :: i64
  file_FileIndex :: int
  file_TelegramFileID :: gostr
  file_TelegramFileUniqueID :: gostr
  file_MediaType :: string
  file_MimeType :: gostr
  file_FileName :: gostr
  file_ByteSize :: "i64 option"
  file_Width :: "int option"
  file_Height :: "int option"
  file_DurationSec :: "int option"
  file_RelativePath :: gostr
  file_ThumbnailRelativePath :: gostr
  file_SHA256 :: gostr
  file_Status :: media_status
  file_MediaGroupID :: string
  file_CreatedAt :: instant

record StoredFile =
  sf_RelativePath :: gostr
  sf_ThumbnailRelativePath :: gostr
  sf_SHA256 :: gostr
  sf_ByteSize :: i64

text \<open>SQL's \<open>NULLIF(x, '')\<close>, \<open>COALESCE(x, '')\<close> and \<open>COALESCE(new, old)\<close>.\<close>

definition nullif_empty :: "'a list \<Rightarrow> 'a list option" where
  "nullif_empty s = (if s = [] then None else Some s)"

definition or_empty :: "'a list option \<Rightarrow> 'a list" where
  "or_empty x = (case x of None \<Rightarrow> [] | Some s \<Rightarrow> s)"

definition coalesce :: "'a option \<Rightarrow> 'a option \<Rightarrow> 'a option" where
  "coalesce new old = (case new of None \<Rightarrow> old | Some v \<Rightarrow> Some v)"

lemma or_empty_Some [simp]: "or_empty (Some s) = s" and or_empty_None [simp]: "or_empty None = []"
  by (simp_all add: or_empty_def)

definition scan_file :: "mf_row \<Rightarrow> File" where
  "scan_file r = \<lparr>file_ID = mf_id r, file_BusinessConnectionID = mf_conn r, file_ChatID = mf_chat r,
     file_MessageID = mf_msg r, file_FileIndex = mf_index r, file_TelegramFileID = mf_file_id r,
     file_TelegramFileUniqueID = mf_unique_id r, file_MediaType = mf_type r, file_MimeType = or_empty (mf_mime r),
     file_FileName = or_empty (mf_name r), file_ByteSize = mf_size r, file_Width = mf_width r,
     file_Height = mf_height r, file_DurationSec = mf_duration r, file_RelativePath = or_empty (mf_path r),
     file_ThumbnailRelativePath = or_empty (mf_thumb r), file_SHA256 = or_empty (mf_sha r),
     file_Status = mf_status r, file_MediaGroupID = or_empty (mf_group r), file_CreatedAt = mf_created r\<rparr>"

definition scanFiles :: "mf_row list \<Rightarrow> File list" where
  "scanFiles rows = map scan_file rows"

section \<open>Operations\<close>

definition mf_key :: "mf_row \<Rightarrow> i64 \<times> string \<times> i64 \<times> i64 \<times> int" where
  "mf_key r = (mf_owner r, mf_conn r, mf_chat r, mf_msg r, mf_index r)"

definition new_media_row :: "instant \<Rightarrow> i64 \<Rightarrow> i64 \<Rightarrow> MediaRecord \<Rightarrow> mf_row" where
  "new_media_row now owner i m = \<lparr>mf_id = i, mf_owner = owner, mf_conn = mr_BusinessConnectionID m,
     mf_chat = mr_ChatID m, mf_msg = mr_MessageID m, mf_index = mr_FileIndex m,
     mf_file_id = mr_TelegramFileID m, mf_unique_id = mr_TelegramFileUniqueID m, mf_type = mr_MediaType m,
     mf_mime = nullif_empty (mr_MimeType m), mf_name = nullif_empty (mr_FileName m), mf_size = mr_ByteSize m,
     mf_width = mr_Width m, mf_height = mr_Height m, mf_duration = mr_DurationSec m,
     mf_path = None, mf_thumb = None, mf_sha = None, mf_status = StatusPending,
     mf_group = nullif_empty (mr_MediaGroupID m), mf_created = now, mf_updated = now\<rparr>"

text \<open>The \<open>DO UPDATE\<close> of \<open>Save\<close>, \<open>e\<close> being the row that was \<open>EXCLUDED\<close>.\<close>

definition refresh_media :: "mf_row \<Rightarrow> mf_row \<Rightarrow> mf_row" where
  "refresh_media e r = r\<lparr>mf_file_id := mf_file_id e, mf_unique_id := mf_unique_id e, mf_type := mf_type e,
     mf_mime := coalesce (mf_mime e) (mf_mime r), mf_name := coalesce (mf_name e) (mf_name r),
     mf_size := (if mf_status r = StatusStored then mf_size r else coalesce (mf_size e) (mf_size r)),
     mf_width := coalesce (mf_width e) (mf_width r), mf_height := coalesce (mf_height e) (mf_height r),
     mf_duration := coalesce (mf_duration e) (mf_duration r), mf_group := coalesce (mf_group e) (mf_group r),
     mf_updated := mf_updated e\<rparr>"

definition media_checks :: "mf_row \<Rightarrow> bool" where
  "media_checks r \<longleftrightarrow> 0 \<le> mf_index r \<and> mf_type r \<in> set (MediaTypeUnknown # knownMediaFields) \<and>
     (case mf_size r of None \<Rightarrow> True | Some n \<Rightarrow> 0 \<le> n)"

definition save_media_body :: "instant \<Rightarrow> i64 \<Rightarrow> MediaRecord \<Rightarrow> i64 \<Rightarrow> media_table \<Rightarrow> go_error + (i64 \<times> media_table)" where
  "save_media_body now owner m t mt =
     (let e = new_media_row now owner (mt_seq mt) m in
      if mf_owner e \<noteq> t \<or> \<not> media_checks e then Inl [PgError ''23514'']
      else case find (\<lambda>r. mf_key r = mf_key e) (mt_rows mt) of
          Some r \<Rightarrow> Inr (mf_id r, mt\<lparr>mt_rows := t_update mf_owner t (\<lambda>r. mf_key r = mf_key e) (refresh_media e) (mt_rows mt),
                                     mt_seq := mt_seq mt + 1\<rparr>)
        | None \<Rightarrow> Inr (mf_id e, mt\<lparr>mt_rows := mt_rows mt @ [e], mt_seq := mt_seq mt + 1\<rparr>))"

definition media_Save :: "tx_env \<Rightarrow> instant \<Rightarrow> i64 \<Rightarrow> MediaRecord \<Rightarrow> media_table \<Rightarrow> (go_error + i64) \<times> media_table" where
  "media_Save tx now owner m = InTenant tx (save_media_body now owner m) owner"

text \<open>A read is a transaction that leaves the table as it is.\<close>

definition media_read :: "tx_env \<Rightarrow> (i64 \<Rightarrow> mf_row list \<Rightarrow> 'a) \<Rightarrow> i64 \<Rightarrow> media_table \<Rightarrow> go_error + 'a" where
  "media_read tx q owner mt = fst (InTenant tx (\<lambda>t mt. Inr (q t (mt_rows mt), mt)) owner mt)"

definition media_CountByOwner :: "tx_env \<Rightarrow> i64 \<Rightarrow> media_table \<Rightarrow> go_error + int" where
  "media_CountByOwner tx owner =
     media_read tx (\<lambda>t rows. int (length (t_select mf_owner t (\<lambda>r. mf_owner r = owner) rows))) owner"

definition SumStoredBytes :: "tx_env \<Rightarrow> i64 \<Rightarrow> media_table \<Rightarrow> go_error + int" where
  "SumStoredBytes tx owner =
     media_read tx (\<lambda>t rows. sum_list (map (\<lambda>r. case mf_size r of None \<Rightarrow> 0 | Some n \<Rightarrow> n)
        (t_select mf_owner t (\<lambda>r. mf_owner r = owner \<and> mf_status r = StatusStored) rows))) owner"

definition GetByMessage :: "tx_env \<Rightarrow> i64 \<Rightarrow> string \<Rightarrow> i64 \<Rightarrow> i64 \<Rightarrow> media_table \<Rightarrow> go_error + File list" where
  "GetByMessage tx owner conn chat msg =
     media_read tx (\<lambda>t rows. scanFiles (sort_key mf_index
        (t_select mf_owner t (\<lambda>r. mf_conn r = conn \<and> mf_chat r = chat \<and> mf_msg r = msg) rows))) owner"

text \<open>The two queries that run in the caller's transaction, whose tenant is \<open>t\<close>. \<open>sort_key\<close> is stable, so
  sorting by index and then by message is \<open>ORDER BY message_id, file_index\<close>.\<close>

definition SelectStoredTx :: "i64 \<Rightarrow> string \<Rightarrow> i64 \<Rightarrow> i64 list \<Rightarrow> media_table \<Rightarrow> File list" where
  "SelectStoredTx t conn chat ids mt =
     scanFiles (sort_key mf_msg (sort_key mf_index
       (t_select mf_owner t (\<lambda>r. mf_conn r = conn \<and> mf_chat r = chat \<and> mf_msg r \<in> set ids \<and>
          mf_status r = StatusStored \<and> mf_path r \<noteq> None) (mt_rows mt))))"

fun min_msg :: "mf_row list \<Rightarrow> i64 option" where
  "min_msg [] = None"
| "min_msg (r # rs) = Some (case min_msg rs of None \<Rightarrow> mf_msg r | Some m \<Rightarrow> min (mf_msg r) m)"

definition SelectAlbumAnchorsTx :: "i64 \<Rightarrow> string \<Rightarrow> i64 \<Rightarrow> i64 list \<Rightarrow> media_table \<Rightarrow> string \<Rightarrow> i64 option" where
  "SelectAlbumAnchorsTx t conn chat ids mt album =
     min_msg (t_select mf_owner t (\<lambda>r. mf_conn r = conn \<and> mf_chat r = chat \<and> mf_msg r \<in> set ids \<and> mf_group r = Some album)
        (mt_rows mt))"

definition media_page :: "tx_env \<Rightarrow> (mf_row \<Rightarrow> bool) \<Rightarrow> nat \<Rightarrow> i64 \<Rightarrow> media_table \<Rightarrow> go_error + File list" where
  "media_page tx P n = media_read tx (\<lambda>t rows. scanFiles (take n (sort_key mf_id (t_select mf_owner t P rows))))"

definition ListPending :: "tx_env \<Rightarrow> i64 \<Rightarrow> nat \<Rightarrow> media_table \<Rightarrow> go_error + File list" where
  "ListPending tx owner n = media_page tx (\<lambda>r. mf_status r = StatusPending) n owner"

definition days_ago :: "instant \<Rightarrow> int \<Rightarrow> instant" where
  "days_ago now days = now - days * (24 * 3600 * 10 ^ 9)"

definition ListExpiredStored :: "tx_env \<Rightarrow> instant \<Rightarrow> i64 \<Rightarrow> i64 \<Rightarrow> int \<Rightarrow> nat \<Rightarrow> media_table \<Rightarrow> go_error + File list" where
  "ListExpiredStored tx now owner afterID retentionDays n =
     media_page tx (\<lambda>r. mf_status r = StatusStored \<and> afterID < mf_id r \<and> mf_created r < days_ago now retentionDays) n owner"

definition ListStoredPage :: "tx_env \<Rightarrow> i64 \<Rightarrow> i64 \<Rightarrow> nat \<Rightarrow> media_table \<Rightarrow> go_error + File list" where
  "ListStoredPage tx owner afterID n = media_page tx (\<lambda>r. mf_status r = StatusStored \<and> afterID < mf_id r) n owner"

definition ListTenantPage :: "tx_env \<Rightarrow> i64 \<Rightarrow> i64 \<Rightarrow> nat \<Rightarrow> media_table \<Rightarrow> go_error + File list" where
  "ListTenantPage tx owner afterID n = media_page tx (\<lambda>r. afterID < mf_id r) n owner"

text \<open>\<open>update\<close>: a single-row update that turns no row into \<open>ErrNotFound\<close>.\<close>

definition update_media :: "i64 \<Rightarrow> (mf_row \<Rightarrow> mf_row) \<Rightarrow> i64 \<Rightarrow> media_table \<Rightarrow> go_error + (unit \<times> media_table)" where
  "update_media i f t mt =
     (case find (\<lambda>r. mf_owner r = t \<and> mf_id r = i) (mt_rows mt) of
        None \<Rightarrow> Inl [ErrMediaNotFound]
      | Some r \<Rightarrow>
          if \<not> media_checks (f r) then Inl [PgError ''23514'']
          else Inr ((), mt\<lparr>mt_rows := t_update mf_owner t (\<lambda>r. mf_id r = i) f (mt_rows mt)\<rparr>))"

definition MarkStored :: "tx_env \<Rightarrow> instant \<Rightarrow> i64 \<Rightarrow> i64 \<Rightarrow> StoredFile \<Rightarrow> media_table \<Rightarrow> (go_error + unit) \<times> media_table" where
  "MarkStored tx now owner i s mt =
     (case ValidateRelativePath (sf_RelativePath s) of
        Some err \<Rightarrow> (Inl err, mt)
      | None \<Rightarrow>
          (case (if sf_ThumbnailRelativePath s \<noteq> [] then ValidateRelativePath (sf_ThumbnailRelativePath s) else None) of
             Some err \<Rightarrow> (Inl err, mt)
           | None \<Rightarrow>
               (case ValidateSHA256 (sf_SHA256 s) of
                  Some err \<Rightarrow> (Inl err, mt)
                | None \<Rightarrow>
                    InTenant tx (update_media i (\<lambda>r. r\<lparr>mf_status := StatusStored, mf_path := Some (sf_RelativePath s),
                       mf_thumb := nullif_empty (sf_ThumbnailRelativePath s), mf_sha := Some (sf_SHA256 s),
                       mf_size := Some (sf_ByteSize s), mf_updated := now\<rparr>)) owner mt)))"

definition MarkPurged :: "tx_env \<Rightarrow> instant \<Rightarrow> i64 \<Rightarrow> i64 \<Rightarrow> media_table \<Rightarrow> (go_error + unit) \<times> media_table" where
  "MarkPurged tx now owner i =
     InTenant tx (update_media i (\<lambda>r. r\<lparr>mf_status := StatusPurged, mf_path := None, mf_thumb := None, mf_updated := now\<rparr>)) owner"

definition MarkPendingRetry :: "tx_env \<Rightarrow> instant \<Rightarrow> i64 \<Rightarrow> i64 \<Rightarrow> media_table \<Rightarrow> (go_error + unit) \<times> media_table" where
  "MarkPendingRetry tx now owner i =
     InTenant tx (update_media i (\<lambda>r. r\<lparr>mf_status := StatusPending, mf_path := None, mf_thumb := None, mf_sha := None,
       mf_updated := now\<rparr>)) owner"

text \<open>The bounded deletions delete the first \<open>n\<close> rows by id among those the subquery selects.\<close>

definition delete_batch :: "(mf_row \<Rightarrow> bool) \<Rightarrow> nat \<Rightarrow> i64 \<Rightarrow> media_table \<Rightarrow> go_error + (int \<times> media_table)" where
  "delete_batch P n t mt =
     (let ids = map mf_id (take n (sort_key mf_id (t_select mf_owner t P (mt_rows mt)))) in
      Inr (int (length (t_select mf_owner t (\<lambda>r. mf_id r \<in> set ids) (mt_rows mt))),
           mt\<lparr>mt_rows := t_delete mf_owner t (\<lambda>r. mf_id r \<in> set ids) (mt_rows mt)\<rparr>))"

definition DeleteTenantBatch :: "tx_env \<Rightarrow> i64 \<Rightarrow> nat \<Rightarrow> media_table \<Rightarrow> (go_error + int) \<times> media_table" where
  "DeleteTenantBatch tx owner n = InTenant tx (delete_batch (\<lambda>r. mf_owner r = owner) n) owner"

definition DeleteStalePending :: "tx_env \<Rightarrow> instant \<Rightarrow> i64 \<Rightarrow> duration \<Rightarrow> int \<Rightarrow> nat \<Rightarrow> media_table \<Rightarrow> (go_error + int) \<times> media_table" where
  "DeleteStalePending tx now owner maxAge retentionDays n =
     InTenant tx (delete_batch (\<lambda>r. mf_owner r = owner \<and> mf_status r = StatusPending \<and>
        (mf_created r < days_ago now retentionDays \<or> (mf_created r < now - maxAge \<and> mf_updated r < now - maxAge))) n) owner"

definition DeletePurged :: "tx_env \<Rightarrow> instant \<Rightarrow> i64 \<Rightarrow> duration \<Rightarrow> int \<Rightarrow> nat \<Rightarrow> media_table \<Rightarrow> (go_error + int) \<times> media_table" where
  "DeletePurged tx now owner grace retentionDays n =
     InTenant tx (delete_batch (\<lambda>r. mf_owner r = owner \<and> mf_status r = StatusPurged \<and>
        mf_created r < days_ago now retentionDays \<and> mf_updated r < now - grace) n) owner"

definition KnownPaths :: "tx_env \<Rightarrow> i64 \<Rightarrow> gostr list \<Rightarrow> media_table \<Rightarrow> go_error + gostr set" where
  "KnownPaths tx owner relPaths mt =
     (if relPaths = [] then Inr {}
      else media_read tx (\<lambda>t rows. set (filter (\<lambda>p. list_ex (\<lambda>r. mf_path r = Some p \<or> mf_thumb r = Some p)
             (t_select mf_owner t (\<lambda>_. True) rows)) relPaths)) owner mt)"

section \<open>Tenant isolation\<close>

datatype media_op =
    MediaSave tx_env instant MediaRecord
  | MediaStored tx_env instant i64 StoredFile
  | MediaPurged tx_env instant i64
  | MediaRequeue tx_env instant i64
  | MediaDeleteTenant tx_env nat
  | MediaDeleteStale tx_env instant duration int nat
  | MediaDeletePurged tx_env instant duration int nat

fun media_step :: "media_op \<Rightarrow> i64 \<Rightarrow> media_table \<Rightarrow> media_table" where
  "media_step (MediaSave tx now m) t mt = snd (media_Save tx now t m mt)"
| "media_step (MediaStored tx now i s) t mt = snd (MarkStored tx now t i s mt)"
| "media_step (MediaPurged tx now i) t mt = snd (MarkPurged tx now t i mt)"
| "media_step (MediaRequeue tx now i) t mt = snd (MarkPendingRetry tx now t i mt)"
| "media_step (MediaDeleteTenant tx n) t mt = snd (DeleteTenantBatch tx t n mt)"
| "media_step (MediaDeleteStale tx now age days n) t mt = snd (DeleteStalePending tx now t age days n mt)"
| "media_step (MediaDeletePurged tx now grace days n) t mt = snd (DeletePurged tx now t grace days n mt)"

lemma update_media_cases:
  assumes "update_media i f t mt = Inr (a, mt')"
  shows "\<exists>r \<in> set (mt_rows mt). mf_owner r = t \<and> mf_id r = i \<and> media_checks (f r) \<and>
    mt' = mt\<lparr>mt_rows := t_update mf_owner t (\<lambda>r. mf_id r = i) f (mt_rows mt)\<rparr>"
  using assms by (auto simp: update_media_def split: option.splits if_splits dest: find_Some_iff_mem)

text \<open>Every operation ends in one of four ways: nothing, a new row, the update of rows of the tenant by a function
  that keeps their identity, or the deletion of rows of the tenant.\<close>

definition same_media_id :: "mf_row \<Rightarrow> mf_row \<Rightarrow> bool" where
  "same_media_id r q \<longleftrightarrow> mf_id q = mf_id r \<and> mf_key q = mf_key r \<and> mf_created q = mf_created r"

lemma new_media_row_simps [simp]:
  "mf_owner (new_media_row now owner i m) = owner" "mf_id (new_media_row now owner i m) = i"
  "mf_status (new_media_row now owner i m) = StatusPending" "mf_path (new_media_row now owner i m) = None"
  "mf_thumb (new_media_row now owner i m) = None" "mf_sha (new_media_row now owner i m) = None"
  "mf_created (new_media_row now owner i m) = now"
  "mf_key (new_media_row now owner i m) =
    (owner, mr_BusinessConnectionID m, mr_ChatID m, mr_MessageID m, mr_FileIndex m)"
  by (simp_all add: new_media_row_def mf_key_def)

lemma refresh_media_simps [simp]:
  "mf_owner (refresh_media e r) = mf_owner r" "mf_id (refresh_media e r) = mf_id r"
  "mf_status (refresh_media e r) = mf_status r" "mf_path (refresh_media e r) = mf_path r"
  "mf_thumb (refresh_media e r) = mf_thumb r" "mf_sha (refresh_media e r) = mf_sha r"
  "mf_created (refresh_media e r) = mf_created r" "mf_key (refresh_media e r) = mf_key r"
  by (simp_all add: refresh_media_def mf_key_def)

lemma save_media_cases:
  assumes "save_media_body now owner m t mt = Inr (i, mt')"
  obtains (known) e r where "e = new_media_row now owner (mt_seq mt) m" "owner = t"
      "find (\<lambda>r. mf_key r = mf_key e) (mt_rows mt) = Some r" "r \<in> set (mt_rows mt)" "mf_key r = mf_key e" "i = mf_id r"
      "mt' = mt\<lparr>mt_rows := t_update mf_owner t (\<lambda>r. mf_key r = mf_key e) (refresh_media e) (mt_rows mt), mt_seq := mt_seq mt + 1\<rparr>"
  | (fresh) e where "e = new_media_row now owner (mt_seq mt) m" "owner = t" "media_checks e"
      "\<forall>r \<in> set (mt_rows mt). mf_key r \<noteq> mf_key e" "i = mt_seq mt"
      "mt' = mt\<lparr>mt_rows := mt_rows mt @ [e], mt_seq := mt_seq mt + 1\<rparr>"
proof -
  define e where e: "e = new_media_row now owner (mt_seq mt) m"
  have eo: "mf_owner e = owner" "mf_id e = mt_seq mt" by (simp_all add: e)
  note b = assms [unfolded save_media_body_def Let_def, folded e]
  show ?thesis
  proof (cases "find (\<lambda>r. mf_key r = mf_key e) (mt_rows mt)")
    case None
    then have "\<forall>r \<in> set (mt_rows mt). mf_key r \<noteq> mf_key e" by (simp add: find_None_iff_all)
    then show ?thesis using fresh [OF e] b None eo by (auto split: if_splits)
  next
    case (Some r)
    then have "r \<in> set (mt_rows mt)" "mf_key r = mf_key e" by (auto dest: find_Some_iff_mem)
    then show ?thesis using known [OF e] b Some eo by (simp split: if_splits)
  qed
qed

lemma others_delete_batch:
  "delete_batch P n t mt = Inr (k, mt') \<Longrightarrow> others mf_owner t (mt_rows mt') = others mf_owner t (mt_rows mt)"
  by (auto simp: delete_batch_def Let_def others_t_delete)

lemma others_update_media:
  assumes "update_media i f t mt = Inr (a, mt')" "\<And>r. mf_owner (f r) = mf_owner r"
  shows "others mf_owner t (mt_rows mt') = others mf_owner t (mt_rows mt)"
  using update_media_cases [OF assms(1)] assms(2) by (auto simp: others_t_update)

lemma others_save_media:
  assumes "save_media_body now owner m t mt = Inr (i, mt')"
  shows "others mf_owner t (mt_rows mt') = others mf_owner t (mt_rows mt)"
  using assms by (cases rule: save_media_cases) (simp_all add: others_t_update, simp add: others_def)

interpretation media_tenant: tenant_op mf_owner "\<lambda>op t rows. mt_rows (media_step op t \<lparr>mt_rows = rows, mt_seq = sq\<rparr>)" for sq
proof (unfold_locales, goal_cases)
  case (1 t op rows)
  show ?case
  proof (cases op)
    case (MediaSave tx now m)
    then show ?thesis
      by (simp add: media_Save_def) (rule InTenant_keeps, simp_all add: others_save_media)
  next
    case (MediaStored tx now i s)
    then show ?thesis
      by (auto simp: MarkStored_def split: option.splits) (rule InTenant_keeps, simp, drule others_update_media, simp_all)+
  next
    case (MediaPurged tx now i)
    then show ?thesis by (simp add: MarkPurged_def) (rule InTenant_keeps, simp, drule others_update_media, simp_all)
  next
    case (MediaRequeue tx now i)
    then show ?thesis by (simp add: MarkPendingRetry_def) (rule InTenant_keeps, simp, drule others_update_media, simp_all)
  next
    case (MediaDeleteTenant tx n)
    then show ?thesis by (simp add: DeleteTenantBatch_def) (rule InTenant_keeps, simp, drule others_delete_batch, simp)
  next
    case (MediaDeleteStale tx now age days n)
    then show ?thesis by (simp add: DeleteStalePending_def) (rule InTenant_keeps, simp, drule others_delete_batch, simp)
  next
    case (MediaDeletePurged tx now grace days n)
    then show ?thesis by (simp add: DeletePurged_def) (rule InTenant_keeps, simp, drule others_delete_batch, simp)
  qed
qed

lemma media_step_frame [frame]: "others mf_owner t (mt_rows (media_step op t mt)) = others mf_owner t (mt_rows mt)"
  using media_tenant.op_frame [of t op "mt_rows mt" "mt_seq mt"] by (cases mt) simp

section \<open>The invariant of the catalogue\<close>

text \<open>Ids and keys are unique and below the sequence; a row has a path exactly when it is stored, and then the path and
  the thumbnail's are valid, and so is the hash.\<close>

definition row_ok :: "mf_row \<Rightarrow> bool" where
  "row_ok r \<longleftrightarrow> (mf_status r = StatusStored \<longleftrightarrow> mf_path r \<noteq> None) \<and>
     (\<forall>p. mf_path r = Some p \<or> mf_thumb r = Some p \<longrightarrow> ValidateRelativePath p = None) \<and>
     (mf_status r \<noteq> StatusStored \<longrightarrow> mf_thumb r = None) \<and>
     (mf_status r = StatusStored \<longrightarrow> (\<exists>h. mf_sha r = Some h \<and> ValidateSHA256 h = None))"

definition media_inv :: "media_table \<Rightarrow> bool" where
  "media_inv mt \<longleftrightarrow> distinct (map mf_id (mt_rows mt)) \<and> distinct (map mf_key (mt_rows mt)) \<and>
     (\<forall>r \<in> set (mt_rows mt). mf_id r < mt_seq mt \<and> row_ok r)"

lemma media_inv_empty [simp]: "media_inv empty_media"
  by (simp add: media_inv_def empty_media_def)

lemma media_inv_update:
  assumes "media_inv mt" "\<And>r. mf_id (f r) = mf_id r \<and> mf_key (f r) = mf_key r"
    and "\<And>r. r \<in> set (mt_rows mt) \<Longrightarrow> P r \<Longrightarrow> row_ok (f r)" "mt_seq mt \<le> sq"
  shows "media_inv (mt\<lparr>mt_rows := t_update mf_owner t P f (mt_rows mt), mt_seq := sq\<rparr>)"
proof -
  have "map mf_id (t_update mf_owner t P f (mt_rows mt)) = map mf_id (mt_rows mt)"
    "map mf_key (t_update mf_owner t P f (mt_rows mt)) = map mf_key (mt_rows mt)"
    using assms(2) by (simp_all add: t_update_def map_update_where)
  moreover have "mf_id r < sq \<and> row_ok r" if "r \<in> set (t_update mf_owner t P f (mt_rows mt))" for r
  proof -
    obtain q where q: "q \<in> set (mt_rows mt)" "r = (if mf_owner q = t \<and> P q then f q else q)"
      using \<open>r \<in> _\<close> by (auto simp: t_update_def set_update_where)
    have "mf_id q < mt_seq mt" "row_ok q" using assms(1) q(1) by (simp_all add: media_inv_def)
    then show ?thesis using q assms(2-4) by (cases "mf_owner q = t \<and> P q") auto
  qed
  ultimately show ?thesis using assms(1) by (simp add: media_inv_def)
qed

lemma media_inv_set:
  "media_inv mt \<Longrightarrow> (\<And>r. mf_id (f r) = mf_id r \<and> mf_key (f r) = mf_key r) \<Longrightarrow> (\<And>r. row_ok (f r)) \<Longrightarrow>
    update_media i f t mt = Inr (a, mt') \<Longrightarrow> media_inv mt'"
  using media_inv_update [of mt f "\<lambda>r. mf_id r = i" "mt_seq mt" t] update_media_cases [of i f t mt a mt'] by auto

lemma media_inv_delete: "media_inv mt \<Longrightarrow> delete_batch P n t mt = Inr (k, mt') \<Longrightarrow> media_inv mt'"
  by (auto simp: delete_batch_def Let_def media_inv_def t_delete_def distinct_map_filter)

lemma row_ok_new: "row_ok (new_media_row now owner i m)"
  by (simp add: row_ok_def)

lemma row_ok_refresh: "row_ok (refresh_media e r) = row_ok r"
  by (simp add: row_ok_def)

lemma media_inv_save: "media_inv mt \<Longrightarrow> save_media_body now owner m t mt = Inr (i, mt') \<Longrightarrow> media_inv mt'"
proof (erule save_media_cases)
  assume inv: "media_inv mt"
  fix e r
  assume "mt' = mt\<lparr>mt_rows := t_update mf_owner t (\<lambda>r. mf_key r = mf_key e) (refresh_media e) (mt_rows mt), mt_seq := mt_seq mt + 1\<rparr>"
  then show "media_inv mt'"
    using inv media_inv_update [OF inv, of "refresh_media e" "\<lambda>r. mf_key r = mf_key e" "mt_seq mt + 1" t]
    by (simp add: row_ok_refresh media_inv_def)
next
  assume inv: "media_inv mt"
  fix e
  assume e: "e = new_media_row now owner (mt_seq mt) m" "\<forall>r \<in> set (mt_rows mt). mf_key r \<noteq> mf_key e"
    "mt' = mt\<lparr>mt_rows := mt_rows mt @ [e], mt_seq := mt_seq mt + 1\<rparr>"
  have "mf_id e = mt_seq mt" "row_ok e" using e(1) row_ok_new by simp_all
  then show "media_inv mt'" using inv e(2,3) by (fastforce simp: media_inv_def)
qed

lemma media_inv_step:
  assumes inv: "media_inv mt"
  shows "media_inv (media_step op t mt)"
proof (cases op)
    case (MediaSave tx now m)
    then show ?thesis using inv by (simp add: media_Save_def) (rule InTenant_keeps, auto intro: media_inv_save)
  next
    case (MediaStored tx now i s)
    have "media_inv (snd (MarkStored tx now t i s mt))"
    proof (cases "ValidateRelativePath (sf_RelativePath s) = None \<and> ValidateSHA256 (sf_SHA256 s) = None \<and>
        (sf_ThumbnailRelativePath s = [] \<or> ValidateRelativePath (sf_ThumbnailRelativePath s) = None)")
      case False
      then show ?thesis using inv by (auto simp: MarkStored_def split: option.splits if_splits)
    next
      case True
      then have "MarkStored tx now t i s mt = InTenant tx (update_media i (\<lambda>r. r\<lparr>mf_status := StatusStored,
          mf_path := Some (sf_RelativePath s), mf_thumb := nullif_empty (sf_ThumbnailRelativePath s),
          mf_sha := Some (sf_SHA256 s), mf_size := Some (sf_ByteSize s), mf_updated := now\<rparr>)) t mt"
        by (auto simp: MarkStored_def)
      moreover have "media_inv (snd (InTenant tx (update_media i (\<lambda>r. r\<lparr>mf_status := StatusStored,
          mf_path := Some (sf_RelativePath s), mf_thumb := nullif_empty (sf_ThumbnailRelativePath s),
          mf_sha := Some (sf_SHA256 s), mf_size := Some (sf_ByteSize s), mf_updated := now\<rparr>)) t mt))"
        by (rule InTenant_keeps [of media_inv, OF inv], rule media_inv_set [OF inv]) (use True in \<open>auto simp: row_ok_def mf_key_def nullif_empty_def\<close>)
      ultimately show ?thesis by simp
    qed
    then show ?thesis using MediaStored by simp
  next
    case (MediaPurged tx now i)
    have "media_inv (snd (MarkPurged tx now t i mt))"
      unfolding MarkPurged_def by (rule InTenant_keeps [of media_inv, OF inv], rule media_inv_set [OF inv]) (auto simp: row_ok_def mf_key_def)
    then show ?thesis using MediaPurged by simp
  next
    case (MediaRequeue tx now i)
    have "media_inv (snd (MarkPendingRetry tx now t i mt))"
      unfolding MarkPendingRetry_def by (rule InTenant_keeps [of media_inv, OF inv], rule media_inv_set [OF inv]) (auto simp: row_ok_def mf_key_def)
    then show ?thesis using MediaRequeue by simp
  next
    case (MediaDeleteTenant tx n)
    then show ?thesis using inv by (simp add: DeleteTenantBatch_def) (rule InTenant_keeps, auto intro: media_inv_delete)
  next
    case (MediaDeleteStale tx now age days n)
    then show ?thesis using inv by (simp add: DeleteStalePending_def) (rule InTenant_keeps, auto intro: media_inv_delete)
  next
    case (MediaDeletePurged tx now grace days n)
    then show ?thesis using inv by (simp add: DeletePurged_def) (rule InTenant_keeps, auto intro: media_inv_delete)
qed

lemma media_inv_run: "media_inv mt \<Longrightarrow> media_inv (foldl (\<lambda>mt (op, t). media_step op t mt) mt ops)"
  by (induction ops arbitrary: mt) (auto intro: media_inv_step)

lemma media_row_unique:
  "media_inv mt \<Longrightarrow> r \<in> set (mt_rows mt) \<Longrightarrow> q \<in> set (mt_rows mt) \<Longrightarrow> mf_key r = mf_key q \<Longrightarrow> r = q"
  using distinct_map_inj_on [of mf_key "mt_rows mt"] by (simp add: media_inv_def)

lemma media_id_unique:
  "media_inv mt \<Longrightarrow> r \<in> set (mt_rows mt) \<Longrightarrow> q \<in> set (mt_rows mt) \<Longrightarrow> mf_id r = mf_id q \<Longrightarrow> r = q"
  using distinct_map_inj_on [of mf_id "mt_rows mt"] by (simp add: media_inv_def)

section \<open>What a bounded deletion deletes\<close>

text \<open>The first \<open>n\<close> rows by id among the eligible ones, and no other.\<close>

lemma delete_batch_rows:
  assumes "distinct (map mf_id (mt_rows mt))" "delete_batch P n t mt = Inr (k, mt')"
  defines "eligible \<equiv> t_select mf_owner t P (mt_rows mt)"
  defines "gone \<equiv> take n (sort_key mf_id eligible)"
  shows "set (mt_rows mt') = set (mt_rows mt) - set gone" "set gone \<subseteq> set eligible"
    "k = int (min n (length eligible))" "distinct (map mf_id (mt_rows mt'))"
proof -
  have sub: "set gone \<subseteq> set eligible" using set_take_subset [of n "sort_key mf_id eligible"] by (simp add: gone_def)
  then have in_rows: "q \<in> set (mt_rows mt) \<and> mf_owner q = t" if "q \<in> set gone" for q
    using that by (auto simp: eligible_def set_t_select)
  have mem: "mf_id r \<in> mf_id ` set gone \<longleftrightarrow> r \<in> set gone" if "r \<in> set (mt_rows mt)" for r
    using distinct_map_inj_on [OF assms(1) that] in_rows by fastforce
  have rows: "mt_rows mt' = filter (\<lambda>r. \<not> (mf_owner r = t \<and> mf_id r \<in> mf_id ` set gone)) (mt_rows mt)"
    and kk: "k = int (length (filter (\<lambda>r. mf_owner r = t \<and> mf_id r \<in> mf_id ` set gone) (mt_rows mt)))"
    using assms(2) by (auto simp: delete_batch_def Let_def t_delete_def t_select_def gone_def eligible_def)
  show "set (mt_rows mt') = set (mt_rows mt) - set gone" using rows mem in_rows by auto
  show "set gone \<subseteq> set eligible" by (rule sub)
  show "distinct (map mf_id (mt_rows mt'))" using assms(1) rows by (simp add: distinct_map_filter)
  have d: "distinct (mt_rows mt)" using assms(1) by (simp add: distinct_map)
  have "distinct gone" using d by (simp add: gone_def eligible_def t_select_def distinct_take)
  then have "length gone = card (set gone)" by (simp add: distinct_card)
  also have "set gone = set (filter (\<lambda>r. mf_owner r = t \<and> mf_id r \<in> mf_id ` set gone) (mt_rows mt))"
    using mem in_rows by auto
  also have "card \<dots> = length (filter (\<lambda>r. mf_owner r = t \<and> mf_id r \<in> mf_id ` set gone) (mt_rows mt))"
    using d by (intro distinct_card) simp
  finally show "k = int (min n (length eligible))" by (simp add: kk gone_def min.commute)
qed

section \<open>Properties\<close>

text \<open>A photo, its file and the table that holds both, for the witnesses.\<close>

definition sample_photo :: MediaRecord where
  "sample_photo = \<lparr>mr_BusinessConnectionID = ''A'', mr_ChatID = 5, mr_MessageID = 9, mr_FileIndex = 0,
     mr_TelegramFileID = [70], mr_TelegramFileUniqueID = [71], mr_MediaType = ''photo'', mr_MimeType = [], mr_FileName = [],
     mr_ByteSize = Some 9, mr_Width = Some 3, mr_Height = Some 4, mr_DurationSec = None, mr_MediaGroupID = ''G''\<rparr>"

definition sample_blob :: StoredFile where
  "sample_blob = \<lparr>sf_RelativePath = [55, 47, 97], sf_ThumbnailRelativePath = [], sf_SHA256 = replicate 64 97, sf_ByteSize = 8\<rparr>"

definition sample_media_ops :: "(media_op \<times> i64) list" where
  "sample_media_ops = [(MediaSave good_tx 1 sample_photo, 7), (MediaStored good_tx 2 1 sample_blob, 7)]"

definition sample_media :: media_table where
  "sample_media = foldl (\<lambda>mt (op, t). media_step op t mt) empty_media sample_media_ops"

text \<open>C28. After any sequence of calls of the repository, for any tenants and whether or not their transactions
  succeed: a row has a path exactly when it is stored; every path and thumbnail it holds leads strictly below the
  media directory; the hash of a stored row is well formed; and ids and message positions are unique.\<close>

theorem catalogue_points_inside:
  assumes "mt = foldl (\<lambda>mt (op, t). media_step op t mt) empty_media ops" "r \<in> set (mt_rows mt)"
  shows "(mf_status r = StatusStored \<longleftrightarrow> mf_path r \<noteq> None) \<and>
    (\<forall>p. mf_path r = Some p \<or> mf_thumb r = Some p \<longrightarrow>
       components p \<noteq> [] \<and> resolve base (components p) = base @ components p) \<and>
    (mf_status r = StatusStored \<longrightarrow> (\<exists>h. mf_sha r = Some h \<and> ValidateSHA256 h = None)) \<and>
    (\<forall>q \<in> set (mt_rows mt). mf_id q = mf_id r \<or> mf_key q = mf_key r \<longrightarrow> q = r)"
proof -
  have inv: "media_inv mt" using media_inv_run [OF media_inv_empty] assms(1) by simp
  then have "row_ok r" using assms(2) by (simp add: media_inv_def)
  moreover have "q = r" if "q \<in> set (mt_rows mt)" "mf_id q = mf_id r \<or> mf_key q = mf_key r" for q
    using that media_row_unique [OF inv that(1) assms(2)] media_id_unique [OF inv that(1) assms(2)] by blast
  ultimately show ?thesis using accepted_plain by (simp add: row_ok_def)
qed

theorem catalogue_points_inside_witness:
  "map mf_status (mt_rows sample_media) = [StatusStored] \<and>
    (\<exists>p. mf_path (hd (mt_rows sample_media)) = Some p \<and> resolve [runes ''media''] (components p) = [runes ''media'', [55], [97]])"
proof -
  have st: "map mf_status (mt_rows sample_media) = [StatusStored]" by code_simp
  have path: "mf_path (hd (mt_rows sample_media)) = Some [55, 47, 97]" by code_simp
  have mem: "hd (mt_rows sample_media) \<in> set (mt_rows sample_media)" using st by (cases "mt_rows sample_media") auto
  have "resolve [runes ''media''] (components [55, 47, 97]) = [runes ''media''] @ components [55, 47, 97]"
    using catalogue_points_inside [OF sample_media_def mem, of "[runes ''media'']"] path by simp
  moreover have "components [55, 47, 97] = [[55], [97]]" by code_simp
  ultimately show ?thesis using st path by simp
qed

text \<open>A redelivery never loses a file. When a message that is already catalogued is saved again, the call returns
  the id of its row, adds no row, and leaves the status, the path, the thumbnail, the hash and the capture time of
  the row as they are, and the size too once the file is stored; the download handle is the new one; and what was
  known of the attachment (MIME type, name, dimensions, duration, album) is never forgotten.\<close>

theorem redelivery_keeps_file:
  assumes "media_inv mt" "r \<in> set (mt_rows mt)" "mf_owner r = owner"
    and "mf_key r = (owner, mr_BusinessConnectionID m, mr_ChatID m, mr_MessageID m, mr_FileIndex m)"
    and "media_Save tx now owner m mt = (Inr i, mt')"
  shows "i = mf_id r \<and> length (mt_rows mt') = length (mt_rows mt) \<and>
    (\<exists>r' \<in> set (mt_rows mt'). mf_key r' = mf_key r \<and> mf_id r' = mf_id r \<and> mf_status r' = mf_status r \<and>
       mf_path r' = mf_path r \<and> mf_thumb r' = mf_thumb r \<and> mf_sha r' = mf_sha r \<and> mf_created r' = mf_created r \<and>
       mf_file_id r' = mr_TelegramFileID m \<and> (mf_status r = StatusStored \<longrightarrow> mf_size r' = mf_size r) \<and>
       (\<forall>v. mf_mime r = Some v \<longrightarrow> mr_MimeType m = [] \<longrightarrow> mf_mime r' = Some v) \<and>
       (mf_name r \<noteq> None \<longrightarrow> mf_name r' \<noteq> None) \<and> (mf_width r \<noteq> None \<longrightarrow> mf_width r' \<noteq> None) \<and>
       (mf_height r \<noteq> None \<longrightarrow> mf_height r' \<noteq> None) \<and> (mf_duration r \<noteq> None \<longrightarrow> mf_duration r' \<noteq> None) \<and>
       (mr_MediaGroupID m = [] \<longrightarrow> mf_group r' = mf_group r))"
proof -
  have "save_media_body now owner m owner mt = Inr (i, mt')"
    using assms(5) InTenant_cases [of tx _ owner mt "Inr i" mt'] by (auto simp: media_Save_def)
  then show ?thesis
  proof (cases rule: save_media_cases)
    case (known e q)
    have key: "mf_key e = mf_key r" using known(1) assms(4) by simp
    have q: "q = r" using media_row_unique [OF assms(1) known(4) assms(2)] known(5) key by simp
    have "refresh_media e r \<in> set (mt_rows mt')"
      using known(7) key assms(2,3) by (auto simp: t_update_def set_update_where intro!: bexI [of _ r])
    moreover have "mf_file_id e = mr_TelegramFileID m" "mf_mime e = nullif_empty (mr_MimeType m)"
      "mf_group e = nullif_empty (mr_MediaGroupID m)" by (simp_all add: known(1) new_media_row_def)
    ultimately show ?thesis
      using known(6,7) q
      by (intro conjI bexI [of _ "refresh_media e r"])
        (auto simp: t_update_def refresh_media_def mf_key_def coalesce_def nullif_empty_def split: option.splits)
  next
    case (fresh e)
    then show ?thesis using assms(2,4) by simp
  qed
qed

theorem redelivery_keeps_file_witness:
  "\<exists>mt'. media_Save good_tx 9 7 (sample_photo\<lparr>mr_TelegramFileID := [80], mr_MediaGroupID := []\<rparr>) sample_media = (Inr 1, mt') \<and>
     (\<exists>r' \<in> set (mt_rows mt'). mf_status r' = StatusStored \<and> mf_path r' = Some [55, 47, 97] \<and> mf_file_id r' = [80] \<and>
        mf_size r' = Some 8 \<and> mf_group r' = Some ''G'')"
proof -
  let ?m = "sample_photo\<lparr>mr_TelegramFileID := [80], mr_MediaGroupID := []\<rparr>"
  let ?p = "media_Save good_tx 9 7 ?m sample_media"
  let ?r = "hd (mt_rows sample_media)"
  have inv: "media_inv sample_media" unfolding sample_media_def by (rule media_inv_run) simp
  have "mt_rows sample_media \<noteq> []" by code_simp
  then have r: "?r \<in> set (mt_rows sample_media)" by simp
  have own: "mf_owner ?r = 7" by code_simp
  have key: "mf_key ?r = (7, mr_BusinessConnectionID ?m, mr_ChatID ?m, mr_MessageID ?m, mr_FileIndex ?m)" by code_simp
  have "fst ?p = Inr 1" by code_simp
  then have p: "?p = (Inr 1, snd ?p)" by (simp add: prod_eq_iff)
  have f: "mf_status ?r = StatusStored" "mf_path ?r = Some [55, 47, 97]" "mf_size ?r = Some 8" "mf_group ?r = Some ''G''"
    by code_simp+
  obtain r' where "r' \<in> set (mt_rows (snd ?p))" "mf_status r' = mf_status ?r" "mf_path r' = mf_path ?r"
    "mf_file_id r' = mr_TelegramFileID ?m" "mf_size r' = mf_size ?r" "mf_group r' = mf_group ?r"
    using redelivery_keeps_file [OF inv r own key p] f(1) by auto
  then show ?thesis using p f by (intro exI [of _ "snd ?p"] conjI bexI [of _ r']) simp_all
qed

end
