(* ===== verification/Messages.thy ===== *)
theory Messages
  imports Alerts Outbox Media_Catalogue
begin

text \<open>
  \<open>bot/internal/messages\<close>: the captured messages and the chat labels, and the transaction that turns a deletion
  into alerts.

  \<open>tenant_db\<close> gathers the tables one transaction of \<open>MarkDeleted\<close> touches: \<open>chats\<close>, \<open>messages\<close>, \<open>media_files\<close>
  (read only) and \<open>notification_outbox\<close>. \<open>fmt_date\<close> is the rendering of a date by the standard library. The
  columns \<open>id\<close> and \<open>last_seen_at\<close> are read by no code and left out; \<open>from_display\<close> and \<open>text_content\<close> are never
  NULL, \<open>Save\<close> being their only writer. A batch holds a message at most once (the key of the table), so
  \<open>sort.Slice\<close> by message id has one outcome.
\<close>

section \<open>State\<close>

record chat_row =
  ch_owner :: i64
  ch_conn :: string
  ch_chat :: i64
  ch_title :: gostr
  ch_username :: gostr
  ch_type :: string

record message_row =
  ms_owner :: i64
  ms_conn :: string
  ms_chat :: i64
  ms_msg :: i64
  ms_from :: "i64 option"
  ms_display :: gostr
  ms_type :: string
  ms_text :: gostr
  ms_date :: i64
  ms_saved :: instant
  ms_edited :: "instant option"
  ms_deleted :: "instant option"

record tenant_db =
  db_chats :: "chat_row list"
  db_messages :: "message_row list"
  db_media :: media_table
  db_outbox :: outbox

definition empty_db :: tenant_db where
  "empty_db = \<lparr>db_chats = [], db_messages = [], db_media = empty_media, db_outbox = empty_outbox\<rparr>"

record MsgRecord =
  rec_BusinessConnectionID :: string
  rec_ChatID :: i64
  rec_MessageID :: i64
  rec_FromUserID :: "i64 option"
  rec_FromDisplay :: gostr
  rec_MessageType :: string
  rec_TextContent :: gostr
  rec_TelegramDate :: i64
  rec_ChatTitle :: gostr
  rec_ChatUsername :: gostr
  rec_ChatType :: string

record DeletedRecord =
  del_ChatID :: i64
  del_MessageID :: i64
  del_FromUserID :: "i64 option"
  del_FromDisplay :: gostr
  del_MessageType :: string
  del_TextContent :: gostr
  del_TelegramDate :: i64

section \<open>Saving a message\<close>

definition ch_key :: "chat_row \<Rightarrow> i64 \<times> string \<times> i64" where
  "ch_key c = (ch_owner c, ch_conn c, ch_chat c)"

definition ms_key :: "message_row \<Rightarrow> i64 \<times> string \<times> i64 \<times> i64" where
  "ms_key m = (ms_owner m, ms_conn m, ms_chat m, ms_msg m)"

definition chat_of :: "i64 \<Rightarrow> MsgRecord \<Rightarrow> chat_row" where
  "chat_of owner m = \<lparr>ch_owner = owner, ch_conn = rec_BusinessConnectionID m, ch_chat = rec_ChatID m,
     ch_title = rec_ChatTitle m, ch_username = rec_ChatUsername m, ch_type = rec_ChatType m\<rparr>"

definition relabel_chat :: "chat_row \<Rightarrow> chat_row \<Rightarrow> chat_row" where
  "relabel_chat e c = c\<lparr>ch_title := (if ch_title e \<noteq> [] then ch_title e else ch_title c),
     ch_username := (if ch_username e \<noteq> [] then ch_username e else ch_username c),
     ch_type := (if ch_type e \<noteq> [] then ch_type e else ch_type c)\<rparr>"

definition upsert_chat :: "i64 \<Rightarrow> chat_row \<Rightarrow> chat_row list \<Rightarrow> chat_row list" where
  "upsert_chat t e rows =
     (if list_ex (\<lambda>c. ch_key c = ch_key e) rows then t_update ch_owner t (\<lambda>c. ch_key c = ch_key e) (relabel_chat e) rows
      else t_insert ch_owner t e rows)"

definition message_of :: "instant \<Rightarrow> i64 \<Rightarrow> MsgRecord \<Rightarrow> bool \<Rightarrow> message_row" where
  "message_of now owner m edited = \<lparr>ms_owner = owner, ms_conn = rec_BusinessConnectionID m, ms_chat = rec_ChatID m,
     ms_msg = rec_MessageID m, ms_from = rec_FromUserID m, ms_display = rec_FromDisplay m,
     ms_type = rec_MessageType m, ms_text = rec_TextContent m, ms_date = rec_TelegramDate m, ms_saved = now,
     ms_edited = (if edited then Some now else None), ms_deleted = None\<rparr>"

definition overwrite_message :: "instant \<Rightarrow> bool \<Rightarrow> message_row \<Rightarrow> message_row \<Rightarrow> message_row" where
  "overwrite_message now edited e m = m\<lparr>ms_text := ms_text e, ms_type := ms_type e, ms_from := ms_from e,
     ms_display := ms_display e, ms_edited := (if edited then Some now else ms_edited m)\<rparr>"

definition upsert_message :: "instant \<Rightarrow> bool \<Rightarrow> i64 \<Rightarrow> message_row \<Rightarrow> message_row list \<Rightarrow> message_row list" where
  "upsert_message now edited t e rows =
     (if list_ex (\<lambda>m. ms_key m = ms_key e) rows
      then t_update ms_owner t (\<lambda>m. ms_key m = ms_key e) (overwrite_message now edited e) rows
      else t_insert ms_owner t e rows)"

definition save_body :: "instant \<Rightarrow> i64 \<Rightarrow> MsgRecord \<Rightarrow> bool \<Rightarrow> i64 \<Rightarrow> tenant_db \<Rightarrow> go_error + (unit \<times> tenant_db)" where
  "save_body now owner m edited t db =
     Inr ((), db\<lparr>db_chats := upsert_chat t (chat_of owner m) (db_chats db),
                 db_messages := upsert_message now edited t (message_of now owner m edited) (db_messages db)\<rparr>)"

definition Save :: "tx_env \<Rightarrow> instant \<Rightarrow> i64 \<Rightarrow> MsgRecord \<Rightarrow> bool \<Rightarrow> tenant_db \<Rightarrow> (go_error + unit) \<times> tenant_db" where
  "Save tx now owner m edited = InTenant tx (save_body now owner m edited) owner"

section \<open>The media entries of a deletion\<close>

record mediaAlertScope =
  sc_owner :: i64
  sc_tg :: i64
  sc_conn :: string
  sc_chat :: i64

record mediaGroup =
  mg_anchor :: i64
  mg_groupID :: string
  mg_files :: "File list"

fun group_loop :: "(string \<Rightarrow> i64 option) \<Rightarrow> File list \<Rightarrow> mediaGroup list \<Rightarrow> (string \<Rightarrow> nat option) \<Rightarrow> (i64 \<Rightarrow> nat option) \<Rightarrow>
    mediaGroup list" where
  "group_loop anchors [] groups byAlbum byMessage = groups"
| "group_loop anchors (f # fs) groups byAlbum byMessage =
     (case (if file_MediaGroupID f \<noteq> [] then byAlbum (file_MediaGroupID f) else byMessage (file_MessageID f)) of
        Some index \<Rightarrow>
          group_loop anchors fs
            (groups[index := (groups ! index)\<lparr>mg_files := mg_files (groups ! index) @ [f]\<rparr>]) byAlbum byMessage
      | None \<Rightarrow>
          let anchor = (if file_MediaGroupID f \<noteq> []
                then (case anchors (file_MediaGroupID f) of Some catalogued \<Rightarrow> catalogued | None \<Rightarrow> file_MessageID f)
                else file_MessageID f);
              groups' = groups @ [\<lparr>mg_anchor = anchor, mg_groupID = file_MediaGroupID f, mg_files = [f]\<rparr>]
          in if file_MediaGroupID f \<noteq> []
             then group_loop anchors fs groups' (byAlbum(file_MediaGroupID f \<mapsto> length groups' - 1)) byMessage
             else group_loop anchors fs groups' byAlbum (byMessage(file_MessageID f \<mapsto> length groups' - 1)))"

definition groupMedia :: "File list \<Rightarrow> (string \<Rightarrow> i64 option) \<Rightarrow> mediaGroup list" where
  "groupMedia files anchors = group_loop anchors files [] (\<lambda>_. None) (\<lambda>_. None)"

text \<open>A Go map from message ids to counters or texts, whose missing keys read as the zero value.\<close>

definition at_key :: "(i64 \<Rightarrow> 'a option) \<Rightarrow> 'a \<Rightarrow> i64 \<Rightarrow> 'a" where
  "at_key m z k = (case m k of Some v \<Rightarrow> v | None \<Rightarrow> z)"

definition media_item :: "(i64 \<Rightarrow> gostr option) \<Rightarrow> File \<Rightarrow> MediaItem" where
  "media_item captions f = \<lparr>mi_MediaFileID = file_ID f, mi_MessageID = file_MessageID f,
     mi_FileIndex = file_FileIndex f, mi_MediaType = file_MediaType f, mi_RelativePath = file_RelativePath f,
     mi_FileName = file_FileName f, mi_Caption = TruncateCaption (at_key captions [] (file_MessageID f))\<rparr>"

fun enqueue_groups :: "instant \<Rightarrow> mediaAlertScope \<Rightarrow> (i64 \<Rightarrow> gostr option) \<Rightarrow> mediaGroup list \<Rightarrow> outbox \<times> (i64 \<Rightarrow> int option) \<Rightarrow>
    outbox \<times> (i64 \<Rightarrow> int option)" where
  "enqueue_groups now sc captions [] s = s"
| "enqueue_groups now sc captions (g # gs) (ox, counts) =
     (let payload = \<lparr>mp_MediaGroupID = mg_groupID g, mp_Items = map (media_item captions) (mg_files g)\<rparr>;
          chunkIndex = at_key counts 0 (mg_anchor g)
      in enqueue_groups now sc captions gs
           (InsertMediaTx now (sc_owner sc) (sc_tg sc) (sc_conn sc) (sc_chat sc) (mg_anchor g) EventDeletedMessage chunkIndex
              (BuildMediaAlertText (MediaTypes payload)) payload ox,
            counts(mg_anchor g \<mapsto> chunkIndex + 1)))"

definition enqueueMediaAlerts :: "instant \<Rightarrow> i64 \<Rightarrow> mediaAlertScope \<Rightarrow> DeletedRecord list \<Rightarrow> media_table \<Rightarrow> outbox \<times> (i64 \<Rightarrow> int option) \<Rightarrow>
    outbox \<times> (i64 \<Rightarrow> int option)" where
  "enqueueMediaAlerts now t sc found mt s =
     (if found = [] then s
      else
        let ids = map del_MessageID found;
            captions = foldl (\<lambda>m d. m(del_MessageID d \<mapsto> del_TextContent d)) (\<lambda>_. None) found;
            files = SelectStoredTx t (sc_conn sc) (sc_chat sc) ids mt;
            anchors = SelectAlbumAnchorsTx t (sc_conn sc) (sc_chat sc) ids mt
        in enqueue_groups now sc captions (groupMedia files anchors) s)"

section \<open>Marking a deletion\<close>

definition deletion_alert :: "i64 \<Rightarrow> gostr \<Rightarrow> gostr \<Rightarrow> DeletedRecord \<Rightarrow> DeletionAlert" where
  "deletion_alert tg title username d = \<lparr>da_OwnerTelegramUserID = tg, da_ChatID = del_ChatID d, da_ChatTitle = title,
     da_ChatUsername = username, da_FromDisplay = del_FromDisplay d, da_FromUserID = del_FromUserID d,
     da_MessageType = del_MessageType d, da_TelegramDate = del_TelegramDate d, da_Content = del_TextContent d\<rparr>"

fun insert_requests :: "instant \<Rightarrow> mediaAlertScope \<Rightarrow> DeletedRecord \<Rightarrow> SendMessageRequest list \<Rightarrow> int \<Rightarrow>
    outbox \<times> (i64 \<Rightarrow> int option) \<Rightarrow> outbox \<times> (i64 \<Rightarrow> int option)" where
  "insert_requests now sc d [] chunkIndex s = s"
| "insert_requests now sc d (request # requests) chunkIndex (ox, counts) =
     insert_requests now sc d requests (chunkIndex + 1)
       (InsertTx now (sc_owner sc) (sc_tg sc) (sc_conn sc) (del_ChatID d) (del_MessageID d) EventDeletedMessage chunkIndex
          (smr_Text request) ox,
        counts(del_MessageID d \<mapsto> chunkIndex + 1))"

definition insert_alerts :: "(i64 \<Rightarrow> gostr) \<Rightarrow> instant \<Rightarrow> mediaAlertScope \<Rightarrow> gostr \<Rightarrow> gostr \<Rightarrow> DeletedRecord list \<Rightarrow>
    outbox \<times> (i64 \<Rightarrow> int option) \<Rightarrow> outbox \<times> (i64 \<Rightarrow> int option)" where
  "insert_alerts fmt_date now sc title username found s =
     foldl (\<lambda>s d. insert_requests now sc d (BuildDeletionMessageRequests fmt_date (deletion_alert (sc_tg sc) title username d)) 0 s)
       s found"

definition deleted_of :: "message_row \<Rightarrow> DeletedRecord" where
  "deleted_of m = \<lparr>del_ChatID = ms_chat m, del_MessageID = ms_msg m, del_FromUserID = ms_from m,
     del_FromDisplay = ms_display m, del_MessageType = ms_type m, del_TextContent = ms_text m,
     del_TelegramDate = ms_date m\<rparr>"

definition in_batch :: "string \<Rightarrow> i64 \<Rightarrow> i64 list \<Rightarrow> message_row \<Rightarrow> bool" where
  "in_batch conn chat ids m \<longleftrightarrow> ms_conn m = conn \<and> ms_chat m = chat \<and> ms_msg m \<in> set ids"

definition stamp_deleted :: "instant \<Rightarrow> message_row \<Rightarrow> message_row" where
  "stamp_deleted now m = m\<lparr>ms_deleted := (case ms_deleted m of Some d \<Rightarrow> Some d | None \<Rightarrow> Some now)\<rparr>"

definition chat_label :: "i64 \<Rightarrow> string \<Rightarrow> i64 \<Rightarrow> chat_row list \<Rightarrow> gostr \<times> gostr" where
  "chat_label t conn chat rows =
     (case t_select ch_owner t (\<lambda>c. ch_conn c = conn \<and> ch_chat c = chat) rows of
        [] \<Rightarrow> ([], [])
      | c # _ \<Rightarrow> (ch_title c, ch_username c))"

definition mark_deleted_body ::
  "(i64 \<Rightarrow> gostr) \<Rightarrow> instant \<Rightarrow> mediaAlertScope \<Rightarrow> i64 list \<Rightarrow> i64 \<Rightarrow> tenant_db \<Rightarrow> go_error + (DeletedRecord list \<times> tenant_db)" where
  "mark_deleted_body fmt_date now sc messageIDs t db =
     (let (title, username) = chat_label t (sc_conn sc) (sc_chat sc) (db_chats db);
          P = in_batch (sc_conn sc) (sc_chat sc) messageIDs;
          messages' = t_update ms_owner t P (stamp_deleted now) (db_messages db);
          found = sort_key del_MessageID (map deleted_of (t_select ms_owner t P (db_messages db)));
          s = insert_alerts fmt_date now sc title username found (db_outbox db, \<lambda>_. None)
      in Inr (found, db\<lparr>db_messages := messages',
                        db_outbox := fst (enqueueMediaAlerts now t sc found (db_media db) s)\<rparr>))"

definition MarkDeleted :: "tx_env \<Rightarrow> (i64 \<Rightarrow> gostr) \<Rightarrow> instant \<Rightarrow> i64 \<Rightarrow> i64 \<Rightarrow> string \<Rightarrow> i64 \<Rightarrow> i64 list \<Rightarrow> tenant_db \<Rightarrow>
    (go_error + DeletedRecord list) \<times> tenant_db" where
  "MarkDeleted tx fmt_date now owner tg conn chat messageIDs =
     InTenant tx (mark_deleted_body fmt_date now \<lparr>sc_owner = owner, sc_tg = tg, sc_conn = conn, sc_chat = chat\<rparr> messageIDs) owner"

section \<open>Counting, erasing, expiring\<close>

definition msg_CountByOwner :: "tx_env \<Rightarrow> i64 \<Rightarrow> tenant_db \<Rightarrow> go_error + int" where
  "msg_CountByOwner tx owner db =
     fst (InTenant tx (\<lambda>t db. Inr (int (length (t_select ms_owner t (\<lambda>m. ms_owner m = owner) (db_messages db))), db)) owner db)"

definition msg_delete_body :: "i64 \<Rightarrow> i64 \<Rightarrow> tenant_db \<Rightarrow> go_error + ((int \<times> int) \<times> tenant_db)" where
  "msg_delete_body owner t db =
     Inr ((int (length (t_select ms_owner t (\<lambda>m. ms_owner m = owner) (db_messages db))),
           int (length (t_select ch_owner t (\<lambda>c. ch_owner c = owner) (db_chats db)))),
          db\<lparr>db_messages := t_delete ms_owner t (\<lambda>m. ms_owner m = owner) (db_messages db),
             db_chats := t_delete ch_owner t (\<lambda>c. ch_owner c = owner) (db_chats db)\<rparr>)"

definition msg_DeleteTenant :: "tx_env \<Rightarrow> i64 \<Rightarrow> tenant_db \<Rightarrow> (go_error + int \<times> int) \<times> tenant_db" where
  "msg_DeleteTenant tx owner = InTenant tx (msg_delete_body owner) owner"

definition expired_message :: "instant \<Rightarrow> TenantRetention \<Rightarrow> message_row \<Rightarrow> bool" where
  "expired_message now t m \<longleftrightarrow> ms_owner m = tr_OwnerUserID t \<and> ms_saved m < days_ago now (tr_RetentionDays t)"

definition purge_body :: "instant \<Rightarrow> TenantRetention \<Rightarrow> i64 \<Rightarrow> tenant_db \<Rightarrow> go_error + (int \<times> tenant_db)" where
  "purge_body now t w db =
     Inr (int (length (t_select ms_owner w (expired_message now t) (db_messages db))),
          db\<lparr>db_messages := t_delete ms_owner w (expired_message now t) (db_messages db)\<rparr>)"

text \<open>The count is added inside the transaction's body, before the commit: \<open>executed\<close> says whether the body ran.\<close>

fun msg_PurgeExpired :: "(i64 \<Rightarrow> tx_env) \<Rightarrow> instant \<Rightarrow> TenantRetention list \<Rightarrow> tenant_db \<Rightarrow> int \<Rightarrow> go_error option \<times> int \<times> tenant_db" where
  "msg_PurgeExpired txs now [] db acc = (None, acc, db)"
| "msg_PurgeExpired txs now (t # ts) db acc =
     (let w = tr_OwnerUserID t; tx = txs w;
          executed = tx_begin tx \<and> tx_exec tx;
          counted = int (length (t_select ms_owner w (expired_message now t) (db_messages db)))
      in case InTenant tx (purge_body now t) w db of
           (Inl err, db') \<Rightarrow> (Some err, (if executed then acc + counted else acc), db')
         | (Inr _, db') \<Rightarrow> msg_PurgeExpired txs now ts db' (acc + counted))"

section \<open>Albums stay together\<close>

text \<open>What \<open>groupMedia\<close> groups by: the album, or the message of a medium that is in none.\<close>

definition group_key :: "File \<Rightarrow> string + i64" where
  "group_key f = (if file_MediaGroupID f \<noteq> [] then Inl (file_MediaGroupID f) else Inr (file_MessageID f))"

definition group_of :: "(string \<Rightarrow> i64 option) \<Rightarrow> File list \<Rightarrow> string + i64 \<Rightarrow> mediaGroup" where
  "group_of anchors files k = \<lparr>mg_anchor = (case k of Inr m \<Rightarrow> m
       | Inl album \<Rightarrow> (case anchors album of Some m \<Rightarrow> m
           | None \<Rightarrow> (case filter (\<lambda>f. group_key f = k) files of f # _ \<Rightarrow> file_MessageID f | [] \<Rightarrow> 0))),
     mg_groupID = (case k of Inl album \<Rightarrow> album | Inr _ \<Rightarrow> []), mg_files = filter (\<lambda>f. group_key f = k) files\<rparr>"

definition groups_of :: "(string \<Rightarrow> i64 option) \<Rightarrow> File list \<Rightarrow> mediaGroup list" where
  "groups_of anchors files = map (group_of anchors files) (first_of_each (map group_key files))"

lemma group_of_other: "group_key f \<noteq> k \<Longrightarrow> group_of anchors (files @ [f]) k = group_of anchors files k"
  by (cases k) (simp_all add: group_of_def split: option.splits)

lemma group_of_more:
  "k \<in> set (map group_key files) \<Longrightarrow> group_key f = k \<Longrightarrow>
    group_of anchors (files @ [f]) k = (group_of anchors files k)\<lparr>mg_files := filter (\<lambda>f. group_key f = k) files @ [f]\<rparr>"
  by (auto simp: group_of_def filter_empty_conv split: sum.splits option.splits list.splits)

lemma group_loop_groups:
  assumes "\<And>album. byAlbum album = place (Inl album) (first_of_each (map group_key ds))"
    and "\<And>m. byMessage m = place (Inr m) (first_of_each (map group_key ds))"
  shows "group_loop anchors fs (groups_of anchors ds) byAlbum byMessage = groups_of anchors (ds @ fs)"
  using assms
proof (induction fs arbitrary: ds byAlbum byMessage)
  case Nil
  then show ?case by simp
next
  case (Cons f fs)
  let ?ks = "first_of_each (map group_key ds)" and ?k = "group_key f"
  have found: "(if file_MediaGroupID f \<noteq> [] then byAlbum (file_MediaGroupID f) else byMessage (file_MessageID f)) = place ?k ?ks"
    using Cons.prems by (simp add: group_key_def [of f])
  show ?case
  proof (cases "place ?k ?ks")
    case (Some i)
    then have i: "i < length ?ks" "?ks ! i = ?k" by (simp_all add: place_Some)
    then have mem: "?k \<in> set (map group_key ds)" by (metis nth_mem set_first_of_each)
    then have ks: "first_of_each (map group_key (ds @ [f])) = ?ks" by (simp add: first_of_each_snoc)
    have grown: "groups_of anchors (ds @ [f]) =
        (groups_of anchors ds)[i := (groups_of anchors ds ! i)\<lparr>mg_files := mg_files (groups_of anchors ds ! i) @ [f]\<rparr>]"
    proof (rule nth_equalityI)
      fix j assume "j < length (groups_of anchors (ds @ [f]))"
      then have j: "j < length ?ks" by (simp only: groups_of_def ks length_map)
      show "groups_of anchors (ds @ [f]) ! j =
        (groups_of anchors ds)[i := (groups_of anchors ds ! i)\<lparr>mg_files := mg_files (groups_of anchors ds ! i) @ [f]\<rparr>] ! j"
      proof (cases "j = i")
        case True
        have "mg_files (group_of anchors ds ?k) = filter (\<lambda>f. group_key f = ?k) ds" by (simp add: group_of_def)
        then show ?thesis using True i mem group_of_more [OF mem refl, of anchors] by (simp add: groups_of_def ks del: map_append)
      next
        case False
        then have "?ks ! j \<noteq> ?k" using i j nth_eq_iff_index_eq [of ?ks j i] by auto
        then show ?thesis using False j by (simp add: groups_of_def ks group_of_other del: map_append)
      qed
    qed (simp add: groups_of_def ks del: map_append)
    have "group_loop anchors (f # fs) (groups_of anchors ds) byAlbum byMessage
        = group_loop anchors fs (groups_of anchors (ds @ [f])) byAlbum byMessage"
      unfolding group_loop.simps(2) found Some option.case grown by (rule refl)
    also have "\<dots> = groups_of anchors ((ds @ [f]) @ fs)"
      by (rule Cons.IH) (use Cons.prems in \<open>simp_all only: ks\<close>)
    finally show ?thesis by simp
  next
    case None
    then have new: "?k \<notin> set (map group_key ds)" by (simp add: set_first_of_each)
    then have ks: "first_of_each (map group_key (ds @ [f])) = ?ks @ [?k]" by (simp add: first_of_each_snoc)
    have nofiles: "filter (\<lambda>f. group_key f = ?k) ds = []" using new by (simp add: filter_empty_conv image_iff) metis
    have one: "filter (\<lambda>g. group_key g = ?k) (ds @ [f]) = [f]" using nofiles by simp
    have "group_of anchors (ds @ [f]) k = group_of anchors ds k" if "k \<in> set ?ks" for k
      using that new by (intro group_of_other) auto
    then have "groups_of anchors (ds @ [f]) = groups_of anchors ds @ [group_of anchors (ds @ [f]) ?k]"
      unfolding groups_of_def ks by (simp cong: map_cong)
    moreover have "group_of anchors (ds @ [f]) ?k = \<lparr>mg_anchor = (if file_MediaGroupID f \<noteq> []
          then (case anchors (file_MediaGroupID f) of Some m \<Rightarrow> m | None \<Rightarrow> file_MessageID f) else file_MessageID f),
        mg_groupID = file_MediaGroupID f, mg_files = [f]\<rparr>"
      using one by (auto simp: group_of_def group_key_def [of f] simp del: filter_append split: option.splits)
    moreover have "length (groups_of anchors ds) = length ?ks" by (simp add: groups_of_def)
    ultimately have grown: "groups_of anchors (ds @ [f]) = groups_of anchors ds @ [\<lparr>mg_anchor = (if file_MediaGroupID f \<noteq> []
          then (case anchors (file_MediaGroupID f) of Some m \<Rightarrow> m | None \<Rightarrow> file_MessageID f) else file_MessageID f),
        mg_groupID = file_MediaGroupID f, mg_files = [f]\<rparr>]" by simp
    have len: "length (groups_of anchors (ds @ [f])) - 1 = length ?ks" by (simp add: grown) (simp add: groups_of_def)
    have "group_loop anchors (f # fs) (groups_of anchors ds) byAlbum byMessage
        = (if file_MediaGroupID f \<noteq> []
           then group_loop anchors fs (groups_of anchors (ds @ [f])) (byAlbum(file_MediaGroupID f \<mapsto> length ?ks)) byMessage
           else group_loop anchors fs (groups_of anchors (ds @ [f])) byAlbum (byMessage(file_MessageID f \<mapsto> length ?ks)))"
      unfolding group_loop.simps(2) found None option.case Let_def grown [symmetric] len by (rule refl)
    also have "\<dots> = groups_of anchors ((ds @ [f]) @ fs)"
    proof (cases "file_MediaGroupID f \<noteq> []")
      case True
      then have k: "?k = Inl (file_MediaGroupID f)" by (simp add: group_key_def)
      show ?thesis unfolding if_P [OF True]
        by (intro Cons.IH) (use Cons.prems ks new k in \<open>auto simp: place_snoc\<close>)
    next
      case False
      then have k: "?k = Inr (file_MessageID f)" by (simp add: group_key_def)
      show ?thesis unfolding if_not_P [OF False]
        by (intro Cons.IH) (use Cons.prems ks new k in \<open>auto simp: place_snoc\<close>)
    qed
    finally show ?thesis by simp
  qed
qed

lemma groupMedia_groups: "groupMedia files anchors = groups_of anchors files"
  using group_loop_groups [of "\<lambda>_. None" "[]" "\<lambda>_. None" anchors files]
  by (simp add: groupMedia_def groups_of_def first_of_each_def)

section \<open>Which alerts are queued\<close>

text \<open>The alerts of a chat that the queue holds, by message and chunk.\<close>

definition alert_keys :: "mediaAlertScope \<Rightarrow> outbox \<Rightarrow> (i64 \<times> int) set" where
  "alert_keys sc ox = {(m, c). \<exists>r \<in> set (ox_rows ox).
     ob_key r = (sc_owner sc, sc_conn sc, sc_chat sc, m, EventDeletedMessage) \<and> ob_chunk r = c}"

lemma insertTx_keys:
  "alert_keys sc (insertTx now (sc_owner sc) tg (sc_conn sc) (sc_chat sc) m EventDeletedMessage c t k md ox)
    = insert (m, c) (alert_keys sc ox)"
  by (auto simp: alert_keys_def insertTx_def Let_def ob_key_def)

lemma insertTx_known:
  "(m, c) \<in> alert_keys sc ox \<Longrightarrow>
    ox_rows (insertTx now (sc_owner sc) tg (sc_conn sc) (sc_chat sc) m EventDeletedMessage c t k md ox) = ox_rows ox"
  by (auto simp: alert_keys_def insertTx_def Let_def ob_key_def)

lemma insertTx_fresh:
  "(m, c) \<notin> alert_keys sc ox \<Longrightarrow>
    \<exists>r \<in> set (ox_rows (insertTx now (sc_owner sc) tg (sc_conn sc) (sc_chat sc) m EventDeletedMessage c t k md ox)).
      ob_key r = (sc_owner sc, sc_conn sc, sc_chat sc, m, EventDeletedMessage) \<and> ob_chunk r = c \<and> ob_text r = t \<and>
      ob_tg r = tg \<and> ob_kind r = k \<and> ob_media r = md \<and> ob_status r = Pending"
  by (auto simp: alert_keys_def insertTx_def Let_def ob_key_def)

lemma insertTx_grows: "set (ox_rows ox) \<subseteq> set (ox_rows (insertTx now owner tg conn chat m ev c t k md ox))"
  by (auto simp: insertTx_def Let_def)

lemma alert_keys_rows: "ox_rows ox = ox_rows ox' \<Longrightarrow> alert_keys sc ox = alert_keys sc ox'"
  by (simp add: alert_keys_def)

lemma insert_requests_keys:
  assumes "del_ChatID d = sc_chat sc"
  shows "alert_keys sc (fst (insert_requests now sc d reqs i (ox, cnt))) =
      alert_keys sc ox \<union> {del_MessageID d} \<times> {i..<i + int (length reqs)}"
  using assms
proof (induction reqs arbitrary: i ox cnt)
  case (Cons r reqs)
  have "{i..<i + int (length (r # reqs))} = insert i {i + 1..<i + 1 + int (length reqs)}" by auto
  then show ?case using Cons by (auto simp: InsertTx_def insertTx_keys)
qed simp

lemma insert_requests_counts:
  "snd (insert_requests now sc d reqs i (ox, cnt)) = snd (insert_requests now2 sc2 d reqs i (ox2, cnt))"
  by (induction reqs arbitrary: i ox ox2 cnt) (simp_all del: fun_upd_apply)

lemma insert_requests_known:
  assumes "del_ChatID d = sc_chat sc" "{del_MessageID d} \<times> {i..<i + int (length reqs)} \<subseteq> alert_keys sc ox"
  shows "ox_rows (fst (insert_requests now sc d reqs i (ox, cnt))) = ox_rows ox"
  using assms
proof (induction reqs arbitrary: i ox cnt)
  case (Cons r reqs)
  let ?ox = "InsertTx now (sc_owner sc) (sc_tg sc) (sc_conn sc) (sc_chat sc) (del_MessageID d) EventDeletedMessage i (smr_Text r) ox"
  have "(del_MessageID d, i) \<in> alert_keys sc ox" using Cons.prems(2) by auto
  then have rows: "ox_rows ?ox = ox_rows ox" by (simp add: InsertTx_def insertTx_known)
  then have "{del_MessageID d} \<times> {i + 1..<i + 1 + int (length reqs)} \<subseteq> alert_keys sc ?ox"
    using Cons.prems(2) alert_keys_rows [OF rows, of sc] by auto
  then show ?case using Cons.IH [of "i + 1" ?ox] Cons.prems(1) rows by simp
qed simp

lemma insert_requests_grows: "set (ox_rows ox) \<subseteq> set (ox_rows (fst (insert_requests now sc d reqs i (ox, cnt))))"
proof (induction reqs arbitrary: i ox cnt)
  case (Cons r reqs)
  then show ?case using insertTx_grows by (auto simp: InsertTx_def) blast
qed simp

lemma insert_requests_queued:
  assumes "del_ChatID d = sc_chat sc" "\<forall>j \<ge> i. (del_MessageID d, j) \<notin> alert_keys sc ox" "k < length reqs"
  shows "\<exists>r \<in> set (ox_rows (fst (insert_requests now sc d reqs i (ox, cnt)))).
    ob_key r = (sc_owner sc, sc_conn sc, sc_chat sc, del_MessageID d, EventDeletedMessage) \<and> ob_chunk r = i + int k \<and>
    ob_text r = smr_Text (reqs ! k) \<and> ob_tg r = sc_tg sc \<and> ob_status r = Pending"
  using assms
proof (induction reqs arbitrary: i ox cnt k)
  case (Cons r reqs)
  let ?ox = "InsertTx now (sc_owner sc) (sc_tg sc) (sc_conn sc) (sc_chat sc) (del_MessageID d) EventDeletedMessage i (smr_Text r) ox"
  let ?cnt = "cnt(del_MessageID d \<mapsto> i + 1)"
  show ?case
  proof (cases k)
    case 0
    have "(del_MessageID d, i) \<notin> alert_keys sc ox" using Cons.prems(2) by simp
    from insertTx_fresh [OF this, of now "sc_tg sc" "smr_Text r" PayloadKindText None]
    obtain q where q: "q \<in> set (ox_rows ?ox)"
      "ob_key q = (sc_owner sc, sc_conn sc, sc_chat sc, del_MessageID d, EventDeletedMessage)" "ob_chunk q = i"
      "ob_text q = smr_Text r" "ob_tg q = sc_tg sc" "ob_status q = Pending"
      by (auto simp: InsertTx_def)
    then have "q \<in> set (ox_rows (fst (insert_requests now sc d reqs (i + 1) (?ox, ?cnt))))"
      using insert_requests_grows by blast
    then show ?thesis using q 0 Cons.prems(1) by (intro bexI [of _ q]) auto
  next
    case (Suc k')
    have "\<forall>j \<ge> i + 1. (del_MessageID d, j) \<notin> alert_keys sc ?ox"
      using Cons.prems(2) by (auto simp: InsertTx_def insertTx_keys)
    then show ?thesis
      using Cons.IH [of "i + 1" ?ox k' ?cnt] Cons.prems(1,3) Suc by (simp add: add.assoc del: fun_upd_apply)
  qed
qed simp

text \<open>The same for the loop over the messages of the batch, and for the media entries.\<close>

definition request_count :: "(i64 \<Rightarrow> gostr) \<Rightarrow> mediaAlertScope \<Rightarrow> gostr \<Rightarrow> gostr \<Rightarrow> DeletedRecord \<Rightarrow> nat" where
  "request_count fmt_date sc title username d =
     length (BuildDeletionMessageRequests fmt_date (deletion_alert (sc_tg sc) title username d))"

definition text_keys :: "(i64 \<Rightarrow> gostr) \<Rightarrow> mediaAlertScope \<Rightarrow> gostr \<Rightarrow> gostr \<Rightarrow> DeletedRecord list \<Rightarrow> (i64 \<times> int) set" where
  "text_keys fmt_date sc title username found =
     (\<Union>d \<in> set found. {del_MessageID d} \<times> {0..<int (request_count fmt_date sc title username d)})"

lemma insert_alerts_Cons [simp]:
  "insert_alerts f now sc ti u (d # ds) s = insert_alerts f now sc ti u ds
     (insert_requests now sc d (BuildDeletionMessageRequests f (deletion_alert (sc_tg sc) ti u d)) 0 s)"
  by (simp add: insert_alerts_def)

lemma insert_alerts_Nil [simp]: "insert_alerts f now sc ti u [] s = s"
  by (simp add: insert_alerts_def)

lemma insert_alerts_keys:
  "\<forall>d \<in> set found. del_ChatID d = sc_chat sc \<Longrightarrow>
    alert_keys sc (fst (insert_alerts f now sc ti u found s)) = alert_keys sc (fst s) \<union> text_keys f sc ti u found"
proof (induction found arbitrary: s)
  case (Cons d ds)
  then show ?case
    by (cases s) (simp add: insert_requests_keys text_keys_def request_count_def Un_ac)
qed (simp add: text_keys_def)

lemma insert_alerts_counts:
  "snd s = snd s2 \<Longrightarrow> snd (insert_alerts f now sc ti u found s) = snd (insert_alerts f now2 sc ti u found s2)"
proof (induction found arbitrary: s s2)
  case (Cons d ds)
  obtain ox c ox2 where s: "s = (ox, c)" "s2 = (ox2, c)" using Cons.prems by (cases s; cases s2) auto
  show ?case unfolding insert_alerts_Cons s by (intro Cons.IH insert_requests_counts)
qed simp

lemma insert_alerts_known:
  assumes "\<forall>d \<in> set found. del_ChatID d = sc_chat sc" "text_keys f sc ti u found \<subseteq> alert_keys sc (fst s)"
  shows "ox_rows (fst (insert_alerts f now sc ti u found s)) = ox_rows (fst s)"
  using assms
proof (induction found arbitrary: s)
  case (Cons d ds)
  obtain ox c where s: "s = (ox, c)" by (cases s)
  let ?s = "insert_requests now sc d (BuildDeletionMessageRequests f (deletion_alert (sc_tg sc) ti u d)) 0 (ox, c)"
  have rows: "ox_rows (fst ?s) = ox_rows ox"
    using Cons.prems by (intro insert_requests_known) (auto simp: s text_keys_def request_count_def)
  then have "text_keys f sc ti u ds \<subseteq> alert_keys sc (fst ?s)"
    using Cons.prems(2) alert_keys_rows [OF rows, of sc] by (auto simp: text_keys_def s)
  then show ?case using Cons.IH [of ?s] Cons.prems(1) rows by (simp add: s)
qed simp

lemma insert_alerts_grows: "set (ox_rows (fst s)) \<subseteq> set (ox_rows (fst (insert_alerts f now sc ti u found s)))"
proof (induction found arbitrary: s)
  case (Cons d ds)
  obtain ox c where s: "s = (ox, c)" by (cases s)
  let ?s = "insert_requests now sc d (BuildDeletionMessageRequests f (deletion_alert (sc_tg sc) ti u d)) 0 (ox, c)"
  have "set (ox_rows ox) \<subseteq> set (ox_rows (fst ?s))" by (rule insert_requests_grows)
  also have "\<dots> \<subseteq> set (ox_rows (fst (insert_alerts f now sc ti u ds ?s)))" by (rule Cons.IH)
  finally show ?case by (simp add: s)
qed simp

lemma insert_alerts_queued:
  assumes "\<forall>d \<in> set found. del_ChatID d = sc_chat sc" "distinct (map del_MessageID found)" "d \<in> set found"
    and "\<forall>j \<ge> 0. (del_MessageID d, j) \<notin> alert_keys sc (fst s)"
    and "reqs = BuildDeletionMessageRequests f (deletion_alert (sc_tg sc) ti u d)" "k < length reqs"
  shows "\<exists>r \<in> set (ox_rows (fst (insert_alerts f now sc ti u found s))).
    ob_key r = (sc_owner sc, sc_conn sc, sc_chat sc, del_MessageID d, EventDeletedMessage) \<and> ob_chunk r = int k \<and>
    ob_text r = smr_Text (reqs ! k) \<and> ob_tg r = sc_tg sc \<and> ob_status r = Pending"
  using assms
proof (induction found arbitrary: s)
  case (Cons e es)
  obtain ox c where s: "s = (ox, c)" by (cases s)
  let ?s = "insert_requests now sc e (BuildDeletionMessageRequests f (deletion_alert (sc_tg sc) ti u e)) 0 (ox, c)"
  show ?case
  proof (cases "e = d")
    case True
    have "del_ChatID d = sc_chat sc" using Cons.prems(1,3) by auto
    moreover have "\<forall>j \<ge> 0. (del_MessageID d, j) \<notin> alert_keys sc ox" using Cons.prems(4) by (simp add: s)
    ultimately obtain r where r: "r \<in> set (ox_rows (fst ?s))"
      "ob_key r = (sc_owner sc, sc_conn sc, sc_chat sc, del_MessageID d, EventDeletedMessage)" "ob_chunk r = int k"
      "ob_text r = smr_Text (reqs ! k)" "ob_tg r = sc_tg sc" "ob_status r = Pending"
      using insert_requests_queued [of d sc 0 ox k reqs now c] Cons.prems(5,6) True by auto
    then have "r \<in> set (ox_rows (fst (insert_alerts f now sc ti u es ?s)))" using insert_alerts_grows by blast
    then show ?thesis using r by (intro bexI [of _ r]) (simp_all add: s)
  next
    case False
    then have "d \<in> set es" using Cons.prems(3) by simp
    moreover have "del_MessageID e \<notin> del_MessageID ` set es" using Cons.prems(2) by simp
    ultimately have ne: "del_MessageID d \<noteq> del_MessageID e" "d \<in> set es" by (metis imageI)+
    have "\<forall>j \<ge> 0. (del_MessageID d, j) \<notin> alert_keys sc (fst ?s)"
      using Cons.prems(1,4) ne by (simp add: insert_requests_keys s)
    then show ?thesis using Cons.IH [of ?s] Cons.prems ne by (simp add: s)
  qed
qed simp

fun media_keys :: "mediaGroup list \<Rightarrow> (i64 \<Rightarrow> int option) \<Rightarrow> (i64 \<times> int) set" where
  "media_keys [] counts = {}"
| "media_keys (g # gs) counts = insert (mg_anchor g, at_key counts 0 (mg_anchor g))
     (media_keys gs (counts(mg_anchor g \<mapsto> at_key counts 0 (mg_anchor g) + 1)))"

lemma enqueue_groups_keys:
  "alert_keys sc (fst (enqueue_groups now sc captions gs (ox, counts))) = alert_keys sc ox \<union> media_keys gs counts"
  by (induction gs arbitrary: ox counts) (simp_all add: Let_def InsertMediaTx_def insertTx_keys)

lemma enqueue_groups_known:
  "media_keys gs counts \<subseteq> alert_keys sc ox \<Longrightarrow>
    ox_rows (fst (enqueue_groups now sc captions gs (ox, counts))) = ox_rows ox"
proof (induction gs arbitrary: ox counts)
  case (Cons g gs)
  then have rows: "ox_rows (InsertMediaTx now (sc_owner sc) (sc_tg sc) (sc_conn sc) (sc_chat sc) (mg_anchor g)
      EventDeletedMessage (at_key counts 0 (mg_anchor g)) t p ox) = ox_rows ox" for t p
    by (simp add: InsertMediaTx_def insertTx_known)
  have "media_keys gs (counts(mg_anchor g \<mapsto> at_key counts 0 (mg_anchor g) + 1)) \<subseteq> alert_keys sc
      (InsertMediaTx now (sc_owner sc) (sc_tg sc) (sc_conn sc) (sc_chat sc) (mg_anchor g)
        EventDeletedMessage (at_key counts 0 (mg_anchor g)) t p ox)" for t p
    unfolding alert_keys_rows [OF rows] using Cons.prems by simp
  then show ?case unfolding enqueue_groups.simps Let_def by (subst Cons.IH) (simp_all add: rows)
qed simp

lemma enqueue_groups_grows: "set (ox_rows ox) \<subseteq> set (ox_rows (fst (enqueue_groups now sc captions gs (ox, counts))))"
proof (induction gs arbitrary: ox counts)
  case (Cons g gs)
  then show ?case using insertTx_grows by (simp add: Let_def InsertMediaTx_def) blast
qed simp

definition deletion_groups :: "i64 \<Rightarrow> mediaAlertScope \<Rightarrow> DeletedRecord list \<Rightarrow> media_table \<Rightarrow> mediaGroup list" where
  "deletion_groups t sc found mt =
     (if found = [] then [] else groupMedia (SelectStoredTx t (sc_conn sc) (sc_chat sc) (map del_MessageID found) mt)
        (SelectAlbumAnchorsTx t (sc_conn sc) (sc_chat sc) (map del_MessageID found) mt))"

lemma enqueueMediaAlerts_groups:
  obtains captions where "enqueueMediaAlerts now t sc found mt s = enqueue_groups now sc captions (deletion_groups t sc found mt) s"
  by (rule that [of "foldl (\<lambda>m d. m(del_MessageID d \<mapsto> del_TextContent d)) (\<lambda>_. None) found"])
    (simp add: enqueueMediaAlerts_def deletion_groups_def Let_def)

section \<open>Redelivery and completeness\<close>

lemma MarkDeleted_cases:
  assumes "MarkDeleted tx f now owner tg conn chat ids db = (Inr found, db1)"
  obtains captions ti u sc where "sc = \<lparr>sc_owner = owner, sc_tg = tg, sc_conn = conn, sc_chat = chat\<rparr>"
    "chat_label owner conn chat (db_chats db) = (ti, u)"
    "found = sort_key del_MessageID (map deleted_of (t_select ms_owner owner (in_batch conn chat ids) (db_messages db)))"
    "db1 = db\<lparr>db_messages := t_update ms_owner owner (in_batch conn chat ids) (stamp_deleted now) (db_messages db),
       db_outbox := fst (enqueue_groups now sc captions (deletion_groups owner sc found (db_media db))
         (insert_alerts f now sc ti u found (db_outbox db, \<lambda>_. None)))\<rparr>"
proof -
  define sc where sc: "sc = \<lparr>sc_owner = owner, sc_tg = tg, sc_conn = conn, sc_chat = chat\<rparr>"
  obtain ti u where l: "chat_label owner conn chat (db_chats db) = (ti, u)" by (cases "chat_label owner conn chat (db_chats db)")
  have "mark_deleted_body f now sc ids owner db = Inr (found, db1)"
    using assms InTenant_cases [of tx _ owner db "Inr found" db1] by (auto simp: MarkDeleted_def sc)
  moreover obtain captions where "enqueueMediaAlerts now owner sc found (db_media db) s = enqueue_groups now sc captions (deletion_groups owner sc found (db_media db)) s"
    if "s = insert_alerts f now sc ti u found (db_outbox db, \<lambda>_. None)" for s
    using enqueueMediaAlerts_groups [of now owner sc found "db_media db" "insert_alerts f now sc ti u found (db_outbox db, \<lambda>_. None)"] by metis
  ultimately show ?thesis
    by (intro that [OF sc l]) (auto simp: mark_deleted_body_def Let_def l sc)
qed

lemma stamp_deleted_simps [simp]:
  "ms_owner (stamp_deleted now m) = ms_owner m" "ms_key (stamp_deleted now m) = ms_key m"
  "in_batch conn chat ids (stamp_deleted now m) = in_batch conn chat ids m"
  "deleted_of (stamp_deleted now m) = deleted_of m" "stamp_deleted now2 (stamp_deleted now m) = stamp_deleted now m"
  by (simp_all add: stamp_deleted_def ms_key_def in_batch_def deleted_of_def split: option.splits)

lemma stamped_again:
  "t_update ms_owner t (in_batch conn chat ids) (stamp_deleted now2)
     (t_update ms_owner t (in_batch conn chat ids) (stamp_deleted now) rows)
   = t_update ms_owner t (in_batch conn chat ids) (stamp_deleted now) rows"
  by (induction rows) (simp_all add: t_update_def)

lemma found_again:
  "map deleted_of (t_select ms_owner t (in_batch conn chat ids)
     (t_update ms_owner t (in_batch conn chat ids) (stamp_deleted now) rows))
   = map deleted_of (t_select ms_owner t (in_batch conn chat ids) rows)"
  by (induction rows) (simp_all add: t_update_def t_select_def)

lemma found_chat:
  "d \<in> set (sort_key del_MessageID (map deleted_of (t_select ms_owner t (in_batch conn chat ids) rows))) \<Longrightarrow> del_ChatID d = chat"
  by (auto simp: t_select_def in_batch_def deleted_of_def)

lemma found_distinct:
  assumes "distinct (map ms_key rows)"
  shows "distinct (map del_MessageID (sort_key del_MessageID (map deleted_of (t_select ms_owner t (in_batch conn chat ids) rows))))"
proof -
  let ?rows = "t_select ms_owner t (in_batch conn chat ids) rows"
  have "inj_on ms_msg (set ?rows)"
  proof (rule inj_onI)
    fix x y assume "x \<in> set ?rows" "y \<in> set ?rows" "ms_msg x = ms_msg y"
    then show "x = y" using distinct_map_inj_on [OF assms, of x y] by (auto simp: set_t_select in_batch_def ms_key_def)
  qed
  moreover have "distinct rows" using assms by (simp add: distinct_map)
  ultimately have "distinct (map ms_msg ?rows)" by (simp add: distinct_map t_select_def)
  then have "distinct (map del_MessageID (map deleted_of ?rows))" by (simp add: comp_def deleted_of_def)
  then show ?thesis by (simp only: distinct_map distinct_sort set_sort)
qed

lemma map_frozen_keys: "map frozen (ox_rows ox) = map frozen (ox_rows ox') \<Longrightarrow> alert_keys sc ox \<subseteq> alert_keys sc ox'"
proof
  fix x
  assume eq: "map frozen (ox_rows ox) = map frozen (ox_rows ox')" and "x \<in> alert_keys sc ox"
  then obtain r where r: "r \<in> set (ox_rows ox)" "ob_key r = (sc_owner sc, sc_conn sc, sc_chat sc, fst x, EventDeletedMessage)"
    "ob_chunk r = snd x" by (auto simp: alert_keys_def)
  have "frozen r \<in> frozen ` set (ox_rows ox')" using eq r(1) by (metis image_eqI set_map)
  then obtain q where "q \<in> set (ox_rows ox')" "frozen r = frozen q" by blast
  then show "x \<in> alert_keys sc ox'" using r frozen_fields [of r q] by (cases x) (auto simp: alert_keys_def)
qed

section \<open>The upserts\<close>

lemma overwrite_simps [simp]:
  "ms_key (overwrite_message now ed e q) = ms_key q" "ms_owner (overwrite_message now ed e q) = ms_owner q"
  by (simp_all add: overwrite_message_def ms_key_def)

lemma relabel_simps [simp]: "ch_key (relabel_chat e c) = ch_key c" "ch_owner (relabel_chat e c) = ch_owner c"
  by (simp_all add: relabel_chat_def ch_key_def)

lemma upsert_message_spec:
  assumes "distinct (map ms_key rows)" "ms_key e = k" "ms_owner e = t"
  shows "distinct (map ms_key (upsert_message now ed t e rows)) \<and>
    (\<exists>r \<in> set (upsert_message now ed t e rows). ms_key r = k \<and> ms_text r = ms_text e \<and> ms_type r = ms_type e \<and>
       ms_from r = ms_from e \<and> ms_display r = ms_display e \<and>
       (\<forall>old \<in> set rows. ms_key old = k \<longrightarrow> ms_saved r = ms_saved old \<and> ms_date r = ms_date old \<and>
          ms_deleted r = ms_deleted old \<and> ms_edited r = (if ed then Some now else ms_edited old))) \<and>
    (\<forall>r. ms_key r \<noteq> k \<longrightarrow> (r \<in> set (upsert_message now ed t e rows) \<longleftrightarrow> r \<in> set rows))"
proof (cases "list_ex (\<lambda>m. ms_key m = ms_key e) rows")
  case False
  then have "\<forall>r \<in> set rows. ms_key r \<noteq> k" using assms(2) by (auto simp: list_ex_iff)
  then show ?thesis using False assms by (auto simp: upsert_message_def t_insert_def)
next
  case True
  then obtain old where old: "old \<in> set rows" "ms_key old = k" using assms(2) by (auto simp: list_ex_iff)
  have own: "ms_owner q = t" if "ms_key q = k" for q using that assms(2,3) by (auto simp: ms_key_def)
  have rows: "upsert_message now ed t e rows = t_update ms_owner t (\<lambda>m. ms_key m = k) (overwrite_message now ed e) rows"
    using True assms(2) by (simp add: upsert_message_def)
  have uniq: "q = old" if "q \<in> set rows" "ms_key q = k" for q using distinct_map_inj_on [OF assms(1) that(1) old(1)] that(2) old(2) by simp
  have dist: "distinct (map ms_key (upsert_message now ed t e rows))"
    using assms(1) unfolding rows t_update_def by (subst map_update_where) simp_all
  have mem: "overwrite_message now ed e old \<in> set (upsert_message now ed t e rows)"
    unfolding rows using old own by (auto simp: t_update_def set_update_where intro!: bexI [of _ old])
  have "ms_text (overwrite_message now ed e old) = ms_text e \<and> ms_type (overwrite_message now ed e old) = ms_type e \<and>
      ms_from (overwrite_message now ed e old) = ms_from e \<and> ms_display (overwrite_message now ed e old) = ms_display e \<and>
      (\<forall>q \<in> set rows. ms_key q = k \<longrightarrow> ms_saved (overwrite_message now ed e old) = ms_saved q \<and>
        ms_date (overwrite_message now ed e old) = ms_date q \<and> ms_deleted (overwrite_message now ed e old) = ms_deleted q \<and>
        ms_edited (overwrite_message now ed e old) = (if ed then Some now else ms_edited q))"
    using uniq by (auto simp: overwrite_message_def)
  moreover have "r \<in> set (upsert_message now ed t e rows) \<longleftrightarrow> r \<in> set rows" if "ms_key r \<noteq> k" for r
    using that unfolding rows by (auto simp: t_update_def set_update_where)
  ultimately show ?thesis using dist mem old(2) by (intro conjI bexI [OF _ mem]) simp_all
qed

lemma upsert_chat_spec:
  assumes "distinct (map ch_key rows)"
  shows "ch_owner e = t \<longrightarrow> distinct (map ch_key (upsert_chat t e rows)) \<and>
    (\<forall>c \<in> set rows. \<exists>c' \<in> set (upsert_chat t e rows). ch_key c' = ch_key c \<and>
       (ch_title c \<noteq> [] \<longrightarrow> ch_title c' \<noteq> []) \<and> (ch_username c \<noteq> [] \<longrightarrow> ch_username c' \<noteq> []))"
proof (cases "list_ex (\<lambda>c. ch_key c = ch_key e) rows")
  case False
  then show ?thesis using assms by (auto simp: upsert_chat_def t_insert_def list_ex_iff)
next
  case True
  have "distinct (map ch_key (t_update ch_owner t (\<lambda>c. ch_key c = ch_key e) (relabel_chat e) rows))"
    using assms unfolding t_update_def by (subst map_update_where) simp_all
  moreover have "\<exists>c' \<in> set (t_update ch_owner t P (relabel_chat e) rows). ch_key c' = ch_key c \<and>
       (ch_title c \<noteq> [] \<longrightarrow> ch_title c' \<noteq> []) \<and> (ch_username c \<noteq> [] \<longrightarrow> ch_username c' \<noteq> [])" if "c \<in> set rows" for c P
    by (rule bexI [of _ "if ch_owner c = t \<and> P c then relabel_chat e c else c"])
      (use that in \<open>auto simp: t_update_def update_where_def relabel_chat_def ch_key_def\<close>)
  ultimately show ?thesis using True by (simp add: upsert_chat_def)
qed

section \<open>Properties\<close>

text \<open>A redelivered deletion alerts nobody twice. After a deletion was recorded, and whatever the worker did to the
  queue since short of removing alerts, recording the same deletion again reports the same messages, keeps the first
  deletion times, and adds no alert to the queue, neither for a text nor for an album.\<close>

theorem redelivered_deletion_adds_nothing:
  assumes "MarkDeleted tx f now owner tg conn chat ids db = (Inr found, db1)"
    and "map frozen (ox_rows ox) = map frozen (ox_rows (db_outbox db1))"
    and "MarkDeleted tx2 f now2 owner tg conn chat ids (db1\<lparr>db_outbox := ox\<rparr>) = (Inr found2, db2)"
  shows "found2 = found \<and> db_messages db2 = db_messages db1 \<and> db_chats db2 = db_chats db1 \<and>
    ox_rows (db_outbox db2) = ox_rows ox"
proof -
  obtain captions ti u sc where a: "sc = \<lparr>sc_owner = owner, sc_tg = tg, sc_conn = conn, sc_chat = chat\<rparr>"
    "chat_label owner conn chat (db_chats db) = (ti, u)"
    "found = sort_key del_MessageID (map deleted_of (t_select ms_owner owner (in_batch conn chat ids) (db_messages db)))"
    "db1 = db\<lparr>db_messages := t_update ms_owner owner (in_batch conn chat ids) (stamp_deleted now) (db_messages db),
       db_outbox := fst (enqueue_groups now sc captions (deletion_groups owner sc found (db_media db))
         (insert_alerts f now sc ti u found (db_outbox db, \<lambda>_. None)))\<rparr>"
    using assms(1) by (rule MarkDeleted_cases)
  obtain captions2 ti2 u2 sc2 where b: "sc2 = \<lparr>sc_owner = owner, sc_tg = tg, sc_conn = conn, sc_chat = chat\<rparr>"
    "chat_label owner conn chat (db_chats (db1\<lparr>db_outbox := ox\<rparr>)) = (ti2, u2)"
    "found2 = sort_key del_MessageID (map deleted_of (t_select ms_owner owner (in_batch conn chat ids) (db_messages (db1\<lparr>db_outbox := ox\<rparr>))))"
    "db2 = (db1\<lparr>db_outbox := ox\<rparr>)\<lparr>db_messages := t_update ms_owner owner (in_batch conn chat ids) (stamp_deleted now2) (db_messages (db1\<lparr>db_outbox := ox\<rparr>)),
       db_outbox := fst (enqueue_groups now2 sc2 captions2 (deletion_groups owner sc2 found2 (db_media (db1\<lparr>db_outbox := ox\<rparr>)))
         (insert_alerts f now2 sc2 ti2 u2 found2 (db_outbox (db1\<lparr>db_outbox := ox\<rparr>), \<lambda>_. None)))\<rparr>"
    using assms(3) by (rule MarkDeleted_cases)
  have db1: "db_chats db1 = db_chats db" "db_media db1 = db_media db"
    "db_messages db1 = t_update ms_owner owner (in_batch conn chat ids) (stamp_deleted now) (db_messages db)"
    by (simp_all add: a(4))
  have "found2 = found" unfolding a(3) b(3) by (simp add: db1 found_again)
  moreover have "sc2 = sc" unfolding a(1) b(1) by (rule refl)
  moreover have "ti2 = ti" "u2 = u" using a(2) b(2) by (simp_all add: db1)
  ultimately have same: "sc2 = sc" "ti2 = ti" "u2 = u" "found2 = found" by simp_all
  have chat: "\<forall>d \<in> set found. del_ChatID d = sc_chat sc"
    unfolding a(3) using found_chat [of _ owner conn chat ids "db_messages db"] by (simp only: a(1) mediaAlertScope.simps) blast
  let ?groups = "deletion_groups owner sc found (db_media db)"
  let ?s = "insert_alerts f now sc ti u found (db_outbox db, \<lambda>_. None)"
  let ?s2 = "insert_alerts f now2 sc ti u found (ox, \<lambda>_. None)"
  have counts: "snd ?s2 = snd ?s" by (rule insert_alerts_counts) simp
  obtain ox1 c where s: "?s = (ox1, c)" by (cases ?s)
  have keys: "alert_keys sc (db_outbox db1) = alert_keys sc ox1 \<union> media_keys ?groups c"
    using a(4) s enqueue_groups_keys [of sc now captions ?groups ox1 c] by simp
  have "alert_keys sc ox1 = alert_keys sc (db_outbox db) \<union> text_keys f sc ti u found"
    using insert_alerts_keys [OF chat, of f now ti u "(db_outbox db, \<lambda>_. None)"] s by simp
  then have planned: "text_keys f sc ti u found \<union> media_keys ?groups c \<subseteq> alert_keys sc ox"
    using keys map_frozen_keys [OF assms(2) [symmetric], of sc] by auto
  then have rows2: "ox_rows (fst ?s2) = ox_rows ox" by (intro insert_alerts_known [OF chat, THEN trans]) auto
  obtain ox2 where s2: "?s2 = (ox2, c)" using counts s by (cases ?s2) simp
  have "ox_rows (fst (enqueue_groups now2 sc captions2 ?groups (ox2, c))) = ox_rows ox2"
    using planned rows2 s2 alert_keys_rows [of ox2 ox sc] by (intro enqueue_groups_known) simp
  then have "ox_rows (db_outbox db2) = ox_rows ox" using rows2 s2 by (simp add: b(4) same db1)
  then show ?thesis using same(4) by (simp add: b(4) db1 stamped_again)
qed

definition sample_record :: MsgRecord where
  "sample_record = \<lparr>rec_BusinessConnectionID = ''A'', rec_ChatID = 5, rec_MessageID = 9, rec_FromUserID = Some 3,
     rec_FromDisplay = [97], rec_MessageType = ''text'', rec_TextContent = [104, 105], rec_TelegramDate = 0,
     rec_ChatTitle = [98], rec_ChatUsername = [], rec_ChatType = ''private''\<rparr>"

definition sample_db :: tenant_db where
  "sample_db = snd (Save good_tx 1 7 sample_record False (empty_db\<lparr>db_media := sample_media\<rparr>))"

lemma MarkDeleted_good: "\<exists>found db1. MarkDeleted good_tx f now owner tg conn chat ids db = (Inr found, db1)"
  by (simp add: MarkDeleted_def InTenant_ok mark_deleted_body_def Let_def split: prod.splits)

theorem redelivered_deletion_adds_nothing_witness:
  "\<exists>found db1 db2. MarkDeleted good_tx (\<lambda>_. []) 2 7 70 ''A'' 5 [9] sample_db = (Inr found, db1) \<and>
     MarkDeleted good_tx (\<lambda>_. []) 3 7 70 ''A'' 5 [9] db1 = (Inr found, db2) \<and> map del_MessageID found = [9] \<and>
     ox_rows (db_outbox db2) = ox_rows (db_outbox db1) \<and> db_messages db2 = db_messages db1"
proof -
  obtain found db1 where d1: "MarkDeleted good_tx (\<lambda>_. []) 2 7 70 ''A'' 5 [9] sample_db = (Inr found, db1)"
    using MarkDeleted_good by blast
  obtain found2 db2 where d2: "MarkDeleted good_tx (\<lambda>_. []) 3 7 70 ''A'' 5 [9] (db1\<lparr>db_outbox := db_outbox db1\<rparr>) = (Inr found2, db2)"
    using MarkDeleted_good by blast
  have "map del_MessageID (sort_key del_MessageID (map deleted_of
      (t_select ms_owner 7 (in_batch ''A'' 5 [9]) (db_messages sample_db)))) = [9]" by code_simp
  moreover have "found = sort_key del_MessageID (map deleted_of
      (t_select ms_owner 7 (in_batch ''A'' 5 [9]) (db_messages sample_db)))"
    using d1 by (rule MarkDeleted_cases)
  ultimately show ?thesis
    using redelivered_deletion_adds_nothing [OF d1 refl d2] d1 d2 by auto
qed



text \<open>Saving keeps the latest version. A successful save leaves exactly one row for the message, whether the update
  is new, redelivered or an edit, and it carries the text, the type and the sender of this call; the row of a message
  already known keeps its capture time, its date and its deletion time, and its edit time moves exactly when the call
  is an edit; a label of the chat is replaced by a new one and never wiped by an empty one; and no row of another
  message changes.\<close>

theorem save_keeps_latest:
  assumes "distinct (map ms_key (db_messages db))" "distinct (map ch_key (db_chats db))"
    and "Save tx now owner m edited db = (Inr (), db')"
  defines "k \<equiv> (owner, rec_BusinessConnectionID m, rec_ChatID m, rec_MessageID m)"
  shows "distinct (map ms_key (db_messages db')) \<and> distinct (map ch_key (db_chats db')) \<and>
    (\<exists>r \<in> set (db_messages db'). ms_key r = k \<and> ms_text r = rec_TextContent m \<and> ms_type r = rec_MessageType m \<and>
       ms_from r = rec_FromUserID m \<and> ms_display r = rec_FromDisplay m \<and>
       (\<forall>old \<in> set (db_messages db). ms_key old = k \<longrightarrow> ms_saved r = ms_saved old \<and> ms_date r = ms_date old \<and>
          ms_deleted r = ms_deleted old \<and> ms_edited r = (if edited then Some now else ms_edited old))) \<and>
    (\<forall>r. ms_key r \<noteq> k \<longrightarrow> (r \<in> set (db_messages db') \<longleftrightarrow> r \<in> set (db_messages db))) \<and>
    (\<forall>c \<in> set (db_chats db). \<exists>c' \<in> set (db_chats db'). ch_key c' = ch_key c \<and>
       (ch_title c \<noteq> [] \<longrightarrow> ch_title c' \<noteq> []) \<and> (ch_username c \<noteq> [] \<longrightarrow> ch_username c' \<noteq> []))"
proof -
  have db': "db' = db\<lparr>db_chats := upsert_chat owner (chat_of owner m) (db_chats db),
      db_messages := upsert_message now edited owner (message_of now owner m edited) (db_messages db)\<rparr>"
    using InTenant_Inr [OF assms(3) [unfolded Save_def]] by (simp add: save_body_def)
  let ?e = "message_of now owner m edited"
  have e: "ms_key ?e = k" "ms_owner ?e = owner" by (simp_all add: message_of_def ms_key_def k_def)
  show ?thesis
    using upsert_message_spec [OF assms(1) e, of now edited] upsert_chat_spec [OF assms(2), of "chat_of owner m" owner]
    by (simp add: db' message_of_def chat_of_def)
qed

theorem save_keeps_latest_witness:
  "\<exists>db'. Save good_tx 9 7 (sample_record\<lparr>rec_TextContent := [120], rec_ChatTitle := []\<rparr>) True sample_db = (Inr (), db') \<and>
     (\<exists>r \<in> set (db_messages db'). ms_text r = [120] \<and> ms_saved r = 1 \<and> ms_edited r = Some 9) \<and>
     (\<exists>c \<in> set (db_chats db'). ch_title c \<noteq> [])"
proof -
  let ?m = "sample_record\<lparr>rec_TextContent := [120], rec_ChatTitle := []\<rparr>"
  let ?p = "Save good_tx 9 7 ?m True sample_db"
  have d: "map ms_key (db_messages sample_db) = [(7, ''A'', 5, 9)]" "map ch_key (db_chats sample_db) = [(7, ''A'', 5)]"
    "map ms_saved (db_messages sample_db) = [1]" "map ch_title (db_chats sample_db) = [[98]]" by code_simp+
  then obtain old c where old: "db_messages sample_db = [old]" "ms_key old = (7, ''A'', 5, 9)" "ms_saved old = 1"
    and c: "db_chats sample_db = [c]" "ch_title c = [98]" by auto
  have "fst ?p = Inr ()" by code_simp
  then have p: "?p = (Inr (), snd ?p)" by (simp add: prod_eq_iff)
  have k: "(7, rec_BusinessConnectionID ?m, rec_ChatID ?m, rec_MessageID ?m) = ms_key old" using old(2) by (simp add: sample_record_def)
  have "distinct (map ms_key (db_messages sample_db))" "distinct (map ch_key (db_chats sample_db))" using d by simp_all
  note r = save_keeps_latest [OF this p, unfolded k]
  then obtain r where "r \<in> set (db_messages (snd ?p))" "ms_text r = rec_TextContent ?m" "ms_saved r = ms_saved old" "ms_edited r = Some 9"
    using old(1) by auto
  moreover have "\<exists>c' \<in> set (db_chats (snd ?p)). ch_title c' \<noteq> []" using r c by auto
  ultimately show ?thesis using p old(3) by (intro exI [of _ "snd ?p"]) auto
qed

end
