(* ===== verification/Disk.thy ===== *)
theory Disk
  imports Media_Path Alerts
begin

text \<open>
  The media directory, and \<open>bot/internal/media/purge/saferemove.go\<close>: every inspection and every deletion of a
  stored file goes down from the media root one component at a time, each opened relative to its parent without
  following a symbolic link.

  A directory is the list of its entries, in the order the kernel lists them. The media root itself is an option:
  \<open>None\<close> when nothing is there. A symbolic link knows only whether it leads to a directory, which \<open>os.Stat\<close> of
  the root asks. A path is the list of its components below the root. \<open>fs_env\<close> says for each path whether the
  kernel lets the process open, inspect, list, unlink or remove it, and whether the context is cancelled when the
  walk of an erasure reaches it. Nothing else changes the directory during a call: the callers hold the tenant's
  exclusion, so the branches for an entry that vanishes between two system calls are not taken.
\<close>

section \<open>The directory\<close>

datatype node = Regular instant i64 | Directory "(gostr \<times> node) list" | Symlink bool | Special

record fs_env =
  fe_open :: "gostr list \<Rightarrow> bool"
  fe_stat :: "gostr list \<Rightarrow> bool"
  fe_list :: "gostr list \<Rightarrow> bool"
  fe_unlink :: "gostr list \<Rightarrow> bool"
  fe_rmdir :: "gostr list \<Rightarrow> bool"
  fe_dead :: "gostr list \<Rightarrow> bool"

definition isRegular :: "node \<Rightarrow> bool" where
  "isRegular nd = (case nd of Regular _ _ \<Rightarrow> True | _ \<Rightarrow> False)"

definition isDir :: "node \<Rightarrow> bool" where
  "isDir nd = (case nd of Directory _ \<Rightarrow> True | _ \<Rightarrow> False)"

text \<open>\<open>os.Stat(root)\<close> follows a link: whether the root is reachable, and whether it is a directory.\<close>

definition stat_root :: "node option \<Rightarrow> go_error option" where
  "stat_root disk = (case disk of
      None \<Rightarrow> Some [Msg ''unreachable media root'', ErrNotExist]
    | Some (Directory _) \<Rightarrow> None
    | Some (Symlink to_dir) \<Rightarrow> if to_dir then None else Some [Msg ''media root is not a directory'']
    | Some _ \<Rightarrow> Some [Msg ''media root is not a directory''])"

text \<open>\<open>openDirNofollow\<close> and \<open>openChildDir\<close>.\<close>

definition openDirNofollow :: "fs_env \<Rightarrow> node option \<Rightarrow> go_error + (gostr \<times> node) list" where
  "openDirNofollow env disk = (case disk of
      None \<Rightarrow> Inl [ErrNotExist]
    | Some (Directory es) \<Rightarrow> if fe_open env [] then Inr es else Inl [Msg ''open'']
    | Some _ \<Rightarrow> Inl [Msg ''not a directory''])"

datatype open_error = ENOENT | ELOOP | EOTHER

definition openChildDir :: "fs_env \<Rightarrow> gostr list \<Rightarrow> (gostr \<times> node) list \<Rightarrow> gostr \<Rightarrow> open_error + (gostr \<times> node) list" where
  "openChildDir env path es name = (case map_of es name of
      None \<Rightarrow> Inl ENOENT
    | Some (Directory sub) \<Rightarrow> if fe_open env (path @ [name]) then Inr sub else Inl EOTHER
    | Some (Symlink _) \<Rightarrow> Inl ELOOP
    | Some _ \<Rightarrow> Inl EOTHER)"

definition openComponentError :: "open_error \<Rightarrow> go_error" where
  "openComponentError e = (case e of ENOENT \<Rightarrow> [Msg ''media subtree'', ErrNotExist] | ELOOP \<Rightarrow> [ErrUnsafeTarget] | EOTHER \<Rightarrow> [ErrUnsafeTarget])"

text \<open>\<open>statChild\<close>: \<open>Inl None\<close> is \<open>ENOENT\<close>.\<close>

definition statChild :: "fs_env \<Rightarrow> gostr list \<Rightarrow> (gostr \<times> node) list \<Rightarrow> gostr \<Rightarrow> go_error option + node" where
  "statChild env path es name = (case map_of es name of
      None \<Rightarrow> Inl None
    | Some (Symlink _) \<Rightarrow> Inl (Some [ErrUnsafeTarget])
    | Some nd \<Rightarrow> if fe_stat env (path @ [name]) then Inr nd else Inl (Some [Msg ''stat'']))"

section \<open>Going down to a stored file\<close>

fun descend :: "fs_env \<Rightarrow> gostr list \<Rightarrow> (gostr \<times> node) list \<Rightarrow> gostr list \<Rightarrow> go_error + (gostr \<times> node) list" where
  "descend env path dir [] = Inr dir"
| "descend env path dir (component # cs) =
     (case openChildDir env path dir component of
        Inl e \<Rightarrow> Inl (openComponentError e)
      | Inr child \<Rightarrow> descend env (path @ [component]) child cs)"

definition openParent :: "fs_env \<Rightarrow> i64 \<Rightarrow> gostr \<Rightarrow> node option \<Rightarrow> go_error + ((gostr \<times> node) list \<times> gostr)" where
  "openParent env owner rel disk =
     (case ValidateRelativePath rel of
        Some err \<Rightarrow> Inl err
      | None \<Rightarrow>
          let cs = components rel in
          if sep \<notin> set rel \<or> hd cs \<noteq> dec_int owner then Inl [ErrUnsafeTarget]
          else if length cs < 2 then Inl [ErrUnsafeTarget]
          else case openDirNofollow env disk of
              Inl err \<Rightarrow> Inl (Msg ''opening the media root'' # err)
            | Inr root \<Rightarrow>
                (case descend env [] root (butlast cs) of
                   Inl err \<Rightarrow> Inl err
                 | Inr dir \<Rightarrow> Inr (dir, last cs)))"

text \<open>The directory after an \<open>unlinkat\<close>.\<close>

fun remove_entry :: "gostr list \<Rightarrow> (gostr \<times> node) list \<Rightarrow> (gostr \<times> node) list" where
  "remove_entry [] es = es"
| "remove_entry [c] es = filter (\<lambda>e. fst e \<noteq> c) es"
| "remove_entry (c # d # cs) es =
     map (\<lambda>e. if fst e = c then (case snd e of Directory sub \<Rightarrow> (c, Directory (remove_entry (d # cs) sub)) | _ \<Rightarrow> e) else e) es"

definition unlink_path :: "gostr list \<Rightarrow> node option \<Rightarrow> node option" where
  "unlink_path path disk = (case disk of Some (Directory es) \<Rightarrow> Some (Directory (remove_entry path es)) | _ \<Rightarrow> disk)"

definition removeRel :: "fs_env \<Rightarrow> i64 \<Rightarrow> gostr \<Rightarrow> bool \<Rightarrow> node option \<Rightarrow> (go_error + bool) \<times> node option" where
  "removeRel env owner rel dryRun disk =
     (case openParent env owner rel disk of
        Inl err \<Rightarrow> if errors_is err ErrNotExist then (Inr False, disk) else (Inl err, disk)
      | Inr (dir, base) \<Rightarrow>
          (case statChild env (butlast (components rel)) dir base of
             Inl None \<Rightarrow> (Inr False, disk)
           | Inl (Some err) \<Rightarrow> (Inl (Msg ''inspecting media file'' # err), disk)
           | Inr nd \<Rightarrow>
               if \<not> isRegular nd then (Inl [ErrUnsafeTarget], disk)
               else if dryRun then (Inr True, disk)
               else if \<not> fe_unlink env (components rel) then (Inl [Msg ''deleting media file''], disk)
               else (Inr True, unlink_path (components rel) disk)))"

definition statRel :: "fs_env \<Rightarrow> i64 \<Rightarrow> gostr \<Rightarrow> node option \<Rightarrow> go_error + node" where
  "statRel env owner rel disk =
     (case openParent env owner rel disk of
        Inl err \<Rightarrow> Inl err
      | Inr (dir, base) \<Rightarrow>
          (case statChild env (butlast (components rel)) dir base of
             Inl None \<Rightarrow> Inl [Msg ''media file'', ErrNotExist]
           | Inl (Some err) \<Rightarrow> Inl (Msg ''inspecting media file'' # err)
           | Inr nd \<Rightarrow> Inr nd))"

section \<open>Erasing a subtree\<close>

text \<open>\<open>eraseTreeFD\<close>: what it deleted, the refusals, and the entries it leaves. One entry is refused, goes, or is a
  directory that stays with what it still holds; a directory goes once it is empty, when the kernel lets it. A
  cancelled context replaces the refusals of the directory so far.\<close>

function erase_entry :: "fs_env \<Rightarrow> gostr list \<Rightarrow> node \<Rightarrow> int \<times> go_error list \<times> node option" and
    erase_loop :: "fs_env \<Rightarrow> gostr list \<Rightarrow> (gostr \<times> node) list \<Rightarrow> int \<Rightarrow> go_error list \<Rightarrow> (gostr \<times> node) list \<Rightarrow>
      int \<times> go_error list \<times> (gostr \<times> node) list" where
  "erase_entry env here (Symlink b) = (0, [[ErrUnsafeTarget]], Some (Symlink b))"
| "erase_entry env here (Directory sub) =
     (if \<not> fe_stat env here then (0, [[Msg ''inspecting'']], Some (Directory sub))
      else if \<not> fe_open env here then (0, [[ErrUnsafeTarget]], Some (Directory sub))
      else case (if fe_list env here then erase_loop env here sub 0 [] [] else (0, [[Msg ''listing'']], sub)) of
          (n, errs, left) \<Rightarrow> (n, errs, if left = [] \<and> fe_rmdir env here then None else Some (Directory left)))"
| "erase_entry env here (Regular m k) =
     (if \<not> fe_stat env here then (0, [[Msg ''inspecting'']], Some (Regular m k))
      else if fe_unlink env here then (1, [], None)
      else (0, [[Msg ''deleting'']], Some (Regular m k)))"
| "erase_entry env here Special =
     (0, [if fe_stat env here then [ErrUnsafeTarget] else [Msg ''inspecting'']], Some Special)"
| "erase_loop env path [] deleted refusals kept = (deleted, refusals, kept)"
| "erase_loop env path (e # rest) deleted refusals kept =
     (if fe_dead env (path @ [fst e]) then (deleted, [[CtxCanceled]], kept @ e # rest)
      else case erase_entry env (path @ [fst e]) (snd e) of
          (n, errs, left) \<Rightarrow>
            erase_loop env path rest (deleted + n) (refusals @ errs)
              (case left of None \<Rightarrow> kept | Some nd \<Rightarrow> kept @ [(fst e, nd)]))"
  by pat_completeness auto

lemma size_list_pairs: "size_list (\<lambda>e. size (snd e)) es \<le> size_list (size_prod (\<lambda>_. 0) size) es"
  by (induction es) (auto simp: size_prod_def split: prod.splits)

termination erase_entry
proof (relation "measure (\<lambda>x. case x of Inl (_, _, nd) \<Rightarrow> 2 * size nd
      | Inr (_, _, es, _, _, _) \<Rightarrow> 2 * size_list (\<lambda>e. size (snd e)) es + 1)", goal_cases)
  case (2 env here sub)
  then show ?case using size_list_pairs [of sub] by simp
qed auto

definition eraseTreeFD :: "fs_env \<Rightarrow> gostr list \<Rightarrow> (gostr \<times> node) list \<Rightarrow> int \<times> go_error list \<times> (gostr \<times> node) list" where
  "eraseTreeFD env path es = (if fe_list env path then erase_loop env path es 0 [] [] else (0, [[Msg ''listing'']], es))"

definition put_child :: "gostr \<Rightarrow> (gostr \<times> node) list \<Rightarrow> (gostr \<times> node) list \<Rightarrow> (gostr \<times> node) list" where
  "put_child name left es = map (\<lambda>e. if fst e = name then (name, Directory left) else e) es"

definition eraseTenantTree :: "fs_env \<Rightarrow> i64 \<Rightarrow> node option \<Rightarrow> int \<times> go_error option \<times> node option" where
  "eraseTenantTree env owner disk =
     (let tenantName = dec_int owner in
      case openDirNofollow env disk of
        Inl err \<Rightarrow> (0, Some (Msg ''opening the media root'' # err), disk)
      | Inr root \<Rightarrow>
          (case openChildDir env [] root tenantName of
             Inl ENOENT \<Rightarrow> (0, None, disk)
           | Inl ELOOP \<Rightarrow> (0, Some [ErrUnsafeTarget], disk)
           | Inl EOTHER \<Rightarrow> (0, Some [Msg ''opening the media of the tenant''], disk)
           | Inr tree \<Rightarrow>
               let (deleted, errs, left) = eraseTreeFD env [tenantName] tree in
               if errs \<noteq> [] then (deleted, Some (concat errs), Some (Directory (put_child tenantName left root)))
               else (deleted, None,
                     Some (Directory (if left = [] \<and> fe_rmdir env [tenantName]
                       then filter (\<lambda>e. fst e \<noteq> tenantName) root else put_child tenantName left root)))))"

section \<open>What is on the disk\<close>

text \<open>What a path leads to without following links, and the regular files.\<close>

fun entry_at :: "gostr list \<Rightarrow> (gostr \<times> node) list \<Rightarrow> node option" where
  "entry_at [] es = Some (Directory es)"
| "entry_at (c # cs) es = (case map_of es c of
      None \<Rightarrow> None
    | Some nd \<Rightarrow> if cs = [] then Some nd else (case nd of Directory sub \<Rightarrow> entry_at cs sub | _ \<Rightarrow> None))"

definition node_at :: "gostr list \<Rightarrow> node option \<Rightarrow> node option" where
  "node_at path disk = (case disk of Some (Directory es) \<Rightarrow> entry_at path es | _ \<Rightarrow> None)"

definition file_at :: "gostr list \<Rightarrow> node option \<Rightarrow> (instant \<times> i64) option" where
  "file_at path disk = (case node_at path disk of Some (Regular m n) \<Rightarrow> Some (m, n) | _ \<Rightarrow> None)"

lemma entry_at_descend:
  "entry_at (cs @ [b]) es = (case entry_at cs es of Some (Directory sub) \<Rightarrow> map_of sub b | _ \<Rightarrow> None)"
proof (induction cs arbitrary: es)
  case Nil
  then show ?case by (simp split: option.splits)
next
  case (Cons c cs)
  show ?case
  proof (cases "map_of es c")
    case (Some nd)
    then show ?thesis by (cases nd; cases cs) (use Cons.IH in \<open>auto split: option.splits node.splits\<close>)
  qed simp
qed

lemma openChildDir_Inr: "openChildDir env path es c = Inr sub \<Longrightarrow> map_of es c = Some (Directory sub)"
  by (auto simp: openChildDir_def split: option.splits node.splits if_splits)

lemma openChildDir_ENOENT: "openChildDir env path es c = Inl ENOENT \<Longrightarrow> map_of es c = None"
  by (auto simp: openChildDir_def split: option.splits node.splits if_splits)

lemma descend_Inr: "descend env path dir cs = Inr sub \<Longrightarrow> entry_at cs dir = Some (Directory sub)"
proof (induction cs arbitrary: path dir)
  case (Cons c cs)
  then obtain child where c: "openChildDir env path dir c = Inr child" "descend env (path @ [c]) child cs = Inr sub"
    by (auto split: sum.splits)
  then show ?case using openChildDir_Inr [OF c(1)] Cons.IH [OF c(2)] by (cases cs) auto
qed simp

lemma descend_missing: "descend env path dir cs = Inl err \<Longrightarrow> errors_is err ErrNotExist \<Longrightarrow> entry_at (cs @ [b]) dir = None"
proof (induction cs arbitrary: path dir)
  case (Cons c cs)
  show ?case
  proof (cases "openChildDir env path dir c")
    case (Inl e)
    then have "e = ENOENT" using Cons.prems by (cases e) (auto simp: openComponentError_def errors_is_def)
    then show ?thesis using openChildDir_ENOENT [of env path dir c] Inl by simp
  next
    case (Inr child)
    then show ?thesis using Cons.prems Cons.IH [of "path @ [c]" child] openChildDir_Inr [OF Inr] by simp
  qed
qed simp

lemma components_butlast: "components p = butlast (components p) @ [last (components p)]"
  using components_join [of p] by simp

lemma openParent_Inr:
  assumes "openParent env owner rel disk = Inr (dir, base)"
  shows "\<exists>root. disk = Some (Directory root) \<and> entry_at (butlast (components rel)) root = Some (Directory dir) \<and>
    base = last (components rel) \<and> hd (components rel) = dec_int owner \<and> ValidateRelativePath rel = None \<and>
    node_at (components rel) disk = map_of dir base \<and> 2 \<le> length (components rel)"
proof -
  obtain root where r: "disk = Some (Directory root)" "descend env [] root (butlast (components rel)) = Inr dir"
    "base = last (components rel)" "hd (components rel) = dec_int owner" "ValidateRelativePath rel = None" "2 \<le> length (components rel)"
    using assms by (auto simp: openParent_def openDirNofollow_def Let_def split: option.splits if_splits sum.splits node.splits)
  have e: "entry_at (butlast (components rel)) root = Some (Directory dir)" using descend_Inr [OF r(2)] .
  then have "node_at (components rel) disk = map_of dir base"
    by (subst components_butlast) (simp add: node_at_def r(1,3) entry_at_descend)
  then show ?thesis using r e by blast
qed

lemma openParent_missing:
  assumes "openParent env owner rel disk = Inl err" "errors_is err ErrNotExist"
  shows "node_at (components rel) disk = None"
proof (cases "\<exists>root. disk = Some (Directory root)")
  case True
  then obtain root where d: "disk = Some (Directory root)" by blast
  have "descend env [] root (butlast (components rel)) = Inl err"
    using assms d
    by (auto simp: openParent_def openDirNofollow_def Let_def errors_is_def ValidateRelativePath_def
        split: option.splits if_splits sum.splits)
  then have "entry_at (butlast (components rel) @ [last (components rel)]) root = None"
    using assms(2) by (rule descend_missing)
  then show ?thesis using d components_butlast [of rel] by (simp add: node_at_def)
next
  case False
  then show ?thesis by (auto simp: node_at_def split: option.splits node.splits)
qed

text \<open>An unlink takes one file away and no other.\<close>

lemma map_of_filter_other: "map_of (filter (\<lambda>e. fst e \<noteq> c) es) x = (if x = c then None else map_of es x)"
  by (induction es) auto

lemma map_of_remove_skip: "x \<noteq> c \<Longrightarrow> map_of (remove_entry (c # d # cs) es) x = map_of es x"
proof (induction es)
  case (Cons e es)
  then show ?case by (cases e; cases "snd e") auto
qed simp

lemma map_of_remove_deep:
  "map_of es c = Some (Directory sub) \<Longrightarrow>
    map_of (remove_entry (c # d # cs) es) x = (if x = c then Some (Directory (remove_entry (d # cs) sub)) else map_of es x)"
proof (induction es)
  case (Cons e es)
  show ?case
  proof (cases "fst e = c \<or> x \<noteq> c")
    case True
    then show ?thesis
    proof (cases "x = c")
      case False
      then show ?thesis using map_of_remove_skip [OF False, of d cs "e # es"] by (simp del: remove_entry.simps map_of.simps)
    qed (use Cons.prems in \<open>cases e, simp\<close>)
  next
    case False
    then show ?thesis using Cons by (cases e) auto
  qed
qed simp

lemma entry_at_deep:
  "entry_at (c # d # cs) es = Some (Regular m n) \<longleftrightarrow>
    (\<exists>sub. map_of es c = Some (Directory sub) \<and> entry_at (d # cs) sub = Some (Regular m n))"
  by (auto simp del: entry_at.simps(2) simp: entry_at.simps(2) [of c "d # cs"] split: option.splits node.splits)

lemma entry_at_removed: "entry_at p es = Some (Regular m n) \<Longrightarrow> entry_at p (remove_entry p es) = None"
proof (induction p es rule: remove_entry.induct)
  case (2 c es)
  then show ?case by (simp add: map_of_filter_other)
next
  case (3 c d cs es)
  obtain sub where sub: "map_of es c = Some (Directory sub)" "entry_at (d # cs) sub = Some (Regular m n)"
    using 3(2) unfolding entry_at_deep by blast
  have "entry_at (d # cs) (remove_entry (d # cs) sub) = None"
  proof -
    obtain e where e: "e \<in> set es" "fst e = c" "snd e = Directory sub"
      using map_of_SomeD [OF sub(1)] by force
    show ?thesis using 3(1) [OF e(1,2,3)] sub(2) by blast
  qed
  then show ?case
    by (simp only: entry_at.simps(2) [of c "d # cs"] map_of_remove_deep [OF sub(1)]) simp
qed simp

text \<open>A place other than \<open>p\<close> holds a regular file after the unlink exactly when it held the same before.\<close>

definition same_file :: "node option \<Rightarrow> node option \<Rightarrow> bool" where
  "same_file a b \<longleftrightarrow> (\<forall>m n. a = Some (Regular m n) \<longleftrightarrow> b = Some (Regular m n))"

lemma entry_at_other:
  "entry_at p es = Some (Regular m n) \<Longrightarrow> q \<noteq> p \<Longrightarrow> same_file (entry_at q (remove_entry p es)) (entry_at q es)"
proof (induction p es arbitrary: q rule: remove_entry.induct)
  case (2 c es)
  then show ?case by (cases q) (auto simp: map_of_filter_other same_file_def split: option.splits node.splits)
next
  case (3 c d cs es)
  obtain sub where sub: "map_of es c = Some (Directory sub)" "entry_at (d # cs) sub = Some (Regular m n)"
    using 3(2) unfolding entry_at_deep by blast
  obtain e where e: "e \<in> set es" "fst e = c" "snd e = Directory sub" using map_of_SomeD [OF sub(1)] by force
  show ?case
  proof (cases q)
    case Nil
    then show ?thesis by (simp add: same_file_def)
  next
    case (Cons x xs)
    show ?thesis
    proof (cases "x = c \<and> xs \<noteq> []")
      case True
      then have "same_file (entry_at xs (remove_entry (d # cs) sub)) (entry_at xs sub)"
        using 3(1) [OF e sub(2), of xs] 3(3) Cons by blast
      then show ?thesis using True Cons
        by (simp only: entry_at.simps(2) map_of_remove_deep [OF sub(1)] sub(1)) simp
    next
      case False
      then show ?thesis using Cons sub(1)
        by (cases "x = c") (simp_all only: entry_at.simps(2) map_of_remove_deep [OF sub(1)] sub(1), simp_all add: same_file_def)
    qed
  qed
qed simp

lemma unlink_file:
  assumes "node_at p disk = Some (Regular m n)"
  shows "file_at p (unlink_path p disk) = None" "q \<noteq> p \<Longrightarrow> file_at q (unlink_path p disk) = file_at q disk"
proof -
  obtain es where d: "disk = Some (Directory es)" "entry_at p es = Some (Regular m n)"
    using assms by (auto simp: node_at_def split: option.splits node.splits)
  show "file_at p (unlink_path p disk) = None"
    using entry_at_removed [OF d(2)] by (simp add: file_at_def node_at_def unlink_path_def d(1))
  assume "q \<noteq> p"
  then have "same_file (entry_at q (remove_entry p es)) (entry_at q es)" using entry_at_other [OF d(2)] by blast
  then show "file_at q (unlink_path p disk) = file_at q disk"
    by (auto simp: file_at_def node_at_def unlink_path_def d(1) same_file_def split: option.splits node.splits)
qed

lemma statChild_cases:
  "statChild env path es name = Inl None \<Longrightarrow> map_of es name = None"
  "statChild env path es name = Inr nd \<Longrightarrow> map_of es name = Some nd"
  by (auto simp: statChild_def split: option.splits node.splits if_splits)

lemma removeRel_cases:
  assumes "removeRel env owner rel dryRun disk = (r, disk')"
  obtains (kept) "disk' = disk" "r = Inr False \<Longrightarrow> node_at (components rel) disk = None" "r = Inr True \<Longrightarrow> dryRun"
  | (gone) m n where "\<not> dryRun" "r = Inr True" "node_at (components rel) disk = Some (Regular m n)"
      "disk' = unlink_path (components rel) disk" "hd (components rel) = dec_int owner" "ValidateRelativePath rel = None"
proof (cases "openParent env owner rel disk")
  case (Inl err)
  then show ?thesis using assms kept openParent_missing [OF Inl] by (auto simp: removeRel_def split: if_splits)
next
  case (Inr db)
  obtain dir base where db: "db = (dir, base)" by (cases db)
  note op = openParent_Inr [OF Inr [unfolded db]]
  show ?thesis
  proof (cases "statChild env (butlast (components rel)) dir base")
    case (Inl e)
    then show ?thesis
      using assms kept statChild_cases(1) [of env "butlast (components rel)" dir base] op Inr db
      by (cases e) (auto simp: removeRel_def)
  next
    case (Inr nd)
    then have found: "node_at (components rel) disk = Some nd" using statChild_cases(2) [OF Inr] op by auto
    have "removeRel env owner rel dryRun disk =
        (if \<not> isRegular nd then (Inl [ErrUnsafeTarget], disk)
         else if dryRun then (Inr True, disk)
         else if \<not> fe_unlink env (components rel) then (Inl [Msg ''deleting media file''], disk)
         else (Inr True, unlink_path (components rel) disk))"
      using Inr \<open>openParent env owner rel disk = Inr db\<close> db by (simp add: removeRel_def)
    then show ?thesis
      using assms kept gone found op by (cases nd) (auto simp: isRegular_def split: if_splits)
  qed
qed

text \<open>What a removal of the files of a row, or of a list of rows, may change: only the files the rows name.\<close>

lemma removeRel_file:
  assumes "removeRel env owner rel dryRun disk = (r, disk')"
  shows "file_at q disk' = file_at q disk \<or> (q = components rel \<and> hd q = dec_int owner \<and> \<not> dryRun \<and> r = Inr True)"
  using assms
proof (cases rule: removeRel_cases)
  case (gone m n)
  then show ?thesis using unlink_file(2) [OF gone(3), of q] by auto
qed simp

lemma removeRel_absent:
  assumes "removeRel env owner rel False disk = (Inr b, disk')"
  shows "file_at (components rel) disk' = None"
  using assms
proof (cases rule: removeRel_cases)
  case kept
  then show ?thesis by (cases b) (simp_all add: file_at_def)
next
  case (gone m n)
  then show ?thesis using unlink_file(1) [OF gone(3)] by simp
qed

section \<open>After an erasure\<close>

fun hollow :: "node \<Rightarrow> bool" where
  "hollow (Directory es) = (\<forall>e \<in> set es. hollow (snd e))"
| "hollow nd = False"

lemma hollow_entry: "\<forall>e \<in> set es. hollow (snd e) \<Longrightarrow> entry_at path es = Some nd \<Longrightarrow> hollow nd"
proof (induction path es rule: entry_at.induct)
  case (2 c cs es)
  then obtain x where x: "map_of es c = Some x" by (auto split: option.splits)
  then have "hollow x" using 2(2) by (force dest: map_of_SomeD)
  then show ?case using 2 x by (cases "cs = []"; cases x) auto
qed auto

lemma erase_hollow:
  "erase_entry env here nd = (n, errs, left) \<Longrightarrow> errs = [] \<Longrightarrow> left = None \<or> (\<exists>x. left = Some x \<and> hollow x)"
  "erase_loop env path es deleted refusals kept = (n, errs, rest) \<Longrightarrow> errs = [] \<Longrightarrow>
    refusals = [] \<and> ((\<forall>e \<in> set kept. hollow (snd e)) \<longrightarrow> (\<forall>e \<in> set rest. hollow (snd e)))"
proof (induction env here nd and env path es deleted refusals kept arbitrary: n errs left and n errs rest
    rule: erase_entry_erase_loop.induct)
  case (2 env here sub)
  show ?case
  proof (cases "fe_stat env here \<and> fe_open env here \<and> fe_list env here")
    case True
    obtain k es l where l: "erase_loop env here sub 0 [] [] = (k, es, l)" by (cases "erase_loop env here sub 0 [] []")
    then have "errs = es" "left = (if l = [] \<and> fe_rmdir env here then None else Some (Directory l))"
      using 2(2) True by auto
    moreover have "es = [] \<Longrightarrow> \<forall>e \<in> set l. hollow (snd e)" using 2(1) [OF _ _ _ l] True by auto
    ultimately show ?thesis using 2(3) by auto
  next
    case False
    then show ?thesis using 2(2,3) by (auto split: if_splits)
  qed
next
  case (6 env path e es deleted refusals kept)
  show ?case
  proof (cases "fe_dead env (path @ [fst e])")
    case True
    then show ?thesis using "6.prems" by auto
  next
    case False
    obtain k er l where en: "erase_entry env (path @ [fst e]) (snd e) = (k, er, l)"
      by (cases "erase_entry env (path @ [fst e]) (snd e)")
    then have "erase_loop env path es (deleted + k) (refusals @ er)
        (case l of None \<Rightarrow> kept | Some nd \<Rightarrow> kept @ [(fst e, nd)]) = (n, errs, rest)"
      using "6.prems"(1) False by simp
    from "6.IH"(2) [OF False en [symmetric] refl this "6.prems"(2)] "6.IH"(1) [OF False en]
    show ?thesis by (auto split: option.splits)
  qed
qed (auto split: if_splits)

lemma map_of_put_child:
  "map_of (put_child name left es) x = (if x = name \<and> map_of es name \<noteq> None then Some (Directory left) else map_of es x)"
  by (induction es) (auto simp: put_child_def)

lemma file_at_children:
  "map_of es (hd q) = map_of es2 (hd q) \<Longrightarrow> q \<noteq> [] \<Longrightarrow> file_at q (Some (Directory es)) = file_at q (Some (Directory es2))"
  by (cases q) (simp_all add: file_at_def node_at_def)

lemma file_at_hollow:
  assumes "map_of es (hd q) = None \<or> (\<exists>x. map_of es (hd q) = Some x \<and> hollow x)" "q \<noteq> []"
  shows "file_at q (Some (Directory es)) = None"
proof (cases q)
  case (Cons c cs)
  show ?thesis
  proof (cases "map_of es c")
    case (Some x)
    then obtain sub where sub: "x = Directory sub" "\<forall>e \<in> set sub. hollow (snd e)"
      using assms(1) Cons by (cases x) auto
    have "\<not> (\<exists>m n. entry_at cs sub = Some (Regular m n))" using hollow_entry [OF sub(2)] by (metis hollow.simps(2))
    then show ?thesis using Some Cons sub(1) by (auto simp: file_at_def node_at_def split: option.splits node.splits)
  qed (simp add: Cons file_at_def node_at_def)
qed (use assms(2) in simp)

lemma eraseTenantTree_gone:
  assumes "eraseTenantTree env owner disk = (n, err, disk')" "q \<noteq> []"
  shows "hd q \<noteq> dec_int owner \<Longrightarrow> file_at q disk' = file_at q disk"
    and "hd q = dec_int owner \<Longrightarrow> err = None \<Longrightarrow> file_at q disk' = None"
proof -
  let ?name = "dec_int owner"
  consider (same) "disk' = disk" "err = None \<longrightarrow> (\<exists>root. disk = Some (Directory root) \<and> map_of root ?name = None)"
    | (swept) root tree errs left where "disk = Some (Directory root)" "map_of root ?name = Some (Directory tree)"
        "eraseTreeFD env [?name] tree = (n, errs, left)" "err = None \<longrightarrow> errs = []"
        "disk' = Some (Directory (put_child ?name left root)) \<or>
         (left = [] \<and> disk' = Some (Directory (filter (\<lambda>e. fst e \<noteq> ?name) root)))"
  proof (cases "openDirNofollow env disk")
    case (Inl e)
    then show ?thesis using same assms(1) by (auto simp: eraseTenantTree_def)
  next
    case (Inr root)
    then have root: "disk = Some (Directory root)"
      by (auto simp: openDirNofollow_def split: option.splits node.splits if_splits)
    show ?thesis
    proof (cases "openChildDir env [] root ?name")
      case (Inl e)
      then show ?thesis
        using same assms(1) Inr root openChildDir_ENOENT [of env "[]" root ?name] by (cases e) (auto simp: eraseTenantTree_def)
    next
      case (Inr tree)
      obtain k errs left where e: "eraseTreeFD env [?name] tree = (k, errs, left)" by (cases "eraseTreeFD env [?name] tree")
      have "k = n" "err = None \<longrightarrow> errs = []" "disk' = Some (Directory (put_child ?name left root)) \<or>
         (left = [] \<and> disk' = Some (Directory (filter (\<lambda>e. fst e \<noteq> ?name) root)))"
        using assms(1) \<open>openDirNofollow env disk = Inr root\<close> Inr e
        by (auto simp: eraseTenantTree_def Let_def split: if_splits)
      then show ?thesis using swept [OF root openChildDir_Inr [OF Inr]] e by blast
    qed
  qed
  note split = this
  show "file_at q disk' = file_at q disk" if "hd q \<noteq> ?name"
    using split
  proof cases
    case swept
    then show ?thesis
      using that assms(2) by (auto intro!: file_at_children simp: map_of_put_child map_of_filter_other)
  qed simp
  show "file_at q disk' = None" if "hd q = ?name" "err = None"
    using split
  proof cases
    case same
    then show ?thesis using that assms(2) file_at_hollow [of _ q] by auto
  next
    case (swept root tree errs left)
    then have "\<forall>e \<in> set left. hollow (snd e)"
      using that(2) erase_hollow(2) [of env "[?name]" tree 0 "[]" "[]" n errs left] by (auto simp: eraseTreeFD_def split: if_splits)
    then show ?thesis
      using swept(2,5) that(1) assms(2) by (auto intro!: file_at_hollow simp: map_of_put_child map_of_filter_other)
  qed
qed

end
