(* ===== verification/Purge.thy ===== *)
theory Purge
  imports Disk Media_Catalogue
begin

text \<open>
  \<open>bot/internal/media/purge/purge.go\<close>: the retention of the attachments, the repair of what a crash between the
  unlink and the row leaves behind, and the erasure of a tenant's attachments.

  The interface \<open>Catalogue\<close> of the code is the record \<open>catalogue\<close> of its methods on an abstract state \<open>'s\<close>, with
  \<open>ct_dead\<close> for whether the context is cancelled in that state. A run works on that state, on the media
  directory, and on the two cursors it keeps in memory. The bounds are those of the code: the loops over batches
  recurse on the number of batches left.
\<close>

section \<open>Constants, counters, interface\<close>

definition PendingMaxAge :: duration where "PendingMaxAge = 48 * 3600 * 10 ^ 9"
definition PurgedRowGrace :: duration where "PurgedRowGrace = 7 * 24 * 3600 * 10 ^ 9"
definition OrphanGrace :: duration where "OrphanGrace = 24 * 3600 * 10 ^ 9"
definition StaleTempAge :: duration where "StaleTempAge = 24 * 3600 * 10 ^ 9"
definition batchSize :: nat where "batchSize = 200"
definition maxBatchesPerTenant :: nat where "maxBatchesPerTenant = 25"
definition maxFilesPerRun :: nat where "maxFilesPerRun = 1000"
definition maxWalkEntries :: nat where "maxWalkEntries = 200000"
definition pathBatch :: nat where "pathBatch = 200"

text \<open>\<open>store.TempPrefix\<close>.\<close>

definition TempPrefix :: gostr where "TempPrefix = runes ''.dl-''"

record Stats =
  st_FilesDeleted :: int
  st_RowsPurged :: int
  st_PendingDeleted :: int
  st_RowsDeleted :: int
  st_Requeued :: int
  st_Orphans :: int
  st_TempRemoved :: int
  st_Refused :: int

definition no_stats :: Stats where
  "no_stats = \<lparr>st_FilesDeleted = 0, st_RowsPurged = 0, st_PendingDeleted = 0, st_RowsDeleted = 0, st_Requeued = 0,
     st_Orphans = 0, st_TempRemoved = 0, st_Refused = 0\<rparr>"

definition add_stats :: "Stats \<Rightarrow> Stats \<Rightarrow> Stats" where
  "add_stats s t = \<lparr>st_FilesDeleted = st_FilesDeleted s + st_FilesDeleted t, st_RowsPurged = st_RowsPurged s + st_RowsPurged t,
     st_PendingDeleted = st_PendingDeleted s + st_PendingDeleted t, st_RowsDeleted = st_RowsDeleted s + st_RowsDeleted t,
     st_Requeued = st_Requeued s + st_Requeued t, st_Orphans = st_Orphans s + st_Orphans t,
     st_TempRemoved = st_TempRemoved s + st_TempRemoved t, st_Refused = st_Refused s + st_Refused t\<rparr>"

definition one_refused :: Stats where "one_refused = no_stats\<lparr>st_Refused := 1\<rparr>"

record 's catalogue =
  ct_dead :: "'s \<Rightarrow> bool"
  ct_ListExpiredStored :: "i64 \<Rightarrow> i64 \<Rightarrow> int \<Rightarrow> nat \<Rightarrow> 's \<Rightarrow> (go_error + File list) \<times> 's"
  ct_ListStoredPage :: "i64 \<Rightarrow> i64 \<Rightarrow> nat \<Rightarrow> 's \<Rightarrow> (go_error + File list) \<times> 's"
  ct_KnownPaths :: "i64 \<Rightarrow> gostr list \<Rightarrow> 's \<Rightarrow> (go_error + gostr set) \<times> 's"
  ct_MarkPurged :: "i64 \<Rightarrow> i64 \<Rightarrow> 's \<Rightarrow> (go_error + unit) \<times> 's"
  ct_MarkPendingRetry :: "i64 \<Rightarrow> i64 \<Rightarrow> 's \<Rightarrow> (go_error + unit) \<times> 's"
  ct_DeleteStalePending :: "i64 \<Rightarrow> duration \<Rightarrow> int \<Rightarrow> nat \<Rightarrow> 's \<Rightarrow> (go_error + int) \<times> 's"
  ct_DeletePurged :: "i64 \<Rightarrow> duration \<Rightarrow> int \<Rightarrow> nat \<Rightarrow> 's \<Rightarrow> (go_error + int) \<times> 's"
  ct_ListTenantPage :: "i64 \<Rightarrow> i64 \<Rightarrow> nat \<Rightarrow> 's \<Rightarrow> (go_error + File list) \<times> 's"
  ct_DeleteTenantBatch :: "i64 \<Rightarrow> nat \<Rightarrow> 's \<Rightarrow> (go_error + int) \<times> 's"

record purge_config =
  pc_DryRun :: bool
  pc_Now :: instant
  pc_fs :: fs_env
  pc_guard :: "i64 \<Rightarrow> go_error option" \<comment> \<open>how the wait for the shared exclusion of a tenant ends\<close>

record 's purger =
  pu_db :: 's
  pu_disk :: "node option"
  pu_rowCursor :: "i64 \<Rightarrow> i64"
  pu_pathCursor :: "i64 \<Rightarrow> gostr"

section \<open>Removing the files of a row\<close>

fun remove_rels :: "fs_env \<Rightarrow> i64 \<Rightarrow> bool \<Rightarrow> gostr list \<Rightarrow> Stats \<Rightarrow> node option \<Rightarrow> Stats \<times> go_error option \<times> node option" where
  "remove_rels env owner dryRun [] stats disk = (stats, None, disk)"
| "remove_rels env owner dryRun (rel # rels) stats disk =
     (if rel = [] then remove_rels env owner dryRun rels stats disk
      else case removeRel env owner rel dryRun disk of
          (Inl err, disk') \<Rightarrow> (add_stats stats one_refused, Some err, disk')
        | (Inr removed, disk') \<Rightarrow>
            remove_rels env owner dryRun rels
              (if removed then add_stats stats (no_stats\<lparr>st_FilesDeleted := 1\<rparr>) else stats) disk')"

definition removeFiles :: "fs_env \<Rightarrow> i64 \<Rightarrow> File \<Rightarrow> bool \<Rightarrow> node option \<Rightarrow> Stats \<times> go_error option \<times> node option" where
  "removeFiles env owner f dryRun disk =
     remove_rels env owner dryRun [file_RelativePath f, file_ThumbnailRelativePath f] no_stats disk"

section \<open>Retention\<close>

text \<open>The loop over a batch ends in \<open>Some\<close> what the phase returns, or in \<open>None\<close> with the cursor it reached.\<close>

fun expire_files :: "'s catalogue \<Rightarrow> purge_config \<Rightarrow> i64 \<Rightarrow> File list \<Rightarrow> i64 \<Rightarrow> Stats \<Rightarrow> 's purger \<Rightarrow>
    go_error option option \<times> i64 \<times> Stats \<times> 's purger" where
  "expire_files cat cfg owner [] cursor stats p = (None, cursor, stats, p)"
| "expire_files cat cfg owner (f # fs) cursor stats p =
     (if ct_dead cat (pu_db p) then (Some None, cursor, stats, p)
      else
        let (unlinked, err, disk') = removeFiles (pc_fs cfg) owner f (pc_DryRun cfg) (pu_disk p);
            p' = p\<lparr>pu_disk := disk'\<rparr>;
            stats' = add_stats stats unlinked;
            purged = add_stats stats' (no_stats\<lparr>st_RowsPurged := 1\<rparr>)
        in case err of
            Some _ \<Rightarrow> expire_files cat cfg owner fs (file_ID f) stats' p'
          | None \<Rightarrow>
              if pc_DryRun cfg then expire_files cat cfg owner fs (file_ID f) purged p'
              else (case ct_MarkPurged cat owner (file_ID f) (pu_db p) of
                  (Inl e, db') \<Rightarrow>
                    if errors_is e ErrMediaNotFound then expire_files cat cfg owner fs (file_ID f) stats' (p'\<lparr>pu_db := db'\<rparr>)
                    else (Some (Some e), file_ID f, stats', p'\<lparr>pu_db := db'\<rparr>)
                | (Inr _, db') \<Rightarrow> expire_files cat cfg owner fs (file_ID f) purged (p'\<lparr>pu_db := db'\<rparr>)))"

fun expire_batches :: "'s catalogue \<Rightarrow> purge_config \<Rightarrow> i64 \<Rightarrow> int \<Rightarrow> nat \<Rightarrow> i64 \<Rightarrow> Stats \<Rightarrow> 's purger \<Rightarrow>
    Stats \<times> go_error option \<times> 's purger" where
  "expire_batches cat cfg owner days 0 cursor stats p = (stats, None, p)"
| "expire_batches cat cfg owner days (Suc n) cursor stats p =
     (if ct_dead cat (pu_db p) then (stats, None, p)
      else case ct_ListExpiredStored cat owner cursor days batchSize (pu_db p) of
          (Inl err, db') \<Rightarrow> (stats, Some err, p\<lparr>pu_db := db'\<rparr>)
        | (Inr files, db') \<Rightarrow>
            (case expire_files cat cfg owner files cursor stats (p\<lparr>pu_db := db'\<rparr>) of
               (Some err, _, stats', p') \<Rightarrow> (stats', err, p')
             | (None, cursor', stats', p') \<Rightarrow>
                 if pc_DryRun cfg \<or> length files < batchSize then (stats', None, p')
                 else expire_batches cat cfg owner days n cursor' stats' p'))"

definition purgeExpired :: "'s catalogue \<Rightarrow> purge_config \<Rightarrow> TenantRetention \<Rightarrow> 's purger \<Rightarrow> Stats \<times> go_error option \<times> 's purger" where
  "purgeExpired cat cfg t p =
     expire_batches cat cfg (tr_OwnerUserID t) (tr_RetentionDays t) maxBatchesPerTenant 0 no_stats p"

section \<open>Rows without a file\<close>

fun delete_rows :: "'s catalogue \<Rightarrow> ('s \<Rightarrow> (go_error + int) \<times> 's) \<Rightarrow> (int \<Rightarrow> Stats) \<Rightarrow> nat \<Rightarrow> Stats \<Rightarrow> 's purger \<Rightarrow>
    go_error option option \<times> Stats \<times> 's purger" where
  "delete_rows cat del count 0 stats p = (None, stats, p)"
| "delete_rows cat del count (Suc n) stats p =
     (if ct_dead cat (pu_db p) then (Some None, stats, p)
      else case del (pu_db p) of
          (Inl err, db') \<Rightarrow> (Some (Some err), stats, p\<lparr>pu_db := db'\<rparr>)
        | (Inr deleted, db') \<Rightarrow>
            if deleted < int batchSize then (None, add_stats stats (count deleted), p\<lparr>pu_db := db'\<rparr>)
            else delete_rows cat del count n (add_stats stats (count deleted)) (p\<lparr>pu_db := db'\<rparr>))"

definition purgeRows :: "'s catalogue \<Rightarrow> purge_config \<Rightarrow> TenantRetention \<Rightarrow> 's purger \<Rightarrow> Stats \<times> go_error option \<times> 's purger" where
  "purgeRows cat cfg t p =
     (if pc_DryRun cfg then (no_stats, None, p)
      else case delete_rows cat (ct_DeleteStalePending cat (tr_OwnerUserID t) PendingMaxAge (tr_RetentionDays t) batchSize)
             (\<lambda>n. no_stats\<lparr>st_PendingDeleted := n\<rparr>) maxBatchesPerTenant no_stats p of
          (Some err, stats, p') \<Rightarrow> (stats, err, p')
        | (None, stats, p') \<Rightarrow>
            (case delete_rows cat (ct_DeletePurged cat (tr_OwnerUserID t) PurgedRowGrace (tr_RetentionDays t) batchSize)
               (\<lambda>n. no_stats\<lparr>st_RowsDeleted := n\<rparr>) maxBatchesPerTenant stats p' of
               (Some err, stats', p'') \<Rightarrow> (stats', err, p'')
             | (None, stats', p'') \<Rightarrow> (stats', None, p'')))"

section \<open>Rows whose file is gone\<close>

fun reconcile_files :: "'s catalogue \<Rightarrow> purge_config \<Rightarrow> i64 \<Rightarrow> instant \<Rightarrow> File list \<Rightarrow> i64 \<Rightarrow> Stats \<Rightarrow> 's purger \<Rightarrow>
    go_error option option \<times> i64 \<times> Stats \<times> 's purger" where
  "reconcile_files cat cfg owner expiry [] cursor stats p = (None, cursor, stats, p)"
| "reconcile_files cat cfg owner expiry (f # fs) cursor stats p =
     (let next = reconcile_files cat cfg owner expiry fs (file_ID f);
          missing =
            (let expired = file_CreatedAt f < expiry in
             if pc_DryRun cfg then next stats p
             else if expired then
               (case ct_MarkPurged cat owner (file_ID f) (pu_db p) of
                  (Inl e, db') \<Rightarrow> if errors_is e ErrMediaNotFound then next stats (p\<lparr>pu_db := db'\<rparr>)
                                 else (Some (Some e), file_ID f, stats, p\<lparr>pu_db := db'\<rparr>)
                | (Inr _, db') \<Rightarrow> next (add_stats stats (no_stats\<lparr>st_RowsPurged := 1\<rparr>)) (p\<lparr>pu_db := db'\<rparr>))
             else
               (case ct_MarkPendingRetry cat owner (file_ID f) (pu_db p) of
                  (Inl e, db') \<Rightarrow> if errors_is e ErrMediaNotFound then next stats (p\<lparr>pu_db := db'\<rparr>)
                                 else (Some (Some e), file_ID f, stats, p\<lparr>pu_db := db'\<rparr>)
                | (Inr _, db') \<Rightarrow> next (add_stats stats (no_stats\<lparr>st_Requeued := 1\<rparr>)) (p\<lparr>pu_db := db'\<rparr>)))
      in case statRel (pc_fs cfg) owner (file_RelativePath f) (pu_disk p) of
          Inr nd \<Rightarrow> if isRegular nd then next stats p else next (add_stats stats one_refused) p
        | Inl err \<Rightarrow>
            if \<not> errors_is err ErrNotExist then
              (if errors_is err ErrUnsafeTarget \<or> errors_is err ErrUnsafeRelativePath
               then next (add_stats stats one_refused) p
               else (Some (Some (Msg ''inspecting stored media'' # err)), file_ID f, stats, p))
            else missing)"

function reconcile_pages :: "'s catalogue \<Rightarrow> purge_config \<Rightarrow> i64 \<Rightarrow> instant \<Rightarrow> nat \<Rightarrow> i64 \<Rightarrow> Stats \<Rightarrow> 's purger \<Rightarrow>
    Stats \<times> go_error option \<times> 's purger" where
  "reconcile_pages cat cfg owner expiry scanned cursor stats p =
     (if maxFilesPerRun \<le> scanned then (stats, None, p\<lparr>pu_rowCursor := (pu_rowCursor p)(owner := cursor)\<rparr>)
      else if ct_dead cat (pu_db p) then (stats, None, p)
      else
        let n = min batchSize (maxFilesPerRun - scanned)
        in case ct_ListStoredPage cat owner cursor n (pu_db p) of
            (Inl err, db') \<Rightarrow> (stats, Some err, p\<lparr>pu_db := db'\<rparr>)
          | (Inr files, db') \<Rightarrow>
              (case reconcile_files cat cfg owner expiry files cursor stats (p\<lparr>pu_db := db'\<rparr>) of
                 (Some err, _, stats', p') \<Rightarrow> (stats', err, p')
               | (None, cursor', stats', p') \<Rightarrow>
                   if length files < n then (stats', None, p'\<lparr>pu_rowCursor := (pu_rowCursor p')(owner := 0)\<rparr>)
                   else reconcile_pages cat cfg owner expiry (scanned + length files) cursor' stats' p'))"
  by pat_completeness auto
termination
  by (relation "measure (\<lambda>(_, _, _, _, scanned, _, _, _). maxFilesPerRun - scanned)")
    (auto simp: maxFilesPerRun_def batchSize_def)

definition reconcileRows :: "'s catalogue \<Rightarrow> purge_config \<Rightarrow> TenantRetention \<Rightarrow> 's purger \<Rightarrow> Stats \<times> go_error option \<times> 's purger" where
  "reconcileRows cat cfg t p =
     (let owner = tr_OwnerUserID t; expiry = days_ago (pc_Now cfg) (tr_RetentionDays t)
      in reconcile_pages cat cfg owner expiry 0 (pu_rowCursor p owner) no_stats p)"

section \<open>Files without a row\<close>

record candidate =
  ca_rel :: gostr
  ca_modTime :: instant

text \<open>\<open>filepath.Base\<close> of a relative path.\<close>

definition path_base :: "gostr \<Rightarrow> gostr" where
  "path_base rel = last (components rel)"

definition has_prefix :: "gostr \<Rightarrow> gostr \<Rightarrow> bool" where
  "has_prefix pre t \<longleftrightarrow> take (length pre) t = pre"

fun sweep_candidates :: "purge_config \<Rightarrow> i64 \<Rightarrow> gostr set \<Rightarrow> candidate list \<Rightarrow> Stats \<Rightarrow> node option \<Rightarrow> Stats \<times> node option" where
  "sweep_candidates cfg owner known [] stats disk = (stats, disk)"
| "sweep_candidates cfg owner known (c # cs) stats disk =
     (if ca_rel c \<in> known then sweep_candidates cfg owner known cs stats disk
      else
        let age = pc_Now cfg - ca_modTime c; temp = has_prefix TempPrefix (path_base (ca_rel c))
        in if temp \<and> age < StaleTempAge \<or> \<not> temp \<and> age < OrphanGrace
           then sweep_candidates cfg owner known cs stats disk
           else case removeRel (pc_fs cfg) owner (ca_rel c) (pc_DryRun cfg) disk of
               (Inl err, disk') \<Rightarrow> sweep_candidates cfg owner known cs (add_stats stats one_refused) disk'
             | (Inr removed, disk') \<Rightarrow>
                 sweep_candidates cfg owner known cs
                   (if \<not> removed then stats
                    else add_stats stats (if temp then no_stats\<lparr>st_TempRemoved := 1\<rparr> else no_stats\<lparr>st_Orphans := 1\<rparr>)) disk')"

definition sweepBatch :: "'s catalogue \<Rightarrow> purge_config \<Rightarrow> i64 \<Rightarrow> candidate list \<Rightarrow> Stats \<Rightarrow> 's purger \<Rightarrow>
    go_error option \<times> Stats \<times> 's purger" where
  "sweepBatch cat cfg owner batch stats p =
     (case ct_KnownPaths cat owner (map ca_rel batch) (pu_db p) of
        (Inl err, db') \<Rightarrow> (Some err, stats, p\<lparr>pu_db := db'\<rparr>)
      | (Inr known, db') \<Rightarrow>
          (case sweep_candidates cfg owner known batch stats (pu_disk p) of
             (stats', disk') \<Rightarrow> (None, stats', p\<lparr>pu_db := db', pu_disk := disk'\<rparr>)))"

text \<open>
  \<open>filepath.WalkDir\<close> visits a directory, then its entries in the order of their names. \<open>walk\<close> is the list of its
  calls: an entry with its path, or the error of a directory it could not list, which ends the walk. The walk of an
  erased or empty tenant finds nothing; a media root that is a link is not entered.
\<close>

datatype walk_call = Visit "gostr list" node | WalkError

function walk :: "fs_env \<Rightarrow> gostr list \<Rightarrow> node \<Rightarrow> walk_call list" and
    walk_entries :: "fs_env \<Rightarrow> gostr list \<Rightarrow> (gostr \<times> node) list \<Rightarrow> walk_call list" where
  "walk env path nd = Visit path nd # (case nd of
      Directory es \<Rightarrow> if fe_list env path then walk_entries env path (sort_key fst es) else [WalkError]
    | _ \<Rightarrow> [])"
| "walk_entries env path [] = []"
| "walk_entries env path (e # es) = walk env (path @ [fst e]) (snd e) @ walk_entries env path es"
  by pat_completeness auto

lemma size_list_sort: "size_list f (sort_key k xs) = size_list f xs"
proof -
  have insert: "size_list f (insort_key k x ys) = f x + 1 + size_list f ys" for x ys by (induction ys) auto
  show ?thesis by (induction xs) (simp_all add: insert)
qed

termination walk
proof (relation "measure (\<lambda>x. case x of Inl (_, _, nd) \<Rightarrow> 2 * size nd | Inr (_, _, es) \<Rightarrow> 2 * size_list (\<lambda>e. size (snd e)) es + 1)",
    goal_cases)
  case (2 env path nd es)
  then show ?case using size_list_pairs [of es] by (simp add: size_list_sort)
qed auto

definition walk_tenant :: "fs_env \<Rightarrow> i64 \<Rightarrow> node option \<Rightarrow> walk_call list" where
  "walk_tenant env owner disk = (case disk of
      Some (Directory root) \<Rightarrow> (case map_of root (dec_int owner) of None \<Rightarrow> [] | Some nd \<Rightarrow> walk env [dec_int owner] nd)
    | _ \<Rightarrow> [])"

definition join_path :: "gostr list \<Rightarrow> gostr" where
  "join_path = join [sep]"

record 's walk_state =
  ws_batch :: "candidate list"
  ws_lastRel :: gostr
  ws_visited :: nat
  ws_examined :: nat
  ws_completed :: bool
  ws_stats :: Stats
  ws_purger :: "'s purger"

text \<open>How the walk ended: it went through or was skipped (\<open>None\<close>), or an error of the walk or of a flush.\<close>

datatype walk_end = WalkFailed go_error | FlushFailed go_error

definition flush :: "'s catalogue \<Rightarrow> purge_config \<Rightarrow> i64 \<Rightarrow> 's walk_state \<Rightarrow> go_error option \<times> 's walk_state" where
  "flush cat cfg owner w =
     (if ws_batch w = [] then (None, w)
      else case sweepBatch cat cfg owner (ws_batch w) (ws_stats w) (ws_purger w) of
          (err, stats, p) \<Rightarrow> (err, w\<lparr>ws_batch := [], ws_stats := stats, ws_purger := p\<rparr>))"

fun walk_loop :: "'s catalogue \<Rightarrow> purge_config \<Rightarrow> i64 \<Rightarrow> gostr \<Rightarrow> walk_call list \<Rightarrow> 's walk_state \<Rightarrow> walk_end option \<times> 's walk_state" where
  "walk_loop cat cfg owner cursor [] w = (None, w)"
| "walk_loop cat cfg owner cursor (WalkError # calls) w = (Some (WalkFailed [Msg ''walking media'']), w)"
| "walk_loop cat cfg owner cursor (Visit path nd # calls) w =
     (if ct_dead cat (pu_db (ws_purger w)) then (None, w\<lparr>ws_completed := False\<rparr>)
      else
        let w1 = w\<lparr>ws_visited := ws_visited w + 1\<rparr>; rel = join_path path;
            refuse = w1\<lparr>ws_stats := add_stats (ws_stats w1) one_refused\<rparr>
        in if maxWalkEntries < ws_visited w1 then (None, w1\<lparr>ws_completed := False\<rparr>)
           else if isDir nd then walk_loop cat cfg owner cursor calls w1
           else if rel \<le> cursor then walk_loop cat cfg owner cursor calls w1
           else (case nd of
               Regular modTime _ \<Rightarrow>
                 if maxFilesPerRun \<le> ws_examined w1 then (None, w1\<lparr>ws_completed := False\<rparr>)
                 else if \<not> fe_stat (pc_fs cfg) path then (Some (WalkFailed [Msg ''stat'']), w1)
                 else
                   let w2 = w1\<lparr>ws_examined := ws_examined w1 + 1, ws_lastRel := rel,
                               ws_batch := ws_batch w1 @ [\<lparr>ca_rel = rel, ca_modTime = modTime\<rparr>]\<rparr>
                   in if pathBatch \<le> length (ws_batch w2)
                      then (case flush cat cfg owner w2 of
                          (Some err, w3) \<Rightarrow> (Some (FlushFailed err), w3)
                        | (None, w3) \<Rightarrow> walk_loop cat cfg owner cursor calls w3)
                      else walk_loop cat cfg owner cursor calls w2
             | _ \<Rightarrow> walk_loop cat cfg owner cursor calls refuse))"

definition reconcileDisk :: "'s catalogue \<Rightarrow> purge_config \<Rightarrow> TenantRetention \<Rightarrow> 's purger \<Rightarrow> Stats \<times> go_error option \<times> 's purger" where
  "reconcileDisk cat cfg t p =
     (let owner = tr_OwnerUserID t; cursor = pu_pathCursor p owner;
          start = \<lparr>ws_batch = [], ws_lastRel = [], ws_visited = 0, ws_examined = 0, ws_completed = True,
                   ws_stats = no_stats, ws_purger = p\<rparr>;
          (failed, w) = walk_loop cat cfg owner cursor (walk_tenant (pc_fs cfg) owner (pu_disk p)) start;
          (flushErr, w') = (case failed of None \<Rightarrow> flush cat cfg owner w | Some _ \<Rightarrow> (None, w))
      in case failed of
          Some (FlushFailed err) \<Rightarrow> (ws_stats w', Some err, ws_purger w')
        | Some (WalkFailed err) \<Rightarrow> (ws_stats w', Some err, ws_purger w')
        | None \<Rightarrow>
            (case flushErr of
               Some err \<Rightarrow> (ws_stats w', Some err, ws_purger w')
             | None \<Rightarrow>
                 let q = ws_purger w'
                 in (ws_stats w', None,
                     if ws_completed w' then q\<lparr>pu_pathCursor := (pu_pathCursor q)(owner := [])\<rparr>
                     else if ws_lastRel w' \<noteq> [] then q\<lparr>pu_pathCursor := (pu_pathCursor q)(owner := ws_lastRel w')\<rparr>
                     else q)))"

section \<open>A run over the tenants\<close>

definition join_errors :: "go_error option list \<Rightarrow> go_error option" where
  "join_errors errs = (let es = concat (map (\<lambda>e. case e of None \<Rightarrow> [] | Some err \<Rightarrow> [err]) errs)
     in if es = [] then None else Some (concat es))"

definition runTenant :: "'s catalogue \<Rightarrow> purge_config \<Rightarrow> TenantRetention \<Rightarrow> 's purger \<Rightarrow> Stats \<times> go_error option \<times> 's purger" where
  "runTenant cat cfg t p =
     (let (s1, e1, p1) = purgeExpired cat cfg t p;
          (s2, e2, p2) = purgeRows cat cfg t p1;
          (s3, e3, p3) = reconcileRows cat cfg t p2;
          (s4, e4, p4) = reconcileDisk cat cfg t p3
      in (add_stats (add_stats (add_stats s1 s2) s3) s4, join_errors [e1, e2, e3, e4], p4))"

definition runTenantGuarded :: "'s catalogue \<Rightarrow> purge_config \<Rightarrow> TenantRetention \<Rightarrow> 's purger \<Rightarrow> Stats \<times> go_error option \<times> 's purger" where
  "runTenantGuarded cat cfg t p =
     (case pc_guard cfg (tr_OwnerUserID t) of
        Some err \<Rightarrow> (no_stats, Some (Msg ''media purge exclusion'' # err), p)
      | None \<Rightarrow> runTenant cat cfg t p)"

fun run_tenants :: "'s catalogue \<Rightarrow> purge_config \<Rightarrow> TenantRetention list \<Rightarrow> Stats \<Rightarrow> go_error option list \<Rightarrow> 's purger \<Rightarrow>
    Stats \<times> go_error option \<times> 's purger" where
  "run_tenants cat cfg [] stats failures p = (stats, join_errors failures, p)"
| "run_tenants cat cfg (t # ts) stats failures p =
     (if ct_dead cat (pu_db p) then (stats, join_errors failures, p)
      else let (s, err, p') = runTenantGuarded cat cfg t p in
        run_tenants cat cfg ts (add_stats stats s)
          (if err \<noteq> None \<and> \<not> ct_dead cat (pu_db p') then failures @ [err] else failures) p')"

definition Purger_Run :: "'s catalogue \<Rightarrow> purge_config \<Rightarrow> TenantRetention list \<Rightarrow> 's purger \<Rightarrow> Stats \<times> go_error option \<times> 's purger" where
  "Purger_Run cat cfg tenants p =
     (case stat_root (pu_disk p) of
        Some err \<Rightarrow> (no_stats, Some err, p)
      | None \<Rightarrow> run_tenants cat cfg tenants no_stats [] p)"

section \<open>Erasing a tenant\<close>

text \<open>The two loops of \<open>EraseTenant\<close> have no bound of their own: \<open>fuel\<close> is how many pages, or batches, they may take,
  and \<open>None\<close> means that it was not enough. The dry run does not apply.\<close>

fun erase_files :: "fs_env \<Rightarrow> i64 \<Rightarrow> File list \<Rightarrow> i64 \<Rightarrow> int \<Rightarrow> node option \<Rightarrow> go_error option \<times> i64 \<times> int \<times> node option" where
  "erase_files env owner [] cursor files disk = (None, cursor, files, disk)"
| "erase_files env owner (f # fs) cursor files disk =
     (let (removed, err, disk') = removeFiles env owner f False disk;
          files' = files + st_FilesDeleted removed
      in case err of
          Some e \<Rightarrow> (Some (Msg ''media erasure'' # e), file_ID f, files', disk')
        | None \<Rightarrow> erase_files env owner fs (file_ID f) files' disk')"

fun erase_pages :: "nat \<Rightarrow> 's catalogue \<Rightarrow> fs_env \<Rightarrow> i64 \<Rightarrow> i64 \<Rightarrow> int \<Rightarrow> 's \<times> node option \<Rightarrow>
    (go_error option \<times> int \<times> 's \<times> node option) option" where
  "erase_pages 0 cat env owner cursor files (db, disk) = None"
| "erase_pages (Suc fuel) cat env owner cursor files (db, disk) =
     (if ct_dead cat db then Some (Some [CtxCanceled], files, db, disk)
      else case ct_ListTenantPage cat owner cursor batchSize db of
          (Inl err, db') \<Rightarrow> Some (Some err, files, db', disk)
        | (Inr batch, db') \<Rightarrow>
            (case erase_files env owner batch cursor files disk of
               (Some err, _, files', disk') \<Rightarrow> Some (Some err, files', db', disk')
             | (None, cursor', files', disk') \<Rightarrow>
                 if length batch < batchSize then Some (None, files', db', disk')
                 else erase_pages fuel cat env owner cursor' files' (db', disk')))"

fun erase_rows :: "nat \<Rightarrow> 's catalogue \<Rightarrow> i64 \<Rightarrow> int \<Rightarrow> 's \<Rightarrow> (go_error option \<times> int \<times> 's) option" where
  "erase_rows 0 cat owner rows db = None"
| "erase_rows (Suc fuel) cat owner rows db =
     (if ct_dead cat db then Some (Some [CtxCanceled], rows, db)
      else case ct_DeleteTenantBatch cat owner batchSize db of
          (Inl err, db') \<Rightarrow> Some (Some err, rows, db')
        | (Inr deleted, db') \<Rightarrow>
            if deleted = 0 then Some (None, rows + deleted, db') else erase_rows fuel cat owner (rows + deleted) db')"

definition EraseTenant :: "nat \<Rightarrow> 's catalogue \<Rightarrow> fs_env \<Rightarrow> i64 \<Rightarrow> 's \<times> node option \<Rightarrow>
    ((int \<times> int \<times> go_error option) \<times> 's \<times> node option) option" where
  "EraseTenant fuel cat env owner s =
     (case stat_root (snd s) of
        Some err \<Rightarrow> Some ((0, 0, Some err), s)
      | None \<Rightarrow>
          (case erase_pages fuel cat env owner 0 0 s of
             None \<Rightarrow> None
           | Some (Some err, files, db, disk) \<Rightarrow> Some ((files, 0, Some err), db, disk)
           | Some (None, files, db, disk) \<Rightarrow>
               (case erase_rows fuel cat owner 0 db of
                  None \<Rightarrow> None
                | Some (Some err, rows, db') \<Rightarrow> Some ((files, rows, Some err), db', disk)
                | Some (None, rows, db') \<Rightarrow>
                    let (swept, err, disk') = eraseTenantTree env owner disk
                    in Some ((files + swept, rows, err), db', disk'))))"

section \<open>The catalogue in PostgreSQL\<close>

text \<open>Each call takes the next transaction of \<open>pv_tx\<close>, at the next time of \<open>pv_now\<close>; \<open>pv_dead\<close> says before which
  calls the context is cancelled.\<close>

record pg_media =
  pm_table :: media_table
  pm_calls :: nat

record pg_media_env =
  pv_tx :: "nat \<Rightarrow> tx_env"
  pv_now :: "nat \<Rightarrow> instant"
  pv_dead :: "nat \<Rightarrow> bool"

definition pg_media_read :: "(tx_env \<Rightarrow> instant \<Rightarrow> media_table \<Rightarrow> go_error + 'a) \<Rightarrow> pg_media_env \<Rightarrow> pg_media \<Rightarrow> (go_error + 'a) \<times> pg_media" where
  "pg_media_read q v s = (q (pv_tx v (pm_calls s)) (pv_now v (pm_calls s)) (pm_table s), s\<lparr>pm_calls := pm_calls s + 1\<rparr>)"

definition pg_media_write :: "(tx_env \<Rightarrow> instant \<Rightarrow> media_table \<Rightarrow> (go_error + 'a) \<times> media_table) \<Rightarrow> pg_media_env \<Rightarrow> pg_media \<Rightarrow>
    (go_error + 'a) \<times> pg_media" where
  "pg_media_write q v s =
     (case q (pv_tx v (pm_calls s)) (pv_now v (pm_calls s)) (pm_table s) of
        (r, mt) \<Rightarrow> (r, \<lparr>pm_table = mt, pm_calls = pm_calls s + 1\<rparr>))"

definition pg_catalogue :: "pg_media_env \<Rightarrow> pg_media catalogue" where
  "pg_catalogue v = \<lparr>
     ct_dead = (\<lambda>s. pv_dead v (pm_calls s)),
     ct_ListExpiredStored = (\<lambda>owner after days n. pg_media_read (\<lambda>tx now. ListExpiredStored tx now owner after days n) v),
     ct_ListStoredPage = (\<lambda>owner after n. pg_media_read (\<lambda>tx now. ListStoredPage tx owner after n) v),
     ct_KnownPaths = (\<lambda>owner rels. pg_media_read (\<lambda>tx now. KnownPaths tx owner rels) v),
     ct_MarkPurged = (\<lambda>owner i. pg_media_write (\<lambda>tx now. MarkPurged tx now owner i) v),
     ct_MarkPendingRetry = (\<lambda>owner i. pg_media_write (\<lambda>tx now. MarkPendingRetry tx now owner i) v),
     ct_DeleteStalePending = (\<lambda>owner age days n. pg_media_write (\<lambda>tx now. DeleteStalePending tx now owner age days n) v),
     ct_DeletePurged = (\<lambda>owner grace days n. pg_media_write (\<lambda>tx now. DeletePurged tx now owner grace days n) v),
     ct_ListTenantPage = (\<lambda>owner after n. pg_media_read (\<lambda>tx now. ListTenantPage tx owner after n) v),
     ct_DeleteTenantBatch = (\<lambda>owner n. pg_media_write (\<lambda>tx now. DeleteTenantBatch tx owner n) v)\<rparr>"

section \<open>The erasure of a tenant's attachments\<close>

lemma media_page_Inr:
  assumes "media_page tx P n owner mt = Inr files"
  shows "files = scanFiles (take n (sort_key mf_id (t_select mf_owner owner P (mt_rows mt))))"
proof -
  let ?q = "\<lambda>t mt. Inr (scanFiles (take n (sort_key mf_id (t_select mf_owner t P (mt_rows mt)))), mt)"
  have "InTenant tx ?q owner mt = (Inr files, snd (InTenant tx ?q owner mt))"
    using assms by (simp add: media_page_def media_read_def prod_eq_iff)
  from InTenant_Inr [OF this] show ?thesis by simp
qed

lemma pg_read_table [simp]: "pm_table (snd (pg_media_read q v s)) = pm_table s"
  by (simp add: pg_media_read_def)

lemma pg_write_table:
  "pg_media_write q v s = (r, s') \<Longrightarrow> q (pv_tx v (pm_calls s)) (pv_now v (pm_calls s)) (pm_table s) = (r, pm_table s')"
  by (auto simp: pg_media_write_def split: prod.splits)

lemma pg_tenant_page:
  assumes "ct_ListTenantPage (pg_catalogue v) owner after n s = (Inr files, s')"
  shows "files = scanFiles (take n (sort_key mf_id (t_select mf_owner owner (\<lambda>r. after < mf_id r) (mt_rows (pm_table s)))))"
    "pm_table s' = pm_table s"
  using assms media_page_Inr by (auto simp: pg_catalogue_def pg_media_read_def ListTenantPage_def)

lemma pg_tenant_page_error: "ct_ListTenantPage (pg_catalogue v) owner after n s = (r, s') \<Longrightarrow> pm_table s' = pm_table s"
  by (auto simp: pg_catalogue_def pg_media_read_def)

lemma removeFiles_file:
  "removeFiles env owner f dryRun disk = (stats, err, disk') \<Longrightarrow>
    file_at q disk' = file_at q disk \<or>
    ((q = components (file_RelativePath f) \<or> q = components (file_ThumbnailRelativePath f)) \<and> hd q = dec_int owner \<and> \<not> dryRun)"
  unfolding removeFiles_def
  using removeRel_file [of env owner "file_RelativePath f" dryRun disk _ _ q]
    removeRel_file [of env owner "file_ThumbnailRelativePath f" dryRun _ _ _ q]
  by (auto split: if_splits prod.splits sum.splits) metis+

lemma erase_files_cursor:
  "erase_files env owner fs cursor files disk = (None, cursor', files', disk') \<Longrightarrow>
    cursor' = (if fs = [] then cursor else file_ID (last fs))"
  by (induction env owner fs cursor files disk rule: erase_files.induct) (auto simp: Let_def split: prod.splits option.splits if_splits)

lemma erase_files_others:
  "erase_files env owner fs cursor files disk = (err, cursor', files', disk') \<Longrightarrow> hd q \<noteq> dec_int owner \<Longrightarrow>
    file_at q disk' = file_at q disk"
proof (induction env owner fs cursor files disk rule: erase_files.induct)
  case (2 env owner f fs cursor files disk)
  obtain st e d where r: "removeFiles env owner f False disk = (st, e, d)" by (cases "removeFiles env owner f False disk")
  then have "file_at q d = file_at q disk" using removeFiles_file [OF r, of q] "2.prems"(2) by blast
  then show ?case using 2 r by (auto simp: Let_def split: option.splits)
qed simp

lemma erase_pages_others:
  "erase_pages fuel (pg_catalogue v) env owner cursor files (db, disk) = Some (err, files', db', disk') \<Longrightarrow>
    pm_table db' = pm_table db \<and> (hd q \<noteq> dec_int owner \<longrightarrow> file_at q disk' = file_at q disk)"
proof (induction fuel arbitrary: cursor files db disk)
  case (Suc fuel)
  show ?case
  proof (cases "ct_dead (pg_catalogue v) db")
    case False
    obtain r db1 where p: "ct_ListTenantPage (pg_catalogue v) owner cursor batchSize db = (r, db1)"
      by (cases "ct_ListTenantPage (pg_catalogue v) owner cursor batchSize db")
    have t: "pm_table db1 = pm_table db" by (rule pg_tenant_page_error [OF p])
    show ?thesis
    proof (cases r)
      case (Inr batch)
      obtain e c f d where ef: "erase_files env owner batch cursor files disk = (e, c, f, d)"
        by (cases "erase_files env owner batch cursor files disk")
      have "hd q \<noteq> dec_int owner \<Longrightarrow> file_at q d = file_at q disk" using erase_files_others [OF ef] by blast
      then show ?thesis using Suc.prems Suc.IH [of c f db1 d] False p Inr ef t by (auto split: option.splits if_splits)
    qed (use Suc.prems False p t in auto)
  qed (use Suc.prems in auto)
qed simp

lemma pg_delete_batch:
  assumes "ct_DeleteTenantBatch (pg_catalogue v) owner n db = (r, db')" "media_inv (pm_table db)"
  defines "rows \<equiv> mt_rows (pm_table db)"
  defines "rows' \<equiv> mt_rows (pm_table db')"
  shows "media_inv (pm_table db')" "others mf_owner owner rows' = others mf_owner owner rows"
    "r = Inr k \<Longrightarrow> k = int (min n (length (mine mf_owner owner rows))) \<and>
      length (mine mf_owner owner rows') + nat k = length (mine mf_owner owner rows)"
proof -
  let ?tx = "pv_tx v (pm_calls db)"
  have d: "DeleteTenantBatch ?tx owner n (pm_table db) = (r, pm_table db')"
    using assms(1) pg_write_table [of "\<lambda>tx now. DeleteTenantBatch tx owner n" v db r db'] by (simp add: pg_catalogue_def)
  have step: "pm_table db' = media_step (MediaDeleteTenant ?tx n) owner (pm_table db)" using d by simp
  show "media_inv (pm_table db')" unfolding step by (rule media_inv_step [OF assms(2)])
  show "others mf_owner owner rows' = others mf_owner owner rows"
    unfolding rows_def rows'_def step by (rule media_step_frame)
  assume k: "r = Inr k"
  have b: "delete_batch (\<lambda>r. mf_owner r = owner) n owner (pm_table db) = Inr (k, pm_table db')"
    using InTenant_Inr [OF d [unfolded k DeleteTenantBatch_def]] by simp
  have own: "t_select mf_owner owner (\<lambda>r. mf_owner r = owner) rows = mine mf_owner owner rows"
    by (simp add: t_select_def mine_def)
  have "k = int (min n (length (mine mf_owner owner rows)))"
    using delete_batch_rows(3) [OF _ b] assms(2) own by (simp add: media_inv_def rows_def)
  moreover have "length (mine mf_owner owner rows') + nat k = length (mine mf_owner owner rows)"
  proof -
    let ?ids = "set (map mf_id (take n (sort_key mf_id (t_select mf_owner owner (\<lambda>r. mf_owner r = owner) rows))))"
    have "pm_table db' = (pm_table db)\<lparr>mt_rows := t_delete mf_owner owner (\<lambda>r. mf_id r \<in> ?ids) rows\<rparr>"
      and "k = int (length (t_select mf_owner owner (\<lambda>r. mf_id r \<in> ?ids) rows))"
      using b by (simp_all add: delete_batch_def Let_def rows_def eq_commute)
    then have "rows' = t_delete mf_owner owner (\<lambda>r. mf_id r \<in> ?ids) rows"
      "k = int (length (t_select mf_owner owner (\<lambda>r. mf_id r \<in> ?ids) rows))" by (simp_all add: rows'_def)
    moreover have "length (mine mf_owner owner (t_delete mf_owner owner P rows)) + length (t_select mf_owner owner P rows)
        = length (mine mf_owner owner rows)" for P
      by (induction rows) (auto simp: mine_def t_delete_def t_select_def)
    ultimately show ?thesis by simp
  qed
  ultimately show "k = int (min n (length (mine mf_owner owner rows))) \<and>
      length (mine mf_owner owner rows') + nat k = length (mine mf_owner owner rows)" by simp
qed

lemma erase_rows_result:
  "erase_rows fuel (pg_catalogue v) owner n db = Some (err, n', db') \<Longrightarrow> media_inv (pm_table db) \<Longrightarrow>
    media_inv (pm_table db') \<and>
    others mf_owner owner (mt_rows (pm_table db')) = others mf_owner owner (mt_rows (pm_table db)) \<and>
    (err = None \<longrightarrow> mine mf_owner owner (mt_rows (pm_table db')) = [])"
proof (induction fuel arbitrary: n db)
  case (Suc fuel)
  show ?case
  proof (cases "ct_dead (pg_catalogue v) db")
    case False
    obtain r db1 where d: "ct_DeleteTenantBatch (pg_catalogue v) owner batchSize db = (r, db1)"
      by (cases "ct_DeleteTenantBatch (pg_catalogue v) owner batchSize db")
    note b = pg_delete_batch [OF d Suc.prems(2)]
    show ?thesis
    proof (cases r)
      case (Inl e)
      then show ?thesis using Suc.prems(1) False d b(1,2) by auto
    next
      case (Inr k)
      show ?thesis
      proof (cases "k = 0")
        case True
        then have "mine mf_owner owner (mt_rows (pm_table db1)) = []" using b(3) [OF Inr] by (auto simp: batchSize_def min_def split: if_splits)
        then show ?thesis using Suc.prems(1) False d Inr True b(1,2) by auto
      next
        case ne: False
        then have "erase_rows fuel (pg_catalogue v) owner (n + k) db1 = Some (err, n', db')"
          using Suc.prems(1) False d Inr by simp
        from Suc.IH [OF this b(1)] show ?thesis using b(2) by simp
      qed
    qed
  qed (use Suc.prems in auto)
qed simp

lemma erase_rows_enough:
  "length (mine mf_owner owner (mt_rows (pm_table db))) < fuel \<Longrightarrow> media_inv (pm_table db) \<Longrightarrow>
    \<exists>res. erase_rows fuel (pg_catalogue v) owner n db = Some res"
proof (induction fuel arbitrary: n db)
  case (Suc fuel)
  show ?case
  proof (cases "ct_dead (pg_catalogue v) db")
    case False
    obtain r db1 where d: "ct_DeleteTenantBatch (pg_catalogue v) owner batchSize db = (r, db1)"
      by (cases "ct_DeleteTenantBatch (pg_catalogue v) owner batchSize db")
    note b = pg_delete_batch [OF d Suc.prems(2)]
    show ?thesis
    proof (cases r)
      case (Inr k)
      show ?thesis
      proof (cases "k = 0")
        case ne: False
        then have "0 < nat k" using b(3) [OF Inr] by linarith
        then have "length (mine mf_owner owner (mt_rows (pm_table db1))) < fuel" using b(3) [OF Inr] Suc.prems(1) by linarith
        then show ?thesis using Suc.IH [OF _ b(1)] False d Inr ne by simp
      qed (use False d Inr in simp)
    qed (use False d in simp)
  qed simp
qed simp

lemma sorted_prefix_last:
  assumes "distinct (map mf_id rows)" "fs = take n (sort_key mf_id rows)" "fs \<noteq> []"
  shows "last fs \<in> set rows"
  using assms last_in_set [of fs] set_take_subset [of n "sort_key mf_id rows"] by auto

lemma erase_pages_enough:
  "length (t_select mf_owner owner (\<lambda>r. cursor < mf_id r) (mt_rows (pm_table db))) < fuel \<Longrightarrow> media_inv (pm_table db) \<Longrightarrow>
    \<exists>res. erase_pages fuel (pg_catalogue v) env owner cursor files (db, disk) = Some res"
proof (induction fuel arbitrary: cursor files db disk)
  case (Suc fuel)
  let ?rows = "mt_rows (pm_table db)"
  show ?case
  proof (cases "ct_dead (pg_catalogue v) db")
    case False
    obtain r db1 where p: "ct_ListTenantPage (pg_catalogue v) owner cursor batchSize db = (r, db1)"
      by (cases "ct_ListTenantPage (pg_catalogue v) owner cursor batchSize db")
    show ?thesis
    proof (cases r)
      case (Inr batch)
      obtain e c f d where ef: "erase_files env owner batch cursor files disk = (e, c, f, d)"
        by (cases "erase_files env owner batch cursor files disk")
      show ?thesis
      proof (cases "e = None \<and> batchSize \<le> length batch")
        case True
        let ?sel = "t_select mf_owner owner (\<lambda>r. cursor < mf_id r) ?rows"
        let ?page = "take batchSize (sort_key mf_id ?sel)"
        have batch: "batch = map scan_file ?page" "pm_table db1 = pm_table db"
          using pg_tenant_page [OF p [unfolded Inr]] by (simp_all add: scanFiles_def)
        have "length ?page = length batch" by (simp only: batch(1) length_map)
        then have "0 < length ?page" using True batchSize_def by linarith
        then have ne: "?page \<noteq> []" by (rule length_greater_0_conv [THEN iffD1])
        have "c = mf_id (last ?page)"
          using erase_files_cursor [of env owner batch cursor files disk c f d] ef True batch(1) ne by (simp add: last_map scan_file_def)
        moreover have l: "last ?page \<in> set ?sel" using last_in_set [OF ne] set_take_subset [of batchSize "sort_key mf_id ?sel"] by auto
        ultimately have c: "cursor < c" "c = mf_id (last ?page)" by (auto simp: set_t_select)
        have "length (t_select mf_owner owner (\<lambda>r. c < mf_id r) ?rows) < length ?sel"
        proof -
          have "t_select mf_owner owner (\<lambda>r. c < mf_id r) ?rows = filter (\<lambda>r. c < mf_id r) ?sel"
            using c(1) by (auto simp: t_select_def intro!: filter_cong)
          moreover have "\<exists>x \<in> set ?sel. \<not> c < mf_id x" using l c(2) by auto
          ultimately show ?thesis using length_filter_less by fastforce
        qed
        then show ?thesis
          using Suc.IH [of c db1 f d] Suc.prems False p Inr ef True batch(2) by auto
      next
        case no: False
        then show ?thesis using False p Inr ef by (cases e) auto
      qed
    qed (use False p in simp)
  qed simp
qed simp

lemma EraseTenant_result:
  assumes "media_inv (pm_table db)"
    and "EraseTenant fuel (pg_catalogue v) env owner (db, disk) = Some ((files, rows, err), db', disk')"
  shows "media_inv (pm_table db') \<and> (err = None \<longrightarrow> mine mf_owner owner (mt_rows (pm_table db')) = [] \<and>
      (\<forall>q. q \<noteq> [] \<and> hd q = dec_int owner \<longrightarrow> file_at q disk' = None)) \<and>
    others mf_owner owner (mt_rows (pm_table db')) = others mf_owner owner (mt_rows (pm_table db)) \<and>
    (\<forall>q. q \<noteq> [] \<and> hd q \<noteq> dec_int owner \<longrightarrow> file_at q disk' = file_at q disk)"
proof -
  note pages = erase_pages_others [of fuel v env owner 0 0 db disk]
  note swept = eraseTenantTree_gone [of env owner]
  show ?thesis
  proof (cases "stat_root disk")
    case (Some e)
    then show ?thesis using assms by (auto simp: EraseTenant_def)
  next
    case None
    obtain e f db1 disk1 where p: "erase_pages fuel (pg_catalogue v) env owner 0 0 (db, disk) = Some (e, f, db1, disk1)"
      using assms(2) None by (auto simp: EraseTenant_def split: option.splits)
    have t: "pm_table db1 = pm_table db" and d1: "hd q \<noteq> dec_int owner \<Longrightarrow> file_at q disk1 = file_at q disk" for q
      using pages [OF p] by auto
    show ?thesis
    proof (cases e)
      case (Some err1)
      then show ?thesis using assms None p t d1 by (auto simp: EraseTenant_def)
    next
      case ok: None
      obtain e2 n db2 where r: "erase_rows fuel (pg_catalogue v) owner 0 db1 = Some (e2, n, db2)"
        using assms(2) None p ok by (auto simp: EraseTenant_def split: option.splits)
      note rr = erase_rows_result [OF r, unfolded t, OF assms(1)]
      show ?thesis
      proof (cases e2)
        case (Some err2)
        then show ?thesis using assms(2) None p ok r rr d1 by (auto simp: EraseTenant_def)
      next
        case ok2: None
        obtain k e3 disk3 where s: "eraseTenantTree env owner disk1 = (k, e3, disk3)" by (cases "eraseTenantTree env owner disk1")
        then have "err = e3" "db' = db2" "disk' = disk3" using assms(2) None p ok r ok2 by (auto simp: EraseTenant_def)
        then show ?thesis using rr ok2 swept [OF s] d1 by simp
      qed
    qed
  qed
qed

lemma EraseTenant_returns:
  assumes "media_inv (pm_table db)" "length (mt_rows (pm_table db)) < fuel"
  shows "\<exists>res. EraseTenant fuel (pg_catalogue v) env owner (db, disk) = Some res"
proof (cases "stat_root disk")
  case None
  have len: "length (t_select mf_owner owner P rows) \<le> length rows" "length (mine mf_owner owner rows) \<le> length rows" for P rows
    by (simp_all add: t_select_def mine_def)
  have "length (t_select mf_owner owner (\<lambda>r. 0 < mf_id r) (mt_rows (pm_table db))) < fuel"
    using len(1) assms(2) by (rule le_less_trans)
  then obtain e f db1 disk1 where p: "erase_pages fuel (pg_catalogue v) env owner 0 0 (db, disk) = Some (e, f, db1, disk1)"
    using erase_pages_enough [of owner 0 db fuel v env 0 disk] assms(1) by auto
  have t: "pm_table db1 = pm_table db" using erase_pages_others [OF p] by blast
  have "length (mine mf_owner owner (mt_rows (pm_table db1))) < fuel" unfolding t using len(2) assms(2) by (rule le_less_trans)
  then obtain res where "erase_rows fuel (pg_catalogue v) owner 0 db1 = Some res"
    using erase_rows_enough [of owner db1 fuel v 0] assms(1) t by auto
  then show ?thesis using None p by (cases res; cases e; cases "fst res") (auto simp: EraseTenant_def split: prod.splits)
qed (simp add: EraseTenant_def)

section \<open>Properties\<close>

text \<open>C20. An erasure of attachments that reports success is complete, and it touches nobody else. When \<open>EraseTenant\<close>
  returns without an error, whatever the state it started from: no row of the tenant is left in the catalogue and no
  regular file anywhere below the tenant's directory, referenced by a row or not. And whether it succeeds or not, the
  rows of the other tenants and the files outside the tenant's directory are those of before.\<close>

theorem erasure_of_media_complete:
  assumes "media_inv (pm_table db)"
    and "EraseTenant fuel (pg_catalogue v) env owner (db, disk) = Some ((files, rows, err), db', disk')"
  shows "(err = None \<longrightarrow> mine mf_owner owner (mt_rows (pm_table db')) = [] \<and>
      (\<forall>q. q \<noteq> [] \<and> hd q = dec_int owner \<longrightarrow> file_at q disk' = None)) \<and>
    others mf_owner owner (mt_rows (pm_table db')) = others mf_owner owner (mt_rows (pm_table db)) \<and>
    (\<forall>q. q \<noteq> [] \<and> hd q \<noteq> dec_int owner \<longrightarrow> file_at q disk' = file_at q disk)"
  using EraseTenant_result [OF assms] by blast

text \<open>A tenant with one stored photo, an orphan in a directory of its own, and a neighbour.\<close>

definition open_fs :: fs_env where
  "open_fs = \<lparr>fe_open = (\<lambda>_. True), fe_stat = (\<lambda>_. True), fe_list = (\<lambda>_. True), fe_unlink = (\<lambda>_. True),
     fe_rmdir = (\<lambda>_. True), fe_dead = (\<lambda>_. False)\<rparr>"

definition good_pg :: "instant \<Rightarrow> pg_media_env" where
  "good_pg now = \<lparr>pv_tx = (\<lambda>_. good_tx), pv_now = (\<lambda>_. now), pv_dead = (\<lambda>_. False)\<rparr>"

definition sample_disk :: "node option" where
  "sample_disk = Some (Directory [([55], Directory [([97], Regular 0 8), ([98], Directory [([99], Regular 0 1)])]),
     ([56], Directory [([97], Regular 0 5)])])"

definition sample_pg :: pg_media where
  "sample_pg = \<lparr>pm_table = sample_media, pm_calls = 0\<rparr>"

theorem erasure_of_media_complete_witness:
  "\<exists>files rows db' disk'. EraseTenant 3 (pg_catalogue (good_pg 5)) open_fs 7 (sample_pg, sample_disk) =
       Some ((files, rows, None), db', disk') \<and> mt_rows sample_media \<noteq> [] \<and> mine mf_owner 7 (mt_rows (pm_table db')) = [] \<and>
     file_at [[55], [98], [99]] sample_disk \<noteq> None \<and> file_at [[55], [98], [99]] disk' = None \<and>
     file_at [[56], [97]] disk' = Some (0, 5)"
proof -
  let ?r = "EraseTenant 3 (pg_catalogue (good_pg 5)) open_fs 7 (sample_pg, sample_disk)"
  have "case ?r of Some ((files, rows, None), s) \<Rightarrow> True | _ \<Rightarrow> False" by code_simp
  then obtain files rows db' disk' where r: "?r = Some ((files, rows, None), db', disk')"
    by (auto split: option.splits prod.splits)
  have inv: "media_inv (pm_table sample_pg)" unfolding sample_pg_def sample_media_def by (simp add: media_inv_run)
  have d: "dec_int 7 = [55]" "file_at [[55], [98], [99]] sample_disk \<noteq> None" "file_at [[56], [97]] sample_disk = Some (0, 5)"
    "mt_rows sample_media \<noteq> []" by code_simp+
  have "file_at [[55], [98], [99]] disk' = None" "file_at [[56], [97]] disk' = Some (0, 5)"
    "mine mf_owner 7 (mt_rows (pm_table db')) = []"
    using erasure_of_media_complete [OF inv r] d by auto
  then show ?thesis using r d by blast
qed

text \<open>The erasure of a tenant's attachments always returns: its two loops, which the code does not bound, take no
  more turns than the catalogue has rows, plus one, whatever the database, the disk and the context do meanwhile.\<close>

theorem media_erasure_returns:
  assumes "media_inv (pm_table db)" "length (mt_rows (pm_table db)) < fuel"
  shows "\<exists>res. EraseTenant fuel (pg_catalogue v) env owner (db, disk) = Some res"
  using assms by (rule EraseTenant_returns)

theorem media_erasure_returns_witness:
  "\<exists>res. EraseTenant 2 (pg_catalogue (good_pg 5\<lparr>pv_tx := (\<lambda>_. good_tx\<lparr>tx_commit := False\<rparr>)\<rparr>)) open_fs 7 (sample_pg, sample_disk) = Some res"
proof -
  have "media_inv (pm_table sample_pg)" unfolding sample_pg_def sample_media_def by (simp add: media_inv_run)
  moreover have "length (mt_rows (pm_table sample_pg)) < 2" by code_simp
  ultimately show ?thesis by (rule media_erasure_returns)
qed

end
