(* ===== verification/Retention.thy ===== *)
theory Retention
  imports Purge
begin

text \<open>
  What the daily purge of \<open>bot/internal/media/purge/purge.go\<close> may remove. The locale \<open>media_rows\<close> is the part of the
  interface \<open>Catalogue\<close> that the safety of the purge rests on; the lemmas on the phases are proved in it, and it is
  interpreted on the catalogue in PostgreSQL. The properties at the end are about that catalogue.
\<close>

section \<open>What a phase may change\<close>

definition names :: "mf_row \<Rightarrow> gostr list \<Rightarrow> bool" where
  "names q path \<longleftrightarrow> (\<exists>rel. rel \<noteq> [] \<and> (mf_path q = Some rel \<or> mf_thumb q = Some rel) \<and> path = components rel)"

text \<open>From \<open>p\<close> to \<open>p'\<close> only files that a row of \<open>D\<close> names are gone, only rows with the id of a row of \<open>D\<close> have
  changed, and no row has become stored.\<close>

definition takes_only :: "('s \<Rightarrow> mf_row list) \<Rightarrow> bool \<Rightarrow> i64 \<Rightarrow> mf_row set \<Rightarrow> 's purger \<Rightarrow> 's purger \<Rightarrow> bool" where
  "takes_only rows dry owner D p p' \<longleftrightarrow>
     (\<forall>path. file_at path (pu_disk p') = file_at path (pu_disk p) \<or>
        (\<not> dry \<and> hd path = dec_int owner \<and> (\<exists>d \<in> D. names d path))) \<and>
     (\<forall>q \<in> set (rows (pu_db p)). q \<in> set (rows (pu_db p')) \<or> (\<not> dry \<and> mf_owner q = owner \<and> (\<exists>d \<in> D. mf_id d = mf_id q))) \<and>
     (\<forall>q \<in> set (rows (pu_db p')). mf_status q = StatusStored \<longrightarrow> q \<in> set (rows (pu_db p)))"

lemma takes_only_refl: "rows (pu_db p') = rows (pu_db p) \<Longrightarrow> pu_disk p' = pu_disk p \<Longrightarrow> takes_only rows dry owner D p p'"
  by (simp add: takes_only_def)

lemma takes_only_trans:
  "takes_only rows dry owner D p p' \<Longrightarrow> takes_only rows dry owner D p' p'' \<Longrightarrow> takes_only rows dry owner D p p''"
  unfolding takes_only_def by metis

lemma or_empty_nonempty: "or_empty x \<noteq> [] \<Longrightarrow> x = Some (or_empty x)"
  by (cases x) simp_all

lemma names_rel:
  assumes "rel \<noteq> []" "or_empty (mf_path q) = rel \<or> or_empty (mf_thumb q) = rel"
  shows "names q (components rel)"
  using assms or_empty_nonempty [of "mf_path q"] or_empty_nonempty [of "mf_thumb q"] unfolding names_def by metis

lemma removeFiles_names:
  assumes "removeFiles env owner (scan_file q) dry disk = (stats, err, disk')"
  shows "file_at path disk' = file_at path disk \<or> (\<not> dry \<and> hd path = dec_int owner \<and> names q path)"
proof -
  have one: "remove_rels env owner dry rels stats disk = (stats', err', disk') \<Longrightarrow>
      \<forall>rel \<in> set rels. rel \<noteq> [] \<longrightarrow> names q (components rel) \<Longrightarrow>
      file_at path disk' = file_at path disk \<or> (\<not> dry \<and> hd path = dec_int owner \<and> names q path)" for rels stats disk stats' err' disk'
  proof (induction rels arbitrary: stats disk)
    case (Cons rel rels)
    show ?case
    proof (cases "rel = []")
      case False
      obtain r d where r: "removeRel env owner rel dry disk = (r, d)" by (cases "removeRel env owner rel dry disk")
      have here: "file_at path d = file_at path disk \<or> (\<not> dry \<and> hd path = dec_int owner \<and> names q path)"
        using removeRel_file [OF r, of path] Cons.prems(2) False by auto
      show ?thesis
      proof (cases r)
        case (Inl e)
        then show ?thesis using Cons.prems(1) False r here by simp
      next
        case (Inr b)
        then have "remove_rels env owner dry rels (if b then add_stats stats (no_stats\<lparr>st_FilesDeleted := 1\<rparr>) else stats) d = (stats', err', disk')"
          using Cons.prems(1) False r by simp
        from Cons.IH [OF this] Cons.prems(2) here show ?thesis by auto
      qed
    qed (use Cons in simp)
  qed simp
  show ?thesis
    by (rule one [OF assms [unfolded removeFiles_def]]) (auto simp: scan_file_def intro: names_rel)
qed

section \<open>What the purge relies on\<close>

text \<open>A listing of expired rows returns rows that are there, stored, of the tenant and overdue; marking a row leaves
  the others and makes none stored; and the known paths hold all those asked for that a row of the tenant names.\<close>

locale media_rows =
  fixes cat :: "'s catalogue"
    and rows :: "'s \<Rightarrow> mf_row list"
    and overdue :: "int \<Rightarrow> mf_row \<Rightarrow> bool"
  assumes expired_listed: "ct_ListExpiredStored cat owner after days n s = (r, s') \<Longrightarrow> rows s' = rows s \<and>
      (\<forall>files. r = Inr files \<longrightarrow> (\<forall>f \<in> set files. \<exists>q \<in> set (rows s).
         f = scan_file q \<and> mf_owner q = owner \<and> mf_status q = StatusStored \<and> overdue days q))"
    and marked: "ct_MarkPurged cat owner i s = (r', s') \<Longrightarrow>
      (\<forall>q \<in> set (rows s). q \<in> set (rows s') \<or> (mf_owner q = owner \<and> mf_id q = i)) \<and>
      (\<forall>q \<in> set (rows s'). mf_status q = StatusStored \<longrightarrow> q \<in> set (rows s))"
    and known: "ct_KnownPaths cat owner rels s = (r'', s') \<Longrightarrow> rows s' = rows s \<and>
      (\<forall>paths. r'' = Inr paths \<longrightarrow> (\<forall>p \<in> set rels. \<forall>q \<in> set (rows s).
         mf_owner q = owner \<and> (mf_path q = Some p \<or> mf_thumb q = Some p) \<longrightarrow> p \<in> paths))"
begin

lemma expire_files_takes_only:
  "expire_files cat cfg owner fs cursor stats p = (h, c, st, p') \<Longrightarrow>
    \<forall>f \<in> set fs. \<exists>d \<in> D. f = scan_file d \<Longrightarrow> takes_only rows (pc_DryRun cfg) owner D p p'"
proof (induction fs arbitrary: cursor stats p)
  case (Cons f fs)
  show ?case
  proof (cases "ct_dead cat (pu_db p)")
    case False
    obtain u err disk where u: "removeFiles (pc_fs cfg) owner f (pc_DryRun cfg) (pu_disk p) = (u, err, disk)"
      by (cases "removeFiles (pc_fs cfg) owner f (pc_DryRun cfg) (pu_disk p)")
    obtain d where d: "d \<in> D" "f = scan_file d" using Cons.prems(2) by auto
    have fid: "file_ID f = mf_id d" using d(2) by (simp add: scan_file_def)
    let ?p = "p\<lparr>pu_disk := disk\<rparr>"
    have files: "file_at path disk = file_at path (pu_disk p) \<or> (\<not> pc_DryRun cfg \<and> hd path = dec_int owner \<and> (\<exists>d \<in> D. names d path))" for path
      using removeFiles_names [OF u [unfolded d(2)], of path] d(1) by blast
    have step: "takes_only rows (pc_DryRun cfg) owner D p ?p" using files by (simp add: takes_only_def)
    have rest: "takes_only rows (pc_DryRun cfg) owner D p p'"
      if "takes_only rows (pc_DryRun cfg) owner D p q" "expire_files cat cfg owner fs (file_ID f) stats'' q = (h, c, st, p')" for q stats''
      using takes_only_trans [OF that(1) Cons.IH [OF that(2)]] Cons.prems(2) by simp
    show ?thesis
    proof (cases "err \<noteq> None \<or> pc_DryRun cfg")
      case True
      then show ?thesis using Cons.prems(1) False u rest [OF step] by (auto simp: Let_def split: option.splits)
    next
      case False2: False
      obtain r db where m: "ct_MarkPurged cat owner (file_ID f) (pu_db p) = (r, db)"
        by (cases "ct_MarkPurged cat owner (file_ID f) (pu_db p)")
      have "takes_only rows (pc_DryRun cfg) owner D p (?p\<lparr>pu_db := db\<rparr>)"
        using files marked [OF m, unfolded fid] d(1) False2 unfolding takes_only_def by auto metis
      then show ?thesis
        using Cons.prems(1) False False2 u m rest [of "?p\<lparr>pu_db := db\<rparr>"] by (auto simp: Let_def split: sum.splits if_splits)
    qed
  qed (use Cons.prems in \<open>auto intro: takes_only_refl\<close>)
qed (auto intro: takes_only_refl)

lemma expire_batches_takes_only:
  "expire_batches cat cfg owner days n cursor stats p = (st, err, p') \<Longrightarrow>
    {d \<in> set (rows (pu_db p)). mf_owner d = owner \<and> mf_status d = StatusStored \<and> overdue days d} \<subseteq> D \<Longrightarrow>
    takes_only rows (pc_DryRun cfg) owner D p p'"
proof (induction n arbitrary: cursor stats p)
  case (Suc n)
  show ?case
  proof (cases "ct_dead cat (pu_db p)")
    case False
    obtain r db where l: "ct_ListExpiredStored cat owner cursor days batchSize (pu_db p) = (r, db)"
      by (cases "ct_ListExpiredStored cat owner cursor days batchSize (pu_db p)")
    note listed = expired_listed [OF l]
    let ?p = "p\<lparr>pu_db := db\<rparr>"
    have same: "takes_only rows (pc_DryRun cfg) owner D p ?p" using listed by (auto intro: takes_only_refl)
    show ?thesis
    proof (cases r)
      case (Inr files)
      obtain h c st1 p1 where e: "expire_files cat cfg owner files cursor stats ?p = (h, c, st1, p1)"
        by (cases "expire_files cat cfg owner files cursor stats ?p")
      have "\<forall>f \<in> set files. \<exists>d \<in> D. f = scan_file d" using listed Inr Suc.prems(2) by blast
      then have one: "takes_only rows (pc_DryRun cfg) owner D p p1"
        using takes_only_trans [OF same expire_files_takes_only [OF e]] by simp
      then have "{d \<in> set (rows (pu_db p1)). mf_owner d = owner \<and> mf_status d = StatusStored \<and> overdue days d} \<subseteq> D"
        using Suc.prems(2) unfolding takes_only_def by blast
      then show ?thesis
        using Suc.prems(1) False l Inr e one takes_only_trans [OF one Suc.IH] by (auto split: option.splits if_splits)
    qed (use Suc.prems False l same in auto)
  qed (use Suc.prems in \<open>auto intro: takes_only_refl\<close>)
qed (auto intro: takes_only_refl)

text \<open>The sweep of the disk. A file is swept only if no row of the tenant names it and it was old enough when the
  walk saw it.\<close>

definition sweepable :: "purge_config \<Rightarrow> i64 \<Rightarrow> 's \<Rightarrow> candidate \<Rightarrow> bool" where
  "sweepable cfg owner s c \<longleftrightarrow> OrphanGrace \<le> pc_Now cfg - ca_modTime c \<and>
     (\<forall>q \<in> set (rows s). mf_owner q = owner \<longrightarrow> mf_path q \<noteq> Some (ca_rel c) \<and> mf_thumb q \<noteq> Some (ca_rel c))"

definition sweeps_only :: "purge_config \<Rightarrow> i64 \<Rightarrow> candidate set \<Rightarrow> 's purger \<Rightarrow> 's purger \<Rightarrow> bool" where
  "sweeps_only cfg owner C p p' \<longleftrightarrow> rows (pu_db p') = rows (pu_db p) \<and>
     (\<forall>path. file_at path (pu_disk p') = file_at path (pu_disk p) \<or>
        (\<not> pc_DryRun cfg \<and> (\<exists>c \<in> C. path = components (ca_rel c) \<and> sweepable cfg owner (pu_db p) c)))"

lemma sweeps_only_refl: "sweeps_only cfg owner C p p"
  by (simp add: sweeps_only_def)

lemma sweeps_only_trans: "sweeps_only cfg owner C p p' \<Longrightarrow> sweeps_only cfg owner C p' p'' \<Longrightarrow> sweeps_only cfg owner C p p''"
  unfolding sweeps_only_def sweepable_def by metis

lemma sweep_candidates_file:
  "sweep_candidates cfg owner kn cs stats disk = (stats', disk') \<Longrightarrow>
    file_at path disk' = file_at path disk \<or>
    (\<not> pc_DryRun cfg \<and> (\<exists>c \<in> set cs. path = components (ca_rel c) \<and> OrphanGrace \<le> pc_Now cfg - ca_modTime c \<and> ca_rel c \<notin> kn))"
proof (induction cs arbitrary: stats disk)
  case (Cons c cs)
  obtain r d where r: "removeRel (pc_fs cfg) owner (ca_rel c) (pc_DryRun cfg) disk = (r, d)"
    by (cases "removeRel (pc_fs cfg) owner (ca_rel c) (pc_DryRun cfg) disk")
  have rest: "sweep_candidates cfg owner kn cs stats2 d2 = (stats', disk') \<Longrightarrow>
      file_at path disk' = file_at path d2 \<or> (\<not> pc_DryRun cfg \<and> (\<exists>c \<in> set (c # cs). path = components (ca_rel c) \<and>
        OrphanGrace \<le> pc_Now cfg - ca_modTime c \<and> ca_rel c \<notin> kn))" for stats2 d2
    using Cons.IH [of stats2 d2] by auto
  show ?case
  proof (cases "ca_rel c \<in> kn \<or> pc_Now cfg - ca_modTime c < OrphanGrace")
    case True
    then have "sweep_candidates cfg owner kn cs stats disk = (stats', disk')"
      using Cons.prems by (auto simp: Let_def StaleTempAge_def OrphanGrace_def split: if_splits)
    then show ?thesis by (rule rest)
  next
    case False
    then obtain stats2 where s: "sweep_candidates cfg owner kn cs stats2 d = (stats', disk')"
      using Cons.prems r by (auto simp: Let_def StaleTempAge_def OrphanGrace_def split: sum.splits)
    have "file_at path d = file_at path disk \<or> (path = components (ca_rel c) \<and> \<not> pc_DryRun cfg)"
      using removeRel_file [OF r, of path] by blast
    then show ?thesis using rest [OF s] False by auto
  qed
qed simp

lemma flush_sweeps_only:
  assumes "flush cat cfg owner w = (err, w')" "set (ws_batch w) \<subseteq> C"
  shows "sweeps_only cfg owner C (ws_purger w) (ws_purger w') \<and> ws_batch w' = []"
proof (cases "ws_batch w = []")
  case False
  let ?p = "ws_purger w"
  obtain r db where k: "ct_KnownPaths cat owner (map ca_rel (ws_batch w)) (pu_db ?p) = (r, db)"
    by (cases "ct_KnownPaths cat owner (map ca_rel (ws_batch w)) (pu_db ?p)")
  note kn = known [OF k]
  show ?thesis
  proof (cases r)
    case (Inr kp)
    obtain st d where s: "sweep_candidates cfg owner kp (ws_batch w) (ws_stats w) (pu_disk ?p) = (st, d)"
      by (cases "sweep_candidates cfg owner kp (ws_batch w) (ws_stats w) (pu_disk ?p)")
    have w': "w' = w\<lparr>ws_batch := [], ws_stats := st, ws_purger := ?p\<lparr>pu_db := db, pu_disk := d\<rparr>\<rparr>"
      using assms(1) False k Inr s by (simp add: flush_def sweepBatch_def)
    have "sweepable cfg owner (pu_db ?p) c" if "c \<in> set (ws_batch w)" "OrphanGrace \<le> pc_Now cfg - ca_modTime c" "ca_rel c \<notin> kp" for c
      using that kn Inr by (auto simp: sweepable_def)
    then have "sweeps_only cfg owner C ?p (?p\<lparr>pu_db := db, pu_disk := d\<rparr>)"
      using sweep_candidates_file [OF s] kn assms(2) unfolding sweeps_only_def by fastforce
    then show ?thesis by (simp add: w')
  qed (use assms(1) False k kn in \<open>auto simp: flush_def sweepBatch_def sweeps_only_def\<close>)
qed (use assms in \<open>auto simp: flush_def intro: sweeps_only_refl\<close>)

lemma walk_loop_sweeps_only:
  "walk_loop cat cfg owner cursor calls w = (r, w') \<Longrightarrow> set (ws_batch w) \<subseteq> C \<Longrightarrow>
    (\<And>path m n. Visit path (Regular m n) \<in> set calls \<Longrightarrow> \<lparr>ca_rel = join_path path, ca_modTime = m\<rparr> \<in> C) \<Longrightarrow>
    sweeps_only cfg owner C (ws_purger w) (ws_purger w') \<and> set (ws_batch w') \<subseteq> C"
proof (induction calls arbitrary: w)
  case (Cons call calls)
  have rest: "sweeps_only cfg owner C (ws_purger w) (ws_purger w') \<and> set (ws_batch w') \<subseteq> C"
    if "walk_loop cat cfg owner cursor calls w1 = (r, w')" "set (ws_batch w1) \<subseteq> C"
      "sweeps_only cfg owner C (ws_purger w) (ws_purger w1)" for w1
  proof -
    have "sweeps_only cfg owner C (ws_purger w1) (ws_purger w') \<and> set (ws_batch w') \<subseteq> C"
      by (rule Cons.IH [OF that(1,2)]) (use Cons.prems(3) in auto)
    then show ?thesis using sweeps_only_trans [OF that(3)] by blast
  qed
  show ?case
  proof (cases call)
    case (Visit path nd)
    show ?thesis
    proof (cases "\<exists>m n. nd = Regular m n \<and> \<not> ct_dead cat (pu_db (ws_purger w)) \<and> \<not> maxWalkEntries < ws_visited w + 1 \<and>
        \<not> join_path path \<le> cursor \<and> \<not> maxFilesPerRun \<le> ws_examined w \<and> fe_stat (pc_fs cfg) path")
      case True
      then obtain m n where nd: "nd = Regular m n" by blast
      let ?c = "\<lparr>ca_rel = join_path path, ca_modTime = m\<rparr>"
      let ?w = "w\<lparr>ws_visited := ws_visited w + 1, ws_examined := ws_examined w + 1, ws_lastRel := join_path path,
        ws_batch := ws_batch w @ [?c]\<rparr>"
      have b: "set (ws_batch ?w) \<subseteq> C" using Cons.prems(2,3) Visit nd by auto
      show ?thesis
      proof (cases "pathBatch \<le> length (ws_batch ?w)")
        case full: True
        obtain err w3 where f: "flush cat cfg owner ?w = (err, w3)" by (cases "flush cat cfg owner ?w")
        note fl = flush_sweeps_only [OF f b]
        have res: "(case err of Some e \<Rightarrow> (Some (FlushFailed e), w3) | None \<Rightarrow> walk_loop cat cfg owner cursor calls w3) = (r, w')"
          using Cons.prems(1) Visit nd True full f by (auto simp: Let_def isDir_def)
        show ?thesis
          using res fl rest [of w3] by (cases err) simp_all
      next
        case part: False
        have "walk_loop cat cfg owner cursor calls ?w = (r, w')"
          using Cons.prems(1) Visit nd True part by (auto simp: Let_def isDir_def)
        then show ?thesis using rest [of ?w] b sweeps_only_refl by simp
      qed
    next
      case False
      then show ?thesis
        using Cons.prems(1,2) Visit rest
        by (cases nd) (auto simp: Let_def isDir_def sweeps_only_refl split: if_splits)
    qed
  qed (use Cons.prems in \<open>auto intro: sweeps_only_refl\<close>)
qed (auto intro: sweeps_only_refl)

lemma reconcileDisk_sweeps_only:
  assumes "reconcileDisk cat cfg t p = (st, err, p')"
    and "\<And>path m n. Visit path (Regular m n) \<in> set (walk_tenant (pc_fs cfg) (tr_OwnerUserID t) (pu_disk p)) \<Longrightarrow>
      \<lparr>ca_rel = join_path path, ca_modTime = m\<rparr> \<in> C"
  shows "sweeps_only cfg (tr_OwnerUserID t) C p p'"
proof -
  let ?owner = "tr_OwnerUserID t"
  let ?start = "\<lparr>ws_batch = [], ws_lastRel = [], ws_visited = 0, ws_examined = 0, ws_completed = True,
    ws_stats = no_stats, ws_purger = p\<rparr>"
  obtain r w where l: "walk_loop cat cfg ?owner (pu_pathCursor p ?owner) (walk_tenant (pc_fs cfg) ?owner (pu_disk p)) ?start = (r, w)"
    by (cases "walk_loop cat cfg ?owner (pu_pathCursor p ?owner) (walk_tenant (pc_fs cfg) ?owner (pu_disk p)) ?start")
  have w: "sweeps_only cfg ?owner C p (ws_purger w)" "set (ws_batch w) \<subseteq> C"
    using walk_loop_sweeps_only [OF l _ assms(2)] by auto
  obtain e w2 where f: "flush cat cfg ?owner w = (e, w2)" by (cases "flush cat cfg ?owner w")
  have w2: "sweeps_only cfg ?owner C p (ws_purger w2)"
    using sweeps_only_trans [OF w(1)] flush_sweeps_only [OF f w(2)] by blast
  have cursor: "sweeps_only cfg ?owner C p (q\<lparr>pu_pathCursor := c\<rparr>) = sweeps_only cfg ?owner C p q" for q c
    by (simp add: sweeps_only_def)
  show ?thesis
  proof (cases r)
    case None
    then show ?thesis using assms(1) l f w2 by (cases e) (auto simp: reconcileDisk_def Let_def cursor split: if_splits)
  next
    case (Some x)
    then show ?thesis using assms(1) l w(1) by (cases x) (auto simp: reconcileDisk_def)
  qed
qed

end

section \<open>The walk of a tenant's directory\<close>

text \<open>What a file system guarantees: the names of a directory are distinct, none is empty or holds a separator.\<close>

fun wf_node :: "node \<Rightarrow> bool" where
  "wf_node (Directory es) \<longleftrightarrow> distinct (map fst es) \<and> list_all (\<lambda>(name, nd). name \<noteq> [] \<and> sep \<notin> set name \<and> wf_node nd) es"
| "wf_node _ \<longleftrightarrow> True"

definition wf_disk :: "node option \<Rightarrow> bool" where
  "wf_disk disk \<longleftrightarrow> (case disk of None \<Rightarrow> True | Some nd \<Rightarrow> wf_node nd)"

lemma split_at_word: "c \<notin> set w \<Longrightarrow> split_at c word (w @ rest) = split_at c (word @ w) rest"
  by (induction w arbitrary: word) auto

lemma components_join_path: "cs \<noteq> [] \<Longrightarrow> \<forall>c \<in> set cs. sep \<notin> set c \<Longrightarrow> components (join_path cs) = cs"
proof -
  have "split_at sep [] (join [sep] cs) = cs" if "cs \<noteq> []" "\<forall>c \<in> set cs. sep \<notin> set c"
    using that
  proof (induction cs rule: induct_list012)
    case (2 x)
    then show ?case using split_at_word [of sep x "[]" "[]"] by simp
  next
    case (3 x y zs)
    then show ?case using split_at_word [of sep x "[]" "sep # join [sep] (y # zs)"] by simp
  qed simp
  then show "cs \<noteq> [] \<Longrightarrow> \<forall>c \<in> set cs. sep \<notin> set c \<Longrightarrow> components (join_path cs) = cs"
    by (simp add: components_def join_path_def)
qed

lemma wf_entry: "wf_node (Directory es) \<Longrightarrow> (n, nd) \<in> set es \<Longrightarrow> map_of es n = Some nd \<and> n \<noteq> [] \<and> sep \<notin> set n \<and> wf_node nd"
  by (auto simp: list_all_iff)

lemma walk_visits:
  fixes env :: fs_env
  shows "Visit path' nd' \<in> set (walk env path nd) \<Longrightarrow> wf_node nd \<Longrightarrow>
    \<exists>cs. path' = path @ cs \<and> (\<forall>c \<in> set cs. sep \<notin> set c) \<and>
      (if cs = [] then nd' = nd else \<exists>es. nd = Directory es \<and> entry_at cs es = Some nd')"
    and "Visit path' nd' \<in> set (walk_entries env path es) \<Longrightarrow>
    (\<And>e. e \<in> set es \<Longrightarrow> sep \<notin> set (fst e) \<and> wf_node (snd e)) \<Longrightarrow>
    \<exists>e \<in> set es. \<exists>cs. path' = path @ fst e # cs \<and> (\<forall>c \<in> set (fst e # cs). sep \<notin> set c) \<and>
      (if cs = [] then nd' = snd e else \<exists>sub. snd e = Directory sub \<and> entry_at cs sub = Some nd')"
proof (induction env path nd and env path es rule: walk_walk_entries.induct)
  case (1 env path nd)
  show ?case
  proof (cases "path' = path \<and> nd' = nd")
    case False
    then obtain es where es: "nd = Directory es" "Visit path' nd' \<in> set (walk_entries env path (sort_key fst es))" "fe_list env path"
      using "1.prems"(1) by (auto split: node.splits if_splits)
    have ok: "map_of es (fst e) = Some (snd e) \<and> sep \<notin> set (fst e) \<and> wf_node (snd e)" if "e \<in> set es" for e
      using wf_entry [of es "fst e" "snd e"] "1.prems"(2) es(1) that by simp
    obtain e cs where e: "e \<in> set es" "path' = path @ fst e # cs" "\<forall>c \<in> set (fst e # cs). sep \<notin> set c"
      "if cs = [] then nd' = snd e else \<exists>sub. snd e = Directory sub \<and> entry_at cs sub = Some nd'"
      using "1.IH" [OF es(1,3,2)] ok by auto
    then have "entry_at (fst e # cs) es = Some nd'" using ok [OF e(1)] by (auto split: if_splits)
    then show ?thesis using e(2,3) es(1) by (intro exI [of _ "fst e # cs"]) auto
  qed auto
next
  case (3 env path e es)
  show ?case
  proof (cases "Visit path' nd' \<in> set (walk env (path @ [fst e]) (snd e))")
    case True
    then obtain cs where "path' = path @ fst e # cs" "\<forall>c \<in> set cs. sep \<notin> set c"
      "if cs = [] then nd' = snd e else \<exists>sub. snd e = Directory sub \<and> entry_at cs sub = Some nd'"
      using "3.IH"(1) "3.prems"(2) by auto
    then show ?thesis using "3.prems"(2) by (intro bexI [of _ e] exI [of _ cs]) auto
  next
    case False
    then have "Visit path' nd' \<in> set (walk_entries env path es)" using "3.prems"(1) by auto
    then show ?thesis using "3.IH"(2) "3.prems"(2) by auto
  qed
qed simp

lemma dec_int_plain: "sep \<notin> set (dec_int n)"
  using dec_digits [of "nat n"] dec_digits [of "nat (- n)"]
  by (auto simp: dec_int_def list_all_iff isDigit_def sep_def)

lemma walk_tenant_visits:
  assumes "Visit path (Regular m n) \<in> set (walk_tenant env owner disk)" "wf_disk disk"
  shows "file_at path disk = Some (m, n) \<and> hd path = dec_int owner \<and> components (join_path path) = path"
proof -
  obtain root nd where d: "disk = Some (Directory root)" "map_of root (dec_int owner) = Some nd"
    "Visit path (Regular m n) \<in> set (walk env [dec_int owner] nd)"
    using assms(1) unfolding walk_tenant_def by (cases "map_of (case disk of Some (Directory root) \<Rightarrow> root) (dec_int owner)")
      (auto simp del: walk.simps split: option.splits node.splits)
  have "wf_node nd" using wf_entry [of root "dec_int owner" nd] map_of_SomeD [OF d(2)] assms(2) d(1) by (simp add: wf_disk_def)
  then obtain cs where cs: "path = dec_int owner # cs" "\<forall>c \<in> set cs. sep \<notin> set c"
    "if cs = [] then Regular m n = nd else \<exists>es. nd = Directory es \<and> entry_at cs es = Some (Regular m n)"
    using walk_visits(1) [OF d(3)] by auto
  then have "entry_at path root = Some (Regular m n)" using d(2) by (auto split: if_splits)
  moreover have "components (join_path path) = path"
    by (rule components_join_path) (use cs dec_int_plain in auto)
  ultimately show ?thesis using cs(1) d(1) by (simp add: file_at_def node_at_def)
qed

section \<open>The catalogue in PostgreSQL\<close>

lemma pg_expired_listed:
  assumes "ct_ListExpiredStored (pg_catalogue v) owner after days n s = (r, s')"
  shows "mt_rows (pm_table s') = mt_rows (pm_table s) \<and> (\<forall>files. r = Inr files \<longrightarrow> (\<forall>f \<in> set files.
    \<exists>q \<in> set (mt_rows (pm_table s)). f = scan_file q \<and> mf_owner q = owner \<and> mf_status q = StatusStored \<and>
      (\<exists>k. mf_created q < days_ago (pv_now v k) days)))"
proof (intro conjI allI impI ballI)
  show "mt_rows (pm_table s') = mt_rows (pm_table s)" using assms by (auto simp: pg_catalogue_def pg_media_read_def)
  fix files f assume "r = Inr files" "f \<in> set files"
  let ?P = "\<lambda>r. mf_status r = StatusStored \<and> after < mf_id r \<and> mf_created r < days_ago (pv_now v (pm_calls s)) days"
  have "media_page (pv_tx v (pm_calls s)) ?P n owner (pm_table s) = Inr files"
    using assms \<open>r = Inr files\<close> by (simp add: pg_catalogue_def pg_media_read_def ListExpiredStored_def)
  then have "files = scanFiles (take n (sort_key mf_id (t_select mf_owner owner ?P (mt_rows (pm_table s)))))"
    by (rule media_page_Inr)
  then have "f \<in> scan_file ` set (t_select mf_owner owner ?P (mt_rows (pm_table s)))"
    using \<open>f \<in> set files\<close> by (auto simp: scanFiles_def dest!: in_set_takeD)
  then show "\<exists>q \<in> set (mt_rows (pm_table s)). f = scan_file q \<and> mf_owner q = owner \<and> mf_status q = StatusStored \<and>
      (\<exists>k. mf_created q < days_ago (pv_now v k) days)"
    by (auto simp: set_t_select intro!: bexI exI)
qed

lemma pg_marked:
  assumes "ct_MarkPurged (pg_catalogue v) owner i s = (r, s')"
  shows "(\<forall>q \<in> set (mt_rows (pm_table s)). q \<in> set (mt_rows (pm_table s')) \<or> (mf_owner q = owner \<and> mf_id q = i)) \<and>
    (\<forall>q \<in> set (mt_rows (pm_table s')). mf_status q = StatusStored \<longrightarrow> q \<in> set (mt_rows (pm_table s)))"
proof -
  let ?f = "\<lambda>r. r\<lparr>mf_status := StatusPurged, mf_path := None, mf_thumb := None, mf_updated := pv_now v (pm_calls s)\<rparr>"
  have "InTenant (pv_tx v (pm_calls s)) (update_media i ?f) owner (pm_table s) = (r, pm_table s')"
    using assms pg_write_table [of "\<lambda>tx now. MarkPurged tx now owner i" v s r s'] by (simp add: pg_catalogue_def MarkPurged_def)
  then consider "pm_table s' = pm_table s"
    | "mt_rows (pm_table s') = t_update mf_owner owner (\<lambda>r. mf_id r = i) ?f (mt_rows (pm_table s))"
    using InTenant_Inr InTenant_Inl update_media_cases by (cases r) fastforce+
  then show ?thesis
  proof cases
    case 2
    show ?thesis unfolding 2 t_update_def by (auto simp: set_update_where split: if_splits)
  qed simp
qed

lemma pg_known:
  assumes "ct_KnownPaths (pg_catalogue v) owner rels s = (r, s')"
  shows "mt_rows (pm_table s') = mt_rows (pm_table s) \<and> (\<forall>paths. r = Inr paths \<longrightarrow> (\<forall>p \<in> set rels.
    \<forall>q \<in> set (mt_rows (pm_table s)). mf_owner q = owner \<and> (mf_path q = Some p \<or> mf_thumb q = Some p) \<longrightarrow> p \<in> paths))"
proof (intro conjI allI impI ballI)
  show "mt_rows (pm_table s') = mt_rows (pm_table s)" using assms by (auto simp: pg_catalogue_def pg_media_read_def)
  fix paths p q
  assume a: "r = Inr paths" "p \<in> set rels" "q \<in> set (mt_rows (pm_table s))"
    "mf_owner q = owner \<and> (mf_path q = Some p \<or> mf_thumb q = Some p)"
  let ?q = "\<lambda>t rows. set (filter (\<lambda>p. list_ex (\<lambda>r. mf_path r = Some p \<or> mf_thumb r = Some p) (t_select mf_owner t (\<lambda>_. True) rows)) rels)"
  have "media_read (pv_tx v (pm_calls s)) ?q owner (pm_table s) = Inr paths"
    using assms a(1,2) by (auto simp: pg_catalogue_def pg_media_read_def KnownPaths_def split: if_splits)
  then have "InTenant (pv_tx v (pm_calls s)) (\<lambda>t mt. Inr (?q t (mt_rows mt), mt)) owner (pm_table s) =
      (Inr paths, snd (InTenant (pv_tx v (pm_calls s)) (\<lambda>t mt. Inr (?q t (mt_rows mt), mt)) owner (pm_table s)))"
    by (simp add: media_read_def prod_eq_iff)
  from InTenant_Inr [OF this] have "paths = ?q owner (mt_rows (pm_table s))" by simp
  then show "p \<in> paths" using a(2-4) by (auto simp: list_ex_iff set_t_select)
qed

interpretation pg: media_rows "pg_catalogue v" "\<lambda>s. mt_rows (pm_table s)"
  "\<lambda>days q. \<exists>k. mf_created q < days_ago (pv_now v k) days" for v
  by unfold_locales (rule pg_expired_listed pg_marked pg_known; assumption)+

section \<open>Properties\<close>

text \<open>C25. What the retention removes. Whatever the state of the catalogue and of the disk and whatever fails, a pass
  over the expired attachments of a tenant deletes a file only if a stored row of that tenant, older than the retention,
  names it and the file lies below the tenant's directory; and every row of the catalogue that is not such a row is
  still there, unchanged. In a dry run nothing at all changes.\<close>

theorem retention_removes_only_overdue:
  fixes p :: "pg_media purger"
  assumes "purgeExpired (pg_catalogue v) cfg t p = (stats, err, p')" "media_inv (pm_table (pu_db p))"
    and "\<And>n. pv_now v n \<le> latest"
  defines "rows \<equiv> mt_rows (pm_table (pu_db p))" and "rows' \<equiv> mt_rows (pm_table (pu_db p'))"
  defines "overdue \<equiv> \<lambda>q. mf_owner q = tr_OwnerUserID t \<and> mf_status q = StatusStored \<and>
    mf_created q < days_ago latest (tr_RetentionDays t)"
  shows "(\<forall>path. file_at path (pu_disk p') \<noteq> file_at path (pu_disk p) \<longrightarrow>
      \<not> pc_DryRun cfg \<and> hd path = dec_int (tr_OwnerUserID t) \<and> (\<exists>q \<in> set rows. overdue q \<and> names q path)) \<and>
    (\<forall>q \<in> set rows. pc_DryRun cfg \<or> \<not> overdue q \<longrightarrow> q \<in> set rows')"
proof -
  let ?D = "{q \<in> set rows. overdue q}"
  have "overdue q" if "mf_owner q = tr_OwnerUserID t" "mf_status q = StatusStored"
    "\<exists>k. mf_created q < days_ago (pv_now v k) (tr_RetentionDays t)" for q
    using that assms(3) by (auto simp: overdue_def days_ago_def intro: less_le_trans)
  then have took: "takes_only (\<lambda>s. mt_rows (pm_table s)) (pc_DryRun cfg) (tr_OwnerUserID t) ?D p p'"
    using pg.expire_batches_takes_only [OF assms(1) [unfolded purgeExpired_def], of ?D] by (auto simp: rows_def)
  have "q = d" if "q \<in> set rows" "d \<in> set rows" "mf_id d = mf_id q" for q d
    using that media_id_unique [OF assms(2)] by (auto simp: rows_def)
  then show ?thesis using took unfolding takes_only_def rows_def [symmetric] rows'_def [symmetric] by blast
qed


text \<open>Forty days after the sample photo was stored, with a retention of thirty.\<close>

definition late_config :: purge_config where
  "late_config = \<lparr>pc_DryRun = False, pc_Now = 40 * (24 * 3600 * 10 ^ 9), pc_fs = open_fs, pc_guard = (\<lambda>_. None)\<rparr>"

definition late_pg :: pg_media_env where
  "late_pg = good_pg (40 * (24 * 3600 * 10 ^ 9))"

definition sample_purger :: "pg_media purger" where
  "sample_purger = \<lparr>pu_db = sample_pg, pu_disk = sample_disk, pu_rowCursor = (\<lambda>_. 0), pu_pathCursor = (\<lambda>_. [])\<rparr>"

definition thirty_days :: TenantRetention where
  "thirty_days = \<lparr>tr_OwnerUserID = 7, tr_RetentionDays = 30\<rparr>"

theorem retention_removes_only_overdue_witness:
  "\<exists>stats err p'. purgeExpired (pg_catalogue late_pg) late_config thirty_days sample_purger = (stats, err, p') \<and>
    st_FilesDeleted stats = 1 \<and> (\<exists>q \<in> set (mt_rows sample_media). names q [[55], [97]])"
proof -
  let ?r = "purgeExpired (pg_catalogue late_pg) late_config thirty_days sample_purger"
  obtain stats err p' where r: "?r = (stats, err, p')" by (cases ?r)
  have s: "case ?r of (stats, err, p') \<Rightarrow> st_FilesDeleted stats = 1 \<and> file_at [[55], [97]] (pu_disk p') = None" by code_simp
  have d: "file_at [[55], [97]] sample_disk \<noteq> None" by code_simp
  have inv: "media_inv (pm_table (pu_db sample_purger))"
    unfolding sample_purger_def sample_pg_def sample_media_def by (simp add: media_inv_run)
  have "file_at [[55], [97]] (pu_disk p') \<noteq> file_at [[55], [97]] (pu_disk sample_purger)"
    using s d r by (auto simp: sample_purger_def)
  then have "\<exists>q \<in> set (mt_rows (pm_table (pu_db sample_purger))). names q [[55], [97]]"
    using retention_removes_only_overdue [OF r inv, of "40 * (24 * 3600 * 10 ^ 9)"]
    by (simp add: late_pg_def good_pg_def) blast
  then show ?thesis using r s by (auto simp: sample_purger_def sample_pg_def)
qed


section \<open>A blob that two rows share\<close>

text \<open>The store names a file after the tenant, the day and the file's unique id, and reuses a file that is already
  there: the same photo sent twice in a day has two rows and one file. The retention decides row by row. When the
  older row is overdue it unlinks the file, and the younger row, still within the retention and still stored, is left
  without one.\<close>

definition again :: MediaRecord where
  "again = sample_photo\<lparr>mr_MessageID := 10\<rparr>"

definition twice :: media_table where
  "twice = foldl (\<lambda>mt (op, t). media_step op t mt) empty_media
     [(MediaSave good_tx 0 sample_photo, 7), (MediaStored good_tx 0 1 sample_blob, 7),
      (MediaSave good_tx (12 * 3600 * 10 ^ 9) again, 7), (MediaStored good_tx (12 * 3600 * 10 ^ 9) 2 sample_blob, 7)]"

theorem shared_blob_unlinked_early:
  "let p = sample_purger\<lparr>pu_db := \<lparr>pm_table = twice, pm_calls = 0\<rparr>\<rparr>;
       now = 30 * (24 * 3600 * 10 ^ 9) + 6 * 3600 * 10 ^ 9;
       (stats, err, p') = purgeExpired (pg_catalogue (good_pg now)) (late_config\<lparr>pc_Now := now\<rparr>) thirty_days p
   in err = None \<and> file_at [[55], [97]] (pu_disk p') = None \<and>
     map (\<lambda>r. (mf_id r, mf_status r, mf_path r)) (mt_rows (pm_table (pu_db p'))) =
       [(1, StatusPurged, None), (2, StatusStored, Some [55, 47, 97])] \<and>
     list_all (\<lambda>r. mf_id r = 2 \<longrightarrow> days_ago now 30 \<le> mf_created r) (mt_rows (pm_table (pu_db p')))"
  by code_simp

end
