(* ===== verification/Erasure_Store.thy ===== *)
theory Erasure_Store
  imports Tenant_Table Media_Path
begin

text \<open>
  \<open>bot/internal/erasure/repository.go\<close> and the table of its requests (\<open>migrations/0006\<close> to \<open>0008\<close>): the codes behind
  \<open>/delete_my_data\<close>. A code is known by its digest, \<open>er_code\<close>. The table has the checks and the two unique indexes
  of the migrations: one row per owner and code, one pending row per owner. The foreign key to the users is not
  modelled: the owner of a request is the owner of a resolved connection, which has its row.
\<close>

section \<open>The table\<close>

datatype er_status = ErPending | ErConsumed | ErCompleted

record er_row =
  er_id :: i64
  er_owner :: i64
  er_telegram_id :: "i64 option"
  er_conn :: "string option"
  er_code :: gostr
  er_status :: er_status
  er_created :: instant
  er_expires :: instant
  er_consumed :: "instant option"
  er_completed :: "instant option"

record er_table =
  et_rows :: "er_row list"
  et_seq :: i64

definition no_requests :: er_table where
  "no_requests = \<lparr>et_rows = [], et_seq = 1\<rparr>"

record Tenant =
  tn_OwnerUserID :: i64
  tn_OwnerTelegramUserID :: i64
  tn_BusinessConnectionID :: string

datatype ClaimState = ClaimUnknown | ClaimExpired | ClaimGranted | ClaimResumable | ClaimCompleted

section \<open>Operations\<close>

definition new_request :: "instant \<Rightarrow> i64 \<Rightarrow> Tenant \<Rightarrow> gostr \<Rightarrow> duration \<Rightarrow> er_row" where
  "new_request now i t codeHash ttl = \<lparr>er_id = i, er_owner = tn_OwnerUserID t, er_telegram_id = Some (tn_OwnerTelegramUserID t),
     er_conn = Some (tn_BusinessConnectionID t), er_code = codeHash, er_status = ErPending, er_created = now,
     er_expires = now + ttl, er_consumed = None, er_completed = None\<rparr>"

definition replace_request :: "er_row \<Rightarrow> er_row \<Rightarrow> er_row" where
  "replace_request e r = r\<lparr>er_telegram_id := er_telegram_id e, er_conn := er_conn e, er_code := er_code e,
     er_created := er_created e, er_expires := er_expires e\<rparr>"

definition live :: "i64 \<Rightarrow> er_row \<Rightarrow> bool" where
  "live owner r \<longleftrightarrow> er_owner r = owner \<and> er_status r = ErPending"

definition for_code :: "i64 \<Rightarrow> gostr \<Rightarrow> er_row \<Rightarrow> bool" where
  "for_code owner codeHash r \<longleftrightarrow> er_owner r = owner \<and> er_code r = codeHash"

text \<open>\<open>Issue\<close>: the upsert on the pending row of the owner. The other unique index still refuses a code that
  another row of the owner has.\<close>

definition issue_body :: "instant \<Rightarrow> Tenant \<Rightarrow> gostr \<Rightarrow> duration \<Rightarrow> i64 \<Rightarrow> er_table \<Rightarrow> go_error + (instant \<times> er_table)" where
  "issue_body now t codeHash ttl w et =
     (let e = new_request now (et_seq et) t codeHash ttl; owner = er_owner e in
      if owner \<noteq> w \<or> ValidateSHA256 codeHash \<noteq> None then Inl [PgError ''23514'']
      else case find (live owner) (et_rows et) of
          Some p \<Rightarrow>
            if list_ex (\<lambda>r. for_code owner codeHash r \<and> er_id r \<noteq> er_id p) (et_rows et) then Inl [PgError ''23505'']
            else Inr (er_expires e, et\<lparr>et_rows := t_update er_owner w (live owner) (replace_request e) (et_rows et),
                                       et_seq := et_seq et + 1\<rparr>)
        | None \<Rightarrow>
            if list_ex (for_code owner codeHash) (et_rows et) then Inl [PgError ''23505'']
            else Inr (er_expires e, et\<lparr>et_rows := t_insert er_owner w e (et_rows et), et_seq := et_seq et + 1\<rparr>))"

definition er_Issue :: "tx_env \<Rightarrow> instant \<Rightarrow> Tenant \<Rightarrow> gostr \<Rightarrow> duration \<Rightarrow> er_table \<Rightarrow> (go_error + instant) \<times> er_table" where
  "er_Issue tx now t codeHash ttl = InTenant tx (issue_body now t codeHash ttl) (tn_OwnerUserID t)"

definition spendable :: "instant \<Rightarrow> i64 \<Rightarrow> gostr \<Rightarrow> er_row \<Rightarrow> bool" where
  "spendable now owner codeHash r \<longleftrightarrow> for_code owner codeHash r \<and> er_status r = ErPending \<and> now < er_expires r"

definition consume :: "instant \<Rightarrow> er_row \<Rightarrow> er_row" where
  "consume now r = r\<lparr>er_status := ErConsumed, er_consumed := (case er_consumed r of None \<Rightarrow> Some now | Some c \<Rightarrow> Some c)\<rparr>"

definition er_claim_body :: "instant \<Rightarrow> i64 \<Rightarrow> gostr \<Rightarrow> i64 \<Rightarrow> er_table \<Rightarrow> go_error + (ClaimState \<times> er_table)" where
  "er_claim_body now owner codeHash w et =
     (if t_select er_owner w (spendable now owner codeHash) (et_rows et) \<noteq> [] then
        Inr (ClaimGranted, et\<lparr>et_rows := t_update er_owner w (spendable now owner codeHash) (consume now) (et_rows et)\<rparr>)
      else case t_select er_owner w (for_code owner codeHash) (et_rows et) of
          [] \<Rightarrow> Inr (ClaimUnknown, et)
        | r # _ \<Rightarrow> Inr (case er_status r of ErPending \<Rightarrow> ClaimExpired | ErConsumed \<Rightarrow> ClaimResumable | ErCompleted \<Rightarrow> ClaimCompleted, et))"

definition er_Claim :: "tx_env \<Rightarrow> instant \<Rightarrow> i64 \<Rightarrow> gostr \<Rightarrow> er_table \<Rightarrow> (go_error + ClaimState) \<times> er_table" where
  "er_Claim tx now owner codeHash = InTenant tx (er_claim_body now owner codeHash) owner"

definition complete :: "instant \<Rightarrow> er_row \<Rightarrow> er_row" where
  "complete now r = r\<lparr>er_status := ErCompleted, er_completed := (case er_completed r of None \<Rightarrow> Some now | Some c \<Rightarrow> Some c),
     er_telegram_id := None, er_conn := None\<rparr>"

definition er_Complete :: "tx_env \<Rightarrow> instant \<Rightarrow> i64 \<Rightarrow> gostr \<Rightarrow> er_table \<Rightarrow> (go_error + unit) \<times> er_table" where
  "er_Complete tx now owner codeHash =
     InTenant tx (\<lambda>w et. Inr ((), et\<lparr>et_rows :=
       t_update er_owner w (\<lambda>r. for_code owner codeHash r \<and> er_status r = ErConsumed) (complete now) (et_rows et)\<rparr>)) owner"

definition er_DeleteOthers :: "tx_env \<Rightarrow> i64 \<Rightarrow> gostr \<Rightarrow> er_table \<Rightarrow> (go_error + int) \<times> er_table" where
  "er_DeleteOthers tx owner keepHash =
     InTenant tx (\<lambda>w et.
       let P = (\<lambda>r. er_owner r = owner \<and> er_code r \<noteq> keepHash)
       in Inr (int (length (t_select er_owner w P (et_rows et))), et\<lparr>et_rows := t_delete er_owner w P (et_rows et)\<rparr>)) owner"

section \<open>The codes of a tenant\<close>

text \<open>What is known of a code: the row of the tenant for it.\<close>

definition request_of :: "er_table \<Rightarrow> i64 \<Rightarrow> gostr \<Rightarrow> er_row option" where
  "request_of et owner codeHash = find (for_code owner codeHash) (et_rows et)"

text \<open>The invariant of the table: its indexes and its checks.\<close>

definition stamped :: "er_row \<Rightarrow> bool" where
  "stamped r \<longleftrightarrow> (er_status r \<noteq> ErPending \<longrightarrow> er_consumed r \<noteq> None) \<and>
     (er_status r = ErCompleted \<longrightarrow> er_completed r \<noteq> None \<and> er_telegram_id r = None \<and> er_conn r = None)"

definition er_inv :: "er_table \<Rightarrow> bool" where
  "er_inv et \<longleftrightarrow> distinct (map er_id (et_rows et)) \<and> distinct (map (\<lambda>r. (er_owner r, er_code r)) (et_rows et)) \<and>
     (\<forall>r \<in> set (et_rows et). er_id r < et_seq et \<and> stamped r \<and> ValidateSHA256 (er_code r) = None) \<and>
     (\<forall>owner. length (filter (live owner) (et_rows et)) \<le> 1)"

datatype er_op =
    ErIssue tx_env instant Tenant gostr duration
  | ErClaim tx_env instant i64 gostr
  | ErComplete tx_env instant i64 gostr
  | ErDeleteOthers tx_env i64 gostr

primrec er_step :: "er_op \<Rightarrow> er_table \<Rightarrow> er_table" where
  "er_step (ErIssue tx now t codeHash ttl) et = snd (er_Issue tx now t codeHash ttl et)"
| "er_step (ErClaim tx now owner codeHash) et = snd (er_Claim tx now owner codeHash et)"
| "er_step (ErComplete tx now owner codeHash) et = snd (er_Complete tx now owner codeHash et)"
| "er_step (ErDeleteOthers tx owner codeHash) et = snd (er_DeleteOthers tx owner codeHash et)"

primrec er_tenant :: "er_op \<Rightarrow> i64" where
  "er_tenant (ErIssue tx now t codeHash ttl) = tn_OwnerUserID t"
| "er_tenant (ErClaim tx now owner codeHash) = owner"
| "er_tenant (ErComplete tx now owner codeHash) = owner"
| "er_tenant (ErDeleteOthers tx owner codeHash) = owner"

section \<open>The invariant\<close>

lemma er_inv_no_requests [simp]: "er_inv no_requests"
  by (simp add: er_inv_def no_requests_def)

lemma at_most_one: "length (filter P xs) \<le> 1 \<Longrightarrow> x \<in> set xs \<Longrightarrow> P x \<Longrightarrow> y \<in> set xs \<Longrightarrow> P y \<Longrightarrow> x = y"
proof -
  assume one: "length (filter P xs) \<le> 1" and x: "x \<in> set xs" "P x" "y \<in> set xs" "P y"
  then have "x \<in> set (filter P xs)" "y \<in> set (filter P xs)" by auto
  then show "x = y" using one by (cases "filter P xs") auto
qed

lemma er_inv_unique:
  assumes "er_inv et" "r \<in> set (et_rows et)" "q \<in> set (et_rows et)"
  shows "er_id r = er_id q \<Longrightarrow> r = q" "for_code owner c r \<Longrightarrow> for_code owner c q \<Longrightarrow> r = q" "live owner r \<Longrightarrow> live owner q \<Longrightarrow> r = q"
  using assms distinct_map_inj_on [of er_id "et_rows et" r q] distinct_map_inj_on [of "\<lambda>r. (er_owner r, er_code r)" "et_rows et" r q]
    at_most_one [of "live owner" "et_rows et" r q]
  by (auto simp: er_inv_def for_code_def)

lemma filter_update_where_same:
  "(\<And>x. x \<in> set xs \<Longrightarrow> P x \<Longrightarrow> Q (f x) = Q x) \<Longrightarrow> length (filter Q (update_where P f xs)) = length (filter Q xs)"
  by (induction xs) auto

lemma filter_update_where_less:
  "(\<And>x. x \<in> set xs \<Longrightarrow> P x \<Longrightarrow> Q (f x) \<Longrightarrow> Q x) \<Longrightarrow> length (filter Q (update_where P f xs)) \<le> length (filter Q xs)"
  by (induction xs) auto

text \<open>An update of the status of rows, an update of the pending row, and a deletion.\<close>

lemma er_inv_mark:
  assumes "er_inv et" "\<And>r. er_id (f r) = er_id r \<and> er_owner (f r) = er_owner r \<and> er_code (f r) = er_code r \<and> er_status (f r) \<noteq> ErPending"
    and "\<And>r. r \<in> set (et_rows et) \<Longrightarrow> P r \<Longrightarrow> stamped (f r)"
  shows "er_inv (et\<lparr>et_rows := t_update er_owner w P f (et_rows et)\<rparr>)"
proof -
  let ?rows = "t_update er_owner w P f (et_rows et)"
  have "map er_id ?rows = map er_id (et_rows et)"
    "map (\<lambda>r. (er_owner r, er_code r)) ?rows = map (\<lambda>r. (er_owner r, er_code r)) (et_rows et)"
    using assms(2) by (auto simp: t_update_def intro!: map_update_where)
  moreover have "length (filter (live owner) ?rows) \<le> length (filter (live owner) (et_rows et))" for owner
    unfolding t_update_def by (rule filter_update_where_less) (use assms(2) in \<open>auto simp: live_def\<close>)
  from le_trans [OF this] have "length (filter (live owner) ?rows) \<le> 1" for owner using assms(1) by (simp add: er_inv_def)
  moreover have "er_id r < et_seq et \<and> stamped r \<and> ValidateSHA256 (er_code r) = None" if "r \<in> set ?rows" for r
    using that assms by (auto simp: t_update_def set_update_where er_inv_def)
  ultimately show ?thesis using assms(1) by (simp add: er_inv_def)
qed

lemma er_inv_filter:
  assumes "er_inv et"
  shows "er_inv (et\<lparr>et_rows := t_delete er_owner w P (et_rows et)\<rparr>)"
proof -
  have "length (filter (live owner) (filter Q rows)) \<le> length (filter (live owner) rows)" for owner Q rows
    by (induction rows) (auto intro: le_SucI)
  from le_trans [OF this] show ?thesis using assms by (simp add: er_inv_def t_delete_def distinct_map_filter)
qed

lemma er_inv_issue:
  assumes "er_inv et" "issue_body now t codeHash ttl w et = Inr (a, et')"
  shows "er_inv et'"
proof -
  let ?owner = "tn_OwnerUserID t"
  let ?e = "new_request now (et_seq et) t codeHash ttl"
  have e: "er_owner ?e = ?owner" "er_code ?e = codeHash" "er_id ?e = et_seq et" "er_status ?e = ErPending" "stamped ?e"
    by (simp_all add: new_request_def stamped_def)
  have w: "w = ?owner" "ValidateSHA256 codeHash = None" using assms(2) e(1) by (auto simp: issue_body_def Let_def split: if_splits)
  show ?thesis
  proof (cases "find (live ?owner) (et_rows et)")
    case None
    then have new: "et' = et\<lparr>et_rows := et_rows et @ [?e], et_seq := et_seq et + 1\<rparr>" "\<forall>r \<in> set (et_rows et). \<not> for_code ?owner codeHash r"
      using assms(2) w e by (auto simp: issue_body_def Let_def t_insert_def list_ex_iff split: if_splits)
    have "\<forall>r \<in> set (et_rows et). \<not> live ?owner r" using None by (simp add: find_None_iff_all)
    then have "filter (live ?owner) (et_rows et) = []" by (simp add: filter_empty_conv)
    then have "length (filter (live o') (et_rows et @ [?e])) \<le> 1" for o'
      using assms(1) e(1) by (cases "o' = ?owner") (auto simp: er_inv_def live_def)
    moreover have "(?owner, codeHash) \<notin> (\<lambda>r. (er_owner r, er_code r)) ` set (et_rows et)" using new(2) by (auto simp: for_code_def)
    moreover have "et_seq et \<notin> er_id ` set (et_rows et)" using assms(1) by (auto simp: er_inv_def)
    ultimately show ?thesis using assms(1) e w unfolding new(1) er_inv_def by (auto simp: less_Suc_eq intro: less_trans)
  next
    case (Some p)
    then have p: "p \<in> set (et_rows et)" "live ?owner p" by (auto dest: find_Some_iff_mem)
    have only: "r = p" if "r \<in> set (et_rows et)" "live ?owner r" for r
      using er_inv_unique(3) [OF assms(1) that(1) p(1) that(2) p(2)] .
    let ?rows = "t_update er_owner w (live ?owner) (replace_request ?e) (et_rows et)"
    have new: "et' = et\<lparr>et_rows := ?rows, et_seq := et_seq et + 1\<rparr>" "\<forall>r \<in> set (et_rows et). for_code ?owner codeHash r \<longrightarrow> er_id r = er_id p"
      using assms(2) w e Some by (auto simp: issue_body_def Let_def list_ex_iff split: if_splits)
    have keep: "er_id (replace_request ?e r) = er_id r" "er_owner (replace_request ?e r) = er_owner r"
      "er_status (replace_request ?e r) = er_status r" "er_code (replace_request ?e r) = codeHash" for r
      by (simp_all add: replace_request_def e(2))
    have ids: "map er_id ?rows = map er_id (et_rows et)" by (auto simp: t_update_def keep intro!: map_update_where)
    have "distinct (map (\<lambda>r. (er_owner r, er_code r)) ?rows)"
      unfolding distinct_map
    proof (intro conjI inj_onI)
      have "distinct (map er_id ?rows)" using ids assms(1) by (simp add: er_inv_def)
      then show "distinct ?rows" by (simp only: distinct_map)
      fix x y assume "x \<in> set ?rows" "y \<in> set ?rows" and eq: "(er_owner x, er_code x) = (er_owner y, er_code y)"
      then obtain r q where r: "r \<in> set (et_rows et)" "x = (if live ?owner r then replace_request ?e r else r)"
        and q: "q \<in> set (et_rows et)" "y = (if live ?owner q then replace_request ?e q else q)"
        by (auto simp: t_update_def set_update_where w(1) live_def)
      have other: "u = p" if "u \<in> set (et_rows et)" "for_code ?owner codeHash u" for u
        using er_inv_unique(1) [OF assms(1) that(1) p(1)] new(2) that by blast
      have "r = q"
      proof (cases "live ?owner r"; cases "live ?owner q")
        assume "live ?owner r" "live ?owner q"
        then show ?thesis using only r(1) q(1) by blast
      next
        assume l: "live ?owner r" "\<not> live ?owner q"
        then have "for_code ?owner codeHash q" using eq r(2) q(2) by (auto simp: keep for_code_def live_def)
        then show ?thesis using other q(1) only l(1) r(1) by blast
      next
        assume l: "\<not> live ?owner r" "live ?owner q"
        then have "for_code ?owner codeHash r" using eq r(2) q(2) by (auto simp: keep for_code_def live_def)
        then show ?thesis using other r(1) only l(2) q(1) by blast
      next
        assume "\<not> live ?owner r" "\<not> live ?owner q"
        then show ?thesis using eq r q er_inv_unique(2) [OF assms(1) r(1) q(1), of "er_owner r" "er_code r"] by (auto simp: for_code_def)
      qed
      then show "x = y" using r(2) q(2) by simp
    qed
    moreover have "length (filter (live o') ?rows) = length (filter (live o') (et_rows et))" for o'
      unfolding t_update_def by (rule filter_update_where_same) (simp add: live_def keep)
    moreover have "er_id r < et_seq et + 1 \<and> stamped r \<and> ValidateSHA256 (er_code r) = None" if r: "r \<in> set ?rows" for r
    proof -
      obtain q where q: "q \<in> set (et_rows et)" "r = (if live ?owner q then replace_request ?e q else q)"
        using r by (auto simp: t_update_def set_update_where w(1) live_def)
      have "stamped (replace_request ?e q)" if "live ?owner q" using that by (simp add: stamped_def live_def replace_request_def)
      then show ?thesis using q assms(1) w(2) keep by (fastforce simp: er_inv_def)
    qed
    ultimately show ?thesis using assms(1) ids unfolding new(1) er_inv_def by simp
  qed
qed

lemma er_inv_step: "er_inv et \<Longrightarrow> er_inv (er_step op et)"
proof (induction op)
  case (ErIssue tx now t codeHash ttl)
  then show ?case by (simp add: er_Issue_def) (rule InTenant_keeps, simp, erule (1) er_inv_issue)
next
  case (ErClaim tx now owner codeHash)
  have consumed: "er_id (consume now r) = er_id r \<and> er_owner (consume now r) = er_owner r \<and> er_code (consume now r) = er_code r \<and>
      er_status (consume now r) \<noteq> ErPending" "er_status r = ErPending \<Longrightarrow> stamped (consume now r)" for r
    by (auto simp: consume_def stamped_def split: option.splits)
  have "er_inv et'" if "er_claim_body now owner codeHash owner et = Inr (a, et')" for a et'
    using that ErClaim er_inv_mark [OF ErClaim consumed(1), of "spendable now owner codeHash" owner] consumed(2)
    by (auto simp: er_claim_body_def spendable_def split: if_splits list.splits)
  then show ?case using ErClaim by (simp add: er_Claim_def) (rule InTenant_keeps, simp_all)
next
  case (ErComplete tx now owner codeHash)
  have completed: "er_id (complete now r) = er_id r \<and> er_owner (complete now r) = er_owner r \<and> er_code (complete now r) = er_code r \<and>
      er_status (complete now r) \<noteq> ErPending" "er_status r = ErConsumed \<Longrightarrow> stamped r \<Longrightarrow> stamped (complete now r)" for r
    by (auto simp: complete_def stamped_def split: option.splits)
  have "er_inv (et\<lparr>et_rows := t_update er_owner owner (\<lambda>r. for_code owner codeHash r \<and> er_status r = ErConsumed) (complete now) (et_rows et)\<rparr>)"
    by (rule er_inv_mark [OF ErComplete completed(1)]) (use ErComplete completed(2) in \<open>auto simp: er_inv_def\<close>)
  then show ?case using ErComplete by (simp add: er_Complete_def) (rule InTenant_keeps, auto)
next
  case (ErDeleteOthers tx owner codeHash)
  then show ?case by (simp add: er_DeleteOthers_def) (rule InTenant_keeps, auto simp: Let_def intro: er_inv_filter)
qed

section \<open>The register of codes\<close>

text \<open>What the table promises, whatever its rows look like: for each tenant and code the state of the request and
  the end of its window. The statements of the repository are these functions of the register.\<close>

type_synonym register = "i64 \<times> gostr \<Rightarrow> (er_status \<times> instant) option"

definition register_of :: "er_table \<Rightarrow> register" where
  "register_of et = (\<lambda>(owner, c). map_option (\<lambda>r. (er_status r, er_expires r)) (request_of et owner c))"

definition claim_state :: "instant \<Rightarrow> (er_status \<times> instant) option \<Rightarrow> ClaimState" where
  "claim_state now q = (case q of
      None \<Rightarrow> ClaimUnknown
    | Some (ErPending, end) \<Rightarrow> if now < end then ClaimGranted else ClaimExpired
    | Some (ErConsumed, _) \<Rightarrow> ClaimResumable
    | Some (ErCompleted, _) \<Rightarrow> ClaimCompleted)"

definition spec_claim :: "instant \<Rightarrow> i64 \<Rightarrow> gostr \<Rightarrow> register \<Rightarrow> register" where
  "spec_claim now owner c R = (if claim_state now (R (owner, c)) = ClaimGranted
     then R((owner, c) \<mapsto> (ErConsumed, snd (the (R (owner, c))))) else R)"

definition spec_complete :: "i64 \<Rightarrow> gostr \<Rightarrow> register \<Rightarrow> register" where
  "spec_complete owner c R = (case R (owner, c) of
      Some (ErConsumed, end) \<Rightarrow> R((owner, c) \<mapsto> (ErCompleted, end))
    | _ \<Rightarrow> R)"

definition spec_delete_others :: "i64 \<Rightarrow> gostr \<Rightarrow> register \<Rightarrow> register" where
  "spec_delete_others owner c R = (\<lambda>(o', c'). if o' = owner \<and> c' \<noteq> c then None else R (o', c'))"

text \<open>A new code takes the place of the pending one of the tenant, and of no other.\<close>

definition spec_issue :: "instant \<Rightarrow> i64 \<Rightarrow> gostr \<Rightarrow> duration \<Rightarrow> register \<Rightarrow> register" where
  "spec_issue now owner c ttl R = (\<lambda>(o', c').
     if o' = owner \<and> c' = c then Some (ErPending, now + ttl)
     else if o' = owner \<and> (case R (o', c') of Some (ErPending, _) \<Rightarrow> True | _ \<Rightarrow> False) then None
     else R (o', c'))"

lemma request_of_Some: "request_of et owner c = Some r \<Longrightarrow> r \<in> set (et_rows et) \<and> for_code owner c r"
  by (auto simp: request_of_def dest: find_Some_iff_mem)

lemma request_of_row: "er_inv et \<Longrightarrow> r \<in> set (et_rows et) \<Longrightarrow> for_code owner c r \<Longrightarrow> request_of et owner c = Some r"
  using er_inv_unique(2) [of et] request_of_Some [of et owner c]
  by (cases "request_of et owner c") (auto simp: request_of_def find_None_iff_all)

lemma request_of_None: "request_of et owner c = None \<longleftrightarrow> (\<forall>r \<in> set (et_rows et). \<not> for_code owner c r)"
  by (simp add: request_of_def find_None_iff_all)

lemma find_update_where:
  "(\<And>x. x \<in> set xs \<Longrightarrow> P x \<Longrightarrow> Q (f x) = Q x) \<Longrightarrow>
    find Q (update_where P f xs) = map_option (\<lambda>x. if P x then f x else x) (find Q xs)"
  by (induction xs) auto

lemma request_of_update:
  assumes "\<And>r. er_owner (f r) = er_owner r \<and> er_code (f r) = er_code r"
  shows "request_of (et\<lparr>et_rows := t_update er_owner w P f (et_rows et)\<rparr>) owner c =
    map_option (\<lambda>r. if er_owner r = w \<and> P r then f r else r) (request_of et owner c)"
  unfolding request_of_def t_update_def by (simp add: find_update_where for_code_def assms)

lemma request_of_delete:
  "request_of (et\<lparr>et_rows := t_delete er_owner w P (et_rows et)\<rparr>) owner c =
    (if er_inv et then (case request_of et owner c of Some r \<Rightarrow> if er_owner r = w \<and> P r then None else Some r | None \<Rightarrow> None)
     else request_of (et\<lparr>et_rows := t_delete er_owner w P (et_rows et)\<rparr>) owner c)"
proof (cases "er_inv et")
  case True
  let ?et = "et\<lparr>et_rows := t_delete er_owner w P (et_rows et)\<rparr>"
  have inv: "er_inv ?et" by (rule er_inv_filter [OF True])
  show ?thesis
  proof (cases "request_of et owner c")
    case None
    then have "request_of ?et owner c = None" by (auto simp: request_of_None t_delete_def)
    then show ?thesis using None by simp
  next
    case (Some r)
    have r: "r \<in> set (et_rows et)" "for_code owner c r" using request_of_Some [OF Some] by auto
    show ?thesis
    proof (cases "er_owner r = w \<and> P r")
      case gone: True
      have "request_of ?et owner c = None"
        unfolding request_of_None using er_inv_unique(2) [OF True r(1) _ r(2)] gone by (fastforce simp: t_delete_def)
      then show ?thesis using True Some gone by simp
    next
      case False
      then have "request_of ?et owner c = Some r" by (intro request_of_row [OF inv _ r(2)]) (use r(1) in \<open>auto simp: t_delete_def\<close>)
      then show ?thesis using Some False by auto
    qed
  qed
qed simp

text \<open>An update of the row of one code moves that code only.\<close>

lemma register_of_update:
  assumes "request_of et owner c = Some q"
    and "\<And>r. er_owner (f r) = er_owner r \<and> er_code (f r) = er_code r" "\<And>r. P r \<Longrightarrow> for_code owner c r"
  shows "register_of (et\<lparr>et_rows := t_update er_owner w P f (et_rows et)\<rparr>) =
    (register_of et)((owner, c) \<mapsto> (let r = (if er_owner q = w \<and> P q then f q else q) in (er_status r, er_expires r)))"
proof
  fix k :: "i64 \<times> gostr"
  obtain o' c' where k: "k = (o', c')" by (cases k)
  note upd = request_of_update [OF assms(2), of w P et o' c']
  show "register_of (et\<lparr>et_rows := t_update er_owner w P f (et_rows et)\<rparr>) k =
    ((register_of et)((owner, c) \<mapsto> (let r = (if er_owner q = w \<and> P q then f q else q) in (er_status r, er_expires r)))) k"
  proof (cases "k = (owner, c)")
    case True
    then show ?thesis using upd k assms(1) by (simp add: register_of_def Let_def)
  next
    case False
    have "request_of (et\<lparr>et_rows := t_update er_owner w P f (et_rows et)\<rparr>) o' c' = request_of et o' c'"
    proof (cases "request_of et o' c'")
      case (Some r)
      then have "\<not> P r" using request_of_Some [OF Some] assms(3) [of r] False k by (auto simp: for_code_def)
      then show ?thesis using upd Some by simp
    qed (use upd in simp)
    moreover have "\<not> (o' = owner \<and> c' = c)" using False k by simp
    ultimately show ?thesis using k by (auto simp: register_of_def)
  qed
qed

lemma er_claim_body_result:
  assumes "er_inv et"
  shows "\<exists>et'. er_claim_body now owner c owner et = Inr (claim_state now (register_of et (owner, c)), et') \<and>
    register_of et' = spec_claim now owner c (register_of et) \<and>
    (claim_state now (register_of et (owner, c)) \<noteq> ClaimGranted \<longrightarrow> et' = et) \<and> others er_owner owner (et_rows et') = others er_owner owner (et_rows et)"
proof (cases "request_of et owner c")
  case None
  then have "t_select er_owner owner (spendable now owner c) (et_rows et) = []" "t_select er_owner owner (for_code owner c) (et_rows et) = []"
    by (auto simp: t_select_def request_of_None filter_empty_conv spendable_def)
  then show ?thesis using None by (simp add: er_claim_body_def register_of_def claim_state_def spec_claim_def)
next
  case (Some q)
  then have q: "q \<in> set (et_rows et)" "for_code owner c q" using request_of_Some by blast+
  have only: "r = q" if "r \<in> set (et_rows et)" "for_code owner c r" for r using er_inv_unique(2) [OF assms that(1) q(1) that(2) q(2)] .
  have own: "er_owner q = owner" using q(2) by (simp add: for_code_def)
  have reg: "register_of et (owner, c) = Some (er_status q, er_expires q)" using Some by (simp add: register_of_def)
  show ?thesis
  proof (cases "spendable now owner c q")
    case True
    let ?et = "et\<lparr>et_rows := t_update er_owner owner (spendable now owner c) (consume now) (et_rows et)\<rparr>"
    have st: "er_status q = ErPending" "now < er_expires q" using True by (simp_all add: spendable_def)
    have "t_select er_owner owner (spendable now owner c) (et_rows et) \<noteq> []"
      using True q(1) own by (auto simp: t_select_def filter_empty_conv)
    then have b: "er_claim_body now owner c owner et = Inr (ClaimGranted, ?et)" by (simp add: er_claim_body_def)
    have g: "claim_state now (register_of et (owner, c)) = ClaimGranted" using reg st by (simp add: claim_state_def)
    have "register_of ?et = (register_of et)((owner, c) \<mapsto> (ErConsumed, er_expires q))"
      using register_of_update [OF Some, where f = "consume now" and w = owner and P = "spendable now owner c"] own True
      by (simp add: consume_def spendable_def)
    then have "register_of ?et = spec_claim now owner c (register_of et)" using g reg by (simp add: spec_claim_def)
    then show ?thesis using b g by (simp add: others_t_update consume_def)
  next
    case False
    have "t_select er_owner owner (spendable now owner c) (et_rows et) = []"
      using only False by (auto simp: t_select_def filter_empty_conv spendable_def)
    moreover have "t_select er_owner owner (for_code owner c) (et_rows et) \<noteq> []" using q own by (auto simp: t_select_def filter_empty_conv)
    ultimately obtain r rs where sel: "t_select er_owner owner (spendable now owner c) (et_rows et) = []"
      "t_select er_owner owner (for_code owner c) (et_rows et) = r # rs"
      by (cases "t_select er_owner owner (for_code owner c) (et_rows et)") auto
    have "r \<in> set (t_select er_owner owner (for_code owner c) (et_rows et))" using sel(2) by simp
    then have "r = q" using only by (simp add: set_t_select)
    then have "er_claim_body now owner c owner et =
        Inr (case er_status q of ErPending \<Rightarrow> ClaimExpired | ErConsumed \<Rightarrow> ClaimResumable | ErCompleted \<Rightarrow> ClaimCompleted, et)"
      using sel by (simp add: er_claim_body_def)
    then show ?thesis
      using reg False q(2) by (cases "er_status q") (auto simp: claim_state_def spec_claim_def spendable_def)
  qed
qed

lemma er_Claim_result:
  assumes "er_inv et" "er_Claim tx now owner c et = (r, et')"
  shows "(\<exists>e. r = Inl e \<and> et' = et \<and> \<not> tx_ok tx) \<or>
    (tx_ok tx \<and> r = Inr (claim_state now (register_of et (owner, c))) \<and> register_of et' = spec_claim now owner c (register_of et) \<and>
     (claim_state now (register_of et (owner, c)) \<noteq> ClaimGranted \<longrightarrow> et' = et))"
    and "er_inv et'" "others er_owner owner (et_rows et') = others er_owner owner (et_rows et)"
proof -
  obtain e2 where b: "er_claim_body now owner c owner et = Inr (claim_state now (register_of et (owner, c)), e2)"
    "register_of e2 = spec_claim now owner c (register_of et)"
    "claim_state now (register_of et (owner, c)) \<noteq> ClaimGranted \<longrightarrow> e2 = et" "others er_owner owner (et_rows e2) = others er_owner owner (et_rows et)"
    using er_claim_body_result [OF assms(1), of now owner c] by blast
  consider (fail) e where "r = Inl e" "et' = et" "\<not> tx_ok tx" | (ok) "tx_ok tx" "r = Inr (claim_state now (register_of et (owner, c)))" "et' = e2"
  proof (cases "tx_ok tx")
    case True
    then show ?thesis using ok assms(2) b(1) by (simp add: er_Claim_def InTenant_ok)
  next
    case False
    then show ?thesis using fail InTenant_cases [OF assms(2) [unfolded er_Claim_def]] by auto
  qed
  then show "(\<exists>e. r = Inl e \<and> et' = et \<and> \<not> tx_ok tx) \<or>
    (tx_ok tx \<and> r = Inr (claim_state now (register_of et (owner, c))) \<and> register_of et' = spec_claim now owner c (register_of et) \<and>
     (claim_state now (register_of et (owner, c)) \<noteq> ClaimGranted \<longrightarrow> et' = et))"
    and "others er_owner owner (et_rows et') = others er_owner owner (et_rows et)"
    using b(2-4) by auto
  show "er_inv et'" using er_inv_step [OF assms(1), of "ErClaim tx now owner c"] assms(2) by simp
qed

lemma er_Complete_result:
  assumes "er_inv et" "er_Complete tx now owner c et = (r, et')"
  shows "(\<exists>e. r = Inl e \<and> et' = et \<and> \<not> tx_ok tx) \<or> (tx_ok tx \<and> r = Inr () \<and> register_of et' = spec_complete owner c (register_of et))"
    and "er_inv et'" "others er_owner owner (et_rows et') = others er_owner owner (et_rows et)"
proof -
  let ?P = "\<lambda>r. for_code owner c r \<and> er_status r = ErConsumed"
  let ?et = "et\<lparr>et_rows := t_update er_owner owner ?P (complete now) (et_rows et)\<rparr>"
  have same: "er_owner (complete now q) = er_owner q \<and> er_code (complete now q) = er_code q" for q by (simp add: complete_def)
  have reg: "register_of ?et = spec_complete owner c (register_of et)"
  proof (cases "request_of et owner c")
    case None
    then have none: "\<forall>r \<in> set (et_rows et). \<not> for_code owner c r" by (simp add: request_of_None)
    have "t_update er_owner owner ?P (complete now) (et_rows et) = et_rows et"
      unfolding t_update_def by (rule update_where_none) (use none in auto)
    then show ?thesis using None by (simp add: spec_complete_def register_of_def)
  next
    case (Some q)
    have own: "er_owner q = owner" "for_code owner c q" using request_of_Some [OF Some] by (auto simp: for_code_def)
    have "register_of ?et = (register_of et)((owner, c) \<mapsto>
        (let r = (if er_owner q = owner \<and> ?P q then complete now q else q) in (er_status r, er_expires r)))"
      using register_of_update [OF Some, where f = "complete now" and w = owner and P = ?P, OF same] by blast
    then have "register_of ?et = (register_of et)((owner, c) \<mapsto> (if er_status q = ErConsumed then ErCompleted else er_status q, er_expires q))"
      using own by (simp add: complete_def Let_def)
    then show ?thesis using Some by (cases "er_status q") (auto simp: spec_complete_def register_of_def)
  qed
  have cases: "(\<exists>e. r = Inl e \<and> et' = et \<and> \<not> tx_ok tx) \<or> (tx_ok tx \<and> r = Inr () \<and> et' = ?et)"
  proof (cases "tx_ok tx")
    case True
    then show ?thesis using assms(2) by (simp add: er_Complete_def InTenant_ok)
  next
    case False
    then show ?thesis using InTenant_cases [OF assms(2) [unfolded er_Complete_def]] by auto
  qed
  show "(\<exists>e. r = Inl e \<and> et' = et \<and> \<not> tx_ok tx) \<or> (tx_ok tx \<and> r = Inr () \<and> register_of et' = spec_complete owner c (register_of et))"
    using cases reg by blast
  show "others er_owner owner (et_rows et') = others er_owner owner (et_rows et)" using cases by (auto simp: others_t_update complete_def)
  show "er_inv et'" using er_inv_step [OF assms(1), of "ErComplete tx now owner c"] assms(2) by simp
qed

lemma er_DeleteOthers_result:
  assumes "er_inv et" "er_DeleteOthers tx owner c et = (r, et')"
  shows "(\<exists>e. r = Inl e \<and> et' = et \<and> \<not> tx_ok tx) \<or>
      (tx_ok tx \<and> (\<exists>n. r = Inr n) \<and> register_of et' = spec_delete_others owner c (register_of et) \<and>
       (\<forall>q \<in> set (et_rows et'). er_owner q = owner \<longrightarrow> er_code q = c))"
    and "er_inv et'" "others er_owner owner (et_rows et') = others er_owner owner (et_rows et)"
proof -
  let ?P = "\<lambda>r. er_owner r = owner \<and> er_code r \<noteq> c"
  let ?et = "et\<lparr>et_rows := t_delete er_owner owner ?P (et_rows et)\<rparr>"
  have reg: "register_of ?et = spec_delete_others owner c (register_of et)"
  proof
    fix k :: "i64 \<times> gostr"
    obtain o' c' where k: "k = (o', c')" by (cases k)
    have "request_of ?et o' c' = (case request_of et o' c' of Some r \<Rightarrow> if er_owner r = owner \<and> ?P r then None else Some r | None \<Rightarrow> None)"
      using request_of_delete [where et = et and w = owner and P = ?P and owner = o' and c = c'] assms(1) by simp
    then show "register_of ?et k = spec_delete_others owner c (register_of et) k"
      using request_of_Some [of et o' c'] k
      by (cases "request_of et o' c'") (auto simp: register_of_def spec_delete_others_def for_code_def)
  qed
  have cases: "(\<exists>e. r = Inl e \<and> et' = et \<and> \<not> tx_ok tx) \<or> (tx_ok tx \<and> (\<exists>n. r = Inr n) \<and> et' = ?et)"
  proof (cases "tx_ok tx")
    case True
    then show ?thesis using assms(2) by (auto simp: er_DeleteOthers_def InTenant_ok Let_def)
  next
    case False
    then show ?thesis using InTenant_cases [OF assms(2) [unfolded er_DeleteOthers_def]] by auto
  qed
  have left: "\<forall>q \<in> set (et_rows ?et). er_owner q = owner \<longrightarrow> er_code q = c" by (auto simp: t_delete_def)
  show "(\<exists>e. r = Inl e \<and> et' = et \<and> \<not> tx_ok tx) \<or>
      (tx_ok tx \<and> (\<exists>n. r = Inr n) \<and> register_of et' = spec_delete_others owner c (register_of et) \<and>
       (\<forall>q \<in> set (et_rows et'). er_owner q = owner \<longrightarrow> er_code q = c))"
    using cases reg left by blast
  show "others er_owner owner (et_rows et') = others er_owner owner (et_rows et)" using cases by (auto simp: others_t_delete)
  show "er_inv et'" using er_inv_step [OF assms(1), of "ErDeleteOthers tx owner c"] assms(2) by simp
qed

lemma issue_register:
  assumes "er_inv et" "issue_body now t c ttl (tn_OwnerUserID t) et = Inr (a, et')"
  shows "a = now + ttl \<and> register_of et' = spec_issue now (tn_OwnerUserID t) c ttl (register_of et)"
proof -
  let ?owner = "tn_OwnerUserID t"
  let ?e = "new_request now (et_seq et) t c ttl"
  have e: "er_owner ?e = ?owner" "er_code ?e = c" "er_status ?e = ErPending" "er_expires ?e = now + ttl" by (simp_all add: new_request_def)
  have inv': "er_inv et'" by (rule er_inv_issue [OF assms])
  note row' = request_of_row [OF inv']
  have a: "a = now + ttl" using assms(2) e by (auto simp: issue_body_def Let_def split: if_splits option.splits)
  have "register_of et' (o', c') = spec_issue now ?owner c ttl (register_of et) (o', c')" for o' c'
  proof (cases "find (live ?owner) (et_rows et)")
    case None
    then have new: "et_rows et' = et_rows et @ [?e]" using assms(2) e by (auto simp: issue_body_def Let_def t_insert_def split: if_splits)
    show ?thesis
    proof (cases "o' = ?owner \<and> c' = c")
      case True
      then have "request_of et' o' c' = Some ?e" using row' [of ?e] new e by (simp add: for_code_def)
      then show ?thesis using True e by (simp add: register_of_def spec_issue_def)
    next
      case False
      then have "request_of et' o' c' = request_of et o' c'" using new e by (auto simp: request_of_def find_append for_code_def split: option.splits)
      moreover have "\<forall>r \<in> set (et_rows et). \<not> live ?owner r" using None by (simp add: find_None_iff_all)
      ultimately show ?thesis
        using False request_of_Some [of et o' c'] by (cases "request_of et o' c'") (auto simp: register_of_def spec_issue_def live_def for_code_def split: er_status.splits)
    qed
  next
    case (Some p)
    then have p: "p \<in> set (et_rows et)" "live ?owner p" by (auto dest: find_Some_iff_mem)
    have only: "r = p" if "r \<in> set (et_rows et)" "live ?owner r" for r
      using er_inv_unique(3) [OF assms(1) that(1) p(1) that(2) p(2)] .
    let ?f = "replace_request ?e"
    have new: "set (et_rows et') = (\<lambda>r. if live ?owner r then ?f r else r) ` set (et_rows et)"
      using assms(2) Some e by (auto simp: issue_body_def Let_def t_update_def set_update_where live_def split: if_splits)
    have f: "er_owner (?f r) = er_owner r" "er_code (?f r) = c" "er_status (?f r) = er_status r" "er_expires (?f r) = now + ttl" for r
      by (simp_all add: replace_request_def e)
    consider (new) "o' = ?owner \<and> c' = c" | (old) r where "\<not> (o' = ?owner \<and> c' = c)" "request_of et o' c' = Some r"
      | (none) "\<not> (o' = ?owner \<and> c' = c)" "request_of et o' c' = None" by blast
    then show ?thesis
    proof cases
      case new2: new
      have "?f p \<in> set (et_rows et')" unfolding new using p by (intro image_eqI [of _ _ p]) auto
      moreover have "for_code o' c' (?f p)" using new2 p(2) by (simp add: for_code_def f live_def)
      ultimately have "request_of et' o' c' = Some (?f p)" by (rule row')
      then show ?thesis using new2 p(2) by (simp add: register_of_def spec_issue_def f live_def)
    next
      case old
      have r: "r \<in> set (et_rows et)" "for_code o' c' r" using request_of_Some [OF old(2)] by auto
      show ?thesis
      proof (cases "live ?owner r")
        case True
        then have o: "o' = ?owner" "r = p" using r only by (auto simp: live_def for_code_def)
        have "\<not> for_code o' c' x" if "x \<in> set (et_rows et')" for x
        proof
          assume x: "for_code o' c' x"
          obtain y where y: "y \<in> set (et_rows et)" "x = (if live ?owner y then ?f y else y)" using \<open>x \<in> _\<close> new by auto
          have "\<not> live ?owner y"
          proof
            assume "live ?owner y"
            then have "er_code x = c" using y(2) by (simp add: f)
            then show False using x old(1) o(1) by (simp add: for_code_def)
          qed
          moreover from this have "for_code o' c' y" using x y(2) by simp
          ultimately have "\<not> live ?owner y" "for_code o' c' y" by auto
          then show False using er_inv_unique(2) [OF assms(1) y(1) r(1)] r(2) True by blast
        qed
        then have "request_of et' o' c' = None" by (simp add: request_of_None)
        then show ?thesis using True o old by (auto simp: register_of_def spec_issue_def live_def)
      next
        case False
        then have "r \<in> set (et_rows et')" unfolding new using r(1) by (intro image_eqI [of _ _ r]) auto
        then have "request_of et' o' c' = Some r" using row' r(2) by blast
        then show ?thesis using False old r(2) by (auto simp: register_of_def spec_issue_def live_def for_code_def split: er_status.splits)
      qed
    next
      case none
      have "\<not> for_code o' c' x" if "x \<in> set (et_rows et')" for x
      proof
        assume x: "for_code o' c' x"
        obtain y where y: "y \<in> set (et_rows et)" "x = (if live ?owner y then ?f y else y)" using \<open>x \<in> _\<close> new by auto
        have "for_code o' c' y \<or> (o' = ?owner \<and> c' = c)" using x y(2) by (auto simp: for_code_def f live_def split: if_splits)
        then show False using y(1) none by (auto simp: request_of_None)
      qed
      then have "request_of et' o' c' = None" by (simp add: request_of_None)
      then show ?thesis using none by (simp add: register_of_def spec_issue_def)
    qed
  qed
  then show ?thesis using a by auto
qed

lemma er_Issue_result:
  assumes "er_inv et" "er_Issue tx now t c ttl et = (r, et')"
  shows "(\<exists>e. r = Inl e \<and> et' = et) \<or>
    (tx_ok tx \<and> r = Inr (now + ttl) \<and> register_of et' = spec_issue now (tn_OwnerUserID t) c ttl (register_of et))"
  using InTenant_cases [OF assms(2) [unfolded er_Issue_def]] issue_register [OF assms(1)] by fastforce

section \<open>Properties\<close>


text \<open>C32. A tenant never has two live codes, and the table never holds two requests for one code: this is what makes
  the last code handed out the only one that can be spent, and a code spendable once. A request that left the pending
  state carries the time it was spent, and a completed one names neither the Telegram account nor the connection. All
  of it holds after any calls for any tenants, whatever fails.\<close>

theorem one_live_code:
  "let rows = et_rows (foldl (\<lambda>et op. er_step op et) no_requests ops) in
    length (filter (live owner) rows) \<le> 1 \<and> length (filter (for_code owner c) rows) \<le> 1 \<and>
    list_all (\<lambda>r. ValidateSHA256 (er_code r) = None \<and> (case er_status r of ErPending \<Rightarrow> True | ErConsumed \<Rightarrow> er_consumed r \<noteq> None
      | ErCompleted \<Rightarrow> er_consumed r \<noteq> None \<and> er_completed r \<noteq> None \<and> er_telegram_id r = None \<and> er_conn r = None)) rows"
proof -
  let ?et = "foldl (\<lambda>et op. er_step op et) no_requests ops"
  have inv: "er_inv ?et" by (induction ops rule: rev_induct) (simp_all add: er_inv_step)
  have "length (filter (for_code owner c) rows) \<le> 1" if "distinct (map (\<lambda>r. (er_owner r, er_code r)) rows)" for rows
    using that by (induction rows) (auto simp: for_code_def image_iff filter_empty_conv split: if_splits)
  then show ?thesis using inv by (auto simp: Let_def er_inv_def list_all_iff stamped_def split: er_status.splits)
qed

end
