(* ===== verification/Erasure.thy ===== *)
theory Erasure
  imports "HOL-Library.Word" Erasure_Store Business Messages Purge
begin

text \<open>
  \<open>bot/internal/erasure/erasure.go\<close>: the service behind \<open>/delete_my_data\<close>. The interfaces it is built on
  (\<open>Challenges\<close>, \<open>Connections\<close>, \<open>Outbox\<close>, \<open>Media\<close>, \<open>Messages\<close>) and the two sides of the exclusion of a tenant are the
  record \<open>erasure_ports\<close> on an abstract state. The locale \<open>erasing\<close> states what the service relies on and proves its
  guarantees; the interpretation is the program's own composition, \<open>world_ports\<close>: the connection service, the
  tables, the media directory and the requests. \<open>unicode.ToUpper\<close>, SHA-256 and the random bytes are arguments.
\<close>

section \<open>Codes\<close>

definition ChallengeTTL :: duration where "ChallengeTTL = 10 * 60 * 10 ^ 9"
definition codeAlphabet :: gostr where "codeAlphabet = runes ''ABCDEFGHJKLMNPQRSTUVWXYZ23456789''"
definition codeLength :: nat where "codeLength = 8"

record code_env =
  cd_upper :: "rune \<Rightarrow> rune"
  cd_sha :: "gostr \<Rightarrow> gostr" \<comment> \<open>the lower-case hexadecimal SHA-256 of a text\<close>

definition NormaliseCode :: "code_env \<Rightarrow> gostr \<Rightarrow> gostr" where
  "NormaliseCode cd code = filter (\<lambda>r. r \<noteq> 32 \<and> r \<noteq> 45 \<and> r \<noteq> 95) (map (cd_upper cd) (TrimSpace code))"

definition HashCode :: "code_env \<Rightarrow> gostr \<Rightarrow> gostr" where
  "HashCode cd code = cd_sha cd (NormaliseCode cd code)"

text \<open>\<open>newCode\<close>: the bytes \<open>rand.Read\<close> put in a buffer of \<open>codeLength\<close> bytes, or its failure.\<close>

definition newCode :: "8 word list option \<Rightarrow> go_error + gostr" where
  "newCode raw = (case raw of
      None \<Rightarrow> Inl [Msg ''generating a confirmation code'']
    | Some bytes \<Rightarrow> Inr (map (\<lambda>b. codeAlphabet ! (unat b mod length codeAlphabet)) (take codeLength bytes)))"

section \<open>The service\<close>

datatype Outcome = OutcomeErased | OutcomeAlreadyErased | OutcomeExpired | OutcomeUnknown

record Challenge =
  chl_Code :: gostr
  chl_ExpiresAt :: instant

record 's erasure_ports =
  ep_Shared :: "i64 \<Rightarrow> go_error option"
  ep_Exclusive :: "i64 \<Rightarrow> go_error option"
  ep_Issue :: "Tenant \<Rightarrow> gostr \<Rightarrow> duration \<Rightarrow> 's \<Rightarrow> (go_error + instant) \<times> 's"
  ep_Claim :: "i64 \<Rightarrow> gostr \<Rightarrow> 's \<Rightarrow> (go_error + ClaimState) \<times> 's"
  ep_Complete :: "i64 \<Rightarrow> gostr \<Rightarrow> 's \<Rightarrow> (go_error + unit) \<times> 's"
  ep_DeleteOthers :: "i64 \<Rightarrow> gostr \<Rightarrow> 's \<Rightarrow> (go_error + int) \<times> 's"
  ep_DisableOwner :: "i64 \<Rightarrow> 's \<Rightarrow> (go_error + int) \<times> 's"
  ep_DeleteAlerts :: "i64 \<Rightarrow> 's \<Rightarrow> (go_error + int) \<times> 's"
  ep_EraseTenant :: "i64 \<Rightarrow> 's \<Rightarrow> (go_error + (int \<times> int)) \<times> 's"
  ep_DeleteMessages :: "i64 \<Rightarrow> 's \<Rightarrow> (go_error + (int \<times> int)) \<times> 's"

definition Request :: "'s erasure_ports \<Rightarrow> code_env \<Rightarrow> 8 word list option \<Rightarrow> Tenant \<Rightarrow> 's \<Rightarrow> (go_error + Challenge) \<times> 's" where
  "Request P cd raw t s =
     (case newCode raw of
        Inl err \<Rightarrow> (Inl err, s)
      | Inr code \<Rightarrow>
          (case ep_Shared P (tn_OwnerUserID t) of
             Some err \<Rightarrow> (Inl err, s)
           | None \<Rightarrow>
               (case ep_Issue P t (HashCode cd code) ChallengeTTL s of
                  (Inl err, s') \<Rightarrow> (Inl err, s')
                | (Inr expiresAt, s') \<Rightarrow> (Inr \<lparr>chl_Code = code, chl_ExpiresAt = expiresAt\<rparr>, s'))))"

text \<open>The five steps of \<open>erase\<close>, each with the message its error is wrapped in; the counters are only logged.\<close>

datatype erase_step = DisableConnections | DeleteAlerts | EraseAttachments | DeleteMessages | DeleteOtherCodes

definition erase_order :: "erase_step list" where
  "erase_order = [DisableConnections, DeleteAlerts, EraseAttachments, DeleteMessages, DeleteOtherCodes]"

definition step_error :: "string \<Rightarrow> (go_error + 'a) \<times> 's \<Rightarrow> go_error option \<times> 's" where
  "step_error msg r = (case r of (Inl err, s) \<Rightarrow> (Some (Msg msg # err), s) | (Inr _, s) \<Rightarrow> (None, s))"

primrec run_step :: "'s erasure_ports \<Rightarrow> i64 \<Rightarrow> gostr \<Rightarrow> erase_step \<Rightarrow> 's \<Rightarrow> go_error option \<times> 's" where
  "run_step P owner keepHash DisableConnections s = step_error ''disabling connections'' (ep_DisableOwner P owner s)"
| "run_step P owner keepHash DeleteAlerts s = step_error ''deleting queued alerts'' (ep_DeleteAlerts P owner s)"
| "run_step P owner keepHash EraseAttachments s = step_error ''deleting attachments'' (ep_EraseTenant P owner s)"
| "run_step P owner keepHash DeleteMessages s = step_error ''deleting messages'' (ep_DeleteMessages P owner s)"
| "run_step P owner keepHash DeleteOtherCodes s = step_error ''deleting other erasure requests'' (ep_DeleteOthers P owner keepHash s)"

fun run_steps :: "'s erasure_ports \<Rightarrow> i64 \<Rightarrow> gostr \<Rightarrow> erase_step list \<Rightarrow> 's \<Rightarrow> go_error option \<times> 's" where
  "run_steps P owner keepHash [] s = (None, s)"
| "run_steps P owner keepHash (st # sts) s =
     (case run_step P owner keepHash st s of
        (Some err, s') \<Rightarrow> (Some err, s')
      | (None, s') \<Rightarrow> run_steps P owner keepHash sts s')"

definition erase :: "'s erasure_ports \<Rightarrow> i64 \<Rightarrow> gostr \<Rightarrow> 's \<Rightarrow> go_error option \<times> 's" where
  "erase P owner keepHash = run_steps P owner keepHash erase_order"

definition erase_and_complete :: "'s erasure_ports \<Rightarrow> i64 \<Rightarrow> gostr \<Rightarrow> 's \<Rightarrow> (Outcome \<times> go_error option) \<times> 's" where
  "erase_and_complete P owner hash s =
     (case erase P owner hash s of
        (Some err, s') \<Rightarrow> ((OutcomeErased, Some err), s')
      | (None, s') \<Rightarrow>
          (case ep_Complete P owner hash s' of
             (Inl err, s'') \<Rightarrow> ((OutcomeErased, Some err), s'')
           | (Inr _, s'') \<Rightarrow> ((OutcomeErased, None), s'')))"

definition confirm_hash :: "'s erasure_ports \<Rightarrow> i64 \<Rightarrow> gostr \<Rightarrow> 's \<Rightarrow> (Outcome \<times> go_error option) \<times> 's" where
  "confirm_hash P owner hash s =
     (case ep_Exclusive P owner of
        Some err \<Rightarrow> ((OutcomeUnknown, Some err), s)
      | None \<Rightarrow>
          (case ep_Claim P owner hash s of
             (Inl err, s1) \<Rightarrow> ((OutcomeUnknown, Some err), s1)
           | (Inr ClaimUnknown, s1) \<Rightarrow> ((OutcomeUnknown, None), s1)
           | (Inr ClaimExpired, s1) \<Rightarrow> ((OutcomeExpired, None), s1)
           | (Inr ClaimCompleted, s1) \<Rightarrow> ((OutcomeAlreadyErased, None), s1)
           | (Inr ClaimResumable, s1) \<Rightarrow> erase_and_complete P owner hash s1
           | (Inr ClaimGranted, s1) \<Rightarrow> erase_and_complete P owner hash s1))"

definition Confirm :: "'s erasure_ports \<Rightarrow> code_env \<Rightarrow> i64 \<Rightarrow> gostr \<Rightarrow> 's \<Rightarrow> (Outcome \<times> go_error option) \<times> 's" where
  "Confirm P cd owner code s =
     (let normalised = NormaliseCode cd code in
      if normalised = [] then ((OutcomeUnknown, None), s) else confirm_hash P owner (HashCode cd normalised) s)"

section \<open>The code that comes back\<close>

definition ascii_upper :: "(rune \<Rightarrow> rune) \<Rightarrow> bool" where
  "ascii_upper upper \<longleftrightarrow> (\<forall>r < 128. upper r = (if 97 \<le> r \<and> r \<le> 122 then r - 32 else r))"

definition upper_ascii :: "rune \<Rightarrow> rune" where
  "upper_ascii r = (if 97 \<le> r \<and> r \<le> 122 then r - 32 else r)"

lemma alphabet_symbols: "list_all (\<lambda>r. 48 \<le> r \<and> r \<le> 90) codeAlphabet" "length codeAlphabet = 32" "distinct codeAlphabet"
  by (simp_all add: codeAlphabet_def runes_def)

lemma newCode_symbols: "newCode raw = Inr code \<Longrightarrow> list_all (\<lambda>r. 48 \<le> r \<and> r \<le> 90 \<and> r \<in> set codeAlphabet) code"
  using alphabet_symbols by (auto simp: newCode_def list_all_iff split: option.splits dest: in_set_takeD)

section \<open>What the service relies on, and what it guarantees\<close>

text \<open>
  \<open>reg s\<close> is the register of codes in a state, \<open>gone st owner c s\<close> that the step \<open>st\<close> is done, \<open>apart owner s s'\<close>
  that nothing of another tenant differs. A step that fails may have done part of its work; what is done stays done.
\<close>

locale erasing =
  fixes P :: "'s erasure_ports"
    and now :: instant
    and inv :: "'s \<Rightarrow> bool"
    and reg :: "'s \<Rightarrow> register"
    and gone :: "erase_step \<Rightarrow> i64 \<Rightarrow> gostr \<Rightarrow> 's \<Rightarrow> bool"
    and apart :: "i64 \<Rightarrow> 's \<Rightarrow> 's \<Rightarrow> bool"
  assumes apart_refl: "apart owner s s"
    and apart_trans: "apart owner s s' \<Longrightarrow> apart owner s' s'' \<Longrightarrow> apart owner s s''"
    and claim_law: "inv s \<Longrightarrow> ep_Claim P owner c s = (r, s') \<Longrightarrow> inv s' \<and> apart owner s s' \<and>
      ((\<exists>e. r = Inl e \<and> s' = s) \<or> (r = Inr (claim_state now (reg s (owner, c))) \<and> reg s' = spec_claim now owner c (reg s) \<and>
         (claim_state now (reg s (owner, c)) \<noteq> ClaimGranted \<longrightarrow> s' = s)))"
    and step_law: "inv s \<Longrightarrow> run_step P owner c st s = (err, s') \<Longrightarrow> inv s' \<and> apart owner s s' \<and>
      (reg s' = reg s \<or> (st = DeleteOtherCodes \<and> reg s' = spec_delete_others owner c (reg s))) \<and>
      (err = None \<longrightarrow> gone st owner c s') \<and> (\<forall>st'. st' \<noteq> st \<and> gone st' owner c s \<longrightarrow> gone st' owner c s')"
    and complete_law: "inv s \<Longrightarrow> ep_Complete P owner c s = (r', s') \<Longrightarrow> inv s' \<and> apart owner s s' \<and>
      ((\<exists>e. r' = Inl e \<and> s' = s) \<or> (r' = Inr () \<and> reg s' = spec_complete owner c (reg s))) \<and>
      (\<forall>st'. gone st' owner c s \<longrightarrow> gone st' owner c s')"
begin

lemma run_steps_law:
  "run_steps P owner c sts s = (err, s') \<Longrightarrow> distinct sts \<Longrightarrow> inv s \<Longrightarrow> inv s' \<and> apart owner s s' \<and> reg s' (owner, c) = reg s (owner, c) \<and>
    (err = None \<longrightarrow> (\<forall>st \<in> set sts. gone st owner c s')) \<and> (\<forall>st. st \<notin> set sts \<and> gone st owner c s \<longrightarrow> gone st owner c s')"
proof (induction sts arbitrary: s)
  case (Cons st sts)
  obtain e1 s1 where r: "run_step P owner c st s = (e1, s1)" by (cases "run_step P owner c st s")
  note one = step_law [OF Cons.prems(3) r]
  then have reg1: "reg s1 (owner, c) = reg s (owner, c)" by (auto simp: spec_delete_others_def)
  show ?case
  proof (cases e1)
    case None
    then have "run_steps P owner c sts s1 = (err, s')" using Cons.prems(1) r by simp
    note rest = Cons.IH [OF this] one
    then show ?thesis using None reg1 Cons.prems(2) apart_trans [of owner s s1 s'] by auto
  qed (use Cons.prems(1) r one reg1 in auto)
qed (auto simp: apart_refl)

lemma erase_law:
  "erase P owner c s = (err, s') \<Longrightarrow> inv s \<Longrightarrow> inv s' \<and> apart owner s s' \<and> reg s' (owner, c) = reg s (owner, c) \<and>
    (err = None \<longrightarrow> (\<forall>st. gone st owner c s'))"
proof -
  assume e: "erase P owner c s = (err, s')" "inv s"
  have "set erase_order = UNIV" "distinct erase_order" unfolding erase_order_def using erase_step.exhaust by auto
  then show ?thesis using run_steps_law [OF e(1) [unfolded erase_def] _ e(2)] by blast
qed

lemma erase_and_complete_law:
  assumes "inv s" "reg s (owner, c) = Some (ErConsumed, end)" "erase_and_complete P owner c s = ((outcome, err), s')"
  shows "outcome = OutcomeErased \<and> inv s' \<and> apart owner s s' \<and>
    (if err = None then (\<forall>st. gone st owner c s') \<and> reg s' (owner, c) = Some (ErCompleted, end)
     else reg s' (owner, c) = Some (ErConsumed, end))"
proof -
  obtain e1 s1 where e: "erase P owner c s = (e1, s1)" by (cases "erase P owner c s")
  note one = erase_law [OF e assms(1)]
  show ?thesis
  proof (cases e1)
    case None
    obtain r s2 where k: "ep_Complete P owner c s1 = (r, s2)" by (cases "ep_Complete P owner c s1")
    have i: "inv s1" using one by blast
    note two = complete_law [OF i k]
    have "reg s1 (owner, c) = Some (ErConsumed, end)" using one assms(2) by simp
    then have "spec_complete owner c (reg s1) (owner, c) = Some (ErCompleted, end)" by (simp add: spec_complete_def)
    then show ?thesis
      using assms(2,3) e None k one two apart_trans [of owner s s1 s2] by (cases r) (auto simp: erase_and_complete_def)
  qed (use assms(2,3) e one in \<open>auto simp: erase_and_complete_def\<close>)
qed

text \<open>What a submitted code does, in terms of the register and of what is gone.\<close>

lemma Confirm_law:
  assumes "inv s" "Confirm P cd owner code s = ((outcome, err), s')"
  defines "c \<equiv> HashCode cd (NormaliseCode cd code)"
  shows "inv s' \<and> apart owner s s' \<and>
    (outcome \<noteq> OutcomeErased \<longrightarrow> s' = s) \<and>
    (outcome = OutcomeErased \<longrightarrow> claim_state now (reg s (owner, c)) \<in> {ClaimGranted, ClaimResumable} \<and>
      (\<exists>end. if err = None then (\<forall>st. gone st owner c s') \<and> reg s' (owner, c) = Some (ErCompleted, end)
        else reg s' (owner, c) = Some (ErConsumed, end)))"
proof (cases "NormaliseCode cd code = [] \<or> ep_Exclusive P owner \<noteq> None")
  case True
  then have "s' = s \<and> outcome \<noteq> OutcomeErased"
    using assms(2) by (cases "NormaliseCode cd code = []") (auto simp: Confirm_def Let_def confirm_hash_def)
  then show ?thesis using assms(1) apart_refl by simp
next
  case False
  then have f: "NormaliseCode cd code \<noteq> []" "ep_Exclusive P owner = None" by auto
  obtain r s1 where k: "ep_Claim P owner c s = (r, s1)" by (cases "ep_Claim P owner c s")
  note cl = claim_law [OF assms(1) k]
  show ?thesis
  proof (cases "r = Inr ClaimGranted \<or> r = Inr ClaimResumable")
    case True
    then have st: "claim_state now (reg s (owner, c)) \<in> {ClaimGranted, ClaimResumable}" "inv s1" "apart owner s s1"
      and sp: "reg s1 = spec_claim now owner c (reg s)"
      using cl by auto
    have "\<exists>end. reg s1 (owner, c) = Some (ErConsumed, end)"
      unfolding sp using st(1) by (auto simp: spec_claim_def claim_state_def split: option.splits prod.splits er_status.splits if_splits)
    then obtain "end" where cons: "reg s1 (owner, c) = Some (ErConsumed, end)" by blast
    have e: "erase_and_complete P owner c s1 = ((outcome, err), s')"
      using True assms(2) f k by (auto simp: Confirm_def Let_def confirm_hash_def c_def)
    show ?thesis
      using erase_and_complete_law [OF st(2) cons e] st apart_trans [of owner s s1 s'] by auto
  next
    case False2: False
    have res: "((outcome, err), s') = (case r of Inl e \<Rightarrow> ((OutcomeUnknown, Some e), s1) | Inr ClaimUnknown \<Rightarrow> ((OutcomeUnknown, None), s1)
        | Inr ClaimExpired \<Rightarrow> ((OutcomeExpired, None), s1) | Inr ClaimCompleted \<Rightarrow> ((OutcomeAlreadyErased, None), s1))"
      using assms(2) f k False2 by (auto simp: Confirm_def Let_def confirm_hash_def c_def split: sum.splits ClaimState.splits)
    have "s1 = s" using cl False2 by auto
    then show ?thesis using res False2 assms(1) apart_refl by (auto split: sum.splits ClaimState.splits)
  qed
qed

text \<open>A code whose erasure is done is answered, and one that was spent is taken up again.\<close>

lemma Confirm_replay:
  assumes "inv s" "NormaliseCode cd code \<noteq> []" "ep_Exclusive P owner = None"
    and "reg s (owner, HashCode cd (NormaliseCode cd code)) = Some (ErCompleted, end)"
    and "ep_Claim P owner (HashCode cd (NormaliseCode cd code)) s = (Inr st, s1)"
  shows "Confirm P cd owner code s = ((OutcomeAlreadyErased, None), s)"
  using claim_law [OF assms(1,5)] assms by (auto simp: Confirm_def Let_def confirm_hash_def claim_state_def)

lemma Confirm_resumes:
  assumes "inv s" "NormaliseCode cd code \<noteq> []" "ep_Exclusive P owner = None"
  defines "c \<equiv> HashCode cd (NormaliseCode cd code)"
  assumes "reg s (owner, c) = Some (ErConsumed, end)" "ep_Claim P owner c s = (Inr st, s1)"
    and "erase P owner c s = (None, s2)" "ep_Complete P owner c s2 = (Inr u, s3)"
  shows "Confirm P cd owner code s = ((OutcomeErased, None), s3)"
  using claim_law [OF assms(1,6)] assms by (auto simp: Confirm_def Let_def confirm_hash_def claim_state_def erase_and_complete_def)

end

section \<open>The program's own ports\<close>

text \<open>What an erasure reaches: the connection service, the tables, the media directory and the requests. \<open>erasure_env\<close>
  is how the outside behaves during one call of the service.\<close>

record erasure_world =
  ew_business :: business_state
  ew_db :: tenant_db
  ew_disk :: "node option"
  ew_requests :: er_table

record erasure_env =
  ee_shared :: "i64 \<Rightarrow> go_error option"
  ee_exclusive :: "i64 \<Rightarrow> go_error option"
  ee_now :: instant
  ee_requests_tx :: tx_env \<comment> \<open>for issuing and claiming\<close>
  ee_disable_ok :: bool
  ee_outbox_tx :: tx_env
  ee_media :: pg_media_env
  ee_fs :: fs_env
  ee_messages_tx :: tx_env
  ee_others_tx :: tx_env
  ee_complete_tx :: tx_env

definition on_requests :: "(er_table \<Rightarrow> 'r \<times> er_table) \<Rightarrow> erasure_world \<Rightarrow> 'r \<times> erasure_world" where
  "on_requests f s = (case f (ew_requests s) of (r, et) \<Rightarrow> (r, s\<lparr>ew_requests := et\<rparr>))"

definition disable_connections :: "erasure_env \<Rightarrow> i64 \<Rightarrow> erasure_world \<Rightarrow> (go_error + int) \<times> erasure_world" where
  "disable_connections e owner s =
     (case bs_DisableOwner (ee_disable_ok e) owner (ew_business s) of (r, b) \<Rightarrow> (r, s\<lparr>ew_business := b\<rparr>))"

definition delete_alerts :: "erasure_env \<Rightarrow> i64 \<Rightarrow> erasure_world \<Rightarrow> (go_error + int) \<times> erasure_world" where
  "delete_alerts e owner s =
     (case ob_DeleteTenant (ee_outbox_tx e) owner (db_outbox (ew_db s)) of
        (r, ox) \<Rightarrow> (r, s\<lparr>ew_db := (ew_db s)\<lparr>db_outbox := ox\<rparr>\<rparr>))"

text \<open>One more turn than there are rows is enough for the loops of \<open>EraseTenant\<close> (\<open>EraseTenant_returns\<close>).\<close>

definition erase_attachments :: "erasure_env \<Rightarrow> i64 \<Rightarrow> erasure_world \<Rightarrow> (go_error + (int \<times> int)) \<times> erasure_world" where
  "erase_attachments e owner s =
     (let mt = db_media (ew_db s) in
      case EraseTenant (Suc (length (mt_rows mt))) (pg_catalogue (ee_media e)) (ee_fs e) owner (\<lparr>pm_table = mt, pm_calls = 0\<rparr>, ew_disk s) of
        None \<Rightarrow> (Inl [Msg ''does not happen''], s)
      | Some ((files, rows, err), pg, disk) \<Rightarrow>
          ((case err of None \<Rightarrow> Inr (files, rows) | Some x \<Rightarrow> Inl x),
           s\<lparr>ew_db := (ew_db s)\<lparr>db_media := pm_table pg\<rparr>, ew_disk := disk\<rparr>))"

definition delete_messages :: "erasure_env \<Rightarrow> i64 \<Rightarrow> erasure_world \<Rightarrow> (go_error + (int \<times> int)) \<times> erasure_world" where
  "delete_messages e owner s =
     (case msg_DeleteTenant (ee_messages_tx e) owner (ew_db s) of (r, db) \<Rightarrow> (r, s\<lparr>ew_db := db\<rparr>))"

definition world_ports :: "erasure_env \<Rightarrow> erasure_world erasure_ports" where
  "world_ports e = \<lparr>
     ep_Shared = ee_shared e,
     ep_Exclusive = ee_exclusive e,
     ep_Issue = (\<lambda>t c ttl. on_requests (er_Issue (ee_requests_tx e) (ee_now e) t c ttl)),
     ep_Claim = (\<lambda>owner c. on_requests (er_Claim (ee_requests_tx e) (ee_now e) owner c)),
     ep_Complete = (\<lambda>owner c. on_requests (er_Complete (ee_complete_tx e) (ee_now e) owner c)),
     ep_DeleteOthers = (\<lambda>owner c. on_requests (er_DeleteOthers (ee_others_tx e) owner c)),
     ep_DisableOwner = disable_connections e,
     ep_DeleteAlerts = delete_alerts e,
     ep_EraseTenant = erase_attachments e,
     ep_DeleteMessages = delete_messages e\<rparr>"

definition world_inv :: "erasure_world \<Rightarrow> bool" where
  "world_inv s \<longleftrightarrow> bs_inv (ew_business s) \<and> media_inv (db_media (ew_db s)) \<and> er_inv (ew_requests s)"

definition world_reg :: "erasure_world \<Rightarrow> register" where
  "world_reg s = register_of (ew_requests s)"

text \<open>No file below the directory of a tenant.\<close>

definition no_files :: "i64 \<Rightarrow> node option \<Rightarrow> bool" where
  "no_files owner disk \<longleftrightarrow> (\<forall>path. path \<noteq> [] \<and> hd path = dec_int owner \<longrightarrow> file_at path disk = None)"

primrec world_gone :: "erase_step \<Rightarrow> i64 \<Rightarrow> gostr \<Rightarrow> erasure_world \<Rightarrow> bool" where
  "world_gone DisableConnections owner c s \<longleftrightarrow> tenant_off owner (ew_business s)"
| "world_gone DeleteAlerts owner c s \<longleftrightarrow> mine ob_owner owner (ox_rows (db_outbox (ew_db s))) = []"
| "world_gone EraseAttachments owner c s \<longleftrightarrow>
     mine mf_owner owner (mt_rows (db_media (ew_db s))) = [] \<and> no_files owner (ew_disk s)"
| "world_gone DeleteMessages owner c s \<longleftrightarrow>
     mine ms_owner owner (db_messages (ew_db s)) = [] \<and> mine ch_owner owner (db_chats (ew_db s)) = []"
| "world_gone DeleteOtherCodes owner c s \<longleftrightarrow> (\<forall>c'. c' \<noteq> c \<longrightarrow> world_reg s (owner, c') = None)"

text \<open>What belongs to the other tenants, everywhere.\<close>

definition same_files_outside :: "i64 \<Rightarrow> node option \<Rightarrow> node option \<Rightarrow> bool" where
  "same_files_outside owner disk disk' \<longleftrightarrow>
     (\<forall>path. path \<noteq> [] \<and> hd path \<noteq> dec_int owner \<longrightarrow> file_at path disk' = file_at path disk)"

definition world_apart :: "i64 \<Rightarrow> erasure_world \<Rightarrow> erasure_world \<Rightarrow> bool" where
  "world_apart owner s s' \<longleftrightarrow>
     others bc_owner_user_id owner (bs_conns (ew_business s')) = others bc_owner_user_id owner (bs_conns (ew_business s)) \<and>
     others ob_owner owner (ox_rows (db_outbox (ew_db s'))) = others ob_owner owner (ox_rows (db_outbox (ew_db s))) \<and>
     others mf_owner owner (mt_rows (db_media (ew_db s'))) = others mf_owner owner (mt_rows (db_media (ew_db s))) \<and>
     others ms_owner owner (db_messages (ew_db s')) = others ms_owner owner (db_messages (ew_db s)) \<and>
     others ch_owner owner (db_chats (ew_db s')) = others ch_owner owner (db_chats (ew_db s)) \<and>
     others er_owner owner (et_rows (ew_requests s')) = others er_owner owner (et_rows (ew_requests s)) \<and>
     same_files_outside owner (ew_disk s) (ew_disk s')"

section \<open>The ports keep what the service relies on\<close>

lemma world_disable:
  assumes "world_inv s" "disable_connections e owner s = (r, s')"
  shows "world_inv s' \<and> world_apart owner s s' \<and> (\<exists>b. s' = s\<lparr>ew_business := b\<rparr> \<and>
    ((\<exists>n. r = Inr n) \<longrightarrow> tenant_off owner b))"
proof -
  obtain b where b: "bs_DisableOwner (ee_disable_ok e) owner (ew_business s) = (r, b)" "s' = s\<lparr>ew_business := b\<rparr>"
    using assms(2) by (auto simp: disable_connections_def split: prod.splits)
  have inv: "bs_inv (ew_business s)" using assms(1) by (simp add: world_inv_def)
  have b_inv: "bs_inv b" using bs_DisableOwner_inv [OF inv b(1)] by blast
  show ?thesis
  proof (cases "ee_disable_ok e")
    case True
    have off: "tenant_off owner b" using DisableOwner_off [OF inv] b(1) True by simp
    have "others bc_owner_user_id owner (update_where (\<lambda>r. bc_owner_user_id r = owner \<and> bc_is_enabled r) (\<lambda>r. r\<lparr>bc_is_enabled := False\<rparr>) rows)
        = others bc_owner_user_id owner rows" for rows
      unfolding others_def by (rule filter_update_where_other) simp
    then show ?thesis
      using b off b_inv assms(1) True
      by (auto simp: bs_DisableOwner_def Let_def world_inv_def world_apart_def same_files_outside_def)
  next
    case False
    then show ?thesis
      using b assms(1) by (auto simp: bs_DisableOwner_def world_inv_def world_apart_def same_files_outside_def)
  qed
qed

lemma mine_t_delete_own: "mine own t (t_delete own t (\<lambda>r. own r = t) rows) = []"
  by (auto simp: mine_def t_delete_def filter_empty_conv)

lemma ob_DeleteTenant_result:
  assumes "ob_DeleteTenant tx owner ox = (r, ox')"
  shows "others ob_owner owner (ox_rows ox') = others ob_owner owner (ox_rows ox) \<and>
    ((\<exists>e. r = Inl e \<and> ox' = ox) \<or> ((\<exists>n. r = Inr n) \<and> mine ob_owner owner (ox_rows ox') = []))"
  using InTenant_cases [OF assms [unfolded ob_DeleteTenant_def]]
  by (auto simp: others_t_delete mine_t_delete_own)

lemma world_alerts:
  assumes "world_inv s" "delete_alerts e owner s = (r, s')"
  shows "world_inv s' \<and> world_apart owner s s' \<and> (\<exists>ox. s' = s\<lparr>ew_db := (ew_db s)\<lparr>db_outbox := ox\<rparr>\<rparr> \<and>
    ((\<exists>n. r = Inr n) \<longrightarrow> mine ob_owner owner (ox_rows ox) = []))"
proof -
  obtain ox where d: "ob_DeleteTenant (ee_outbox_tx e) owner (db_outbox (ew_db s)) = (r, ox)"
    "s' = s\<lparr>ew_db := (ew_db s)\<lparr>db_outbox := ox\<rparr>\<rparr>"
    using assms(2) by (auto simp: delete_alerts_def split: prod.splits)
  show ?thesis using ob_DeleteTenant_result [OF d(1)] d(2) assms(1)
    by (auto simp: world_inv_def world_apart_def same_files_outside_def)
qed

lemma world_attachments:
  assumes "world_inv s" "erase_attachments e owner s = (r, s')"
  shows "world_inv s' \<and> world_apart owner s s' \<and> (\<exists>mt disk. s' = s\<lparr>ew_db := (ew_db s)\<lparr>db_media := mt\<rparr>, ew_disk := disk\<rparr> \<and>
    ((\<exists>n. r = Inr n) \<longrightarrow> mine mf_owner owner (mt_rows mt) = [] \<and> no_files owner disk))"
proof -
  let ?mt = "db_media (ew_db s)"
  let ?pg = "\<lparr>pm_table = ?mt, pm_calls = 0\<rparr>"
  have inv: "media_inv (pm_table ?pg)" using assms(1) by (simp add: world_inv_def)
  obtain files rows err pg disk where x: "EraseTenant (Suc (length (mt_rows ?mt))) (pg_catalogue (ee_media e)) (ee_fs e) owner (?pg, ew_disk s)
      = Some ((files, rows, err), pg, disk)"
    using EraseTenant_returns [OF inv, of "Suc (length (mt_rows ?mt))" "ee_media e" "ee_fs e" owner "ew_disk s"] by auto
  have s': "r = (case err of None \<Rightarrow> Inr (files, rows) | Some x \<Rightarrow> Inl x)" "s' = s\<lparr>ew_db := (ew_db s)\<lparr>db_media := pm_table pg\<rparr>, ew_disk := disk\<rparr>"
    using assms(2) x by (auto simp: erase_attachments_def Let_def)
  show ?thesis
    using EraseTenant_result [OF inv x] s' assms(1)
    by (auto simp: world_inv_def world_apart_def same_files_outside_def no_files_def split: option.splits)
qed

lemma msg_DeleteTenant_result:
  assumes "msg_DeleteTenant tx owner db = (r, db')"
  shows "(\<exists>e. r = Inl e \<and> db' = db) \<or> ((\<exists>n. r = Inr n) \<and>
    db' = db\<lparr>db_messages := t_delete ms_owner owner (\<lambda>m. ms_owner m = owner) (db_messages db),
             db_chats := t_delete ch_owner owner (\<lambda>c. ch_owner c = owner) (db_chats db)\<rparr>)"
  using InTenant_cases [OF assms [unfolded msg_DeleteTenant_def]] by (auto simp: msg_delete_body_def)

lemma world_messages:
  assumes "world_inv s" "delete_messages e owner s = (r, s')"
  shows "world_inv s' \<and> world_apart owner s s' \<and> (\<exists>ms ch. s' = s\<lparr>ew_db := (ew_db s)\<lparr>db_messages := ms, db_chats := ch\<rparr>\<rparr> \<and>
    ((\<exists>n. r = Inr n) \<longrightarrow>
      mine ms_owner owner ms = [] \<and> mine ch_owner owner ch = []))"
proof -
  obtain db where d: "msg_DeleteTenant (ee_messages_tx e) owner (ew_db s) = (r, db)" "s' = s\<lparr>ew_db := db\<rparr>"
    using assms(2) by (auto simp: delete_messages_def split: prod.splits)
  let ?ms = "t_delete ms_owner owner (\<lambda>m. ms_owner m = owner) (db_messages (ew_db s))"
  let ?ch = "t_delete ch_owner owner (\<lambda>c. ch_owner c = owner) (db_chats (ew_db s))"
  consider (failed) "db = ew_db s" "\<nexists>n. r = Inr n" | (deleted) "db = (ew_db s)\<lparr>db_messages := ?ms, db_chats := ?ch\<rparr>"
    using msg_DeleteTenant_result [OF d(1)] by auto
  then show ?thesis
  proof cases
    case failed
    then have "s' = s" using d(2) by simp
    moreover have "s = s\<lparr>ew_db := (ew_db s)\<lparr>db_messages := db_messages (ew_db s), db_chats := db_chats (ew_db s)\<rparr>\<rparr>" by simp
    moreover have "world_apart owner s s" by (simp add: world_apart_def same_files_outside_def)
    ultimately show ?thesis using failed assms(1) by blast
  next
    case deleted
    have "world_inv s'" "world_apart owner s s'"
      using deleted d(2) assms(1) by (simp_all add: world_inv_def world_apart_def same_files_outside_def others_t_delete)
    moreover have "mine ms_owner owner ?ms = []" "mine ch_owner owner ?ch = []" by (simp_all add: mine_t_delete_own)
    ultimately show ?thesis using deleted d(2) by blast
  qed
qed

lemma world_requests:
  assumes "on_requests f s = (r, s')"
  obtains et where "f (ew_requests s) = (r, et)" "s' = s\<lparr>ew_requests := et\<rparr>"
  using assms by (auto simp: on_requests_def split: prod.splits)

lemma world_claim:
  assumes "world_inv s" "ep_Claim (world_ports e) owner c s = (r, s')"
  shows "world_inv s' \<and> world_apart owner s s' \<and> ((\<exists>x. r = Inl x \<and> s' = s) \<or>
    (r = Inr (claim_state (ee_now e) (world_reg s (owner, c))) \<and> world_reg s' = spec_claim (ee_now e) owner c (world_reg s) \<and>
     (claim_state (ee_now e) (world_reg s (owner, c)) \<noteq> ClaimGranted \<longrightarrow> s' = s)))"
proof -
  obtain et where et: "er_Claim (ee_requests_tx e) (ee_now e) owner c (ew_requests s) = (r, et)" "s' = s\<lparr>ew_requests := et\<rparr>"
    using assms(2) world_requests [of "er_Claim (ee_requests_tx e) (ee_now e) owner c" s r s'] by (auto simp: world_ports_def)
  have inv: "er_inv (ew_requests s)" using assms(1) by (simp add: world_inv_def)
  show ?thesis
    using er_Claim_result [OF inv et(1)] et(2) assms(1)
    by (auto simp: world_inv_def world_apart_def world_reg_def same_files_outside_def)
qed

lemma world_complete:
  assumes "world_inv s" "ep_Complete (world_ports e) owner c s = (r, s')"
  shows "world_inv s' \<and> world_apart owner s s' \<and>
    ((\<exists>x. r = Inl x \<and> s' = s) \<or> (r = Inr () \<and> world_reg s' = spec_complete owner c (world_reg s))) \<and>
    (\<forall>st. world_gone st owner c s \<longrightarrow> world_gone st owner c s')"
proof -
  obtain et where et: "er_Complete (ee_complete_tx e) (ee_now e) owner c (ew_requests s) = (r, et)" "s' = s\<lparr>ew_requests := et\<rparr>"
    using assms(2) world_requests [of "er_Complete (ee_complete_tx e) (ee_now e) owner c" s r s'] by (auto simp: world_ports_def)
  have inv: "er_inv (ew_requests s)" using assms(1) by (simp add: world_inv_def)
  have "world_reg s' = world_reg s \<or> world_reg s' = spec_complete owner c (world_reg s)"
    using er_Complete_result(1) [OF inv et(1)] et(2) by (auto simp: world_reg_def)
  then have other: "c' \<noteq> c \<Longrightarrow> world_reg s' (owner, c') = world_reg s (owner, c')" for c'
    by (auto simp: spec_complete_def split: option.splits prod.splits er_status.splits)
  have "world_gone st owner c s'" if "world_gone st owner c s" for st
    using that et(2) other by (cases st) auto
  then show ?thesis
    using er_Complete_result [OF inv et(1)] et(2) assms(1)
    by (auto simp: world_inv_def world_apart_def world_reg_def same_files_outside_def)
qed

lemma world_others:
  assumes "world_inv s" "ep_DeleteOthers (world_ports e) owner c s = (r, s')"
  shows "world_inv s' \<and> world_apart owner s s' \<and> (\<exists>et. s' = s\<lparr>ew_requests := et\<rparr>) \<and>
    ((\<exists>x. r = Inl x \<and> s' = s) \<or> ((\<exists>n. r = Inr n) \<and> world_reg s' = spec_delete_others owner c (world_reg s)))"
proof -
  obtain et where et: "er_DeleteOthers (ee_others_tx e) owner c (ew_requests s) = (r, et)" "s' = s\<lparr>ew_requests := et\<rparr>"
    using assms(2) world_requests [of "er_DeleteOthers (ee_others_tx e) owner c" s r s'] by (auto simp: world_ports_def)
  have inv: "er_inv (ew_requests s)" using assms(1) by (simp add: world_inv_def)
  show ?thesis
    using er_DeleteOthers_result [OF inv et(1)] et(2) assms(1)
    by (auto simp: world_inv_def world_apart_def world_reg_def same_files_outside_def)
qed

lemma step_error_None: "step_error msg q = (None, s') \<longleftrightarrow> (\<exists>a. q = (Inr a, s'))"
  by (cases q; cases "fst q") (auto simp: step_error_def)

lemma step_error_state: "step_error msg q = (err, s') \<Longrightarrow> s' = snd q \<and> (err = None \<longrightarrow> (\<exists>a. fst q = Inr a))"
  by (cases q; cases "fst q") (auto simp: step_error_def)

lemma world_step:
  assumes "world_inv s" "run_step (world_ports e) owner c st s = (err, s')"
  shows "world_inv s' \<and> world_apart owner s s' \<and>
    (world_reg s' = world_reg s \<or> (st = DeleteOtherCodes \<and> world_reg s' = spec_delete_others owner c (world_reg s))) \<and>
    (err = None \<longrightarrow> world_gone st owner c s') \<and> (\<forall>st'. st' \<noteq> st \<and> world_gone st' owner c s \<longrightarrow> world_gone st' owner c s')"
proof (cases st)
  case DisableConnections
  obtain r where q: "disable_connections e owner s = (r, s')" "err = None \<longrightarrow> (\<exists>n. r = Inr n)"
    using assms(2) step_error_state DisableConnections by (cases "disable_connections e owner s") (fastforce simp: world_ports_def)
  obtain b where b: "s' = s\<lparr>ew_business := b\<rparr>" "(\<exists>n. r = Inr n) \<longrightarrow> tenant_off owner b" "world_inv s'" "world_apart owner s s'"
    using world_disable [OF assms(1) q(1)] by blast
  have "world_gone st' owner c s'" if "st' \<noteq> st" "world_gone st' owner c s" for st'
    using that b(1) DisableConnections by (cases st') (auto simp: world_reg_def)
  then show ?thesis using b q(2) DisableConnections by (auto simp: world_reg_def)
next
  case DeleteAlerts
  obtain r where q: "delete_alerts e owner s = (r, s')" "err = None \<longrightarrow> (\<exists>n. r = Inr n)"
    using assms(2) step_error_state DeleteAlerts by (cases "delete_alerts e owner s") (fastforce simp: world_ports_def)
  obtain ox where b: "s' = s\<lparr>ew_db := (ew_db s)\<lparr>db_outbox := ox\<rparr>\<rparr>" "(\<exists>n. r = Inr n) \<longrightarrow> mine ob_owner owner (ox_rows ox) = []"
    "world_inv s'" "world_apart owner s s'"
    using world_alerts [OF assms(1) q(1)] by blast
  have "world_gone st' owner c s'" if "st' \<noteq> st" "world_gone st' owner c s" for st'
    using that b(1) DeleteAlerts by (cases st') (auto simp: world_reg_def)
  then show ?thesis using b q(2) DeleteAlerts by (auto simp: world_reg_def)
next
  case EraseAttachments
  obtain r where q: "erase_attachments e owner s = (r, s')" "err = None \<longrightarrow> (\<exists>n. r = Inr n)"
    using assms(2) step_error_state EraseAttachments by (cases "erase_attachments e owner s") (fastforce simp: world_ports_def)
  obtain mt disk where b: "s' = s\<lparr>ew_db := (ew_db s)\<lparr>db_media := mt\<rparr>, ew_disk := disk\<rparr>"
    "(\<exists>n. r = Inr n) \<longrightarrow> mine mf_owner owner (mt_rows mt) = [] \<and> no_files owner disk" "world_inv s'" "world_apart owner s s'"
    using world_attachments [OF assms(1) q(1)] by blast
  have "world_gone st' owner c s'" if "st' \<noteq> st" "world_gone st' owner c s" for st'
    using that b(1) EraseAttachments by (cases st') (auto simp: world_reg_def)
  then show ?thesis using b q(2) EraseAttachments by (auto simp: world_reg_def)
next
  case DeleteMessages
  obtain r where q: "delete_messages e owner s = (r, s')" "err = None \<longrightarrow> (\<exists>n. r = Inr n)"
    using assms(2) step_error_state DeleteMessages by (cases "delete_messages e owner s") (fastforce simp: world_ports_def)
  obtain ms ch where b: "s' = s\<lparr>ew_db := (ew_db s)\<lparr>db_messages := ms, db_chats := ch\<rparr>\<rparr>"
    "(\<exists>n. r = Inr n) \<longrightarrow> mine ms_owner owner ms = [] \<and> mine ch_owner owner ch = []" "world_inv s'" "world_apart owner s s'"
    using world_messages [OF assms(1) q(1)] by blast
  have "world_gone st' owner c s'" if "st' \<noteq> st" "world_gone st' owner c s" for st'
    using that b(1) DeleteMessages by (cases st') (auto simp: world_reg_def)
  then show ?thesis using b q(2) DeleteMessages by (auto simp: world_reg_def)
next
  case DeleteOtherCodes
  obtain r where q: "ep_DeleteOthers (world_ports e) owner c s = (r, s')" "err = None \<longrightarrow> (\<exists>n. r = Inr n)"
    using assms(2) step_error_state DeleteOtherCodes by (cases "ep_DeleteOthers (world_ports e) owner c s") fastforce
  note d = world_others [OF assms(1) q(1)]
  have "world_gone st' owner c s'" if "st' \<noteq> st" "world_gone st' owner c s" for st'
    using that d DeleteOtherCodes by (cases st') auto
  then show ?thesis using d q(2) DeleteOtherCodes by (auto simp: spec_delete_others_def)
qed

interpretation world: erasing "world_ports e" "ee_now e" world_inv world_reg world_gone world_apart for e
proof unfold_locales
  show "world_apart owner s s" for owner s by (simp add: world_apart_def same_files_outside_def)
  show "world_apart owner s s' \<Longrightarrow> world_apart owner s' s'' \<Longrightarrow> world_apart owner s s''" for owner s s' s''
    by (auto simp: world_apart_def same_files_outside_def)
qed (rule world_claim world_step world_complete; assumption)+

section \<open>Properties\<close>

lemma distinct_singleton: "set xs = {x} \<Longrightarrow> distinct xs \<Longrightarrow> xs = [x]"
  by (cases xs; cases "tl xs") auto

lemma only_row:
  assumes "er_inv et" "register_of et (owner, c) \<noteq> None" "\<forall>c'. c' \<noteq> c \<longrightarrow> register_of et (owner, c') = None"
  obtains r where "mine er_owner owner (et_rows et) = [r]" "er_code r = c" "request_of et owner c = Some r"
proof -
  obtain r where r: "request_of et owner c = Some r" using assms(2) by (auto simp: register_of_def)
  have row: "r \<in> set (et_rows et)" "er_owner r = owner" "er_code r = c" using request_of_Some [OF r] by (auto simp: for_code_def)
  have only: "q = r" if "q \<in> set (et_rows et)" "er_owner q = owner" for q
  proof -
    have "request_of et owner (er_code q) = Some q" using request_of_row [OF assms(1) that(1)] that(2) by (simp add: for_code_def)
    then have "er_code q = c" using assms(3) by (auto simp: register_of_def)
    then show ?thesis using \<open>request_of et owner (er_code q) = Some q\<close> r by simp
  qed
  have "set (mine er_owner owner (et_rows et)) = {r}" unfolding mine_def set_filter using only row(1,2) by blast
  moreover have "distinct (mine er_owner owner (et_rows et))" using assms(1) by (simp add: er_inv_def mine_def distinct_map)
  ultimately have "mine er_owner owner (et_rows et) = [r]" by (rule distinct_singleton)
  then show ?thesis using row(3) r by (rule that)
qed

text \<open>C1. When a confirmation is answered as erased, the owner's data is gone, and whatever the answer, nobody else's is
  touched. After a success: no connection of the tenant is enabled, in the table or as the cache serves it; no queued
  alert, no attachment, no message and no chat label of the tenant is left, nor any file below its directory; and of its
  requests only the spent one remains, completed, naming neither the Telegram account nor the connection. The
  connections, alerts, attachments, messages, chats, requests and files of the other tenants are those of before,
  however the call ends.\<close>

theorem confirmed_erasure_complete:
  assumes "world_inv s" "Confirm (world_ports e) cd owner code s = ((outcome, err), s')"
  shows "(outcome = OutcomeErased \<and> err = None \<longrightarrow> tenant_off owner (ew_business s') \<and>
      mine ob_owner owner (ox_rows (db_outbox (ew_db s'))) = [] \<and> mine mf_owner owner (mt_rows (db_media (ew_db s'))) = [] \<and>
      mine ms_owner owner (db_messages (ew_db s')) = [] \<and> mine ch_owner owner (db_chats (ew_db s')) = [] \<and>
      no_files owner (ew_disk s') \<and> (\<exists>r. mine er_owner owner (et_rows (ew_requests s')) = [r] \<and>
        er_code r = HashCode cd (NormaliseCode cd code) \<and> er_status r = ErCompleted \<and> er_telegram_id r = None \<and> er_conn r = None)) \<and>
    world_apart owner s s'"
proof -
  let ?c = "HashCode cd (NormaliseCode cd code)"
  note law = world.Confirm_law [OF assms]
  have "\<exists>r. mine er_owner owner (et_rows (ew_requests s')) = [r] \<and> er_code r = ?c \<and> er_status r = ErCompleted \<and>
      er_telegram_id r = None \<and> er_conn r = None" if ok: "outcome = OutcomeErased" "err = None"
  proof -
    have inv: "er_inv (ew_requests s')" using law by (simp add: world_inv_def)
    have reg: "\<exists>end. register_of (ew_requests s') (owner, ?c) = Some (ErCompleted, end)" and gone: "world_gone DeleteOtherCodes owner ?c s'"
      using law ok by (auto simp: world_reg_def)
    have "register_of (ew_requests s') (owner, ?c) \<noteq> None" "\<forall>c'. c' \<noteq> ?c \<longrightarrow> register_of (ew_requests s') (owner, c') = None"
      using reg gone by (auto simp: world_reg_def)
    then obtain r where r: "mine er_owner owner (et_rows (ew_requests s')) = [r]" "er_code r = ?c" "request_of (ew_requests s') owner ?c = Some r"
      by (rule only_row [OF inv])
    then have "er_status r = ErCompleted" "stamped r"
      using reg request_of_Some [OF r(3)] inv by (auto simp: register_of_def er_inv_def)
    then show ?thesis using r by (auto simp: stamped_def)
  qed
  moreover have "outcome = OutcomeErased \<and> err = None \<longrightarrow> (\<forall>st. world_gone st owner ?c s')" using law by auto
  then have "outcome = OutcomeErased \<and> err = None \<longrightarrow> world_gone DisableConnections owner ?c s' \<and> world_gone DeleteAlerts owner ?c s' \<and>
      world_gone EraseAttachments owner ?c s' \<and> world_gone DeleteMessages owner ?c s'" by blast
  ultimately show ?thesis using law by auto
qed


text \<open>A spent code is answered, not obeyed. After a confirmation that erased, the same code submitted again, at any
  later time and however the disk and the other tables behave, is answered as already erased and changes nothing, as
  soon as the table of the requests can be read.\<close>

theorem replayed_code_erases_nothing:
  assumes "world_inv s" "Confirm (world_ports e) cd owner code s = ((OutcomeErased, None), s')"
    and "ee_exclusive e' owner = None" "tx_ok (ee_requests_tx e')"
  shows "Confirm (world_ports e') cd owner code s' = ((OutcomeAlreadyErased, None), s')"
proof -
  let ?c = "HashCode cd (NormaliseCode cd code)"
  have law: "world_inv s'" "\<exists>end. world_reg s' (owner, ?c) = Some (ErCompleted, end)"
    using world.Confirm_law [OF assms(1,2)] by auto
  then obtain "end" where reg: "world_reg s' (owner, ?c) = Some (ErCompleted, end)" by blast
  have code: "NormaliseCode cd code \<noteq> []" using assms(2) by (auto simp: Confirm_def Let_def confirm_hash_def)
  have inv: "er_inv (ew_requests s')" using law(1) by (simp add: world_inv_def)
  obtain r et where k: "er_Claim (ee_requests_tx e') (ee_now e') owner ?c (ew_requests s') = (r, et)"
    by (cases "er_Claim (ee_requests_tx e') (ee_now e') owner ?c (ew_requests s')")
  then have "ep_Claim (world_ports e') owner ?c s' = (r, s'\<lparr>ew_requests := et\<rparr>)" by (simp add: world_ports_def on_requests_def)
  moreover have "\<exists>st. r = Inr st" using er_Claim_result(1) [OF inv k] assms(4) by auto
  moreover have "ep_Exclusive (world_ports e') owner = None" using assms(3) by (simp add: world_ports_def)
  ultimately show ?thesis using world.Confirm_replay [OF law(1) code _ reg] by blast
qed

lemma tx_ok_Inr: "tx_ok tx \<Longrightarrow> (\<And>a. \<exists>b s'. fn t s = Inr (b, s')) \<Longrightarrow> \<exists>b s'. InTenant tx fn t s = (Inr b, s')"
  by (fastforce simp: InTenant_ok split: sum.splits)

text \<open>The steps that only need PostgreSQL.\<close>

lemma steps_succeed:
  assumes "ee_disable_ok e" "tx_ok (ee_outbox_tx e)" "tx_ok (ee_messages_tx e)" "tx_ok (ee_others_tx e)" "tx_ok (ee_complete_tx e)"
  shows "\<exists>b. run_step (world_ports e) owner c DisableConnections s = (None, s\<lparr>ew_business := b\<rparr>)"
    and "\<exists>ox. run_step (world_ports e) owner c DeleteAlerts s = (None, s\<lparr>ew_db := (ew_db s)\<lparr>db_outbox := ox\<rparr>\<rparr>)"
    and "\<exists>s'. run_step (world_ports e) owner c DeleteMessages s = (None, s')"
    and "\<exists>s'. run_step (world_ports e) owner c DeleteOtherCodes s = (None, s')"
    and "\<exists>u s'. ep_Complete (world_ports e) owner c s = (Inr u, s')"
  using assms
  by (auto simp: world_ports_def step_error_def disable_connections_def bs_DisableOwner_def Let_def delete_alerts_def ob_DeleteTenant_def
      InTenant_ok delete_messages_def msg_DeleteTenant_def msg_delete_body_def on_requests_def er_DeleteOthers_def er_Complete_def)

text \<open>C38. An interrupted erasure can always be finished. If a confirmation fails after the code was spent, at whatever
  step, the same code submitted again erases to the end, however much later, also after the end of its window: it is
  enough that PostgreSQL works, that nobody holds the exclusion, and that the erasure of the attachments meets no error
  on the disk.\<close>

theorem interrupted_erasure_resumes:
  assumes "world_inv s" "Confirm (world_ports e) cd owner code s = ((OutcomeErased, Some err), s1)"
    and "ee_exclusive e' owner = None" "tx_ok (ee_requests_tx e')" "ee_disable_ok e'" "tx_ok (ee_outbox_tx e')"
    and "tx_ok (ee_messages_tx e')" "tx_ok (ee_others_tx e')" "tx_ok (ee_complete_tx e')"
    and "\<exists>counts. fst (erase_attachments e' owner s1) = Inr counts"
  shows "\<exists>s2. Confirm (world_ports e') cd owner code s1 = ((OutcomeErased, None), s2)"
proof -
  let ?c = "HashCode cd (NormaliseCode cd code)"
  let ?P = "world_ports e'"
  have law: "world_inv s1" "\<exists>end. world_reg s1 (owner, ?c) = Some (ErConsumed, end)"
    using world.Confirm_law [OF assms(1,2)] by auto
  then obtain "end" where reg: "world_reg s1 (owner, ?c) = Some (ErConsumed, end)" by blast
  have code: "NormaliseCode cd code \<noteq> []" using assms(2) by (auto simp: Confirm_def Let_def confirm_hash_def)
  have inv: "er_inv (ew_requests s1)" using law(1) by (simp add: world_inv_def)
  obtain r et where k: "er_Claim (ee_requests_tx e') (ee_now e') owner ?c (ew_requests s1) = (r, et)"
    by (cases "er_Claim (ee_requests_tx e') (ee_now e') owner ?c (ew_requests s1)")
  have claim: "ep_Claim ?P owner ?c s1 = (r, s1\<lparr>ew_requests := et\<rparr>)" "\<exists>st. r = Inr st"
    using k er_Claim_result(1) [OF inv k] assms(4) by (auto simp: world_ports_def on_requests_def)
  then obtain st where r: "ep_Claim ?P owner ?c s1 = (Inr st, s1\<lparr>ew_requests := et\<rparr>)" by auto
  note steps = steps_succeed [OF assms(5-9)]
  obtain b where a: "run_step ?P owner ?c DisableConnections s1 = (None, s1\<lparr>ew_business := b\<rparr>)" using steps(1) by blast
  let ?a = "s1\<lparr>ew_business := b\<rparr>"
  obtain ox where q: "run_step ?P owner ?c DeleteAlerts ?a = (None, ?a\<lparr>ew_db := (ew_db ?a)\<lparr>db_outbox := ox\<rparr>\<rparr>)" using steps(2) by blast
  let ?q = "?a\<lparr>ew_db := (ew_db ?a)\<lparr>db_outbox := ox\<rparr>\<rparr>"
  have "fst (erase_attachments e' owner ?q) = fst (erase_attachments e' owner s1)"
    by (simp add: erase_attachments_def Let_def split: option.splits prod.splits)
  then obtain m where m: "run_step ?P owner ?c EraseAttachments ?q = (None, m)"
    using assms(10) by (cases "erase_attachments e' owner ?q") (auto simp: world_ports_def step_error_def)
  obtain g where g: "run_step ?P owner ?c DeleteMessages m = (None, g)" using steps(3) by blast
  obtain h where h: "run_step ?P owner ?c DeleteOtherCodes g = (None, h)" using steps(4) by blast
  have "erase ?P owner ?c s1 = (None, h)" unfolding erase_def erase_order_def using a q m g h by (simp del: run_step.simps)
  moreover obtain u s2 where "ep_Complete ?P owner ?c h = (Inr u, s2)" using steps(5) by blast
  moreover have "ep_Exclusive ?P owner = None" using assms(3) by (simp add: world_ports_def)
  ultimately show ?thesis using world.Confirm_resumes [OF law(1) code _ reg r] by blast
qed

text \<open>A world with a code pending, for the witnesses: tenant 7 has a connection, an alert and a photo; tenant 8 has
  files only.\<close>

definition sample_codes :: code_env where
  "sample_codes = \<lparr>cd_upper = upper_ascii, cd_sha = (\<lambda>_. replicate 64 97)\<rparr>"

definition sample_tenant :: Tenant where
  "sample_tenant = \<lparr>tn_OwnerUserID = 7, tn_OwnerTelegramUserID = 70, tn_BusinessConnectionID = ''A''\<rparr>"

definition sample_world :: erasure_world where
  "sample_world = \<lparr>
     ew_business = NewService\<lparr>bs_conns := [\<lparr>bc_id = ''A'', bc_owner_user_id = 7, bc_can_reply = False, bc_is_enabled = True\<rparr>]\<rparr>,
     ew_db = empty_db\<lparr>db_media := sample_media, db_outbox := sample_outbox\<rparr>, ew_disk = sample_disk,
     ew_requests = er_step (ErIssue good_tx 0 sample_tenant (replicate 64 97) ChallengeTTL) no_requests\<rparr>"

definition sample_env :: "instant \<Rightarrow> erasure_env" where
  "sample_env now = \<lparr>ee_shared = (\<lambda>_. None), ee_exclusive = (\<lambda>_. None), ee_now = now, ee_requests_tx = good_tx, ee_disable_ok = True,
     ee_outbox_tx = good_tx, ee_media = good_pg now, ee_fs = open_fs, ee_messages_tx = good_tx, ee_others_tx = good_tx,
     ee_complete_tx = good_tx\<rparr>"

definition sample_code :: gostr where
  "sample_code = [65, 66, 67, 68, 50, 51, 52, 53]"

lemma sample_world_inv: "world_inv sample_world"
proof -
  have "bs_inv (ew_business sample_world)"
    using bs_inv_NewService
    by (simp add: sample_world_def bs_inv_def) (simp add: NewService_def entries_def newConnectionCache_def)
  moreover have "media_inv (db_media (ew_db sample_world))" by (simp add: sample_world_def sample_media_def media_inv_run)
  moreover have "er_inv (ew_requests sample_world)" by (simp add: sample_world_def er_inv_step del: er_step.simps)
  ultimately show ?thesis by (simp add: world_inv_def)
qed

definition confirm_sample :: "erasure_env \<Rightarrow> erasure_world \<Rightarrow> (Outcome \<times> go_error option) \<times> erasure_world" where
  "confirm_sample e = Confirm (world_ports e) sample_codes 7 sample_code"

lemma confirm_sample: "confirm_sample e s = confirm_hash (world_ports e) 7 (replicate 64 97) s"
proof -
  have "NormaliseCode sample_codes sample_code \<noteq> []"
    by (simp add: NormaliseCode_def sample_codes_def sample_code_def TrimSpace_def TrimLeft_def TrimRight_def IsSpace_def upper_ascii_def)
  then show ?thesis by (simp add: confirm_sample_def Confirm_def Let_def HashCode_def) (simp add: sample_codes_def)
qed

lemma sample_erased:
  "case confirm_hash (world_ports (sample_env 5)) 7 (replicate 64 97) sample_world of
     ((OutcomeErased, None), s') \<Rightarrow> (case ox_rows (db_outbox (ew_db s')) of [] \<Rightarrow> True | _ \<Rightarrow> False)
   | _ \<Rightarrow> False"
  by code_simp

theorem confirmed_erasure_complete_witness:
  "\<exists>s'. confirm_sample (sample_env 5) sample_world = ((OutcomeErased, None), s') \<and>
    mt_rows (db_media (ew_db sample_world)) \<noteq> [] \<and> mine mf_owner 7 (mt_rows (db_media (ew_db s'))) = [] \<and> no_files 7 (ew_disk s')"
proof -
  obtain outcome err s' where r: "confirm_sample (sample_env 5) sample_world = ((outcome, err), s')"
    by (metis surj_pair)
  then have ok: "outcome = OutcomeErased" "err = None" using sample_erased [folded confirm_sample] by (auto split: Outcome.splits option.splits)
  have "mt_rows (db_media (ew_db sample_world)) \<noteq> []" by code_simp
  then show ?thesis using confirmed_erasure_complete [OF sample_world_inv r [unfolded confirm_sample_def]] ok r by auto
qed


theorem replayed_code_erases_nothing_witness:
  "\<exists>s'. confirm_sample (sample_env 5) sample_world = ((OutcomeErased, None), s') \<and>
    confirm_sample (sample_env (10 ^ 15)) s' = ((OutcomeAlreadyErased, None), s')"
proof -
  obtain outcome err s' where r: "confirm_sample (sample_env 5) sample_world = ((outcome, err), s')"
    by (metis surj_pair)
  then have ok: "confirm_sample (sample_env 5) sample_world = ((OutcomeErased, None), s')"
    using sample_erased [folded confirm_sample] by (auto split: Outcome.splits option.splits)
  have "ee_exclusive (sample_env (10 ^ 15)) 7 = None" "tx_ok (ee_requests_tx (sample_env (10 ^ 15)))" by (simp_all add: sample_env_def)
  from replayed_code_erases_nothing [OF sample_world_inv ok [unfolded confirm_sample_def] this]
  show ?thesis using ok unfolding confirm_sample_def by blast
qed

text \<open>The first attempt loses the database when it deletes the messages; the second comes eleven days later.\<close>

theorem interrupted_erasure_resumes_witness:
  "\<exists>err s1 s2. confirm_sample (sample_env 5\<lparr>ee_messages_tx := good_tx\<lparr>tx_exec := False\<rparr>\<rparr>) sample_world = ((OutcomeErased, Some err), s1) \<and>
    confirm_sample (sample_env (10 ^ 15)) s1 = ((OutcomeErased, None), s2)"
proof -
  let ?e = "sample_env 5\<lparr>ee_messages_tx := good_tx\<lparr>tx_exec := False\<rparr>\<rparr>"
  let ?e' = "sample_env (10 ^ 15)"
  obtain outcome err s1 where r: "confirm_sample ?e sample_world = ((outcome, err), s1)"
    by (metis surj_pair)
  have "case confirm_hash (world_ports ?e) 7 (replicate 64 97) sample_world of
      ((OutcomeErased, Some _), s1) \<Rightarrow> (case erase_attachments ?e' 7 s1 of (Inr _, _) \<Rightarrow> True | _ \<Rightarrow> False)
    | _ \<Rightarrow> False" by code_simp
  then obtain x where ok: "confirm_sample ?e sample_world = ((OutcomeErased, Some x), s1)"
    and m: "case erase_attachments ?e' 7 s1 of (Inr _, _) \<Rightarrow> True | _ \<Rightarrow> False"
    using r [unfolded confirm_sample] by (auto simp: confirm_sample split: Outcome.splits option.splits)
  have media: "\<exists>counts. fst (erase_attachments ?e' 7 s1) = Inr counts"
    using m by (cases "erase_attachments ?e' 7 s1"; cases "fst (erase_attachments ?e' 7 s1)") auto
  have "\<exists>s2. Confirm (world_ports ?e') sample_codes 7 sample_code s1 = ((OutcomeErased, None), s2)"
    by (rule interrupted_erasure_resumes [OF sample_world_inv ok [unfolded confirm_sample_def] _ _ _ _ _ _ _ media])
      (simp_all add: sample_env_def)
  then show ?thesis using ok unfolding confirm_sample_def by blast
qed

text \<open>How a typed text differs from the code: letter case, separators anywhere, white space around.\<close>

definition code_separator :: "rune \<Rightarrow> bool" where
  "code_separator r \<longleftrightarrow> r = 32 \<or> r = 45 \<or> r = 95"

definition typed_as :: "gostr \<Rightarrow> gostr \<Rightarrow> bool" where
  "typed_as code t \<longleftrightarrow> map upper_ascii (filter (\<lambda>r. \<not> code_separator r) t) = code"

lemma normalise_ascii:
  assumes "ascii_upper (cd_upper cd)" "list_all (\<lambda>r. r < 128) t"
  shows "filter (\<lambda>r. r \<noteq> 32 \<and> r \<noteq> 45 \<and> r \<noteq> 95) (map (cd_upper cd) t) = map upper_ascii (filter (\<lambda>r. \<not> code_separator r) t)"
  using assms(2)
proof (induction t)
  case (Cons r rs)
  then have "cd_upper cd r = upper_ascii r" using assms(1) by (simp add: ascii_upper_def upper_ascii_def)
  then show ?case using Cons by (auto simp: upper_ascii_def code_separator_def)
qed simp

lemma trim_blanks: "list_all Q xs \<Longrightarrow> \<exists>pre post. xs = pre @ TrimSpace xs @ post \<and> list_all IsSpace pre \<and> list_all IsSpace post"
proof -
  obtain post where "TrimLeft IsSpace xs = TrimSpace xs @ post" "list_all IsSpace post"
    using TrimRight_prefix [of "TrimLeft IsSpace xs" IsSpace] by (auto simp: TrimSpace_def)
  moreover have "xs = takeWhile IsSpace xs @ TrimLeft IsSpace xs" by (simp add: TrimLeft_def)
  moreover have "list_all IsSpace (takeWhile IsSpace xs)" by (auto simp: list_all_iff dest: set_takeWhileD)
  ultimately show ?thesis by (metis append.assoc)
qed

lemma NormaliseCode_typed:
  assumes "ascii_upper (cd_upper cd)" "list_all (\<lambda>r. 48 \<le> r \<and> r \<le> 90) code" "code \<noteq> []" "typed_as code t"
    and "list_all (\<lambda>r. r < 128) t" "list_all IsSpace sp" "list_all IsSpace sp'"
  shows "NormaliseCode cd (sp @ t @ sp') = code"
proof -
  have upper: "IsSpace r \<Longrightarrow> \<not> (48 \<le> upper_ascii r \<and> upper_ascii r \<le> 90)" if "r < 128" for r
    using that by (auto simp: IsSpace_def upper_ascii_def)
  have blank: "code_separator r" if "r \<in> set t" "IsSpace r" for r
  proof (rule ccontr)
    assume "\<not> code_separator r"
    then have "upper_ascii r \<in> set code" using assms(4) that(1) by (auto simp: typed_as_def)
    then show False using upper [of r] assms(2,5) that by (auto simp: list_all_iff)
  qed
  have "\<exists>r \<in> set t. \<not> IsSpace r"
  proof (rule ccontr)
    assume "\<not> (\<exists>r \<in> set t. \<not> IsSpace r)"
    then have "filter (\<lambda>r. \<not> code_separator r) t = []" using blank by (auto simp: filter_empty_conv)
    then show False using assms(3,4) by (simp add: typed_as_def)
  qed
  then obtain r where r: "r \<in> set t" "\<not> IsSpace r" by blast
  have "TrimLeft IsSpace (t @ sp') = TrimLeft IsSpace t @ sp'" using r by (simp add: TrimLeft_def dropWhile_append1)
  then have "TrimSpace (sp @ t @ sp') = TrimSpace t"
    using TrimLeft_append [OF assms(6), of "t @ sp'"] TrimRight_append [OF assms(7), of "TrimLeft IsSpace t"] by (simp add: TrimSpace_def)
  moreover obtain pre post where t: "t = pre @ TrimSpace t @ post" "list_all IsSpace pre" "list_all IsSpace post"
    using trim_blanks [of "\<lambda>_. True" t] by (auto simp: list_all_iff)
  have "list_all code_separator pre" "list_all code_separator post"
    using t blank by (metis Un_iff list_all_iff set_append)+
  then have "filter (\<lambda>r. \<not> code_separator r) pre = []" "filter (\<lambda>r. \<not> code_separator r) post = []"
    by (simp_all add: filter_empty_conv list_all_iff)
  then have "filter (\<lambda>r. \<not> code_separator r) t = filter (\<lambda>r. \<not> code_separator r) (TrimSpace t)"
    using arg_cong [OF t(1), of "filter (\<lambda>r. \<not> code_separator r)"] by simp
  moreover have "list_all (\<lambda>r. r < 128) (TrimSpace t)" using assms(5) t(1) by (metis list_all_append)
  ultimately show ?thesis
    using normalise_ascii [OF assms(1), of "TrimSpace t"] assms(4) by (simp add: NormaliseCode_def typed_as_def)
qed

text \<open>The code that comes back is the code that was sent. Whatever the case the owner types it in, with spaces,
  hyphens and underscores anywhere and white space around it, a code drawn by \<open>newCode\<close> normalises to itself, so the
  confirmation looks up exactly the digest that the request stored.\<close>

theorem typed_code_recognised:
  assumes "newCode raw = Inr code" "code \<noteq> []" "ascii_upper (cd_upper cd)" "typed_as code t"
    and "list_all (\<lambda>r. r < 128) t" "list_all IsSpace sp" "list_all IsSpace sp'"
  shows "NormaliseCode cd (sp @ t @ sp') = code \<and> HashCode cd (NormaliseCode cd (sp @ t @ sp')) = HashCode cd code"
proof -
  have "list_all (\<lambda>r. 48 \<le> r \<and> r \<le> 90) code" using newCode_symbols [OF assms(1)] by (auto simp: list_all_iff)
  then show ?thesis using NormaliseCode_typed [OF assms(3) _ assms(2,4-7)] by simp
qed

theorem typed_code_recognised_witness:
  "NormaliseCode sample_codes (32 # [97, 98, 45, 67, 32, 100] @ [10]) = [65, 66, 67, 68]"
proof -
  have c: "newCode (Some [0, 1, 2, 35]) = Inr [65, 66, 67, 68]"
    by (simp add: newCode_def codeAlphabet_def codeLength_def runes_def)
  have t: "typed_as [65, 66, 67, 68] [97, 98, 45, 67, 32, 100]" by (simp add: typed_as_def code_separator_def upper_ascii_def)
  have u: "ascii_upper (cd_upper sample_codes)" by (simp add: sample_codes_def ascii_upper_def upper_ascii_def)
  show ?thesis
    using typed_code_recognised [OF c _ u t, of "[32]" "[10]"] by (simp add: IsSpace_def)
qed

text \<open>Each symbol of the alphabet comes from exactly eight of the 256 bytes.\<close>

lemma code_unbiased: "c \<in> set codeAlphabet \<Longrightarrow> card {b :: 8 word. newCode (Some [b]) = Inr [c]} = 8"
proof -
  assume "c \<in> set codeAlphabet"
  then obtain i where i: "i < 32" "c = codeAlphabet ! i" using alphabet_symbols(2) by (metis in_set_conv_nth)
  have iff: "newCode (Some [b]) = Inr [c] \<longleftrightarrow> unat b mod 32 = i" for b :: "8 word"
    using i nth_eq_iff_index_eq [OF alphabet_symbols(3)] by (auto simp: newCode_def codeLength_def alphabet_symbols(2))
  then have "{b :: 8 word. newCode (Some [b]) = Inr [c]} = word_of_nat ` (\<lambda>k. 32 * k + i) ` {..<8}"
    (is "?A = ?B")
  proof (intro equalityI subsetI)
    fix b :: "8 word" assume "b \<in> {b. newCode (Some [b]) = Inr [c]}"
    then have m: "unat b mod 32 = i" using iff by simp
    have "unat b < 256" using unsigned_less [of b] by simp
    then have "unat b div 32 < 8" by simp
    moreover have "unat b = 32 * (unat b div 32) + i" using mult_div_mod_eq [of 32 "unat b"] m by simp
    ultimately have "unat b \<in> (\<lambda>k. 32 * k + i) ` {..<8}" by (intro image_eqI [of _ _ "unat b div 32"]) simp_all
    moreover have "b = word_of_nat (unat b)" by simp
    ultimately show "b \<in> ?B" by (rule rev_image_eqI)
  next
    fix b :: "8 word" assume "b \<in> ?B"
    then obtain n where n: "n \<in> (\<lambda>k. 32 * k + i) ` {..<8}" "b = word_of_nat n" by blast
    then have "n < 256" "n mod 32 = i" using i(1) by auto
    moreover from this have "unat b = n" unfolding n(2) by (simp add: unsigned_of_nat take_bit_nat_eq_self)
    ultimately show "b \<in> ?A" using iff i(1) by simp
  qed
  moreover have "inj_on (word_of_nat :: nat \<Rightarrow> 8 word) ((\<lambda>k. 32 * k + i) ` {..<8})"
    using i(1) by (intro inj_onI) (auto simp: word_of_nat_eq_iff take_bit_nat_eq_self)
  moreover have "card ((\<lambda>k. 32 * k + i) ` {..<8::nat}) = 8" by (subst card_image) (auto intro: inj_onI)
  ultimately show ?thesis by (simp add: card_image)
qed

end
