(* ===== verification/Dispatcher.thy ===== *)
theory Dispatcher
  imports "HOL-Library.Word" "HOL-Library.Sublist" Telegram_Types Alerts
begin

unbundle bit_operations_syntax

text \<open>
  \<open>bot/internal/telegram/shard.go\<close>: the partition of an update and the dispatcher of a batch.

  The dispatcher is a state machine: its workers, the goroutine inside \<open>Dispatch\<close> and the cancellation of the context
  interleave in any order. An action names who moves and, where a \<open>select\<close> has several ready cases, which one it takes;
  \<open>act\<close> is the effect of an action, or \<open>None\<close> when it is not possible. The updates of a batch are numbered from 0.
\<close>

section \<open>Partitions\<close>

definition numShards :: nat where "numShards = 32"
definition shardQueueDepth :: nat where "shardQueueDepth = 32"

text \<open>Keys are byte strings, given as lists of bytes.\<close>

definition bytes :: "string \<Rightarrow> 8 word list" where
  "bytes t = map of_char t"

definition rune_bytes :: "gostr \<Rightarrow> 8 word list" where
  "rune_bytes t = map word_of_nat t"

definition chatKey :: "string \<Rightarrow> i64 \<Rightarrow> 8 word list" where
  "chatKey conn chat = bytes ''chat'' @ [0] @ bytes conn @ [0] @ rune_bytes (dec_int chat)"

definition ShardKey :: "Update \<Rightarrow> 8 word list" where
  "ShardKey u =
     (case upd_BusinessConnection u of
        Some c \<Rightarrow> bytes ''conn'' @ [0] @ bytes (tbc_ID c)
      | None \<Rightarrow>
     (case upd_BusinessMessage u of
        Some m \<Rightarrow> chatKey (msg_BusinessConnectionID m) (chat_ID (msg_Chat m))
      | None \<Rightarrow>
     (case upd_EditedBusinessMessage u of
        Some m \<Rightarrow> chatKey (msg_BusinessConnectionID m) (chat_ID (msg_Chat m))
      | None \<Rightarrow>
     (case upd_DeletedBusinessMessages u of
        Some d \<Rightarrow> chatKey (bmd_BusinessConnectionID d) (chat_ID (bmd_Chat d))
      | None \<Rightarrow> bytes ''update'' @ [0] @ rune_bytes (dec_int (upd_UpdateID u))))))"

text \<open>\<open>hash/fnv\<close>: FNV-1a on 64 bits.\<close>

definition fnv64a :: "8 word list \<Rightarrow> 64 word" where
  "fnv64a key = foldl (\<lambda>h b. (h XOR ucast b) * 1099511628211) 14695981039346656037 key"

definition shardIndex :: "8 word list \<Rightarrow> nat" where
  "shardIndex key = unat (fnv64a key) mod numShards"

section \<open>The machine\<close>

datatype handler_result = Returns "go_error option" | Panics

definition serve :: "handler_result \<Rightarrow> go_error option" where
  "serve r = (case r of Returns e \<Rightarrow> e | Panics \<Rightarrow> Some [Msg ''update handler panicked''])"

text \<open>A batch: how many updates, the partition of each, the room of a queue, and what the handler does on each.\<close>

record batch =
  ba_count :: nat
  ba_shard :: "nat \<Rightarrow> nat"
  ba_depth :: nat
  ba_handler :: "nat \<Rightarrow> handler_result"

definition batch_of :: "(Update \<Rightarrow> handler_result) \<Rightarrow> Update list \<Rightarrow> batch" where
  "batch_of handler updates = \<lparr>ba_count = length updates, ba_shard = (\<lambda>i. shardIndex (ShardKey (updates ! i))),
     ba_depth = shardQueueDepth, ba_handler = (\<lambda>i. handler (updates ! i))\<rparr>"

text \<open>Where \<open>Dispatch\<close> is: at an update of the first pass, at a position of the deferred ones, collecting, collecting
  what is there after a cancellation, or returned.\<close>

datatype pc = Submit nat | Resubmit nat | Collect nat | Drain nat | Returned

record dispatch =
  di_queue :: "nat \<Rightarrow> nat list"
  di_running :: "nat \<Rightarrow> nat option"
  di_started :: "nat list" \<comment> \<open>the calls of the handler, in the order they began\<close>
  di_done :: "nat \<Rightarrow> go_error option option" \<comment> \<open>what a worker has reported on the channel of an update\<close>
  di_cancelled :: bool
  di_pc :: pc
  di_deferred :: "nat list"
  di_deferredShard :: "nat set"
  di_pending :: "nat set"
  di_errs :: "nat \<Rightarrow> go_error option"

definition dispatch_start :: dispatch where
  "dispatch_start = \<lparr>di_queue = (\<lambda>_. []), di_running = (\<lambda>_. None), di_started = [], di_done = (\<lambda>_. None),
     di_cancelled = False, di_pc = Submit 0, di_deferred = [], di_deferredShard = {}, di_pending = {}, di_errs = (\<lambda>_. None)\<rparr>"

datatype action =
    Cancel
  | WorkerTakes nat
  | WorkerReports nat
  | Send \<comment> \<open>the queue has room: \<open>Dispatch\<close> puts the request in it\<close>
  | SeeCancel \<comment> \<open>\<open>Dispatch\<close> takes the case of the cancelled context\<close>
  | Receive \<comment> \<open>\<open>Dispatch\<close> takes a report\<close>
  | Proceed \<comment> \<open>the move that needs no channel, the \<open>default\<close> case included\<close>

definition not_submitted :: go_error where
  "not_submitted = [ErrUpdateNotSubmitted, CtxCanceled]"

definition mark_unsubmitted :: "nat list \<Rightarrow> (nat \<Rightarrow> go_error option) \<Rightarrow> nat \<Rightarrow> go_error option" where
  "mark_unsubmitted js errs = (\<lambda>j. if j \<in> set js then Some not_submitted else errs j)"

definition has_room :: "batch \<Rightarrow> nat \<Rightarrow> dispatch \<Rightarrow> bool" where
  "has_room b k s \<longleftrightarrow> length (di_queue s k) < ba_depth b"

definition enqueue :: "batch \<Rightarrow> nat \<Rightarrow> dispatch \<Rightarrow> dispatch" where
  "enqueue b i s = s\<lparr>di_queue := (di_queue s)(ba_shard b i := di_queue s (ba_shard b i) @ [i]), di_pending := insert i (di_pending s)\<rparr>"

definition defer_update :: "batch \<Rightarrow> nat \<Rightarrow> dispatch \<Rightarrow> dispatch" where
  "defer_update b i s = s\<lparr>di_deferredShard := insert (ba_shard b i) (di_deferredShard s), di_deferred := di_deferred s @ [i]\<rparr>"

fun submit_act :: "batch \<Rightarrow> nat \<Rightarrow> action \<Rightarrow> dispatch \<Rightarrow> dispatch option" where
  "submit_act b i a s =
     (if ba_count b \<le> i then (if a = Proceed then Some (s\<lparr>di_pc := Resubmit 0\<rparr>) else None)
      else if ba_shard b i \<in> di_deferredShard s then
        (if a = Proceed then Some (defer_update b i s\<lparr>di_pc := Submit (Suc i)\<rparr>) else None)
      else case a of
          Send \<Rightarrow> if has_room b (ba_shard b i) s then Some (enqueue b i s\<lparr>di_pc := Submit (Suc i)\<rparr>) else None
        | SeeCancel \<Rightarrow>
            if di_cancelled s then Some (s\<lparr>di_errs := mark_unsubmitted [i..<ba_count b] (di_errs s), di_pc := Collect 0\<rparr>) else None
        | Proceed \<Rightarrow>
            if \<not> has_room b (ba_shard b i) s \<and> \<not> di_cancelled s then Some (defer_update b i s\<lparr>di_pc := Submit (Suc i)\<rparr>) else None
        | _ \<Rightarrow> None)"

fun resubmit_act :: "batch \<Rightarrow> nat \<Rightarrow> action \<Rightarrow> dispatch \<Rightarrow> dispatch option" where
  "resubmit_act b pos a s =
     (if length (di_deferred s) \<le> pos then (if a = Proceed then Some (s\<lparr>di_pc := Collect 0\<rparr>) else None)
      else let i = di_deferred s ! pos in
        case a of
          Send \<Rightarrow> if has_room b (ba_shard b i) s then Some (enqueue b i s\<lparr>di_pc := Resubmit (Suc pos)\<rparr>) else None
        | SeeCancel \<Rightarrow>
            if di_cancelled s
            then Some (s\<lparr>di_errs := mark_unsubmitted (drop pos (di_deferred s)) (di_errs s), di_pc := Collect 0\<rparr>) else None
        | _ \<Rightarrow> None)"

fun collect_act :: "batch \<Rightarrow> nat \<Rightarrow> action \<Rightarrow> dispatch \<Rightarrow> dispatch option" where
  "collect_act b i a s =
     (if ba_count b \<le> i then (if a = Proceed then Some (s\<lparr>di_pc := Returned\<rparr>) else None)
      else if i \<notin> di_pending s then (if a = Proceed then Some (s\<lparr>di_pc := Collect (Suc i)\<rparr>) else None)
      else case a of
          Receive \<Rightarrow> (case di_done s i of
              Some e \<Rightarrow> Some (s\<lparr>di_errs := (di_errs s)(i := e), di_pc := Collect (Suc i)\<rparr>)
            | None \<Rightarrow> None)
        | SeeCancel \<Rightarrow> if di_cancelled s then Some (s\<lparr>di_pc := Drain i\<rparr>) else None
        | _ \<Rightarrow> None)"

fun drain_act :: "batch \<Rightarrow> nat \<Rightarrow> action \<Rightarrow> dispatch \<Rightarrow> dispatch option" where
  "drain_act b j a s =
     (if a \<noteq> Proceed then None
      else if ba_count b \<le> j then Some (s\<lparr>di_pc := Returned\<rparr>)
      else if j \<notin> di_pending s then Some (s\<lparr>di_pc := Drain (Suc j)\<rparr>)
      else Some (s\<lparr>di_errs := (di_errs s)(j := (case di_done s j of Some e \<Rightarrow> e | None \<Rightarrow> Some [CtxCanceled])), di_pc := Drain (Suc j)\<rparr>))"

definition main_act :: "batch \<Rightarrow> action \<Rightarrow> dispatch \<Rightarrow> dispatch option" where
  "main_act b a s = (case di_pc s of
      Submit i \<Rightarrow> submit_act b i a s
    | Resubmit pos \<Rightarrow> resubmit_act b pos a s
    | Collect i \<Rightarrow> collect_act b i a s
    | Drain j \<Rightarrow> drain_act b j a s
    | Returned \<Rightarrow> None)"

text \<open>A worker takes the next request of its queue when it is idle, and reports what the handler returned.\<close>

definition worker_takes :: "nat \<Rightarrow> dispatch \<Rightarrow> dispatch option" where
  "worker_takes k s = (case (di_running s k, di_queue s k) of
      (None, i # rest) \<Rightarrow> Some (s\<lparr>di_queue := (di_queue s)(k := rest), di_running := (di_running s)(k := Some i), di_started := di_started s @ [i]\<rparr>)
    | _ \<Rightarrow> None)"

definition worker_reports :: "batch \<Rightarrow> nat \<Rightarrow> dispatch \<Rightarrow> dispatch option" where
  "worker_reports b k s = (case di_running s k of
      Some i \<Rightarrow> Some (s\<lparr>di_running := (di_running s)(k := None), di_done := (di_done s)(i := Some (serve (ba_handler b i)))\<rparr>)
    | None \<Rightarrow> None)"

fun act :: "batch \<Rightarrow> action \<Rightarrow> dispatch \<Rightarrow> dispatch option" where
  "act b Cancel s = (if di_cancelled s then None else Some (s\<lparr>di_cancelled := True\<rparr>))"
| "act b (WorkerTakes k) s = worker_takes k s"
| "act b (WorkerReports k) s = worker_reports b k s"
| "act b a s = main_act b a s"

fun run_actions :: "batch \<Rightarrow> action list \<Rightarrow> dispatch \<Rightarrow> dispatch option" where
  "run_actions b [] s = Some s"
| "run_actions b (a # as) s = (case act b a s of None \<Rightarrow> None | Some s' \<Rightarrow> run_actions b as s')"

text \<open>The states of a call of \<open>Dispatch\<close> on a batch.\<close>

inductive reaches :: "batch \<Rightarrow> dispatch \<Rightarrow> bool" for b where
  start: "reaches b dispatch_start"
| move: "reaches b s \<Longrightarrow> act b a s = Some s' \<Longrightarrow> reaches b s'"

section \<open>The moves\<close>

lemma act_cases [consumes 1, case_names cancel takes reports send deferred abort pass resend reabort repass skip receive drain collected
    drain_skip drain_take drained]:
  assumes "act b a s = Some s'"
  obtains
    "a = Cancel" "s' = s\<lparr>di_cancelled := True\<rparr>"
  | k i rest where "a = WorkerTakes k" "di_running s k = None" "di_queue s k = i # rest"
      "s' = s\<lparr>di_queue := (di_queue s)(k := rest), di_running := (di_running s)(k := Some i), di_started := di_started s @ [i]\<rparr>"
  | k i where "a = WorkerReports k" "di_running s k = Some i"
      "s' = s\<lparr>di_running := (di_running s)(k := None), di_done := (di_done s)(i := Some (serve (ba_handler b i)))\<rparr>"
  | i where "a = Send" "di_pc s = Submit i" "i < ba_count b" "ba_shard b i \<notin> di_deferredShard s" "s' = enqueue b i s\<lparr>di_pc := Submit (Suc i)\<rparr>"
  | i where "a = Proceed" "di_pc s = Submit i" "i < ba_count b" "s' = defer_update b i s\<lparr>di_pc := Submit (Suc i)\<rparr>"
  | i where "a = SeeCancel" "di_pc s = Submit i" "i < ba_count b" "di_cancelled s"
      "s' = s\<lparr>di_errs := mark_unsubmitted [i..<ba_count b] (di_errs s), di_pc := Collect 0\<rparr>"
  | i where "a = Proceed" "di_pc s = Submit i" "ba_count b \<le> i" "s' = s\<lparr>di_pc := Resubmit 0\<rparr>"
  | pos where "a = Send" "di_pc s = Resubmit pos" "pos < length (di_deferred s)"
      "s' = enqueue b (di_deferred s ! pos) s\<lparr>di_pc := Resubmit (Suc pos)\<rparr>"
  | pos where "a = SeeCancel" "di_pc s = Resubmit pos" "pos < length (di_deferred s)" "di_cancelled s"
      "s' = s\<lparr>di_errs := mark_unsubmitted (drop pos (di_deferred s)) (di_errs s), di_pc := Collect 0\<rparr>"
  | pos where "a = Proceed" "di_pc s = Resubmit pos" "length (di_deferred s) \<le> pos" "s' = s\<lparr>di_pc := Collect 0\<rparr>"
  | i where "a = Proceed" "di_pc s = Collect i" "i < ba_count b" "i \<notin> di_pending s" "s' = s\<lparr>di_pc := Collect (Suc i)\<rparr>"
  | i e where "a = Receive" "di_pc s = Collect i" "i < ba_count b" "i \<in> di_pending s" "di_done s i = Some e"
      "s' = s\<lparr>di_errs := (di_errs s)(i := e), di_pc := Collect (Suc i)\<rparr>"
  | i where "a = SeeCancel" "di_pc s = Collect i" "i < ba_count b" "di_cancelled s" "s' = s\<lparr>di_pc := Drain i\<rparr>"
  | i where "a = Proceed" "di_pc s = Collect i" "ba_count b \<le> i" "s' = s\<lparr>di_pc := Returned\<rparr>"
  | j where "a = Proceed" "di_pc s = Drain j" "j < ba_count b" "j \<notin> di_pending s" "s' = s\<lparr>di_pc := Drain (Suc j)\<rparr>"
  | j where "a = Proceed" "di_pc s = Drain j" "j < ba_count b" "j \<in> di_pending s"
      "s' = s\<lparr>di_errs := (di_errs s)(j := (case di_done s j of Some e \<Rightarrow> e | None \<Rightarrow> Some [CtxCanceled])), di_pc := Drain (Suc j)\<rparr>"
  | j where "a = Proceed" "di_pc s = Drain j" "ba_count b \<le> j" "s' = s\<lparr>di_pc := Returned\<rparr>"
proof -
  consider (c) "a = Cancel" | (t) k where "a = WorkerTakes k" | (r) k where "a = WorkerReports k"
    | (m) "a \<in> {Send, SeeCancel, Receive, Proceed}" by (cases a) auto
  then show thesis
  proof cases
    case c
    then show thesis using assms that(1) by (auto split: if_splits)
  next
    case t
    then show thesis using assms that(2) by (auto simp: worker_takes_def split: option.splits list.splits)
  next
    case r
    then show thesis using assms that(3) by (auto simp: worker_reports_def split: option.splits)
  next
    case m
    then have main: "main_act b a s = Some s'" using assms by auto
    show thesis
    proof (cases "di_pc s")
      case (Submit i)
      then have r: "submit_act b i a s = Some s'" using main by (simp add: main_act_def)
      consider (over) "ba_count b \<le> i" | (put) "i < ba_count b" "ba_shard b i \<in> di_deferredShard s"
        | (attempt) "i < ba_count b" "ba_shard b i \<notin> di_deferredShard s" by linarith
      then show thesis
      proof cases
        case over
        then have "a = Proceed" "s' = s\<lparr>di_pc := Resubmit 0\<rparr>" using r by (simp_all split: if_splits)
        then show thesis using that(7) Submit over by blast
      next
        case put
        then have "a = Proceed" "s' = defer_update b i s\<lparr>di_pc := Submit (Suc i)\<rparr>" using r by (simp_all split: if_splits)
        then show thesis using that(5) Submit put(1) by blast
      next
        case attempt
        show thesis
        proof (cases a)
          case Send
          then have "s' = enqueue b i s\<lparr>di_pc := Submit (Suc i)\<rparr>" using r attempt by (simp split: if_splits)
          then show thesis using that(4) Submit attempt Send by blast
        next
          case SeeCancel
          then have "di_cancelled s" "s' = s\<lparr>di_errs := mark_unsubmitted [i..<ba_count b] (di_errs s), di_pc := Collect 0\<rparr>"
            using r attempt by (simp_all split: if_splits)
          then show thesis using that(6) Submit attempt SeeCancel by blast
        next
          case Proceed
          then have "s' = defer_update b i s\<lparr>di_pc := Submit (Suc i)\<rparr>" using r attempt by (simp split: if_splits)
          then show thesis using that(5) Submit attempt Proceed by blast
        qed (use r attempt in simp_all)
      qed
    next
      case (Resubmit pos)
      then have r: "resubmit_act b pos a s = Some s'" using main by (simp add: main_act_def)
      show thesis
      proof (cases "length (di_deferred s) \<le> pos")
        case True
        then have "a = Proceed" "s' = s\<lparr>di_pc := Collect 0\<rparr>" using r by (simp_all split: if_splits)
        then show thesis using that(10) Resubmit True by blast
      next
        case False
        then have lt: "pos < length (di_deferred s)" by simp
        show thesis
        proof (cases a)
          case Send
          then have "s' = enqueue b (di_deferred s ! pos) s\<lparr>di_pc := Resubmit (Suc pos)\<rparr>" using r False by (simp add: Let_def split: if_splits)
          then show thesis using that(8) Resubmit lt Send by blast
        next
          case SeeCancel
          then have "di_cancelled s" "s' = s\<lparr>di_errs := mark_unsubmitted (drop pos (di_deferred s)) (di_errs s), di_pc := Collect 0\<rparr>"
            using r False by (simp_all add: Let_def split: if_splits)
          then show thesis using that(9) Resubmit lt SeeCancel by blast
        qed (use r False in \<open>simp_all add: Let_def\<close>)
      qed
    next
      case (Collect i)
      then have r: "collect_act b i a s = Some s'" using main by (simp add: main_act_def)
      consider (over) "ba_count b \<le> i" | (none) "i < ba_count b" "i \<notin> di_pending s" | (wait) "i < ba_count b" "i \<in> di_pending s" by linarith
      then show thesis
      proof cases
        case over
        then have "a = Proceed" "s' = s\<lparr>di_pc := Returned\<rparr>" using r by (simp_all split: if_splits)
        then show thesis using that(14) Collect over by blast
      next
        case none
        then have "a = Proceed" "s' = s\<lparr>di_pc := Collect (Suc i)\<rparr>" using r by (simp_all split: if_splits)
        then show thesis using that(11) Collect none by blast
      next
        case wait
        show thesis
        proof (cases a)
          case Receive
          then obtain e where "di_done s i = Some e" "s' = s\<lparr>di_errs := (di_errs s)(i := e), di_pc := Collect (Suc i)\<rparr>"
            using r wait by (auto split: option.splits)
          then show thesis using that(12) Collect wait Receive by blast
        next
          case SeeCancel
          then have "di_cancelled s" "s' = s\<lparr>di_pc := Drain i\<rparr>" using r wait by (simp_all split: if_splits)
          then show thesis using that(13) Collect wait SeeCancel by blast
        qed (use r wait in simp_all)
      qed
    next
      case (Drain j)
      then have r: "drain_act b j a s = Some s'" using main by (simp add: main_act_def)
      then have a: "a = Proceed" by (simp split: if_splits)
      consider (over) "ba_count b \<le> j" | (none) "j < ba_count b" "j \<notin> di_pending s" | (some) "j < ba_count b" "j \<in> di_pending s" by linarith
      then show thesis
      proof cases
        case over
        then have "s' = s\<lparr>di_pc := Returned\<rparr>" using r a by simp
        then show thesis using that(17) Drain over a by blast
      next
        case none
        then have "s' = s\<lparr>di_pc := Drain (Suc j)\<rparr>" using r a by simp
        then show thesis using that(15) Drain none a by blast
      next
        case some
        then have "s' = s\<lparr>di_errs := (di_errs s)(j := (case di_done s j of Some e \<Rightarrow> e | None \<Rightarrow> Some [CtxCanceled])), di_pc := Drain (Suc j)\<rparr>"
          using r a by simp
        then show thesis using that(16) Drain some a by blast
      qed
    qed (use main in \<open>simp add: main_act_def\<close>)
  qed
qed

section \<open>What holds in every state\<close>

text \<open>The updates of a partition, among those of a list; those \<open>Dispatch\<close> still has to try, or has put aside.\<close>

definition on_shard :: "batch \<Rightarrow> nat \<Rightarrow> nat list \<Rightarrow> nat list" where
  "on_shard b k is = filter (\<lambda>i. ba_shard b i = k) is"

definition upcoming :: "batch \<Rightarrow> dispatch \<Rightarrow> nat list" where
  "upcoming b s = (case di_pc s of Submit i \<Rightarrow> [i..<ba_count b] | _ \<Rightarrow> [])"

definition waiting :: "dispatch \<Rightarrow> nat list" where
  "waiting s = (case di_pc s of Submit i \<Rightarrow> di_deferred s | Resubmit pos \<Rightarrow> drop pos (di_deferred s) | _ \<Rightarrow> [])"

text \<open>In each partition the calls that began, the queue, the deferred updates and those to come are, in this order, the
  updates of the batch; after a cancellation some may be missing at the end.\<close>

definition partition_order :: "batch \<Rightarrow> dispatch \<Rightarrow> nat \<Rightarrow> nat list \<Rightarrow> bool" where
  "partition_order b s k rest \<longleftrightarrow>
     on_shard b k (di_started s) @ di_queue s k @ on_shard b k (waiting s) @ on_shard b k (upcoming b s) @ rest = on_shard b k [0..<ba_count b]"

definition order_inv :: "batch \<Rightarrow> dispatch \<Rightarrow> bool" where
  "order_inv b s \<longleftrightarrow> (\<forall>k. \<exists>rest. partition_order b s k rest \<and> (di_cancelled s \<or> rest = [])) \<and>
     (case di_pc s of Submit i \<Rightarrow> i \<le> ba_count b \<and> length (di_deferred s) \<le> i \<and> (\<forall>j \<in> set (di_deferred s). ba_shard b j \<in> di_deferredShard s)
       | Resubmit pos \<Rightarrow> pos \<le> length (di_deferred s) \<and> length (di_deferred s) \<le> ba_count b
       | _ \<Rightarrow> True)"

lemma on_shard_simps [simp]:
  "on_shard b k (xs @ ys) = on_shard b k xs @ on_shard b k ys" "on_shard b k [] = []"
  "on_shard b k (x # xs) = (if ba_shard b x = k then x # on_shard b k xs else on_shard b k xs)"
  by (simp_all add: on_shard_def)

lemma queue_shard: "partition_order b s k rest \<Longrightarrow> j \<in> set (di_queue s k) \<Longrightarrow> ba_shard b j = k \<and> j < ba_count b"
proof -
  assume p: "partition_order b s k rest" "j \<in> set (di_queue s k)"
  then have "j \<in> set (on_shard b k [0..<ba_count b])"
    unfolding partition_order_def by (metis Un_iff set_append)
  then show ?thesis by (simp add: on_shard_def)
qed

lemma upcoming_Cons: "i < n \<Longrightarrow> [i..<n] = i # [Suc i..<n]"
  by (rule upt_conv_Cons)

lemma order_inv_start: "order_inv b dispatch_start"
  by (auto simp: order_inv_def dispatch_start_def partition_order_def waiting_def upcoming_def)

lemma order_inv_act:
  assumes "order_inv b s" "act b a s = Some s'"
  shows "order_inv b s'"
proof -
  have ord: "\<exists>rest. partition_order b s k rest \<and> (di_cancelled s \<or> rest = [])" for k using assms(1) by (simp add: order_inv_def)
  have pc: "case di_pc s of Submit i \<Rightarrow> i \<le> ba_count b \<and> length (di_deferred s) \<le> i \<and> (\<forall>j \<in> set (di_deferred s). ba_shard b j \<in> di_deferredShard s)
       | Resubmit pos \<Rightarrow> pos \<le> length (di_deferred s) \<and> length (di_deferred s) \<le> ba_count b | _ \<Rightarrow> True"
    using assms(1) by (simp add: order_inv_def)
  have same: "order_inv b s'" if "\<And>k rest. partition_order b s k rest \<Longrightarrow> partition_order b s' k rest"
    "di_cancelled s \<longrightarrow> di_cancelled s'" and rest: "case di_pc s' of Submit i \<Rightarrow> i \<le> ba_count b \<and> length (di_deferred s') \<le> i \<and> (\<forall>j \<in> set (di_deferred s'). ba_shard b j \<in> di_deferredShard s')
       | Resubmit pos \<Rightarrow> pos \<le> length (di_deferred s') \<and> length (di_deferred s') \<le> ba_count b | _ \<Rightarrow> True"
    using that ord unfolding order_inv_def by blast
  show ?thesis
    using assms(2)
  proof (cases rule: act_cases)
    case cancel
    then show ?thesis using pc by (intro same; cases "di_pc s") (auto simp: partition_order_def waiting_def upcoming_def)
  next
    case (takes k i rest)
    have "ba_shard b i = k" using ord [of k] queue_shard [of b s k _ i] takes(3) by auto
    then show ?thesis using takes pc by (intro same; cases "di_pc s") (auto simp: partition_order_def waiting_def upcoming_def)
  next
    case (reports k i)
    then show ?thesis using pc by (intro same; cases "di_pc s") (auto simp: partition_order_def waiting_def upcoming_def)
  next
    case (send i)
    have "on_shard b (ba_shard b i) (di_deferred s) = []" using pc send(2,4) by (auto simp: on_shard_def filter_empty_conv)
    then show ?thesis using send pc
      by (intro same) (auto simp: partition_order_def waiting_def upcoming_def enqueue_def upcoming_Cons)
  next
    case (deferred i)
    then show ?thesis using deferred pc
      by (intro same) (auto simp: partition_order_def waiting_def upcoming_def defer_update_def upcoming_Cons)
  next
    case (abort i)
    have "partition_order b s' k (on_shard b k (waiting s) @ on_shard b k (upcoming b s) @ rest)" if "partition_order b s k rest" for k rest
      using that abort by (simp add: partition_order_def waiting_def upcoming_def)
    then show ?thesis using abort ord unfolding order_inv_def by fastforce
  next
    case (pass i)
    then show ?thesis using pc by (intro same) (auto simp: partition_order_def waiting_def upcoming_def)
  next
    case (resend pos)
    have "drop pos (di_deferred s) = di_deferred s ! pos # drop (Suc pos) (di_deferred s)" using resend(3) by (simp add: Cons_nth_drop_Suc)
    then show ?thesis using resend pc by (intro same) (auto simp: partition_order_def waiting_def upcoming_def enqueue_def)
  next
    case (reabort pos)
    have "partition_order b s' k (on_shard b k (waiting s) @ on_shard b k (upcoming b s) @ rest)" if "partition_order b s k rest" for k rest
      using that reabort by (simp add: partition_order_def waiting_def upcoming_def)
    then show ?thesis using reabort ord unfolding order_inv_def by fastforce
  next
    case (repass pos)
    then show ?thesis using pc by (intro same) (auto simp: partition_order_def waiting_def upcoming_def)
  qed (use pc in \<open>intro same; auto simp: partition_order_def waiting_def upcoming_def\<close>)+
qed

lemma reaches_order: "reaches b s \<Longrightarrow> order_inv b s"
  by (induction rule: reaches.induct) (auto intro: order_inv_start order_inv_act)

lemma not_yet_sent:
  assumes "order_inv b s" "j \<in> set (waiting s) \<or> j \<in> set (upcoming b s)"
  shows "j \<notin> set (di_started s)" "j \<notin> set (di_queue s k)"
proof -
  have part: "\<exists>rest. partition_order b s k rest" for k using assms(1) by (auto simp: order_inv_def)
  let ?k = "ba_shard b j"
  obtain rest where p: "partition_order b s ?k rest" using part by blast
  have "distinct (on_shard b ?k [0..<ba_count b])" by (simp add: on_shard_def)
  then have d: "distinct (on_shard b ?k (di_started s) @ di_queue s ?k @ on_shard b ?k (waiting s) @ on_shard b ?k (upcoming b s) @ rest)"
    using p unfolding partition_order_def by (simp only:)
  have "j \<in> set (on_shard b ?k (waiting s)) \<or> j \<in> set (on_shard b ?k (upcoming b s))" using assms(2) by (auto simp: on_shard_def)
  then have apart: "j \<notin> set (on_shard b ?k (di_started s))" "j \<notin> set (di_queue s ?k)" using d by auto
  then show "j \<notin> set (di_started s)" by (simp add: on_shard_def)
  show "j \<notin> set (di_queue s k)"
  proof
    assume q: "j \<in> set (di_queue s k)"
    obtain r where "partition_order b s k r" using part by blast
    then have "k = ?k" using queue_shard [OF _ q] by blast
    then show False using apart(2) q by simp
  qed
qed

lemma queue_not_started:
  assumes "order_inv b s" "j \<in> set (di_queue s k)"
  shows "j \<notin> set (di_started s)"
proof -
  obtain rest where p: "partition_order b s k rest" using assms(1) by (auto simp: order_inv_def)
  have "distinct (on_shard b k [0..<ba_count b])" by (simp add: on_shard_def)
  then have d: "distinct (on_shard b k (di_started s) @ di_queue s k @ on_shard b k (waiting s) @ on_shard b k (upcoming b s) @ rest)"
    using p unfolding partition_order_def by (simp only:)
  then have "j \<notin> set (on_shard b k (di_started s))" using assms(2) by auto
  then show ?thesis using queue_shard [OF p assms(2)] by (simp add: on_shard_def)
qed

definition worker_inv :: "batch \<Rightarrow> dispatch \<Rightarrow> bool" where
  "worker_inv b s \<longleftrightarrow> di_pending s = set (di_started s) \<union> (\<Union>k. set (di_queue s k)) \<and>
     (\<forall>k x. di_running s k = Some x \<longrightarrow> x \<in> set (di_started s) \<and> ba_shard b x = k \<and> di_done s x = None) \<and>
     (\<forall>x \<in> set (di_started s). di_running s (ba_shard b x) = Some x \<or> di_done s x \<noteq> None) \<and>
     (\<forall>x e. di_done s x = Some e \<longrightarrow> x \<in> set (di_started s) \<and> e = serve (ba_handler b x))"

lemma worker_inv_main:
  assumes "worker_inv b s" "di_queue s' = di_queue s" "di_running s' = di_running s" "di_started s' = di_started s"
    "di_done s' = di_done s" "di_pending s' = di_pending s"
  shows "worker_inv b s'"
  using assms by (simp add: worker_inv_def)

lemma worker_inv_enqueue: "worker_inv b s \<Longrightarrow> worker_inv b (enqueue b i s\<lparr>di_pc := p\<rparr>)"
  by (auto simp: worker_inv_def enqueue_def split: if_splits)

lemma worker_inv_act:
  assumes "order_inv b s" "worker_inv b s" "act b a s = Some s'"
  shows "worker_inv b s'"
  using assms(3)
proof (cases rule: act_cases)
  case (takes k i rest)
  have i: "i \<in> set (di_queue s k)" using takes(3) by simp
  obtain r where p: "partition_order b s k r" using assms(1) by (auto simp: order_inv_def)
  have k: "ba_shard b i = k" using queue_shard [OF p i] by blast
  have new: "i \<notin> set (di_started s)" by (rule queue_not_started [OF assms(1) i])
  then have "di_done s i = None" using assms(2) by (cases "di_done s i") (auto simp: worker_inv_def)
  moreover have "set (di_queue s k') = set (((di_queue s)(k := rest)) k') \<union> (if k' = k then {i} else {})" for k'
    using takes(3) by simp
  then have "(\<Union>k'. set (di_queue s k')) = (\<Union>k'. set (((di_queue s)(k := rest)) k') \<union> (if k' = k then {i} else {}))"
    by (simp only:)
  moreover have "(\<Union>k'. if k' = k then {i} else {}) = {i}" by (auto split: if_splits)
  ultimately have "(\<Union>k'. set (di_queue s k')) = (\<Union>k'. set (((di_queue s)(k := rest)) k')) \<union> {i}" "di_done s i = None"
    by (simp_all only: UN_Un_distrib)
  note U = this
  have w: "di_pending s = set (di_started s) \<union> (\<Union>k. set (di_queue s k))"
    "\<And>k x. di_running s k = Some x \<Longrightarrow> x \<in> set (di_started s) \<and> ba_shard b x = k \<and> di_done s x = None"
    "\<And>x. x \<in> set (di_started s) \<Longrightarrow> di_running s (ba_shard b x) = Some x \<or> di_done s x \<noteq> None"
    "\<And>x e. di_done s x = Some e \<Longrightarrow> x \<in> set (di_started s) \<and> e = serve (ba_handler b x)"
    using assms(2) by (simp_all add: worker_inv_def)
  have A: "di_pending s' = set (di_started s') \<union> (\<Union>k. set (di_queue s' k))"
  proof -
    have eqs: "di_pending s' = di_pending s" "di_started s' = di_started s @ [i]" "di_queue s' = (di_queue s)(k := rest)"
      by (simp_all add: takes(4))
    show ?thesis unfolding eqs w(1) U(1) by (simp add: Un_commute Un_left_commute del: fun_upd_apply)
  qed
  have D: "di_running s' (ba_shard b x) = Some x \<or> di_done s' x \<noteq> None" if "x \<in> set (di_started s')" for x
    using that w(3) [of x] k takes(2) unfolding takes(4) by (cases "ba_shard b x = k") auto
  have R: "x \<in> set (di_started s') \<and> ba_shard b x = k' \<and> di_done s' x = None" if "di_running s' k' = Some x" for k' x
    using that w(2) [of k' x] k U(2) unfolding takes(4) by (cases "k' = k") auto
  have E: "x \<in> set (di_started s') \<and> e = serve (ba_handler b x)" if "di_done s' x = Some e" for x e
    using that w(4) [of x e] unfolding takes(4) by simp
  show ?thesis
    unfolding worker_inv_def
  proof (intro conjI)
    show "di_pending s' = set (di_started s') \<union> (\<Union>k. set (di_queue s' k))" by (rule A)
    show "\<forall>k x. di_running s' k = Some x \<longrightarrow> x \<in> set (di_started s') \<and> ba_shard b x = k \<and> di_done s' x = None" using R by blast
    show "\<forall>x \<in> set (di_started s'). di_running s' (ba_shard b x) = Some x \<or> di_done s' x \<noteq> None" using D by blast
    show "\<forall>x e. di_done s' x = Some e \<longrightarrow> x \<in> set (di_started s') \<and> e = serve (ba_handler b x)" using E by blast
  qed
next
  case (reports k i)
  have w: "di_pending s = set (di_started s) \<union> (\<Union>k. set (di_queue s k))"
    "\<And>k x. di_running s k = Some x \<Longrightarrow> x \<in> set (di_started s) \<and> ba_shard b x = k \<and> di_done s x = None"
    "\<And>x. x \<in> set (di_started s) \<Longrightarrow> di_running s (ba_shard b x) = Some x \<or> di_done s x \<noteq> None"
    "\<And>x e. di_done s x = Some e \<Longrightarrow> x \<in> set (di_started s) \<and> e = serve (ba_handler b x)"
    using assms(2) by (simp_all add: worker_inv_def)
  have i: "i \<in> set (di_started s)" "ba_shard b i = k" using w(2) [OF reports(2)] by auto
  show ?thesis
    unfolding worker_inv_def
  proof (intro conjI)
    show "di_pending s' = set (di_started s') \<union> (\<Union>k. set (di_queue s' k))" unfolding reports(3) using w(1) by simp
    show "\<forall>k x. di_running s' k = Some x \<longrightarrow> x \<in> set (di_started s') \<and> ba_shard b x = k \<and> di_done s' x = None"
      unfolding reports(3) using i by (auto dest: w(2) split: if_splits)
    show "\<forall>x \<in> set (di_started s'). di_running s' (ba_shard b x) = Some x \<or> di_done s' x \<noteq> None"
      unfolding reports(3) using reports(2) by (auto dest: w(3) split: if_splits)
    show "\<forall>x e. di_done s' x = Some e \<longrightarrow> x \<in> set (di_started s') \<and> e = serve (ba_handler b x)"
      unfolding reports(3) using i(1) by (auto dest: w(4) split: if_splits)
  qed
next
  case (send i)
  then show ?thesis using assms(2) by (simp add: worker_inv_enqueue)
next
  case (resend pos)
  then show ?thesis using assms(2) by (simp add: worker_inv_enqueue)
qed (use assms(2) in \<open>auto simp: defer_update_def intro: worker_inv_main\<close>)

text \<open>What the slots of the answer hold.\<close>

definition settled :: "dispatch \<Rightarrow> nat \<Rightarrow> bool" where
  "settled s j \<longleftrightarrow> (case di_pc s of Collect i \<Rightarrow> j < i | Drain i \<Rightarrow> j < i | Returned \<Rightarrow> True | _ \<Rightarrow> False)"

definition slot_ok :: "batch \<Rightarrow> dispatch \<Rightarrow> nat \<Rightarrow> bool" where
  "slot_ok b s j \<longleftrightarrow>
     (if j \<notin> di_pending s then di_errs s j = None \<or> (di_errs s j = Some not_submitted \<and> di_cancelled s)
      else if settled s j then (di_errs s j = serve (ba_handler b j) \<and> di_done s j \<noteq> None) \<or> (di_cancelled s \<and> di_errs s j = Some [CtxCanceled])
      else di_errs s j = None)"

definition answer_inv :: "batch \<Rightarrow> dispatch \<Rightarrow> bool" where
  "answer_inv b s \<longleftrightarrow> (\<forall>j < ba_count b. slot_ok b s j) \<and>
     (case di_pc s of Submit i \<Rightarrow> di_errs s = (\<lambda>_. None) | Resubmit i \<Rightarrow> di_errs s = (\<lambda>_. None) | Drain j \<Rightarrow> di_cancelled s | _ \<Rightarrow> True)"

lemma slot_same:
  "di_errs s' j = di_errs s j \<Longrightarrow> settled s' j = settled s j \<Longrightarrow> di_pending s' = di_pending s \<Longrightarrow> di_done s' = di_done s \<Longrightarrow>
    di_cancelled s' = di_cancelled s \<Longrightarrow> slot_ok b s' j = slot_ok b s j"
  by (simp add: slot_ok_def)

lemma answer_inv_act:
  assumes "order_inv b s" "worker_inv b s" "answer_inv b s" "act b a s = Some s'"
  shows "answer_inv b s'"
proof -
  have pend: "di_pending s = set (di_started s) \<union> (\<Union>k. set (di_queue s k))" using assms(2) by (simp add: worker_inv_def)
  have unsent: "j \<notin> di_pending s" if "j \<in> set (waiting s) \<or> j \<in> set (upcoming b s)" for j
    using not_yet_sent [OF assms(1) that] pend by auto
  have "di_errs s = (\<lambda>_. None)" if "di_pc s = Submit i \<or> di_pc s = Resubmit i" for i
    using assms(3) that by (auto simp: answer_inv_def)
  note blank = this
  have slot: "slot_ok b s j" if "j < ba_count b" for j using assms(3) that by (simp add: answer_inv_def)
  show ?thesis
    using assms(4)
  proof (cases rule: act_cases)
    case cancel
    then show ?thesis using assms(3) by (cases "di_pc s") (auto simp: answer_inv_def slot_ok_def settled_def)
  next
    case (takes k i rest)
    then show ?thesis using assms(3) by (cases "di_pc s") (auto simp: answer_inv_def slot_ok_def settled_def)
  next
    case (reports k i)
    then show ?thesis using assms(3) by (cases "di_pc s") (auto simp: answer_inv_def slot_ok_def settled_def)
  next
    case (abort i)
    then have "j \<notin> di_pending s" if "j \<in> {i..<ba_count b}" for j using unsent [of j] that by (auto simp: upcoming_def)
    then show ?thesis using abort blank [of i] by (auto simp: answer_inv_def slot_ok_def settled_def mark_unsubmitted_def)
  next
    case (reabort pos)
    then have "j \<notin> di_pending s" if "j \<in> set (drop pos (di_deferred s))" for j using unsent [of j] that by (auto simp: waiting_def)
    then show ?thesis using reabort blank [of pos] by (auto simp: answer_inv_def slot_ok_def settled_def mark_unsubmitted_def)
  next
    case (receive i e)
    have "e = serve (ba_handler b i)" using receive(5) assms(2) by (auto simp: worker_inv_def)
    then have "slot_ok b s' j" if "j < ba_count b" for j
    proof (cases "j = i")
      case False
      then have "slot_ok b s' j = slot_ok b s j" using receive by (intro slot_same) (auto simp: settled_def)
      then show ?thesis using slot that by simp
    qed (use receive in \<open>auto simp: slot_ok_def settled_def\<close>)
    then show ?thesis using receive by (simp add: answer_inv_def)
  next
    case (drain_take j)
    have "di_cancelled s" using assms(3) drain_take(2) by (simp add: answer_inv_def)
    moreover have "e = serve (ba_handler b j)" if "di_done s j = Some e" for e using that assms(2) by (auto simp: worker_inv_def)
    ultimately have "slot_ok b s' x" if "x < ba_count b" for x
    proof (cases "x = j")
      case True
      then show ?thesis using drain_take \<open>di_cancelled s\<close> \<open>\<And>e. di_done s j = Some e \<Longrightarrow> e = serve (ba_handler b j)\<close>
        by (cases "di_done s j") (auto simp: slot_ok_def settled_def)
    next
      case False
      then have "slot_ok b s' x = slot_ok b s x" using drain_take by (intro slot_same) (auto simp: settled_def)
      then show ?thesis using slot that by simp
    qed
    then show ?thesis using drain_take \<open>di_cancelled s\<close> by (simp add: answer_inv_def)
  next
    case (skip i)
    have "slot_ok b s' j = slot_ok b s j" for j
    proof (cases "j = i")
      case False
      then show ?thesis using skip by (intro slot_same) (auto simp: settled_def)
    qed (use skip in \<open>simp add: slot_ok_def\<close>)
    then show ?thesis using skip slot by (simp add: answer_inv_def)
  next
    case (drain_skip i)
    have "slot_ok b s' j = slot_ok b s j" for j
    proof (cases "j = i")
      case False
      then show ?thesis using drain_skip by (intro slot_same) (auto simp: settled_def)
    qed (use drain_skip in \<open>simp add: slot_ok_def\<close>)
    then show ?thesis using drain_skip slot assms(3) by (simp add: answer_inv_def)
  next
    case (send i)
    then show ?thesis using blank [of i] by (auto simp: answer_inv_def slot_ok_def settled_def enqueue_def)
  next
    case (resend pos)
    then show ?thesis using blank [of pos] by (auto simp: answer_inv_def slot_ok_def settled_def enqueue_def)
  next
    case (deferred i)
    then show ?thesis using blank [of i] by (auto simp: answer_inv_def slot_ok_def settled_def defer_update_def)
  next
    case (pass i)
    then have "slot_ok b s' j = slot_ok b s j" for j by (intro slot_same) (auto simp: settled_def)
    then show ?thesis using pass slot blank [of i] by (simp add: answer_inv_def)
  next
    case (repass pos)
    then have "slot_ok b s' j = slot_ok b s j" for j by (intro slot_same) (auto simp: settled_def)
    then show ?thesis using repass slot by (simp add: answer_inv_def)
  next
    case (drain i)
    then have "slot_ok b s' j = slot_ok b s j" for j by (intro slot_same) (auto simp: settled_def)
    then show ?thesis using drain slot by (simp add: answer_inv_def)
  next
    case (collected i)
    then have "slot_ok b s' j = slot_ok b s j" if "j < ba_count b" for j using that by (intro slot_same) (auto simp: settled_def)
    then show ?thesis using collected slot by (simp add: answer_inv_def)
  next
    case (drained i)
    then have "slot_ok b s' j = slot_ok b s j" if "j < ba_count b" for j using that by (intro slot_same) (auto simp: settled_def)
    then show ?thesis using drained slot by (simp add: answer_inv_def)
  qed
qed

lemma reaches_inv: "reaches b s \<Longrightarrow> order_inv b s \<and> worker_inv b s \<and> answer_inv b s"
proof (induction rule: reaches.induct)
  case start
  have "worker_inv b dispatch_start" "answer_inv b dispatch_start"
    by (auto simp: dispatch_start_def worker_inv_def answer_inv_def slot_ok_def settled_def)
  then show ?case using order_inv_start by blast
next
  case (move s a s')
  then show ?case using order_inv_act worker_inv_act answer_inv_act by blast
qed

section \<open>Order\<close>

text \<open>The call in progress on a partition is the last one that began.\<close>

definition serial_inv :: "batch \<Rightarrow> dispatch \<Rightarrow> bool" where
  "serial_inv b s \<longleftrightarrow> (\<forall>k x. di_running s k = Some x \<longrightarrow> (\<exists>earlier. on_shard b k (di_started s) = earlier @ [x]))"

lemma serial_inv_act:
  assumes "order_inv b s" "serial_inv b s" "act b a s = Some s'"
  shows "serial_inv b s'"
  using assms(3)
proof (cases rule: act_cases)
  case (takes k i rest)
  obtain r where p: "partition_order b s k r" using assms(1) by (auto simp: order_inv_def)
  have "ba_shard b i = k" using queue_shard [OF p, of i] takes(3) by simp
  then show ?thesis using assms(2) unfolding takes(4) by (auto simp: serial_inv_def)
qed (use assms(2) in \<open>auto simp: serial_inv_def enqueue_def defer_update_def\<close>)

lemma reaches_serial: "reaches b s \<Longrightarrow> serial_inv b s"
proof (induction rule: reaches.induct)
  case start
  show ?case by (simp add: serial_inv_def dispatch_start_def)
next
  case (move s a s')
  then show ?case using serial_inv_act reaches_order by blast
qed

lemma started_prefix: "order_inv b s \<Longrightarrow> prefix (on_shard b k (di_started s)) (on_shard b k [0..<ba_count b])"
  unfolding order_inv_def partition_order_def prefix_def by metis

lemma started_distinct: "order_inv b s \<Longrightarrow> distinct (on_shard b k (di_started s))"
proof -
  assume "order_inv b s"
  then obtain zs where "on_shard b k [0..<ba_count b] = on_shard b k (di_started s) @ zs"
    using started_prefix unfolding prefix_def by blast
  moreover have "distinct (on_shard b k [0..<ba_count b])" by (simp add: on_shard_def)
  ultimately show ?thesis by simp
qed

lemma filter_on_shard:
  assumes "\<And>i. P i \<Longrightarrow> ba_shard b i = k"
  shows "filter P is = filter P (on_shard b k is)"
proof -
  have "(\<lambda>i. ba_shard b i = k \<and> P i) = P" using assms by blast
  then show ?thesis by (simp add: on_shard_def)
qed

lemma order_of_calls:
  assumes "reaches b s" and same: "\<And>i. P i \<Longrightarrow> ba_shard b i = k"
  shows "prefix (filter P (di_started s)) (filter P [0..<ba_count b])"
    and "list_all (\<lambda>i. di_done s i = Some (serve (ba_handler b i))) (butlast (filter P (di_started s)))"
proof -
  have inv: "order_inv b s" "worker_inv b s" "serial_inv b s"
    using reaches_inv [OF assms(1)] reaches_serial [OF assms(1)] by auto
  have f: "filter P is = filter P (on_shard b k is)" for "is" using same by (rule filter_on_shard)
  show "prefix (filter P (di_started s)) (filter P [0..<ba_count b])"
    unfolding f [of "di_started s"] f [of "[0..<ba_count b]"] using started_prefix [OF inv(1), of k] by (auto simp: prefix_def)
  have "di_done s i = Some (serve (ba_handler b i))" if i: "i \<in> set (butlast (filter P (di_started s)))" for i
  proof -
    have mem: "i \<in> set (di_started s)" "P i" using in_set_butlastD [OF i] by auto
    have "di_running s k \<noteq> Some i"
    proof
      assume "di_running s k = Some i"
      then obtain earlier where e: "on_shard b k (di_started s) = earlier @ [i]" using inv(3) unfolding serial_inv_def by blast
      have "distinct (earlier @ [i])" using started_distinct [OF inv(1), of k] by (simp only: e)
      moreover have "filter P (di_started s) = filter P earlier @ [i]" unfolding f [of "di_started s"] e using mem(2) by simp
      ultimately show False using i by simp
    qed
    then have "di_done s i \<noteq> None" using inv(2) mem same [OF mem(2)] unfolding worker_inv_def by blast
    then show ?thesis using inv(2) unfolding worker_inv_def by blast
  qed
  then show "list_all (\<lambda>i. di_done s i = Some (serve (ba_handler b i))) (butlast (filter P (di_started s)))"
    by (simp add: list_all_iff)
qed

text \<open>C11. Whatever the interleaving of the workers, the fetch loop and a cancellation, the handler is called on the
  updates of one partition key in the order of the batch, none skipped, and each call has returned before the next one of
  the key begins: a deletion never overtakes the message it deletes.\<close>

theorem dispatch_preserves_order:
  assumes "reaches (batch_of handler updates) s"
  shows "prefix (filter (\<lambda>i. ShardKey (updates ! i) = key) (di_started s)) (filter (\<lambda>i. ShardKey (updates ! i) = key) [0..<length updates])
    \<and> list_all (\<lambda>i. di_done s i = Some (serve (handler (updates ! i)))) (butlast (filter (\<lambda>i. ShardKey (updates ! i) = key) (di_started s)))"
proof -
  have "ShardKey (updates ! i) = key \<Longrightarrow> ba_shard (batch_of handler updates) i = shardIndex key" for i by (simp add: batch_of_def)
  note c = order_of_calls [OF assms, where P = "\<lambda>i. ShardKey (updates ! i) = key", OF this]
  then show ?thesis by (simp add: batch_of_def)
qed

section \<open>Completeness\<close>

lemma returned_uncancelled:
  assumes "reaches b s" "di_pc s = Returned" "\<not> di_cancelled s"
  shows "on_shard b k (di_started s) = on_shard b k [0..<ba_count b]" "di_queue s k = []" "di_running s k = None"
    "i < ba_count b \<Longrightarrow> di_errs s i = serve (ba_handler b i)"
proof -
  have inv: "order_inv b s" "worker_inv b s" "answer_inv b s" using reaches_inv [OF assms(1)] by auto
  have all: "on_shard b k (di_started s) @ di_queue s k = on_shard b k [0..<ba_count b]" for k
    using inv(1) assms(2,3) by (auto simp: order_inv_def partition_order_def waiting_def upcoming_def)
  have pend: "di_pending s = set (di_started s) \<union> (\<Union>k. set (di_queue s k))" using inv(2) by (simp add: worker_inv_def)
  have sub: "i \<in> di_pending s" if "i < ba_count b" for i
  proof -
    have "i \<in> set (on_shard b (ba_shard b i) [0..<ba_count b])" using that by (simp add: on_shard_def)
    then have "i \<in> set (on_shard b (ba_shard b i) (di_started s)) \<or> i \<in> set (di_queue s (ba_shard b i))"
      using all [of "ba_shard b i"] by (metis Un_iff set_append)
    then show ?thesis using pend by (auto simp: on_shard_def)
  qed
  have slot: "di_errs s i = serve (ba_handler b i) \<and> di_done s i \<noteq> None" if "i < ba_count b" for i
  proof -
    have "slot_ok b s i" using inv(3) that by (simp add: answer_inv_def)
    then show ?thesis using sub [OF that] assms(2,3) by (simp add: slot_ok_def settled_def)
  qed
  have q: "di_queue s k = []" for k
  proof (rule ccontr)
    assume "di_queue s k \<noteq> []"
    then obtain j where j: "j \<in> set (di_queue s k)" by (cases "di_queue s k") auto
    have "j \<in> set (on_shard b k [0..<ba_count b])" using all [of k] j by (metis Un_iff set_append)
    then have "di_done s j \<noteq> None" using slot by (simp add: on_shard_def)
    then have "j \<in> set (di_started s)" using inv(2) unfolding worker_inv_def by blast
    then show False using queue_not_started [OF inv(1) j] by blast
  qed
  show "di_queue s k = []" by (rule q)
  show st: "on_shard b k (di_started s) = on_shard b k [0..<ba_count b]" using all [of k] q [of k] by simp
  show "di_running s k = None"
  proof (rule ccontr)
    assume "di_running s k \<noteq> None"
    then obtain x where "di_running s k = Some x" by blast
    then have x: "x \<in> set (di_started s)" "ba_shard b x = k" "di_done s x = None" using inv(2) unfolding worker_inv_def by blast+
    then have "x \<in> set (on_shard b k (di_started s))" by (simp add: on_shard_def)
    then have "x < ba_count b" unfolding st by (simp add: on_shard_def)
    then show False using slot x(3) by blast
  qed
  show "i < ba_count b \<Longrightarrow> di_errs s i = serve (ba_handler b i)" using slot by blast
qed

text \<open>A call of Dispatch that returns with its context alive has handled every update of the batch once, in the order
  of the batch within each partition, answers for each with what its handler returned (a panic as an error), and leaves
  every queue empty and every worker idle, so that the next batch starts from the same state.\<close>

theorem dispatch_complete:
  assumes "reaches (batch_of handler updates) s" "di_pc s = Returned" "\<not> di_cancelled s"
  shows "filter (\<lambda>i. shardIndex (ShardKey (updates ! i)) = k) (di_started s) = filter (\<lambda>i. shardIndex (ShardKey (updates ! i)) = k) [0..<length updates]
    \<and> list_all (\<lambda>i. di_errs s i = serve (handler (updates ! i))) [0..<length updates]
    \<and> di_queue s k = [] \<and> di_running s k = None"
  using returned_uncancelled [OF assms] by (simp add: batch_of_def on_shard_def list_all_iff)

text \<open>A slot that answers \<open>ErrUpdateNotSubmitted\<close> is an update no worker has or will have.\<close>

lemma unsubmitted_never_started:
  assumes "reaches b s" "i < ba_count b" "di_errs s i = Some not_submitted" "ba_handler b i \<noteq> Returns (Some not_submitted)"
  shows "i \<notin> set (di_started s) \<and> i \<notin> set (di_queue s k) \<and> di_cancelled s"
proof -
  have inv: "worker_inv b s" "answer_inv b s" using reaches_inv [OF assms(1)] by auto
  have "slot_ok b s i" using inv(2) assms(2) by (simp add: answer_inv_def)
  moreover have "serve (ba_handler b i) \<noteq> Some not_submitted"
    using assms(4) by (cases "ba_handler b i") (auto simp: serve_def not_submitted_def)
  moreover have "not_submitted \<noteq> [CtxCanceled]" by (simp add: not_submitted_def)
  ultimately have "i \<notin> di_pending s" "di_cancelled s" using assms(3) unfolding slot_ok_def by (auto split: if_splits)
  then show ?thesis using inv(1) by (auto simp: worker_inv_def)
qed

section \<open>Progress\<close>

definition call_weight :: "dispatch \<Rightarrow> nat \<Rightarrow> nat" where
  "call_weight s i = (if di_done s i \<noteq> None then 0 else if i \<in> set (di_started s) then 1 else 2)"

definition main_weight :: "batch \<Rightarrow> dispatch \<Rightarrow> nat" where
  "main_weight b s = (case di_pc s of
      Submit i \<Rightarrow> (ba_count b - i) + 2 * ba_count b + 5
    | Resubmit p \<Rightarrow> (length (di_deferred s) - p) + ba_count b + 3
    | Collect i \<Rightarrow> (ba_count b - i) + 2
    | Drain j \<Rightarrow> (ba_count b - j) + 1
    | Returned \<Rightarrow> 0)"

definition dispatch_weight :: "batch \<Rightarrow> dispatch \<Rightarrow> nat" where
  "dispatch_weight b s = (if di_cancelled s then 0 else 1) + main_weight b s + (\<Sum>i<ba_count b. call_weight s i)"

lemma main_weight_same: "di_pc s' = di_pc s \<Longrightarrow> di_deferred s' = di_deferred s \<Longrightarrow> main_weight b s' = main_weight b s"
  by (cases "di_pc s") (simp_all add: main_weight_def)

lemma calls_lighter:
  assumes "i < n" "call_weight s' i < call_weight s i" "\<And>j. j \<noteq> i \<Longrightarrow> call_weight s' j = call_weight s j"
  shows "(\<Sum>j<n. call_weight s' j) < (\<Sum>j<n. call_weight s j)"
proof (rule sum_strict_mono_ex1)
  show "\<forall>j\<in>{..<n}. call_weight s' j \<le> call_weight s j" using assms(2,3) by (metis less_imp_le_nat order_refl)
  show "\<exists>j\<in>{..<n}. call_weight s' j < call_weight s j" using assms(1,2) by blast
qed simp

lemma started_bound: "order_inv b s \<Longrightarrow> i \<in> set (di_started s) \<Longrightarrow> i < ba_count b"
proof -
  assume "order_inv b s" "i \<in> set (di_started s)"
  then have "i \<in> set (on_shard b (ba_shard b i) [0..<ba_count b])"
    using set_mono_prefix [OF started_prefix] by (force simp: on_shard_def)
  then show ?thesis by (simp add: on_shard_def)
qed

lemma dispatch_weight_act:
  assumes "order_inv b s" "worker_inv b s" "act b a s = Some s'" "a \<noteq> Cancel \<or> \<not> di_cancelled s"
  shows "dispatch_weight b s' < dispatch_weight b s"
proof -
  have pc: "case di_pc s of Submit i \<Rightarrow> i \<le> ba_count b \<and> length (di_deferred s) \<le> i | Resubmit pos \<Rightarrow> pos \<le> length (di_deferred s) \<and> length (di_deferred s) \<le> ba_count b | _ \<Rightarrow> True"
    using assms(1) by (cases "di_pc s") (auto simp: order_inv_def)
  have light: "dispatch_weight b s' < dispatch_weight b s"
    if "di_cancelled s' = di_cancelled s" "di_done s' = di_done s" "di_started s' = di_started s" "main_weight b s' < main_weight b s"
  proof -
    have "call_weight s' = call_weight s" using that by (simp add: call_weight_def fun_eq_iff)
    then show ?thesis using that by (simp add: dispatch_weight_def)
  qed
  show ?thesis
    using assms(3)
  proof (cases rule: act_cases)
    case cancel
    have "call_weight s' = call_weight s" unfolding cancel by (simp add: call_weight_def fun_eq_iff)
    moreover have "main_weight b s' = main_weight b s" unfolding cancel by (rule main_weight_same) simp_all
    ultimately show ?thesis using cancel assms(4) by (simp add: dispatch_weight_def)
  next
    case (takes k i rest)
    have q: "i \<in> set (di_queue s k)" using takes(3) by simp
    obtain r where p: "partition_order b s k r" using assms(1) by (auto simp: order_inv_def)
    have new: "i \<notin> set (di_started s)" by (rule queue_not_started [OF assms(1) q])
    have "di_done s i = None" using assms(2) new by (cases "di_done s i") (auto simp: worker_inv_def)
    then have "(\<Sum>j<ba_count b. call_weight s' j) < (\<Sum>j<ba_count b. call_weight s j)"
      using new queue_shard [OF p q] unfolding takes(4) by (intro calls_lighter [of i]) (auto simp: call_weight_def)
    moreover have "main_weight b s' = main_weight b s" unfolding takes(4) by (rule main_weight_same) simp_all
    ultimately show ?thesis using takes(4) by (simp add: dispatch_weight_def)
  next
    case (reports k i)
    have i: "i \<in> set (di_started s)" "di_done s i = None" using assms(2) reports(2) unfolding worker_inv_def by blast+
    then have "(\<Sum>j<ba_count b. call_weight s' j) < (\<Sum>j<ba_count b. call_weight s j)"
      using started_bound [OF assms(1) i(1)] unfolding reports(3) by (intro calls_lighter [of i]) (auto simp: call_weight_def)
    moreover have "main_weight b s' = main_weight b s" unfolding reports(3) by (rule main_weight_same) simp_all
    ultimately show ?thesis using reports(3) by (simp add: dispatch_weight_def)
  qed (use pc in \<open>(intro light; simp add: main_weight_def enqueue_def defer_update_def)+\<close>)
qed

lemma run_bounded:
  assumes "run_actions b as s = Some s'" "reaches b s"
  shows "reaches b s' \<and> length as + dispatch_weight b s' \<le> dispatch_weight b s"
  using assms
proof (induction "as" arbitrary: s)
  case Nil
  then show ?case by simp
next
  case (Cons a "as")
  obtain t where t: "act b a s = Some t" "run_actions b as t = Some s'" using Cons.prems(1) by (auto split: option.splits)
  have "a \<noteq> Cancel \<or> \<not> di_cancelled s" using t(1) by auto
  then have "dispatch_weight b t < dispatch_weight b s"
    using dispatch_weight_act t(1) reaches_inv [OF Cons.prems(2)] by blast
  moreover have "reaches b t" using reaches.move Cons.prems(2) t(1) by blast
  ultimately show ?case using Cons.IH [OF t(2)] by auto
qed

lemma busy_worker_moves: "di_queue s k \<noteq> [] \<or> di_running s k \<noteq> None \<Longrightarrow> \<exists>a. a \<noteq> Cancel \<and> act b a s \<noteq> None"
proof (cases "di_running s k")
  case None
  assume "di_queue s k \<noteq> [] \<or> di_running s k \<noteq> None"
  then have "act b (WorkerTakes k) s \<noteq> None" using None by (cases "di_queue s k") (simp_all add: worker_takes_def)
  then show ?thesis by blast
next
  case (Some i)
  then have "act b (WorkerReports k) s \<noteq> None" by (simp add: worker_reports_def)
  then show ?thesis by blast
qed

lemma dispatch_moves:
  assumes "reaches b s" "0 < ba_depth b" "di_pc s \<noteq> Returned"
  shows "\<exists>a. a \<noteq> Cancel \<and> act b a s \<noteq> None"
proof -
  have main: ?thesis if "main_act b a s \<noteq> None" "a \<in> {Send, SeeCancel, Receive, Proceed}" for a
  proof -
    have "act b a s = main_act b a s \<and> a \<noteq> Cancel" using that(2) by auto
    then show ?thesis using that(1) by metis
  qed
  have w: "di_pending s = set (di_started s) \<union> (\<Union>k. set (di_queue s k))"
    "\<And>x. x \<in> set (di_started s) \<Longrightarrow> di_running s (ba_shard b x) = Some x \<or> di_done s x \<noteq> None"
    using reaches_inv [OF assms(1)] unfolding worker_inv_def by blast+
  show ?thesis
  proof (cases "di_pc s")
    case (Submit i)
    consider "ba_count b \<le> i \<or> ba_shard b i \<in> di_deferredShard s"
      | "has_room b (ba_shard b i) s" "i < ba_count b" "ba_shard b i \<notin> di_deferredShard s"
      | "di_cancelled s" "i < ba_count b" "ba_shard b i \<notin> di_deferredShard s"
      | "\<not> has_room b (ba_shard b i) s" "\<not> di_cancelled s" by linarith
    then show ?thesis
    proof cases
      case 1
      then show ?thesis using main [of Proceed] Submit by (auto simp: main_act_def)
    next
      case 2
      then show ?thesis using main [of Send] Submit by (simp add: main_act_def)
    next
      case 3
      then show ?thesis using main [of SeeCancel] Submit by (simp add: main_act_def)
    next
      case 4
      then show ?thesis using main [of Proceed] Submit by (auto simp: main_act_def)
    qed
  next
    case (Resubmit p)
    let ?k = "ba_shard b (di_deferred s ! p)"
    consider "length (di_deferred s) \<le> p" | "has_room b ?k s" "p < length (di_deferred s)" | "di_queue s ?k \<noteq> []"
      using assms(2) by (cases "length (di_deferred s) \<le> p"; cases "di_queue s ?k") (auto simp: has_room_def)
    then show ?thesis
    proof cases
      case 1
      then show ?thesis using main [of Proceed] Resubmit by (simp add: main_act_def)
    next
      case 2
      then show ?thesis using main [of Send] Resubmit by (simp add: main_act_def Let_def)
    next
      case 3
      then show ?thesis using busy_worker_moves by blast
    qed
  next
    case (Collect i)
    consider "ba_count b \<le> i \<or> i \<notin> di_pending s" | e where "di_done s i = Some e" "i < ba_count b" "i \<in> di_pending s"
      | "di_running s (ba_shard b i) = Some i" | k where "di_queue s k \<noteq> []"
      using w by fastforce
    then show ?thesis
    proof cases
      case 1
      then show ?thesis using main [of Proceed] Collect by (auto simp: main_act_def)
    next
      case 2
      then show ?thesis using main [of Receive] Collect by (simp add: main_act_def)
    next
      case 3
      then show ?thesis by (intro busy_worker_moves) auto
    next
      case 4
      then show ?thesis by (intro busy_worker_moves) auto
    qed
  next
    case (Drain j)
    then show ?thesis using main [of Proceed] by (simp add: main_act_def)
  qed (use assms(3) in simp)
qed

text \<open>C39. When every call of the handler returns, Dispatch returns: as long as it has not, some goroutine other than a
  canceller can move, and a batch of n updates makes at most 5 n + 6 moves, whatever they are.\<close>

theorem dispatch_returns:
  assumes "run_actions (batch_of handler updates) moves dispatch_start = Some s"
  shows "length moves \<le> 5 * length updates + 6
    \<and> (di_pc s = Returned \<or> (\<exists>a. a \<noteq> Cancel \<and> act (batch_of handler updates) a s \<noteq> None))"
proof -
  let ?b = "batch_of handler updates"
  note r = run_bounded [OF assms reaches.start]
  have "call_weight dispatch_start = (\<lambda>_. 2)" by (simp add: call_weight_def dispatch_start_def fun_eq_iff)
  then have "dispatch_weight ?b dispatch_start = 5 * length updates + 6"
    by (simp add: dispatch_weight_def main_weight_def dispatch_start_def batch_of_def)
  moreover have "0 < ba_depth ?b" by (simp add: batch_of_def shardQueueDepth_def)
  ultimately show ?thesis using r dispatch_moves by fastforce
qed

text \<open>A run on one message: sent, taken by its worker, handled, received.\<close>

definition sample_update :: Update where
  "sample_update = \<lparr>upd_UpdateID = 7, upd_BusinessConnection = None, upd_BusinessMessage = None,
     upd_EditedBusinessMessage = None, upd_DeletedBusinessMessages = None\<rparr>"

definition sample_shard :: nat where
  "sample_shard = shardIndex (ShardKey sample_update)"

definition sample_batch :: batch where
  "sample_batch = batch_of (\<lambda>_. Panics) [sample_update]"

definition sample_moves :: "action list" where
  "sample_moves = [Send, Proceed, Proceed, WorkerTakes sample_shard, WorkerReports sample_shard, Receive, Proceed]"

lemma run_reaches: "run_actions b as s = Some s' \<Longrightarrow> reaches b s \<Longrightarrow> reaches b s'"
  using run_bounded by blast

lemma sample_run:
  "case run_actions sample_batch sample_moves dispatch_start of
     Some s \<Rightarrow> di_pc s = Returned \<and> \<not> di_cancelled s \<and> di_started s = [0] \<and> di_errs s 0 = serve Panics | None \<Rightarrow> False"
proof -
  have b: "ba_count sample_batch = 1" "ba_shard sample_batch 0 = sample_shard" "ba_depth sample_batch = 32"
    "ba_handler sample_batch 0 = Panics"
    by (simp_all add: sample_batch_def batch_of_def sample_shard_def shardQueueDepth_def)
  show ?thesis
    by (simp add: sample_moves_def dispatch_start_def main_act_def has_room_def enqueue_def b worker_takes_def worker_reports_def)
qed

theorem dispatch_preserves_order_witness:
  "case run_actions sample_batch sample_moves dispatch_start of
     Some s \<Rightarrow> di_started s = [0] \<and>
       prefix (filter (\<lambda>i. ShardKey ([sample_update] ! i) = ShardKey sample_update) (di_started s))
         (filter (\<lambda>i. ShardKey ([sample_update] ! i) = ShardKey sample_update) [0..<length [sample_update]])
   | None \<Rightarrow> False"
proof -
  obtain s where s: "run_actions sample_batch sample_moves dispatch_start = Some s" "di_started s = [0]"
    using sample_run by (auto split: option.splits)
  have "reaches sample_batch s" using run_reaches s(1) reaches.start by blast
  then show ?thesis
    using dispatch_preserves_order [where updates = "[sample_update]" and s = s and key = "ShardKey sample_update" and handler = "\<lambda>_. Panics"] s
    by (simp add: sample_batch_def)
qed

theorem dispatch_complete_witness:
  "case run_actions sample_batch sample_moves dispatch_start of
     Some s \<Rightarrow> di_errs s 0 = serve Panics \<and> di_queue s sample_shard = [] | None \<Rightarrow> False"
proof -
  obtain s where s: "run_actions sample_batch sample_moves dispatch_start = Some s" "di_pc s = Returned" "\<not> di_cancelled s"
    using sample_run by (auto split: option.splits)
  have "reaches sample_batch s" using run_reaches s(1) reaches.start by blast
  then show ?thesis
    using dispatch_complete [where updates = "[sample_update]" and s = s and k = sample_shard and handler = "\<lambda>_. Panics"] s
    by (simp add: sample_batch_def)
qed

theorem dispatch_returns_witness: "length sample_moves \<le> 5 * length [sample_update] + 6"
proof -
  obtain s where "run_actions sample_batch sample_moves dispatch_start = Some s"
    using sample_run by (auto split: option.splits)
  then show ?thesis
    using dispatch_returns [where updates = "[sample_update]" and s = s and moves = sample_moves and handler = "\<lambda>_. Panics"]
    by (simp add: sample_batch_def)
qed

section \<open>Partition keys\<close>

text \<open>Messages, edits and deletions of a chat share a key; chats of different connections or numbers do not, as long as
  the connection ids hold no NUL, which ends the first field.\<close>

lemma NUL_split: "c \<notin> set xs \<Longrightarrow> c \<notin> set ys \<Longrightarrow> xs @ c # zs = ys @ c # ws \<Longrightarrow> xs = ys \<and> zs = ws"
  by (induction xs arbitrary: ys) (auto simp: Cons_eq_append_conv append_eq_Cons_conv)

lemma shardIndex_bound: "shardIndex key < numShards"
  by (simp add: shardIndex_def numShards_def)

lemma chatKey_connection:
  assumes "0 \<notin> set (bytes c)" "0 \<notin> set (bytes c')" "chatKey c chat = chatKey c' chat'"
  shows "bytes c = bytes c' \<and> rune_bytes (dec_int chat) = rune_bytes (dec_int chat')"
  using assms NUL_split [of "0 :: 8 word" "bytes c" "bytes c'"] by (simp add: chatKey_def)

lemma one_key_per_chat:
  "upd_BusinessConnection u = None \<Longrightarrow> upd_BusinessMessage u = Some m \<Longrightarrow>
    upd_BusinessConnection v = None \<Longrightarrow> upd_BusinessMessage v = None \<Longrightarrow> upd_EditedBusinessMessage v = None \<Longrightarrow>
    upd_DeletedBusinessMessages v = Some d \<Longrightarrow> bmd_BusinessConnectionID d = msg_BusinessConnectionID m \<Longrightarrow>
    chat_ID (bmd_Chat d) = chat_ID (msg_Chat m) \<Longrightarrow> ShardKey u = ShardKey v"
  by (simp add: ShardKey_def)

section \<open>A cancellation in the first pass\<close>

text \<open>When the context is cancelled in the first pass, an update put aside before it is neither submitted nor answered by
  \<open>ErrUpdateNotSubmitted\<close>: its slot holds no error, as if it had been handled. The comments on \<open>Dispatch\<close> say that an
  update never submitted reports \<open>ErrUpdateNotSubmitted\<close>.\<close>

definition stuck_batch :: batch where
  "stuck_batch = \<lparr>ba_count = 4, ba_shard = (\<lambda>i. i div 3), ba_depth = 2, ba_handler = (\<lambda>_. Returns None)\<rparr>"

definition stuck_moves :: "action list" where
  "stuck_moves = [Send, Send, Proceed, Cancel, SeeCancel, WorkerTakes 0, WorkerReports 0, WorkerTakes 0, WorkerReports 0,
     Receive, Receive, Proceed, Proceed, Proceed]"

theorem deferred_slot_without_error:
  "case run_actions stuck_batch stuck_moves dispatch_start of
     Some s \<Rightarrow> di_pc s = Returned \<and> di_started s = [0, 1] \<and> di_queue s 0 = [] \<and> map (di_errs s) [0..<4] = [None, None, None, Some not_submitted]
   | None \<Rightarrow> False"
  by code_simp

end
