(* ===== verification/Poller.thy ===== *)
theory Poller
  imports Dispatcher
begin

text \<open>
  \<open>bot/internal/telegram/poller.go\<close>: the fetch loop, the only owner of the Telegram offset.

  A round is one turn of the loop of \<open>Run\<close> with what the world did during it: whether the context was cancelled, what
  \<open>getUpdates\<close> answered to the offset it was sent, and the state in which \<open>Dispatch\<close> returned on the batch. The two
  last fields of the state record what the outside has seen: the offsets sent, and the updates the handler was called on.
\<close>

section \<open>Constants and waits\<close>

definition pollTimeoutSeconds :: int where "pollTimeoutSeconds = 50"
definition minBackoff :: duration where "minBackoff = go_second"
definition pollMaxBackoff :: duration where "pollMaxBackoff = go_minute"

definition rate_limited :: "go_error \<Rightarrow> int option" where
  "rate_limited err = (case as_api_error err of Some (code, retry) \<Rightarrow> (if IsRateLimited code retry then Some retry else None) | None \<Rightarrow> None)"

definition pollWait :: "duration \<Rightarrow> go_error \<Rightarrow> duration" where
  "pollWait backoff err = (case rate_limited err of
      Some retry \<Rightarrow> (let wait = wrap64 (retry * go_second) in if pollMaxBackoff < wait then pollMaxBackoff else wait)
    | None \<Rightarrow> backoff)"

definition next_backoff :: "duration \<Rightarrow> go_error \<Rightarrow> duration" where
  "next_backoff backoff err = (case rate_limited err of
      Some _ \<Rightarrow> backoff
    | None \<Rightarrow> (let doubled = wrap64 (backoff * 2) in if pollMaxBackoff < doubled then pollMaxBackoff else doubled))"

section \<open>The loop\<close>

record poller =
  po_offset :: i64
  po_backoff :: duration
  po_lastSuccess :: int \<comment> \<open>\<open>lastSuccessUnixNano\<close>, 0 before the first success\<close>
  po_sent :: "i64 list"
  po_handled :: "Update list"

definition poller_start :: poller where
  "poller_start = \<lparr>po_offset = 0, po_backoff = minBackoff, po_lastSuccess = 0, po_sent = [], po_handled = []\<rparr>"

definition LastSuccessfulPoll :: "poller \<Rightarrow> int option" where
  "LastSuccessfulPoll p = (if po_lastSuccess p = 0 then None else Some (po_lastSuccess p))"

record round =
  rd_cancelled :: bool \<comment> \<open>at the head of the loop\<close>
  rd_GetUpdates :: "i64 \<Rightarrow> go_error + Update list"
  rd_cancelled_after :: bool \<comment> \<open>once \<open>getUpdates\<close> has failed\<close>
  rd_cancelled_waiting :: bool
  rd_now :: int
  rd_dispatched :: "Update list \<Rightarrow> dispatch"

text \<open>\<open>Dispatch\<close> answers an empty batch without touching its workers.\<close>

definition Dispatch :: "(Update list \<Rightarrow> dispatch) \<Rightarrow> Update list \<Rightarrow> go_error option list \<times> Update list" where
  "Dispatch run updates = (if updates = [] then ([], [])
     else let d = run updates in (map (di_errs d) [0..<length updates], map (\<lambda>i. updates ! i) (di_started d)))"

text \<open>The offset moves over the answers up to the first update that never reached a worker.\<close>

fun acknowledge :: "(Update \<times> go_error option) list \<Rightarrow> i64 \<Rightarrow> i64" where
  "acknowledge [] offset = offset"
| "acknowledge ((u, err) # rest) offset =
     (case err of
        Some e \<Rightarrow> if errors_is e ErrUpdateNotSubmitted then offset else acknowledge rest (wrap64 (upd_UpdateID u + 1))
      | None \<Rightarrow> acknowledge rest (wrap64 (upd_UpdateID u + 1)))"

definition poll_failed :: "round \<Rightarrow> go_error \<Rightarrow> poller \<Rightarrow> go_error option \<times> poller" where
  "poll_failed r err p =
     (if rd_cancelled_after r then (Some [CtxCanceled], p)
      else let p' = p\<lparr>po_backoff := next_backoff (po_backoff p) err\<rparr> in
        if rd_cancelled_waiting r then (Some [CtxCanceled], p') else (None, p'))"

definition poll_fetched :: "round \<Rightarrow> Update list \<Rightarrow> poller \<Rightarrow> poller" where
  "poll_fetched r updates p =
     (let (errs, called) = Dispatch (rd_dispatched r) updates in
      p\<lparr>po_backoff := minBackoff, po_lastSuccess := rd_now r, po_offset := acknowledge (zip updates errs) (po_offset p),
        po_handled := po_handled p @ called\<rparr>)"

definition poll_round :: "round \<Rightarrow> poller \<Rightarrow> go_error option \<times> poller" where
  "poll_round r p =
     (if rd_cancelled r then (Some [CtxCanceled], p)
      else let p' = p\<lparr>po_sent := po_sent p @ [po_offset p]\<rparr> in
        case rd_GetUpdates r (po_offset p) of
          Inl err \<Rightarrow> poll_failed r err p'
        | Inr updates \<Rightarrow> (None, poll_fetched r updates p'))"

text \<open>\<open>Run\<close> over the rounds the world provides: the error it returned, or \<open>None\<close> while it still loops.\<close>

fun poll_loop :: "round list \<Rightarrow> poller \<Rightarrow> go_error option \<times> poller" where
  "poll_loop [] p = (None, p)"
| "poll_loop (r # rounds) p = (case poll_round r p of (Some err, p') \<Rightarrow> (Some err, p') | (None, p') \<Rightarrow> poll_loop rounds p')"

definition Run :: "duration \<Rightarrow> round list \<Rightarrow> poller \<Rightarrow> go_error option \<times> poller" where
  "Run clientTimeout rounds p =
     (if clientTimeout \<le> pollTimeoutSeconds * go_second then (Some [Msg ''poll timeout too short''], p)
      else poll_loop rounds (p\<lparr>po_backoff := minBackoff\<rparr>))"

section \<open>Acknowledgement\<close>

lemma acknowledge_all:
  assumes "list_all (\<lambda>(u, e). case e of Some c \<Rightarrow> \<not> errors_is c ErrUpdateNotSubmitted | None \<Rightarrow> True) answers"
  shows "acknowledge answers offset = (if answers = [] then offset else wrap64 (upd_UpdateID (fst (last answers)) + 1))"
  using assms by (induction answers offset rule: acknowledge.induct) (auto split: option.splits)

text \<open>The Bot API: the updates not yet acknowledged, oldest first, from the offset on.\<close>

definition serves :: "Update list \<Rightarrow> i64 \<Rightarrow> Update list \<Rightarrow> bool" where
  "serves stream offset updates \<longleftrightarrow> prefix updates (filter (\<lambda>u. offset \<le> upd_UpdateID u) stream)"

definition well_numbered :: "Update list \<Rightarrow> bool" where
  "well_numbered stream \<longleftrightarrow> sorted_wrt (\<lambda>u v. upd_UpdateID u < upd_UpdateID v) stream \<and>
     list_all (\<lambda>u. 0 \<le> upd_UpdateID u \<and> upd_UpdateID u < 2 ^ 63 - 1) stream"

text \<open>A round is possible: the server serves the stream, \<open>Dispatch\<close> ran the handler, and a handler never invents the
  error of an update it never saw.\<close>

definition possible_round :: "(Update \<Rightarrow> handler_result) \<Rightarrow> Update list \<Rightarrow> round \<Rightarrow> bool" where
  "possible_round handler stream r \<longleftrightarrow>
     (\<forall>offset updates. rd_GetUpdates r offset = Inr updates \<longrightarrow> serves stream offset updates \<and>
        (updates \<noteq> [] \<longrightarrow> reaches (batch_of handler updates) (rd_dispatched r updates) \<and> di_pc (rd_dispatched r updates) = Returned))"

definition honest_handler :: "(Update \<Rightarrow> handler_result) \<Rightarrow> bool" where
  "honest_handler handler \<longleftrightarrow> (\<forall>u. case serve (handler u) of Some e \<Rightarrow> \<not> errors_is e ErrUpdateNotSubmitted | None \<Rightarrow> True)"

text \<open>The context was cancelled while the batch of the round was dispatched; once cancelled, it stays so.\<close>

definition cancelled_in :: "round \<Rightarrow> bool" where
  "cancelled_in r \<longleftrightarrow> (\<exists>offset updates. rd_GetUpdates r offset = Inr updates \<and> updates \<noteq> [] \<and> di_cancelled (rd_dispatched r updates))"

fun stays_cancelled :: "round list \<Rightarrow> bool" where
  "stays_cancelled (r # r' # rounds) \<longleftrightarrow> (cancelled_in r \<longrightarrow> rd_cancelled r') \<and> stays_cancelled (r' # rounds)"
| "stays_cancelled _ \<longleftrightarrow> True"

definition caught_up :: "Update list \<Rightarrow> i64 \<Rightarrow> Update list \<Rightarrow> bool" where
  "caught_up stream offset handled \<longleftrightarrow> list_all (\<lambda>u. upd_UpdateID u < offset \<longrightarrow> u \<in> set handled) stream"

lemma caught_up_mono: "caught_up stream offset h \<Longrightarrow> set h \<subseteq> set h' \<Longrightarrow> caught_up stream offset h'"
  by (auto simp: caught_up_def list_all_iff)

lemma served_up_to:
  assumes "well_numbered stream" "serves stream offset updates" "u \<in> set stream" "offset \<le> upd_UpdateID u"
    "updates \<noteq> []" "upd_UpdateID u \<le> upd_UpdateID (last updates)"
  shows "u \<in> set updates"
proof -
  obtain later where l: "filter (\<lambda>u. offset \<le> upd_UpdateID u) stream = updates @ later"
    using assms(2) by (auto simp: serves_def prefix_def)
  have "sorted_wrt (\<lambda>u v. upd_UpdateID u < upd_UpdateID v) (updates @ later)"
    unfolding l [symmetric] using assms(1) by (simp add: well_numbered_def sorted_wrt_filter)
  then have "upd_UpdateID (last updates) < upd_UpdateID v" if "v \<in> set later" for v
    using that assms(5) by (simp add: sorted_wrt_append)
  moreover have "u \<in> set (updates @ later)" unfolding l [symmetric] using assms(3,4) by simp
  ultimately show ?thesis using assms(6) by force
qed

lemma served_member: "well_numbered stream \<Longrightarrow> serves stream offset updates \<Longrightarrow> u \<in> set updates \<Longrightarrow> u \<in> set stream \<and> 0 \<le> upd_UpdateID u \<and> upd_UpdateID u < 2 ^ 63 - 1"
proof -
  assume w: "well_numbered stream" and "serves stream offset updates" "u \<in> set updates"
  then have "u \<in> set (filter (\<lambda>u. offset \<le> upd_UpdateID u) stream)" using set_mono_prefix unfolding serves_def by blast
  then show ?thesis using w by (simp add: well_numbered_def list_all_iff)
qed

lemma Dispatch_uncancelled:
  assumes "reaches (batch_of handler updates) (run updates)" "di_pc (run updates) = Returned" "\<not> di_cancelled (run updates)"
    "honest_handler handler"
  shows "list_all (\<lambda>(u, e). case e of Some c \<Rightarrow> \<not> errors_is c ErrUpdateNotSubmitted | None \<Rightarrow> True) (zip updates (fst (Dispatch run updates)))"
    and "set updates \<subseteq> set (snd (Dispatch run updates))" and "length (fst (Dispatch run updates)) = length updates"
proof -
  let ?b = "batch_of handler updates" and ?d = "run updates"
  have errs: "di_errs ?d i = serve (handler (updates ! i))" if "i < length updates" for i
    using returned_uncancelled(4) [OF assms(1-3)] that by (simp add: batch_of_def)
  have all: "i \<in> set (di_started ?d)" if "i < length updates" for i
  proof -
    have "i \<in> set (on_shard ?b (ba_shard ?b i) [0..<ba_count ?b])" using that by (simp add: on_shard_def batch_of_def)
    then have "i \<in> set (on_shard ?b (ba_shard ?b i) (di_started ?d))" using returned_uncancelled(1) [OF assms(1-3)] by simp
    then show ?thesis by (simp add: on_shard_def)
  qed
  show "list_all (\<lambda>(u, e). case e of Some c \<Rightarrow> \<not> errors_is c ErrUpdateNotSubmitted | None \<Rightarrow> True) (zip updates (fst (Dispatch run updates)))"
    using assms(4) errs by (auto simp: Dispatch_def list_all_iff honest_handler_def set_zip Let_def)
  show "set updates \<subseteq> set (snd (Dispatch run updates))"
    using all by (auto simp: Dispatch_def Let_def in_set_conv_nth)
  show "length (fst (Dispatch run updates)) = length updates" by (simp add: Dispatch_def Let_def)
qed

lemma poll_fetched_advances:
  assumes "possible_round handler stream r" "well_numbered stream" "honest_handler handler" "\<not> cancelled_in r"
    "rd_GetUpdates r offset = Inr updates" "po_offset p = offset"
  shows "po_offset (poll_fetched r updates p) = (if updates = [] then offset else upd_UpdateID (last updates) + 1)"
    and "caught_up stream offset (po_handled p) \<Longrightarrow> caught_up stream (po_offset (poll_fetched r updates p)) (po_handled (poll_fetched r updates p))"
proof -
  have s: "serves stream offset updates" using assms(1,5) by (simp add: possible_round_def)
  have main: "po_offset (poll_fetched r updates p) = (if updates = [] then offset else upd_UpdateID (last updates) + 1) \<and>
    set updates \<subseteq> set (po_handled (poll_fetched r updates p)) \<and> set (po_handled p) \<subseteq> set (po_handled (poll_fetched r updates p))"
  proof (cases "updates = []")
    case True
    then show ?thesis using assms(6) by (simp add: poll_fetched_def Dispatch_def)
  next
    case False
    then have d: "reaches (batch_of handler updates) (rd_dispatched r updates)" "di_pc (rd_dispatched r updates) = Returned"
      "\<not> di_cancelled (rd_dispatched r updates)"
      using assms(1,4,5) unfolding possible_round_def cancelled_in_def by blast+
    note D = Dispatch_uncancelled [where run = "rd_dispatched r", OF d assms(3)]
    have "0 \<le> upd_UpdateID (last updates) \<and> upd_UpdateID (last updates) < 2 ^ 63 - 1"
      using served_member [OF assms(2) s, of "last updates"] False by simp
    then have "wrap64 (upd_UpdateID (last updates) + 1) = upd_UpdateID (last updates) + 1" by (simp add: in_i64_def)
    moreover have "fst (last (zip updates (fst (Dispatch (rd_dispatched r) updates)))) = last updates"
      using D(3) False by (subst last_zip) auto
    moreover have "zip updates (fst (Dispatch (rd_dispatched r) updates)) \<noteq> []" using D(3) False by (cases updates) auto
    ultimately have "acknowledge (zip updates (fst (Dispatch (rd_dispatched r) updates))) (po_offset p) = upd_UpdateID (last updates) + 1"
      using acknowledge_all [OF D(1)] by simp
    then show ?thesis using False D(2) by (auto simp: poll_fetched_def split: prod.splits)
  qed
  then show "po_offset (poll_fetched r updates p) = (if updates = [] then offset else upd_UpdateID (last updates) + 1)" by blast
  assume c: "caught_up stream offset (po_handled p)"
  show "caught_up stream (po_offset (poll_fetched r updates p)) (po_handled (poll_fetched r updates p))"
    unfolding caught_up_def list_all_iff
  proof (intro ballI impI)
    fix u
    assume u: "u \<in> set stream" "upd_UpdateID u < po_offset (poll_fetched r updates p)"
    show "u \<in> set (po_handled (poll_fetched r updates p))"
    proof (cases "upd_UpdateID u < offset")
      case True
      then have "u \<in> set (po_handled p)" using c u(1) by (simp add: caught_up_def list_all_iff)
      then show ?thesis using main by blast
    next
      case False
      then have "updates \<noteq> []" "upd_UpdateID u \<le> upd_UpdateID (last updates)" using u(2) main by (auto split: if_splits)
      then have "u \<in> set updates" using served_up_to [OF assms(2) s u(1)] False by simp
      then show ?thesis using main by blast
    qed
  qed
qed

lemma poll_round_keeps:
  assumes "possible_round handler stream r" "well_numbered stream" "honest_handler handler" "poll_round r p = (e, p')"
    and inv: "list_all (\<lambda>offset. caught_up stream offset (po_handled p)) (po_sent p)" "caught_up stream (po_offset p) (po_handled p) \<or> rd_cancelled r"
  shows "list_all (\<lambda>offset. caught_up stream offset (po_handled p')) (po_sent p')"
    and "e = None \<Longrightarrow> \<not> cancelled_in r \<Longrightarrow> caught_up stream (po_offset p') (po_handled p')"
proof -
  consider (stop) "rd_cancelled r" | (fail) err where "\<not> rd_cancelled r" "rd_GetUpdates r (po_offset p) = Inl err"
    | (ok) updates where "\<not> rd_cancelled r" "rd_GetUpdates r (po_offset p) = Inr updates"
    by (cases "rd_cancelled r"; cases "rd_GetUpdates r (po_offset p)") auto
  then have "list_all (\<lambda>offset. caught_up stream offset (po_handled p')) (po_sent p') \<and> (e = None \<longrightarrow> \<not> cancelled_in r \<longrightarrow> caught_up stream (po_offset p') (po_handled p'))"
  proof cases
    case stop
    then show ?thesis using assms(4) inv by (auto simp: poll_round_def)
  next
    case fail
    have "po_handled p' = po_handled p \<and> po_sent p' = po_sent p @ [po_offset p] \<and> po_offset p' = po_offset p"
      using fail assms(4) by (auto simp: poll_round_def poll_failed_def Let_def split: if_splits)
    then show ?thesis using fail inv by simp
  next
    case ok
    let ?p = "p\<lparr>po_sent := po_sent p @ [po_offset p]\<rparr>"
    have c: "caught_up stream (po_offset p) (po_handled p)" using ok inv by blast
    have p': "p' = poll_fetched r updates ?p" using ok assms(4) by (simp add: poll_round_def)
    have grow: "po_sent p' = po_sent p @ [po_offset p]" "set (po_handled p) \<subseteq> set (po_handled p')"
      unfolding p' by (auto simp: poll_fetched_def split: prod.splits)
    have "list_all (\<lambda>offset. caught_up stream offset (po_handled p')) (po_sent p')"
      unfolding grow(1) using inv(1) c caught_up_mono [OF _ grow(2)] by (simp add: list_all_iff)
    moreover have "\<not> cancelled_in r \<Longrightarrow> caught_up stream (po_offset p') (po_handled p')"
      using poll_fetched_advances(2) [where p = ?p, OF assms(1-3) _ ok(2)] c unfolding p' by simp
    ultimately show ?thesis by blast
  qed
  then show "list_all (\<lambda>offset. caught_up stream offset (po_handled p')) (po_sent p')"
    "e = None \<Longrightarrow> \<not> cancelled_in r \<Longrightarrow> caught_up stream (po_offset p') (po_handled p')" by blast+
qed

text \<open>C3. Whatever the failures, the interleavings and the cancellation, an update that an offset sent to Telegram
  acknowledges has been handled: no update is acknowledged unseen, over any number of rounds.\<close>

theorem acknowledged_updates_were_handled:
  assumes "list_all (possible_round handler stream) rounds" "stays_cancelled rounds" "well_numbered stream" "honest_handler handler"
    "caught_up stream (po_offset p) (po_handled p)" "po_sent p = []"
  shows "list_all (\<lambda>offset. list_all (\<lambda>u. upd_UpdateID u < offset \<longrightarrow> u \<in> set (po_handled (snd (Run timeout rounds p)))) stream) (po_sent (snd (Run timeout rounds p)))"
proof -
  have "list_all (\<lambda>offset. caught_up stream offset (po_handled (snd (poll_loop rounds p)))) (po_sent (snd (poll_loop rounds p)))"
    if "list_all (possible_round handler stream) rounds" "stays_cancelled rounds"
      "list_all (\<lambda>offset. caught_up stream offset (po_handled p)) (po_sent p)"
      "caught_up stream (po_offset p) (po_handled p) \<or> (case rounds of r # _ \<Rightarrow> rd_cancelled r | [] \<Rightarrow> True)" for p rounds
    using that
  proof (induction rounds arbitrary: p)
    case Nil
    then show ?case by simp
  next
    case (Cons r rounds)
    obtain e p' where step: "poll_round r p = (e, p')" by fastforce
    have k: "list_all (\<lambda>offset. caught_up stream offset (po_handled p')) (po_sent p')"
      "e = None \<Longrightarrow> \<not> cancelled_in r \<Longrightarrow> caught_up stream (po_offset p') (po_handled p')"
      using poll_round_keeps [OF _ assms(3,4) step] Cons.prems by auto
    show ?case
    proof (cases e)
      case None
      have "caught_up stream (po_offset p') (po_handled p') \<or> (case rounds of r # _ \<Rightarrow> rd_cancelled r | [] \<Rightarrow> True)"
        using k(2) None Cons.prems(2) by (cases rounds) auto
      moreover have "stays_cancelled rounds" using Cons.prems(2) by (cases rounds) auto
      ultimately show ?thesis using Cons.IH [of p'] Cons.prems(1) k(1) None step by simp
    qed (use step k(1) in simp)
  qed
  note loop = this
  let ?p = "p\<lparr>po_backoff := minBackoff\<rparr>"
  have "list_all (\<lambda>offset. caught_up stream offset (po_handled (snd (poll_loop rounds ?p)))) (po_sent (snd (poll_loop rounds ?p)))"
    using loop [OF assms(1,2), of ?p] assms(5,6) by simp
  then show ?thesis using assms(6) by (simp add: Run_def caught_up_def)
qed


definition sample_round :: round where
  "sample_round = \<lparr>rd_cancelled = False, rd_GetUpdates = (\<lambda>offset. if offset \<le> 7 then Inr [sample_update] else Inr []),
     rd_cancelled_after = False, rd_cancelled_waiting = False, rd_now = 1,
     rd_dispatched = (\<lambda>_. case run_actions sample_batch sample_moves dispatch_start of Some s \<Rightarrow> s | None \<Rightarrow> dispatch_start)\<rparr>"

lemma sample_dispatched:
  "reaches sample_batch (rd_dispatched sample_round us) \<and> di_pc (rd_dispatched sample_round us) = Returned \<and>
    \<not> di_cancelled (rd_dispatched sample_round us) \<and> di_started (rd_dispatched sample_round us) = [0]"
proof -
  obtain s where s: "run_actions sample_batch sample_moves dispatch_start = Some s" "di_pc s = Returned" "\<not> di_cancelled s" "di_started s = [0]"
    using sample_run by (auto split: option.splits)
  have "reaches sample_batch s" using run_reaches s(1) reaches.start by blast
  then show ?thesis using s by (simp add: sample_round_def)
qed

lemma sample_round_possible:
  "possible_round (\<lambda>_. Panics) [sample_update] sample_round \<and> \<not> cancelled_in sample_round \<and> well_numbered [sample_update] \<and> honest_handler (\<lambda>_. Panics)"
proof -
  have "rd_GetUpdates sample_round = (\<lambda>offset. if offset \<le> 7 then Inr [sample_update] else Inr [])" by (simp add: sample_round_def)
  then show ?thesis
    using sample_dispatched
    by (auto simp: possible_round_def cancelled_in_def serves_def well_numbered_def honest_handler_def serve_def errors_is_def sample_update_def sample_batch_def
        split: if_splits)
qed

theorem acknowledged_updates_were_handled_witness:
  "let p = snd (Run (60 * go_second) [sample_round, sample_round] poller_start) in po_sent p = [0, 8] \<and>
     list_all (\<lambda>offset. list_all (\<lambda>u. upd_UpdateID u < offset \<longrightarrow> u \<in> set (po_handled p)) [sample_update]) (po_sent p)"
proof -
  have a: "di_started (rd_dispatched sample_round us) = [0]" "di_errs (rd_dispatched sample_round [sample_update]) 0 = serve Panics" for us
    using sample_dispatched returned_uncancelled(4) [of sample_batch "rd_dispatched sample_round [sample_update]" 0]
    by (simp_all add: sample_batch_def batch_of_def)
  have u: "upd_UpdateID sample_update = 7" by (simp add: sample_update_def)
  have r: "rd_GetUpdates sample_round = (\<lambda>offset. if offset \<le> 7 then Inr [sample_update] else Inr [])" "\<not> rd_cancelled sample_round"
    by (simp_all add: sample_round_def)
  have sent: "po_sent (snd (Run (60 * go_second) [sample_round, sample_round] poller_start)) = [0, 8]"
    by (simp add: Run_def pollTimeoutSeconds_def go_second_def poller_start_def poll_round_def r poll_fetched_def Dispatch_def a serve_def
        errors_is_def u in_i64_def)
  have "list_all (\<lambda>offset. list_all (\<lambda>u. upd_UpdateID u < offset \<longrightarrow> u \<in> set (po_handled (snd (Run (60 * go_second) [sample_round, sample_round] poller_start)))) [sample_update])
      (po_sent (snd (Run (60 * go_second) [sample_round, sample_round] poller_start)))"
    by (rule acknowledged_updates_were_handled [where handler = "\<lambda>_. Panics"])
       (use sample_round_possible in \<open>auto simp: poller_start_def caught_up_def sample_update_def\<close>)
  then show ?thesis using sent by (simp only: Let_def simp_thms)
qed

text \<open>Whatever the handler answers on each update of a batch, errors and panics included, the offset moves past the
  whole batch: an update that always fails delays the loop and never freezes it.\<close>

theorem poisoned_update_never_freezes:
  assumes "possible_round handler stream r" "well_numbered stream" "honest_handler handler" "\<not> cancelled_in r" "\<not> rd_cancelled r"
    "rd_GetUpdates r (po_offset p) = Inr updates" "updates \<noteq> []"
  shows "fst (poll_round r p) = None \<and> po_offset (snd (poll_round r p)) = upd_UpdateID (last updates) + 1 \<and>
    po_backoff (snd (poll_round r p)) = minBackoff \<and> set updates \<subseteq> set (po_handled (snd (poll_round r p)))"
proof -
  let ?p = "p\<lparr>po_sent := po_sent p @ [po_offset p]\<rparr>"
  have round: "poll_round r p = (None, poll_fetched r updates ?p)" using assms(5,6) by (simp add: poll_round_def)
  have "po_offset (poll_fetched r updates ?p) = upd_UpdateID (last updates) + 1"
    using poll_fetched_advances(1) [where p = ?p, OF assms(1-4,6)] assms(7) by simp
  moreover have "set updates \<subseteq> set (snd (Dispatch (rd_dispatched r) updates))"
    using Dispatch_uncancelled(2) [of handler updates "rd_dispatched r"] assms unfolding possible_round_def cancelled_in_def by blast
  ultimately show ?thesis unfolding round by (auto simp: poll_fetched_def split: prod.splits)
qed

theorem poisoned_update_never_freezes_witness:
  "po_offset (snd (poll_round sample_round poller_start)) = 8"
  using poisoned_update_never_freezes [where handler = "\<lambda>_. Panics" and stream = "[sample_update]" and r = sample_round
      and p = poller_start and updates = "[sample_update]"] sample_round_possible
  by (simp add: sample_round_def poller_start_def sample_update_def)

section \<open>Waits\<close>

lemma next_backoff_range:
  assumes "minBackoff \<le> b" "b \<le> pollMaxBackoff"
  shows "minBackoff \<le> next_backoff b err \<and> next_backoff b err \<le> pollMaxBackoff"
proof -
  have "wrap64 (b * 2) = b * 2" using assms by (intro wrap64_id) (simp add: in_i64_def minBackoff_def pollMaxBackoff_def go_minute_def go_second_def)
  then show ?thesis using assms by (auto simp: next_backoff_def Let_def minBackoff_def pollMaxBackoff_def go_minute_def go_second_def split: option.splits)
qed

lemma poll_round_backoff:
  assumes "minBackoff \<le> po_backoff p \<and> po_backoff p \<le> pollMaxBackoff"
  shows "minBackoff \<le> po_backoff (snd (poll_round r p)) \<and> po_backoff (snd (poll_round r p)) \<le> pollMaxBackoff"
proof -
  have "po_backoff (snd (poll_round r p)) \<in> insert minBackoff (insert (po_backoff p) (next_backoff (po_backoff p) ` UNIV))"
    by (auto simp: poll_round_def poll_failed_def poll_fetched_def Let_def split: sum.splits prod.splits)
  then show ?thesis using assms next_backoff_range by (auto simp: minBackoff_def pollMaxBackoff_def go_minute_def go_second_def)
qed

lemma Run_backoff: "po_backoff (snd (poll_loop rounds (p\<lparr>po_backoff := minBackoff\<rparr>))) \<in> {minBackoff..pollMaxBackoff}"
proof -
  have "minBackoff \<le> po_backoff (snd (poll_loop rounds p)) \<and> po_backoff (snd (poll_loop rounds p)) \<le> pollMaxBackoff"
    if "minBackoff \<le> po_backoff p \<and> po_backoff p \<le> pollMaxBackoff" for p
    using that
  proof (induction rounds arbitrary: p)
    case (Cons r rounds)
    have "minBackoff \<le> po_backoff (snd (poll_round r p)) \<and> po_backoff (snd (poll_round r p)) \<le> pollMaxBackoff"
      using poll_round_backoff Cons.prems by blast
    then show ?case using Cons.IH by (cases "poll_round r p") (auto split: option.splits)
  qed simp
  then show ?thesis by (simp add: minBackoff_def pollMaxBackoff_def go_minute_def go_second_def)
qed

lemma pollWait_range:
  assumes "minBackoff \<le> b" "b \<le> pollMaxBackoff" "case rate_limited err of Some retry \<Rightarrow> retry * go_second < 2 ^ 63 | None \<Rightarrow> True"
  shows "go_second \<le> pollWait b err \<and> pollWait b err \<le> go_minute"
proof (cases "rate_limited err")
  case None
  then show ?thesis using assms by (simp add: pollWait_def minBackoff_def pollMaxBackoff_def)
next
  case (Some retry)
  then have "0 < retry" by (auto simp: rate_limited_def IsRateLimited_def split: option.splits if_splits)
  then have "wrap64 (retry * go_second) = retry * go_second" using assms(3) Some by (intro wrap64_id) (simp add: in_i64_def go_second_def)
  then show ?thesis using Some \<open>0 < retry\<close> by (simp add: pollWait_def Let_def pollMaxBackoff_def go_minute_def go_second_def)
qed

text \<open>\<open>time.Duration(apiErr.RetryAfter) * time.Second\<close> overflows for a delay above 9223372036 seconds: the wait is then
  negative and the loop polls again at once, where the comment promises a wait capped at a minute.\<close>

theorem huge_retry_after_polls_at_once: "pollWait b [APIError 429 9223372037] < 0"
  by (simp add: pollWait_def rate_limited_def IsRateLimited_def statusTooManyRequests_def Let_def wrap64_def pollMaxBackoff_def go_minute_def go_second_def)

end
