(* ===== verification/Answers.thy ===== *)
theory Answers
  imports Alerts Commands
begin

text \<open>
  The answers to the owner's commands, from \<open>bot/internal/telegram/alerts.go\<close>: the texts of \<open>/delete_my_data\<close> and
  of \<open>/retention\<close>, each a function of what the code formats into it, and the requests that carry them.
\<close>

section \<open>Texts\<close>

definition erasureBackupCaveat :: \<open>gostr \<Rightarrow> gostr\<close> where
  \<open>erasureBackupCaveat a0 =
     runes ''Backups are the exception, and the limit is worth stating plainly: a deletion here '' @
     runes ''cannot rewrite an archive that was already written. Database dumps are deleted by '' @
     runes ''the daily backup job once they are older than '' @
     a0 @
     runes '' days (BACKUP_RETENTION_DAYS) -- a cleanup target that holds only while that job '' @
     runes ''runs, so each day it misses moves every deletion by a day. Media archives are not '' @
     runes ''purged automatically: they survive until the operator deletes them.''\<close>

definition erasureChallengeText :: \<open>gostr \<Rightarrow> gostr \<Rightarrow> gostr \<Rightarrow> gostr\<close> where
  \<open>erasureChallengeText a0 a1 a2 =
     runes ''Data erasure requested.'' @
     [newline, newline] @
     runes ''To confirm, send this exact command within '' @
     a0 @
     runes '' minutes:'' @
     [newline, newline] @
     a1 @
     runes '' '' @
     a2 @
     [newline, newline] @
     runes ''It deletes, for this account: every saved message, every chat label, every stored '' @
     runes ''attachment on disk and every alert still queued. The Business connections are '' @
     runes ''disabled first, so nothing new is captured while it runs.'' @
     [newline, newline] @
     runes ''The code works once and only for you. Doing nothing cancels it: the code simply '' @
     runes ''expires.''\<close>

definition erasureConfirmationText :: \<open>gostr \<Rightarrow> gostr\<close> where
  \<open>erasureConfirmationText a0 =
     runes ''Data erasure complete.'' @
     [newline, newline] @
     runes ''Your Business connections are disabled, and every saved message, chat label, stored '' @
     runes ''attachment and queued alert of this account is gone from the database and from the '' @
     runes ''disk of this instance.'' @
     [newline, newline] @
     a0 @
     [newline, newline] @
     runes ''Reconnecting undelete from your Telegram settings starts a new capture from zero; '' @
     runes ''nothing that was deleted comes back.''\<close>

definition erasureReplayText :: \<open>gostr \<Rightarrow> gostr\<close> where
  \<open>erasureReplayText a0 =
     runes ''Nothing left to erase.'' @
     [newline, newline] @
     runes ''This confirmation code was already used, and the data it covered is already gone. '' @
     runes ''Nothing was deleted a second time.'' @
     [newline, newline] @
     a0\<close>

definition ErasureExpiredNotice :: \<open>gostr\<close> where
  \<open>ErasureExpiredNotice =
     runes ''This confirmation code has expired. A code is valid for a few minutes only; send '' @
     runes ''/delete_my_data again to get a new one. Nothing was deleted.''\<close>

definition ErasureUnknownNotice :: \<open>gostr\<close> where
  \<open>ErasureUnknownNotice =
     runes ''This confirmation code is not valid. Send /delete_my_data to get a new one. Nothing '' @
     runes ''was deleted.''\<close>

definition ErasureFailedNotice :: \<open>gostr\<close> where
  \<open>ErasureFailedNotice =
     runes ''The erasure did not finish. Part of your data may already be deleted, and what is '' @
     runes ''deleted does not come back. Send the same /delete_my_data command with the same code '' @
     runes ''again to resume it.''\<close>

definition retentionPurgeNote :: \<open>gostr \<Rightarrow> gostr\<close> where
  \<open>retentionPurgeNote a0 =
     runes ''Messages, alerts and media older than '' @
     a0 @
     runes '' are deleted by the daily purge, which runs about every 24 hours. Retention is '' @
     runes ''measured from the date each message was received, not from its deletion.''\<close>

definition retentionBackupNote :: \<open>gostr \<Rightarrow> gostr\<close> where
  \<open>retentionBackupNote a0 =
     runes ''This setting is independent of the database backups (BACKUP_RETENTION_DAYS, '' @
     runes ''currently '' @
     a0 @
     runes '' days): lowering it does not rewrite an archive that was already written. The copy '' @
     runes ''such an archive holds survives until the daily backup job purges that archive in its '' @
     runes ''own turn. Media archives are not purged automatically: they survive until the '' @
     runes ''operator deletes them.''\<close>

definition retentionStatusText :: \<open>gostr \<Rightarrow> gostr \<Rightarrow> gostr \<Rightarrow> gostr\<close> where
  \<open>retentionStatusText a0 a1 a2 =
     runes ''Retention: '' @
     a0 @
     runes ''.'' @
     [newline, newline] @
     a1 @
     [newline, newline] @
     a2 @
     [newline, newline] @
     runes ''To change it, send /retention followed by a number of days between 1 and 365, for '' @
     runes ''example "/retention 30".''\<close>

definition retentionChangedText :: \<open>gostr \<Rightarrow> gostr \<Rightarrow> gostr \<Rightarrow> gostr\<close> where
  \<open>retentionChangedText a0 a1 a2 =
     runes ''Retention updated: '' @
     a0 @
     runes ''.'' @
     [newline, newline] @
     runes ''The new period applies from the next daily purge, which runs about every 24 hours; '' @
     runes ''everything older than '' @
     a1 @
     runes '' will then be deleted. Retention is measured from the date each message was '' @
     runes ''received, not from its deletion.'' @
     [newline, newline] @
     a2\<close>

definition RetentionUsageNotice :: \<open>gostr\<close> where
  \<open>RetentionUsageNotice =
     runes ''Retention was not changed.'' @
     [newline, newline] @
     runes ''Send /retention alone to read the current period, or /retention followed by a single '' @
     runes ''number of days between 1 and 365 to set it, for example "/retention 30".''\<close>

definition retentionDaysText :: "int \<Rightarrow> gostr" where
  "retentionDaysText days = (if days = 1 then runes ''1 day'' else dec_int days @ runes '' days'')"

section \<open>Requests\<close>

text \<open>\<open>Duration.Round\<close>, away from zero on a tie, for a positive unit; what would overflow saturates.\<close>

definition duration_round :: "duration \<Rightarrow> duration \<Rightarrow> duration" where
  "duration_round d m =
     (let r = go_mod d m in
      if d < 0 then
        (let r = - r in
         if r + r < m then d + r
         else if - (2 ^ 63) \<le> d - m + r then d - m + r else - (2 ^ 63))
      else if r + r < m then d - r
      else if d + m - r < 2 ^ 63 then d + m - r else 2 ^ 63 - 1)"

definition BuildErasureChallengeRequest :: "i64 \<Rightarrow> gostr \<Rightarrow> duration \<Rightarrow> SendMessageRequest" where
  "BuildErasureChallengeRequest owner code ttl =
     (let minutes = go_div (duration_round ttl go_minute) go_minute
      in \<lparr>smr_ChatID = owner, smr_Text = erasureChallengeText (dec_int minutes) CommandDeleteMyData code\<rparr>)"

definition BuildErasureConfirmationRequest :: "i64 \<Rightarrow> int \<Rightarrow> SendMessageRequest" where
  "BuildErasureConfirmationRequest owner backupRetentionDays =
     \<lparr>smr_ChatID = owner, smr_Text = erasureConfirmationText (erasureBackupCaveat (dec_int backupRetentionDays))\<rparr>"

definition BuildErasureReplayRequest :: "i64 \<Rightarrow> int \<Rightarrow> SendMessageRequest" where
  "BuildErasureReplayRequest owner backupRetentionDays =
     \<lparr>smr_ChatID = owner, smr_Text = erasureReplayText (erasureBackupCaveat (dec_int backupRetentionDays))\<rparr>"

definition BuildErasureNoticeRequest :: "i64 \<Rightarrow> gostr \<Rightarrow> SendMessageRequest" where
  "BuildErasureNoticeRequest owner notice = \<lparr>smr_ChatID = owner, smr_Text = notice\<rparr>"

definition BuildRetentionStatusRequest :: "i64 \<Rightarrow> int \<Rightarrow> int \<Rightarrow> SendMessageRequest" where
  "BuildRetentionStatusRequest owner retentionDays backupRetentionDays =
     \<lparr>smr_ChatID = owner, smr_Text = retentionStatusText (retentionDaysText retentionDays)
        (retentionPurgeNote (retentionDaysText retentionDays)) (retentionBackupNote (dec_int backupRetentionDays))\<rparr>"

definition BuildRetentionChangedRequest :: "i64 \<Rightarrow> int \<Rightarrow> int \<Rightarrow> SendMessageRequest" where
  "BuildRetentionChangedRequest owner retentionDays backupRetentionDays =
     \<lparr>smr_ChatID = owner, smr_Text = retentionChangedText (retentionDaysText retentionDays)
        (retentionDaysText retentionDays) (retentionBackupNote (dec_int backupRetentionDays))\<rparr>"

definition BuildRetentionUsageRequest :: "i64 \<Rightarrow> SendMessageRequest" where
  "BuildRetentionUsageRequest owner = \<lparr>smr_ChatID = owner, smr_Text = RetentionUsageNotice\<rparr>"

section \<open>Every answer is one message\<close>

lemma dec_int_units: "in_i64 i \<Longrightarrow> utf16Units (dec_int i) \<le> 20"
proof -
  assume i: "in_i64 i"
  have d: "utf16Units (dec n) \<le> 19" if "n < 10 ^ 19" for n
  proof -
    have "utf16Units (dec n) = length (dec n)" using dec_digits [of n] by (intro utf16Units_ascii) (auto simp: isDigit_def list_all_iff)
    then show ?thesis using dec_length [of n 19] that by simp
  qed
  have "nat \<bar>i\<bar> < 10 ^ 19" using i by (auto simp: in_i64_def)
  then show ?thesis using d [of "nat \<bar>i\<bar>"] by (auto simp: dec_int_def abs_if runeUTF16Units_def RuneLen_def)
qed

lemma runes_units: "list_all (\<lambda>c. of_char c < (128 :: nat)) t \<Longrightarrow> utf16Units (runes t) = length t"
  by (induction t) (auto simp: runes_def runeUTF16Units_def RuneLen_def)


lemmas answer_texts = erasureBackupCaveat_def erasureChallengeText_def erasureConfirmationText_def erasureReplayText_def
  ErasureExpiredNotice_def ErasureUnknownNotice_def ErasureFailedNotice_def retentionPurgeNote_def retentionBackupNote_def
  retentionStatusText_def retentionChangedText_def RetentionUsageNotice_def

lemma retentionDaysText_units: "in_i64 days \<Longrightarrow> utf16Units (retentionDaysText days) \<le> 25"
  using dec_int_units [of days] by (simp add: retentionDaysText_def runes_units)

lemma newline_unit: "utf16Units (newline # t) = 1 + utf16Units t"
  by (simp add: newline_def runeUTF16Units_def RuneLen_def)

lemma rounded_minutes:
  assumes "0 \<le> ttl" "ttl < 2 ^ 62"
  shows "in_i64 (go_div (duration_round ttl go_minute) go_minute)"
proof -
  define r where "r = ttl mod go_minute"
  have r: "0 \<le> r" "r \<le> ttl" "r < go_minute"
    using assms(1) by (simp_all add: r_def go_minute_def go_second_def zmod_le_nonneg_dividend)
  have g: "go_mod ttl go_minute = r" using assms(1) by (simp add: r_def go_minute_def go_second_def)
  have d: "duration_round ttl go_minute = ttl - r \<or> duration_round ttl go_minute = ttl + go_minute - r"
    using assms r unfolding duration_round_def Let_def g by (auto simp: go_minute_def go_second_def)
  then have range: "0 \<le> duration_round ttl go_minute" "duration_round ttl go_minute < 2 ^ 63"
    using assms r by (auto simp: go_minute_def go_second_def)
  then have "go_div (duration_round ttl go_minute) go_minute = duration_round ttl go_minute div go_minute"
    by (intro go_div_nonneg) (simp_all add: go_minute_def go_second_def)
  moreover have "0 \<le> duration_round ttl go_minute div go_minute" "duration_round ttl go_minute div go_minute \<le> duration_round ttl go_minute"
    using range(1) zdiv_mono2 [of "duration_round ttl go_minute" 1 go_minute] by (simp_all add: go_minute_def go_second_def)
  ultimately show ?thesis using range(2) by (simp add: in_i64_def)
qed

text \<open>Whatever the numbers, and for any code of at most 64 units, each answer fits one message and goes to the owner.\<close>

lemma erasure_answers_fit:
  assumes "in_i64 backup" "utf16Units code \<le> 64" "0 \<le> ttl" "ttl < 2 ^ 62"
  shows "list_all (\<lambda>req. smr_ChatID req = owner \<and> utf16Units (smr_Text req) \<le> telegramTextLimit)
    [BuildErasureChallengeRequest owner code ttl, BuildErasureConfirmationRequest owner backup, BuildErasureReplayRequest owner backup,
     BuildErasureNoticeRequest owner ErasureExpiredNotice, BuildErasureNoticeRequest owner ErasureUnknownNotice,
     BuildErasureNoticeRequest owner ErasureFailedNotice]"
proof -
  have b: "utf16Units (dec_int backup) \<le> 20" using assms(1) by (rule dec_int_units)
  have caveat: "utf16Units (erasureBackupCaveat (dec_int backup)) \<le> 600" using b by (simp add: erasureBackupCaveat_def runes_units)
  have "utf16Units (dec_int (go_div (duration_round ttl go_minute) go_minute)) \<le> 20" using rounded_minutes [OF assms(3,4)] by (rule dec_int_units)
  moreover have "utf16Units CommandDeleteMyData = 15" by (simp add: CommandDeleteMyData_def runes_units)
  ultimately show ?thesis
    using caveat assms(2)
    by (simp add: telegramTextLimit_def BuildErasureChallengeRequest_def BuildErasureConfirmationRequest_def BuildErasureReplayRequest_def
        BuildErasureNoticeRequest_def erasureChallengeText_def erasureConfirmationText_def erasureReplayText_def ErasureExpiredNotice_def
        ErasureUnknownNotice_def ErasureFailedNotice_def runes_units newline_unit Let_def del: utf16Units.simps)
qed

lemma retention_answers_fit:
  assumes "in_i64 days" "in_i64 backup"
  shows "list_all (\<lambda>req. smr_ChatID req = owner \<and> utf16Units (smr_Text req) \<le> telegramTextLimit)
    [BuildRetentionStatusRequest owner days backup, BuildRetentionChangedRequest owner days backup, BuildRetentionUsageRequest owner]"
proof -
  have b: "utf16Units (dec_int backup) \<le> 20" "utf16Units (retentionDaysText days) \<le> 25"
    using assms by (simp_all add: dec_int_units retentionDaysText_units)
  then have "utf16Units (retentionBackupNote (dec_int backup)) \<le> 500" "utf16Units (retentionPurgeNote (retentionDaysText days)) \<le> 300"
    by (simp_all add: retentionBackupNote_def retentionPurgeNote_def runes_units)
  then show ?thesis
    using b
    by (simp add: telegramTextLimit_def BuildRetentionStatusRequest_def BuildRetentionChangedRequest_def BuildRetentionUsageRequest_def
        retentionStatusText_def retentionChangedText_def RetentionUsageNotice_def runes_units newline_unit del: utf16Units.simps)
qed

end
