(* ===== verification/Transient.thy ===== *)
theory Transient
  imports Dispatcher
begin

text \<open>
  \<open>bot/internal/app/transient.go\<close>: the retries of an update that failed on a blip.

  An attempt is a function of the state of the bot; a run is a few attempts with waits between them. \<open>pgconn.Timeout\<close> and
  \<open>pgconn.SafeToRetry\<close> are arguments, as are the answers of the sleeps, the instants and the random draws. The deadline of
  the degraded mode is shared by every worker: a run is given the value it reads and answers the value it stores, if any.
\<close>

definition transientAttempts :: nat where "transientAttempts = 3"
definition transientBaseDelay :: duration where "transientBaseDelay = 500 * 10 ^ 6"
definition transientMaxWait :: duration where "transientMaxWait = 5 * go_second"
definition transientCooldown :: duration where "transientCooldown = 30 * go_second"

record transient_env =
  tv_pg_Timeout :: "go_error \<Rightarrow> bool"
  tv_pg_SafeToRetry :: "go_error \<Rightarrow> bool"
  tv_sleep :: "nat \<Rightarrow> duration \<Rightarrow> go_error option" \<comment> \<open>the i-th sleep of the run, cut short or not\<close>
  tv_rand :: "nat \<Rightarrow> duration \<Rightarrow> duration" \<comment> \<open>\<open>rand.N\<close> at the i-th wait\<close>
  tv_degradedUntil :: int
  tv_now :: int \<comment> \<open>when the budget is set\<close>
  tv_now_end :: int \<comment> \<open>when the budget is spent\<close>

definition isTransient :: "transient_env \<Rightarrow> go_error \<Rightarrow> bool" where
  "isTransient env err =
     (if errors_is err CtxCanceled \<or> errors_is err CtxDeadlineExceeded then False
      else case as_api_error err of
          Some (code, _) \<Rightarrow> code = statusTooManyRequests \<or> statusInternalServerError \<le> code
        | None \<Rightarrow>
      (case as_pg_error err of
          Some code \<Rightarrow>
            if code \<in> set [''40001'', ''40P01'', ''57P01'', ''57P02'', ''57P03''] then True
            else take 2 code = ''08'' \<or> take 2 code = ''53''
        | None \<Rightarrow>
            if tv_pg_Timeout env err then False
            else if errors_is err PgConnectError \<or> tv_pg_SafeToRetry env err then True
            else (case as_net_error err of
                Some timeout \<Rightarrow> \<not> timeout
              | None \<Rightarrow> errors_is err UnexpectedEOF)))"

text \<open>\<open>wait\<close>: \<open>rand.N\<close> panics on an argument that is not positive, which is \<open>None\<close> here.\<close>

definition rand_N :: "transient_env \<Rightarrow> nat \<Rightarrow> duration \<Rightarrow> duration option" where
  "rand_N env i n = (if n \<le> 0 then None else Some (tv_rand env i n))"

definition transient_wait :: "transient_env \<Rightarrow> go_error \<Rightarrow> nat \<Rightarrow> duration option" where
  "transient_wait env err retry =
     (case (case as_api_error err of Some (code, after) \<Rightarrow> if IsRateLimited code after then Some after else None | None \<Rightarrow> None) of
        Some after \<Rightarrow>
          (let d = min (wrap64 (after * go_second)) transientMaxWait
           in map_option (\<lambda>jitter. d + jitter) (rand_N env retry (go_div d 4 + 1)))
      | None \<Rightarrow>
          (let d = min (wrap64 (transientBaseDelay * 2 ^ (retry - 1))) transientMaxWait
           in if d \<le> 0 then Some 0 else map_option (\<lambda>jitter. go_div d 2 + jitter) (rand_N env retry (go_div d 2 + 1))))"

text \<open>The loop from its \<open>i\<close>-th retry on: the outcome, the state, and what is stored in \<open>degradedUntil\<close>.\<close>

type_synonym 's attempt = "'s \<Rightarrow> handler_result \<times> 's"

function retry_loop :: "transient_env \<Rightarrow> 's attempt \<Rightarrow> nat \<Rightarrow> nat \<Rightarrow> go_error \<Rightarrow> 's \<Rightarrow> handler_result \<times> 's \<times> int option" where
  "retry_loop env attempt budget i err s =
     (if budget \<le> i then (Returns (Some err), s, Some (tv_now_end env + transientCooldown))
      else case transient_wait env err i of
          None \<Rightarrow> (Panics, s, None)
        | Some d \<Rightarrow>
            if tv_sleep env i d \<noteq> None then (Returns (Some err), s, None)
            else (case attempt s of
                (Returns None, s') \<Rightarrow> (Returns None, s', Some 0)
              | (Returns (Some err'), s') \<Rightarrow>
                  if \<not> isTransient env err' then (Returns (Some err'), s', None)
                  else retry_loop env attempt budget (Suc i) err' s'
              | (Panics, s') \<Rightarrow> (Panics, s', None)))"
  by pat_completeness auto
termination
  by (relation "measure (\<lambda>(_, _, budget, i, _, _). budget - i)") auto

definition transient_run :: "transient_env \<Rightarrow> 's attempt \<Rightarrow> 's \<Rightarrow> handler_result \<times> 's \<times> int option" where
  "transient_run env attempt s =
     (case attempt s of
        (Returns None, s') \<Rightarrow> (Returns None, s', Some 0)
      | (Returns (Some err), s') \<Rightarrow>
          if \<not> isTransient env err then (Returns (Some err), s', None)
          else let budget = (if tv_degradedUntil env \<noteq> 0 \<and> tv_now env < tv_degradedUntil env then 1 else transientAttempts)
            in retry_loop env attempt budget 1 err s'
      | (Panics, s') \<Rightarrow> (Panics, s', None))"

declare retry_loop.simps [simp del]

section \<open>What a run does\<close>

text \<open>A state reached from another by at most so many attempts, the last of which gave the outcome.\<close>

inductive attempts :: "'s attempt \<Rightarrow> nat \<Rightarrow> 's \<Rightarrow> handler_result \<Rightarrow> 's \<Rightarrow> bool" for attempt where
  one: "attempt s = (r, s') \<Longrightarrow> attempts attempt 1 s r s'"
| more: "attempt s = (r', s1) \<Longrightarrow> attempts attempt n s1 r s' \<Longrightarrow> attempts attempt (Suc n) s r s'"

lemma attempts_append: "attempts attempt n s r s' \<Longrightarrow> attempt s' = (r2, s2) \<Longrightarrow> attempts attempt (Suc n) s r2 s2"
proof (induction rule: attempts.induct)
  case (one s r s')
  then show ?case using attempts.more attempts.one by (metis One_nat_def)
next
  case (more s r' s1 n r s')
  then show ?case using attempts.more by metis
qed

lemma retry_loop_attempts:
  assumes "retry_loop env attempt budget i err s = (r, s', st)" "attempts attempt i s0 (Returns (Some err)) s" "i \<le> budget"
  shows "\<exists>k r'. attempts attempt k s0 r' s' \<and> k \<le> budget \<and> (r \<noteq> Panics \<longrightarrow> r' = r)"
  using assms
proof (induction env attempt budget i err s arbitrary: r s' st rule: retry_loop.induct)
  case (1 env attempt budget i err s)
  consider (spent) "budget \<le> i" | (panic) "i < budget" "transient_wait env err i = None"
    | (cut) d where "i < budget" "transient_wait env err i = Some d" "tv_sleep env i d \<noteq> None"
    | (go) d where "i < budget" "transient_wait env err i = Some d" "tv_sleep env i d = None"
    by (cases "budget \<le> i"; cases "transient_wait env err i") fastforce+
  then show ?case
  proof cases
    case go
    obtain r1 s1 where a: "attempt s = (r1, s1)" by fastforce
    have more: "attempts attempt (Suc i) s0 r1 s1" using attempts_append [OF "1.prems"(2) a] .
    have le: "Suc i \<le> budget" using go(1) by simp
    show ?thesis
    proof (cases r1)
      case (Returns e)
      show ?thesis
      proof (cases e)
        case None
        then show ?thesis using go a Returns more le "1.prems"(1) by (subst (asm) retry_loop.simps) auto
      next
        case (Some err')
        show ?thesis
        proof (cases "isTransient env err'")
          case True
          then have "retry_loop env attempt budget (Suc i) err' s1 = (r, s', st)"
            using go a Returns Some "1.prems"(1) by (subst (asm) retry_loop.simps) auto
          moreover have "attempts attempt (Suc i) s0 (Returns (Some err')) s1" using more Returns Some by simp
          ultimately show ?thesis
            using "1.IH" [of d r1 s1 e err' r s' st] go le True a Returns Some by simp
        next
          case False
          then show ?thesis using go a Returns Some more le "1.prems"(1) by (subst (asm) retry_loop.simps) auto
        qed
      qed
    next
      case Panics
      then show ?thesis using go a more le "1.prems"(1) by (subst (asm) retry_loop.simps) auto
    qed
  qed (use "1.prems" in \<open>(subst (asm) retry_loop.simps; auto)+\<close>)
qed

lemma run_attempts:
  assumes "transient_run env attempt s = (r, s', st)"
  shows "\<exists>k r'. attempts attempt k s r' s' \<and> k \<le> transientAttempts \<and> (r \<noteq> Panics \<longrightarrow> r' = r)"
proof -
  obtain r1 s1 where a: "attempt s = (r1, s1)" by fastforce
  note one = attempts.one [of attempt, OF a]
  have t: "transientAttempts = 3" by (simp add: transientAttempts_def)
  consider (panic) "r1 = Panics" | (ok) "r1 = Returns None" | (final) err where "r1 = Returns (Some err)" "\<not> isTransient env err"
    | (again) err where "r1 = Returns (Some err)" "isTransient env err"
    by (metis handler_result.exhaust option.exhaust)
  then show ?thesis
  proof cases
    case again
    let ?b = "if tv_degradedUntil env \<noteq> 0 \<and> tv_now env < tv_degradedUntil env then 1 else transientAttempts"
    have "retry_loop env attempt ?b 1 err s1 = (r, s', st)"
      using assms a again by (simp add: transient_run_def Let_def)
    moreover have "1 \<le> ?b" "?b \<le> transientAttempts" by (simp_all add: t)
    ultimately show ?thesis using retry_loop_attempts [of env attempt ?b 1 err s1 r s' st s] one again by (metis order_trans)
  qed (use assms a one t in \<open>auto simp: transient_run_def intro!: exI [of _ 1]\<close>)
qed

text \<open>A retry honours \<open>retry_after\<close> as a floor and stays below five seconds and a quarter of jitter.\<close>

definition server_wait :: "go_error \<Rightarrow> int option" where
  "server_wait err = (case as_api_error err of Some (code, after) \<Rightarrow> if IsRateLimited code after then Some after else None | None \<Rightarrow> None)"

lemma transient_wait_bounds:
  assumes "\<And>i n. 0 < n \<Longrightarrow> 0 \<le> tv_rand env i n \<and> tv_rand env i n < n" "0 < retry" "retry \<le> transientAttempts"
    "case server_wait err of Some after \<Rightarrow> after * go_second < 2 ^ 63 | None \<Rightarrow> True"
  shows "\<exists>d. transient_wait env err retry = Some d \<and> 0 \<le> d \<and> 4 * d \<le> 5 * transientMaxWait \<and>
    (case server_wait err of Some after \<Rightarrow> min (after * go_second) transientMaxWait \<le> d | None \<Rightarrow> True)"
proof -
  have m: "transientMaxWait = 5000000000" "transientBaseDelay = 500000000" by (simp_all add: transientMaxWait_def transientBaseDelay_def go_second_def)
  show ?thesis
  proof (cases "server_wait err")
    case None
    have "retry = 1 \<or> retry = 2 \<or> retry = 3" using assms(2,3) by (auto simp: transientAttempts_def)
    then obtain b where b: "min (wrap64 (transientBaseDelay * 2 ^ (retry - 1))) transientMaxWait = b" "b = 500000000 \<or> b = 1000000000 \<or> b = 2000000000"
      by (auto simp: m in_i64_def)
    have "transient_wait env err retry = Some (b div 2 + tv_rand env retry (b div 2 + 1))"
      unfolding transient_wait_def server_wait_def [symmetric] None using b by (auto simp: Let_def rand_N_def)
    then show ?thesis using None b(2) assms(1) [of "b div 2 + 1" retry] by (auto simp: m)
  next
    case (Some after)
    define w where "w = min (after * go_second) transientMaxWait"
    have "0 < after" using Some by (auto simp: server_wait_def IsRateLimited_def split: option.splits if_splits)
    then have w: "0 < w" "w \<le> 5000000000" by (auto simp: w_def m go_second_def)
    have "wrap64 (after * go_second) = after * go_second"
      using assms(4) Some \<open>0 < after\<close> by (intro wrap64_id) (simp add: in_i64_def go_second_def)
    then have "transient_wait env err retry = Some (w + tv_rand env retry (w div 4 + 1))"
      unfolding transient_wait_def server_wait_def [symmetric] Some using w(1) by (simp add: Let_def rand_N_def w_def [symmetric] go_div_def)
    moreover have "0 \<le> tv_rand env retry (w div 4 + 1) \<and> tv_rand env retry (w div 4 + 1) < w div 4 + 1"
      using w(1) by (intro assms(1)) (simp add: add_strict_increasing pos_imp_zdiv_nonneg_iff add_nonneg_pos)
    moreover have "4 * (w div 4) \<le> w" by simp
    moreover have "min (after * go_second) 5000000000 = w" by (simp add: w_def m)
    ultimately show ?thesis using Some w by (simp add: m)
  qed
qed

text \<open>A \<open>retry_after\<close> above 9223372036 seconds overflows to a negative wait, and \<open>rand.N\<close> panics on it.\<close>

theorem huge_retry_after_panics: "transient_wait env [APIError 429 9223372037] retry = None"
  by (simp add: transient_wait_def IsRateLimited_def statusTooManyRequests_def Let_def wrap64_def transientMaxWait_def go_second_def
      rand_N_def go_div_def)

end
