(* ===== verification/Handler.thy ===== *)
theory Handler
  imports Business Quotas Messages Erasure Answers Transient
begin

text \<open>
  \<open>bot/internal/app/handler.go\<close>: what the bot does with one update.

  The interfaces the handler is given are the fields of a record over a state \<open>'s\<close>; what is \<open>nil\<close> in a reduced wiring is
  an \<open>option\<close>. A handler function is a function of the state whose answer is a value, an error, or a panic (a call through a
  \<open>nil\<close> interface). Log lines and metrics are left out: they read no state. The deadlines of the command answers and of the
  erasure only shorten the contexts the interfaces are called with.
\<close>

section \<open>Answers\<close>

datatype 'a answer = Answer 'a | Error go_error | Panic

definition answer :: "'a \<Rightarrow> 's \<Rightarrow> 'a answer \<times> 's" where
  "answer a s = (Answer a, s)"

definition and_then :: "('s \<Rightarrow> 'a answer \<times> 's) \<Rightarrow> ('a \<Rightarrow> 's \<Rightarrow> 'b answer \<times> 's) \<Rightarrow> 's \<Rightarrow> 'b answer \<times> 's" where
  "and_then m f s = (case m s of (Answer a, s') \<Rightarrow> f a s' | (Error e, s') \<Rightarrow> (Error e, s') | (Panic, s') \<Rightarrow> (Panic, s'))"

definition call_wrapped :: "string \<Rightarrow> ('s \<Rightarrow> (go_error + 'a) \<times> 's) \<Rightarrow> 's \<Rightarrow> 'a answer \<times> 's" where
  "call_wrapped what f s = (case f s of (Inl err, s') \<Rightarrow> (Error (Msg what # err), s') | (Inr a, s') \<Rightarrow> (Answer a, s'))"

section \<open>The interfaces\<close>

record 's eraser =
  ea_Request :: "Tenant \<Rightarrow> 's \<Rightarrow> (go_error + Challenge) \<times> 's"
  ea_Confirm :: "Tenant \<Rightarrow> gostr \<Rightarrow> 's \<Rightarrow> (Outcome \<times> go_error option) \<times> 's"

record 's retention_store =
  rs_GetRetentionDays :: "i64 \<Rightarrow> 's \<Rightarrow> (go_error + int) \<times> 's"
  rs_SetRetentionDays :: "i64 \<Rightarrow> int \<Rightarrow> 's \<Rightarrow> (go_error + unit) \<times> 's"

record 's tenant_guard =
  tg_Shared :: "i64 \<Rightarrow> 's \<Rightarrow> go_error option \<times> 's"
  tg_release :: "i64 \<Rightarrow> 's \<Rightarrow> 's"

record 's quota_port =
  qp_AdmitCapture :: "i64 \<Rightarrow> 's \<Rightarrow> Admission \<times> 's"
  qp_AdmitMediaFile :: "i64 \<Rightarrow> 's \<Rightarrow> Admission \<times> 's"

record 's handler =
  hd_Resolve :: "string \<Rightarrow> 's \<Rightarrow> (go_error + connection) \<times> 's"
  hd_HandleBusinessConnection :: "BusinessConnection \<Rightarrow> 's \<Rightarrow> (go_error + unit) \<times> 's"
  hd_Save :: "i64 \<Rightarrow> MsgRecord \<Rightarrow> bool \<Rightarrow> 's \<Rightarrow> (go_error + unit) \<times> 's"
  hd_MarkDeleted :: "i64 \<Rightarrow> i64 \<Rightarrow> string \<Rightarrow> i64 \<Rightarrow> i64 list \<Rightarrow> 's \<Rightarrow> (go_error + DeletedRecord list) \<times> 's"
  hd_media :: "(i64 \<Rightarrow> MediaRecord \<Rightarrow> 's \<Rightarrow> (go_error + i64) \<times> 's) option"
  hd_sender :: "(SendMessageRequest \<Rightarrow> 's \<Rightarrow> go_error option \<times> 's) option"
  hd_eraser :: "'s eraser option"
  hd_retention :: "'s retention_store option"
  hd_backupRetentionDays :: int
  hd_guard :: "'s tenant_guard option"
  hd_quota :: "'s quota_port option"
  hd_lower :: "rune \<Rightarrow> rune" \<comment> \<open>\<open>unicode.ToLower\<close>\<close>
  hd_policy :: gostr \<comment> \<open>\<open>privacy.Text()\<close>\<close>

section \<open>Fields of a message\<close>

definition connectionRefused :: "go_error \<Rightarrow> bool" where
  "connectionRefused err \<longleftrightarrow>
     errors_is err ErrOwnerNotAllowed \<or> errors_is err ErrConnectionUnknown \<or> errors_is err ErrConnectionOwnerConflict"

definition messageText :: "Message \<Rightarrow> gostr" where
  "messageText m = (if msg_Text m \<noteq> [] then msg_Text m else msg_Caption m)"

definition messageType :: "MediaAttachment list \<Rightarrow> string" where
  "messageType attachments = (case attachments of [] \<Rightarrow> ''text'' | a # _ \<Rightarrow> ma_Type a)"

definition optional :: "int \<Rightarrow> int option" where
  "optional v = (if v = 0 then None else Some v)"

text \<open>A first name, then a last name after a blank.\<close>

definition full_name :: "gostr \<Rightarrow> gostr \<Rightarrow> gostr" where
  "full_name first lastName = (if lastName \<noteq> [] then (if first \<noteq> [] then first @ [32] else first) @ lastName else first)"

definition chatTitle :: "Chat \<Rightarrow> gostr" where
  "chatTitle c = (if chat_Title c \<noteq> [] then chat_Title c else full_name (chat_FirstName c) (chat_LastName c))"

definition displayName :: "TgUser \<Rightarrow> gostr" where
  "displayName u = full_name (tu_FirstName u) (tu_LastName u) @
     (if tu_Username u \<noteq> [] then runes '' (@'' @ tu_Username u @ runes '')'' else [])"

definition from_owner :: "connection \<Rightarrow> Message \<Rightarrow> bool" where
  "from_owner conn m = (case msg_From m of Some u \<Rightarrow> tu_ID u = conn_OwnerTelegramUserID conn | None \<Rightarrow> False)"

definition message_record :: "Message \<Rightarrow> MediaAttachment list \<Rightarrow> MsgRecord" where
  "message_record m attachments =
     \<lparr>rec_BusinessConnectionID = msg_BusinessConnectionID m, rec_ChatID = chat_ID (msg_Chat m), rec_MessageID = msg_MessageID m,
      rec_FromUserID = map_option tu_ID (msg_From m),
      rec_FromDisplay = (case msg_From m of Some u \<Rightarrow> displayName u | None \<Rightarrow> []),
      rec_MessageType = messageType attachments, rec_TextContent = messageText m, rec_TelegramDate = msg_Date m,
      rec_ChatTitle = chatTitle (msg_Chat m), rec_ChatUsername = chat_Username (msg_Chat m), rec_ChatType = chat_Type (msg_Chat m)\<rparr>"

definition media_record :: "Message \<Rightarrow> nat \<Rightarrow> MediaAttachment \<Rightarrow> MediaRecord" where
  "media_record m index a =
     \<lparr>mr_BusinessConnectionID = msg_BusinessConnectionID m, mr_ChatID = chat_ID (msg_Chat m), mr_MessageID = msg_MessageID m,
      mr_FileIndex = int index, mr_TelegramFileID = ma_FileID a, mr_TelegramFileUniqueID = ma_FileUniqueID a,
      mr_MediaType = ma_Type a, mr_MimeType = ma_MimeType a, mr_FileName = ma_FileName a,
      mr_ByteSize = optional (ma_ByteSize a), mr_Width = optional (ma_Width a), mr_Height = optional (ma_Height a),
      mr_DurationSec = optional (ma_DurationSec a), mr_MediaGroupID = ma_MediaGroupID a\<rparr>"

section \<open>Commands\<close>

text \<open>\<open>sendCommandAnswer\<close>: whether every chunk went out; the first failure stops the rest.\<close>

fun sendCommandAnswer :: "'s handler \<Rightarrow> SendMessageRequest list \<Rightarrow> 's \<Rightarrow> bool answer \<times> 's" where
  "sendCommandAnswer h [] s = (Answer True, s)"
| "sendCommandAnswer h (req # reqs) s =
     (case hd_sender h of
        None \<Rightarrow> (Panic, s)
      | Some sender \<Rightarrow> (case sender req s of
          (Some _, s') \<Rightarrow> (Answer False, s')
        | (None, s') \<Rightarrow> sendCommandAnswer h reqs s'))"

definition answer_with :: "'s handler \<Rightarrow> SendMessageRequest list \<Rightarrow> 's \<Rightarrow> unit answer \<times> 's" where
  "answer_with h reqs = and_then (sendCommandAnswer h reqs) (\<lambda>_. answer ())"

definition sendPrivacyAnswer :: "'s handler \<Rightarrow> SendMessageRequest list \<Rightarrow> 's \<Rightarrow> unit answer \<times> 's" where
  "sendPrivacyAnswer h requests = (if requests = [] then answer () else answer_with h requests)"

definition sendPrivacyPolicy :: "'s handler \<Rightarrow> connection \<Rightarrow> 's \<Rightarrow> unit answer \<times> 's" where
  "sendPrivacyPolicy h conn =
     sendPrivacyAnswer h (BuildPrivacyMessageRequests (conn_OwnerTelegramUserID conn) (hd_policy h))"

definition requestErasure :: "'s handler \<Rightarrow> 's eraser \<Rightarrow> connection \<Rightarrow> Tenant \<Rightarrow> 's \<Rightarrow> unit answer \<times> 's" where
  "requestErasure h e conn t s =
     (case ea_Request e t s of
        (Inl _, s') \<Rightarrow> (Answer (), s')
      | (Inr challenge, s') \<Rightarrow>
          answer_with h [BuildErasureChallengeRequest (conn_OwnerTelegramUserID conn) (chl_Code challenge) ChallengeTTL] s')"

definition confirmErasure :: "'s handler \<Rightarrow> 's eraser \<Rightarrow> connection \<Rightarrow> Tenant \<Rightarrow> gostr \<Rightarrow> 's \<Rightarrow> unit answer \<times> 's" where
  "confirmErasure h e conn t code s =
     (case ea_Confirm e t code s of
        ((_, Some _), s') \<Rightarrow> answer_with h [BuildErasureNoticeRequest (conn_OwnerTelegramUserID conn) ErasureFailedNotice] s'
      | ((result, None), s') \<Rightarrow>
          answer_with h
            [case result of
               OutcomeErased \<Rightarrow> BuildErasureConfirmationRequest (conn_OwnerTelegramUserID conn) (hd_backupRetentionDays h)
             | OutcomeAlreadyErased \<Rightarrow> BuildErasureReplayRequest (conn_OwnerTelegramUserID conn) (hd_backupRetentionDays h)
             | OutcomeExpired \<Rightarrow> BuildErasureNoticeRequest (conn_OwnerTelegramUserID conn) ErasureExpiredNotice
             | OutcomeUnknown \<Rightarrow> BuildErasureNoticeRequest (conn_OwnerTelegramUserID conn) ErasureUnknownNotice] s')"

definition handleDeleteMyData :: "'s handler \<Rightarrow> connection \<Rightarrow> gostr \<Rightarrow> 's \<Rightarrow> unit answer \<times> 's" where
  "handleDeleteMyData h conn t =
     (case hd_eraser h of
        None \<Rightarrow> answer ()
      | Some e \<Rightarrow>
          let tenant = \<lparr>tn_OwnerUserID = conn_OwnerUserID conn, tn_OwnerTelegramUserID = conn_OwnerTelegramUserID conn,
                        tn_BusinessConnectionID = conn_ID conn\<rparr>;
              code = CommandArgument (hd_lower h) t
          in if code = [] then requestErasure h e conn tenant else confirmErasure h e conn tenant code)"

definition answerRetention :: "'s handler \<Rightarrow> 's retention_store \<Rightarrow> connection \<Rightarrow> 's \<Rightarrow> unit answer \<times> 's" where
  "answerRetention h store conn s =
     (case rs_GetRetentionDays store (conn_OwnerUserID conn) s of
        (Inl _, s') \<Rightarrow> (Answer (), s')
      | (Inr days, s') \<Rightarrow>
          answer_with h [BuildRetentionStatusRequest (conn_OwnerTelegramUserID conn) days (hd_backupRetentionDays h)] s')"

definition applyRetention :: "'s handler \<Rightarrow> 's retention_store \<Rightarrow> connection \<Rightarrow> int \<Rightarrow> 's \<Rightarrow> unit answer \<times> 's" where
  "applyRetention h store conn days s =
     (case rs_SetRetentionDays store (conn_OwnerUserID conn) days s of
        (Inl _, s') \<Rightarrow> (Answer (), s')
      | (Inr _, s') \<Rightarrow>
          answer_with h [BuildRetentionChangedRequest (conn_OwnerTelegramUserID conn) days (hd_backupRetentionDays h)] s')"

definition handleRetention :: "'s handler \<Rightarrow> connection \<Rightarrow> gostr \<Rightarrow> 's \<Rightarrow> unit answer \<times> 's" where
  "handleRetention h conn t =
     (case hd_retention h of
        None \<Rightarrow> answer ()
      | Some store \<Rightarrow>
          let argument = CommandArgument (hd_lower h) t
          in if argument = [] then answerRetention h store conn
             else (case ParseRetentionDays argument of
                 None \<Rightarrow> answer_with h [BuildRetentionUsageRequest (conn_OwnerTelegramUserID conn)]
               | Some days \<Rightarrow> applyRetention h store conn days))"

definition answerCommand :: "'s handler \<Rightarrow> connection \<Rightarrow> Message \<Rightarrow> 's \<Rightarrow> unit answer \<times> 's" where
  "answerCommand h conn m =
     (if hd_sender h = None then answer ()
      else case ParseCommand (hd_lower h) (messageText m) of
          None \<Rightarrow> answer ()
        | Some command \<Rightarrow>
            if \<not> from_owner conn m then answer ()
            else if command = CommandPrivacy then sendPrivacyPolicy h conn
            else if command = CommandDeleteMyData then handleDeleteMyData h conn (messageText m)
            else if command = CommandRetention then handleRetention h conn (messageText m)
            else answer ())"

section \<open>Captures\<close>

text \<open>A resolution that means there is no tenant behind the update is \<open>None\<close>; any other failure is an error.\<close>

definition resolve_tenant :: "string \<Rightarrow> 's handler \<Rightarrow> string \<Rightarrow> 's \<Rightarrow> connection option answer \<times> 's" where
  "resolve_tenant what h i s =
     (case hd_Resolve h i s of
        (Inr conn, s') \<Rightarrow> (Answer (Some conn), s')
      | (Inl err, s') \<Rightarrow> (if connectionRefused err then Answer None else Error (Msg what # err), s'))"

definition unusable :: "Message \<Rightarrow> bool" where
  "unusable m \<longleftrightarrow> msg_BusinessConnectionID m = [] \<or> chat_ID (msg_Chat m) = 0 \<or> msg_MessageID m = 0"

definition handleControlCommand :: "'s handler \<Rightarrow> Message \<Rightarrow> 's \<Rightarrow> bool answer \<times> 's" where
  "handleControlCommand h m =
     (if unusable m then answer False
      else and_then (resolve_tenant ''connection resolution for control command'' h (msg_BusinessConnectionID m)) (\<lambda>resolved.
        case resolved of
          None \<Rightarrow> answer True
        | Some conn \<Rightarrow>
            (case ParseCommand (hd_lower h) (messageText m) of
               None \<Rightarrow> answer False
             | Some command \<Rightarrow>
                 if command = CommandRetention then answer (\<not> from_owner conn m)
                 else if command \<noteq> CommandDeleteMyData then answer False
                 else if \<not> from_owner conn m then answer True
                 else if CommandArgument (hd_lower h) (messageText m) \<noteq> []
                      then and_then (handleDeleteMyData h conn (messageText m)) (\<lambda>_. answer True)
                 else if conn_IsEnabled conn then answer False
                 else and_then (handleDeleteMyData h conn (messageText m)) (\<lambda>_. answer True))))"

definition dropConfirmEdit :: "'s handler \<Rightarrow> Message \<Rightarrow> 's \<Rightarrow> bool answer \<times> 's" where
  "dropConfirmEdit h m =
     (if unusable m then answer False
      else let t = messageText m in
        if ParseCommand (hd_lower h) t \<noteq> Some CommandDeleteMyData \<or> CommandArgument (hd_lower h) t = [] then answer False
        else and_then (resolve_tenant ''connection resolution for edited command'' h (msg_BusinessConnectionID m)) (\<lambda>_. answer True))"

text \<open>\<open>enterSave\<close>: the connection read again under the shared side of the tenant, and whose side is hold.\<close>

definition release :: "'s handler \<Rightarrow> i64 option \<Rightarrow> 's \<Rightarrow> 's" where
  "release h hold s = (case (hd_guard h, hold) of (Some g, Some owner) \<Rightarrow> tg_release g owner s | _ \<Rightarrow> s)"

definition enterSave :: "'s handler \<Rightarrow> string \<Rightarrow> connection \<Rightarrow> 's \<Rightarrow> (connection \<times> i64 option) option answer \<times> 's" where
  "enterSave h i conn s =
     (case hd_guard h of
        None \<Rightarrow> (Answer (Some (conn, None)), s)
      | Some g \<Rightarrow>
          let owner = conn_OwnerUserID conn in
          (case tg_Shared g owner s of
             (Some err, s') \<Rightarrow> (Error err, s')
           | (None, s') \<Rightarrow>
               (case hd_Resolve h i s' of
                  (Inl err, s'') \<Rightarrow>
                    (if connectionRefused err then Answer None else Error (Msg ''connection re-resolution under tenant exclusion'' # err),
                     release h (Some owner) s'')
                | (Inr fresh, s'') \<Rightarrow> (Answer (Some (fresh, Some owner)), s''))))"

definition rechecked :: "'s handler \<Rightarrow> string \<Rightarrow> connection \<Rightarrow> 's \<Rightarrow> (connection \<times> i64 option) option answer \<times> 's" where
  "rechecked h i conn = and_then (enterSave h i conn) (\<lambda>entered.
     case entered of
       None \<Rightarrow> answer None
     | Some (fresh, hold) \<Rightarrow>
         if \<not> conn_IsEnabled fresh then (\<lambda>s. (Answer None, release h hold s)) else answer (Some (fresh, hold)))"

text \<open>A body with the deferred release of what is hold.\<close>

definition releasing :: "'s handler \<Rightarrow> i64 option \<Rightarrow> ('s \<Rightarrow> 'a answer \<times> 's) \<Rightarrow> 's \<Rightarrow> 'a answer \<times> 's" where
  "releasing h hold body s = (case body s of (r, s') \<Rightarrow> (r, release h hold s'))"

text \<open>\<open>admitQuota\<close> on an admission the tracker gave: whether the update may proceed, and what is reported of it, a warning
  that the tenant is close to a quota and a drop, logged loudly or at the debug level. Without a tracker everything is admitted.\<close>

record quota_report =
  qr_warning :: bool
  qr_drop :: bool
  qr_loud :: bool

definition admitQuota :: "Admission \<Rightarrow> bool \<times> quota_report" where
  "admitQuota adm =
     (if Allowed adm then (True, \<lparr>qr_warning = Warn adm, qr_drop = False, qr_loud = False\<rparr>)
      else (False, \<lparr>qr_warning = Warn adm, qr_drop = True, qr_loud = Warn adm \<and> Quota adm \<noteq> QuotaCaptureRate\<rparr>))"

definition admit :: "('s quota_port \<Rightarrow> i64 \<Rightarrow> 's \<Rightarrow> Admission \<times> 's) \<Rightarrow> 's handler \<Rightarrow> i64 \<Rightarrow> 's \<Rightarrow> bool answer \<times> 's" where
  "admit ask h owner s =
     (case hd_quota h of None \<Rightarrow> (Answer True, s) | Some q \<Rightarrow> (case ask q owner s of (adm, s') \<Rightarrow> (Answer (fst (admitQuota adm)), s')))"

fun saveMedia :: "'s handler \<Rightarrow> i64 \<Rightarrow> Message \<Rightarrow> nat \<Rightarrow> MediaAttachment list \<Rightarrow> 's \<Rightarrow> unit answer \<times> 's" where
  "saveMedia h owner m index [] s = (Answer (), s)"
| "saveMedia h owner m index (a # rest) s =
     (case hd_media h of
        None \<Rightarrow> (Answer (), s)
      | Some save \<Rightarrow>
          and_then (admit qp_AdmitMediaFile h owner) (\<lambda>admitted.
            if \<not> admitted then answer ()
            else and_then (call_wrapped ''media catalogue'' (save owner (media_record m index a))) (\<lambda>_. saveMedia h owner m (Suc index) rest)) s)"

text \<open>\<open>saveMessage\<close>: the connection of a captured message, or \<open>None\<close> for one that was ignored.\<close>

definition capture :: "'s handler \<Rightarrow> Message \<Rightarrow> bool \<Rightarrow> connection \<Rightarrow> 's \<Rightarrow> connection option answer \<times> 's" where
  "capture h m edited conn =
     (let attachments = ExtractMedia m; owner = conn_OwnerUserID conn in
      and_then (call_wrapped ''message save'' (hd_Save h owner (message_record m attachments) edited)) (\<lambda>_.
        and_then (saveMedia h owner m 0 attachments) (\<lambda>_. answer (Some conn))))"

definition saveMessage :: "'s handler \<Rightarrow> Message \<Rightarrow> bool \<Rightarrow> 's \<Rightarrow> connection option answer \<times> 's" where
  "saveMessage h m edited =
     (if unusable m then answer None
      else and_then (resolve_tenant ''connection resolution for save'' h (msg_BusinessConnectionID m)) (\<lambda>resolved.
        case resolved of
          None \<Rightarrow> answer None
        | Some conn \<Rightarrow>
            if \<not> conn_IsEnabled conn then answer None
            else and_then (admit qp_AdmitCapture h (conn_OwnerUserID conn)) (\<lambda>admitted.
              if \<not> admitted then answer None
              else and_then (rechecked h (msg_BusinessConnectionID m) conn) (\<lambda>entered.
                case entered of
                  None \<Rightarrow> answer None
                | Some (fresh, hold) \<Rightarrow> releasing h hold (capture h m edited fresh)))))"

definition handleDeleted :: "'s handler \<Rightarrow> BusinessMessagesDeleted \<Rightarrow> 's \<Rightarrow> unit answer \<times> 's" where
  "handleDeleted h d =
     (if bmd_BusinessConnectionID d = [] \<or> bmd_MessageIDs d = [] \<or> chat_ID (bmd_Chat d) = 0 then answer ()
      else and_then (resolve_tenant ''connection resolution for deletion'' h (bmd_BusinessConnectionID d)) (\<lambda>resolved.
        case resolved of
          None \<Rightarrow> answer ()
        | Some conn \<Rightarrow>
            and_then (enterSave h (bmd_BusinessConnectionID d) conn) (\<lambda>entered.
              case entered of
                None \<Rightarrow> answer ()
              | Some (fresh, hold) \<Rightarrow>
                  releasing h hold
                    (and_then (call_wrapped ''deletion marking''
                        (hd_MarkDeleted h (conn_OwnerUserID fresh) (conn_OwnerTelegramUserID fresh) (bmd_BusinessConnectionID d)
                           (chat_ID (bmd_Chat d)) (bmd_MessageIDs d)))
                      (\<lambda>_. answer ())))))"

section \<open>One update\<close>

definition handle_message :: "'s handler \<Rightarrow> Message \<Rightarrow> 's \<Rightarrow> unit answer \<times> 's" where
  "handle_message h m =
     and_then (handleControlCommand h m) (\<lambda>handled.
       if handled then answer ()
       else and_then (saveMessage h m False) (\<lambda>saved.
         case saved of None \<Rightarrow> answer () | Some conn \<Rightarrow> answerCommand h conn m))"

definition handle_edit :: "'s handler \<Rightarrow> Message \<Rightarrow> 's \<Rightarrow> unit answer \<times> 's" where
  "handle_edit h m =
     and_then (dropConfirmEdit h m) (\<lambda>drop_it. if drop_it then answer () else and_then (saveMessage h m True) (\<lambda>_. answer ()))"

definition handle_connection :: "'s handler \<Rightarrow> BusinessConnection \<Rightarrow> 's \<Rightarrow> unit answer \<times> 's" where
  "handle_connection h c s = (case hd_HandleBusinessConnection h c s of (Inl err, s') \<Rightarrow> (Error err, s') | (Inr _, s') \<Rightarrow> (Answer (), s'))"

definition handleUpdate :: "'s handler \<Rightarrow> Update \<Rightarrow> 's \<Rightarrow> unit answer \<times> 's" where
  "handleUpdate h u =
     (case upd_BusinessConnection u of Some c \<Rightarrow> handle_connection h c
      | None \<Rightarrow> (case upd_BusinessMessage u of Some m \<Rightarrow> handle_message h m
      | None \<Rightarrow> (case upd_EditedBusinessMessage u of Some m \<Rightarrow> handle_edit h m
      | None \<Rightarrow> (case upd_DeletedBusinessMessages u of Some d \<Rightarrow> handleDeleted h d
      | None \<Rightarrow> answer ()))))"

definition as_result :: "unit answer \<Rightarrow> handler_result" where
  "as_result r = (case r of Answer _ \<Rightarrow> Returns None | Error e \<Rightarrow> Returns (Some e) | Panic \<Rightarrow> Panics)"

definition HandleUpdate :: "transient_env \<Rightarrow> 's handler \<Rightarrow> Update \<Rightarrow> 's \<Rightarrow> handler_result \<times> 's \<times> int option" where
  "HandleUpdate env h u = transient_run env (\<lambda>s. case handleUpdate h u s of (r, s') \<Rightarrow> (as_result r, s'))"

end
