(* ===== verification/Handler_Laws.thy ===== *)
theory Handler_Laws
  imports Handler
begin

text \<open>
  What holds of \<open>Handler\<close> whatever its interfaces do: which interface a given update can reach, and in which order the
  interfaces are called around the tenant exclusion.
\<close>

section \<open>What a handler function depends on\<close>

lemma sendCommandAnswer_agree:
  assumes "hd_sender h' = hd_sender h"
  shows "sendCommandAnswer h' = sendCommandAnswer h"
proof (intro ext)
  fix reqs s
  show "sendCommandAnswer h' reqs s = sendCommandAnswer h reqs s"
    using assms by (induction reqs arbitrary: s) (auto split: option.splits prod.splits)
qed

lemma answer_with_agree:
  assumes "hd_sender h' = hd_sender h"
  shows "answer_with h' = answer_with h"
  by (rule ext) (simp only: answer_with_def sendCommandAnswer_agree [OF assms])

lemma handleDeleteMyData_agree:
  assumes "hd_sender h' = hd_sender h" "hd_eraser h' = hd_eraser h" "hd_lower h' = hd_lower h"
    "hd_backupRetentionDays h' = hd_backupRetentionDays h"
  shows "handleDeleteMyData h' = handleDeleteMyData h"
proof (intro ext)
  fix conn t s
  have "requestErasure h' = requestErasure h" by (intro ext) (simp only: requestErasure_def answer_with_agree [OF assms(1)])
  moreover have "confirmErasure h' = confirmErasure h"
    by (intro ext) (simp only: confirmErasure_def answer_with_agree [OF assms(1)] assms(4))
  ultimately show "handleDeleteMyData h' conn t s = handleDeleteMyData h conn t s"
    unfolding handleDeleteMyData_def assms(2,3) by (simp only:)
qed

lemma resolve_tenant_agree:
  "hd_Resolve h' = hd_Resolve h \<Longrightarrow> resolve_tenant what h' = resolve_tenant what h"
  by (intro ext) (simp only: resolve_tenant_def)

lemma handleControlCommand_agree:
  assumes "hd_sender h' = hd_sender h" "hd_eraser h' = hd_eraser h" "hd_lower h' = hd_lower h"
    "hd_backupRetentionDays h' = hd_backupRetentionDays h" "hd_Resolve h' = hd_Resolve h"
  shows "handleControlCommand h' = handleControlCommand h"
  by (intro ext) (simp only: handleControlCommand_def assms resolve_tenant_agree [OF assms(5)] handleDeleteMyData_agree [OF assms(1-4)])

lemma dropConfirmEdit_agree:
  assumes "hd_lower h' = hd_lower h" "hd_Resolve h' = hd_Resolve h"
  shows "dropConfirmEdit h' = dropConfirmEdit h"
  by (intro ext) (simp only: dropConfirmEdit_def assms(1) resolve_tenant_agree [OF assms(2)])

lemma saveMedia_agree:
  assumes "hd_media h' = hd_media h" "hd_quota h' = hd_quota h"
  shows "saveMedia h' = saveMedia h"
proof (intro ext)
  fix owner m index as s
  have a: "admit ask h' = admit ask h" for ask by (intro ext) (simp only: admit_def assms)
  show "saveMedia h' owner m index as s = saveMedia h owner m index as s"
  proof (induction "as" arbitrary: index s)
    case (Cons x xs)
    then have "saveMedia h' owner m (Suc index) xs = saveMedia h owner m (Suc index) xs" by (rule ext)
    then show ?case by (simp only: saveMedia.simps assms a)
  qed simp
qed

lemma saveMessage_agree:
  assumes "hd_media h' = hd_media h" "hd_quota h' = hd_quota h" "hd_guard h' = hd_guard h" "hd_Resolve h' = hd_Resolve h"
    "hd_Save h' = hd_Save h"
  shows "saveMessage h' = saveMessage h"
proof -
  have r: "release h' = release h" by (intro ext) (simp only: release_def assms)
  have "admit ask h' = admit ask h" for ask by (intro ext) (simp only: admit_def assms)
  moreover have "enterSave h' = enterSave h" by (intro ext) (simp only: enterSave_def assms r)
  ultimately show ?thesis
    by (intro ext) (simp only: saveMessage_def rechecked_def [abs_def] capture_def [abs_def] releasing_def [abs_def] r assms
        resolve_tenant_agree [OF assms(4)] saveMedia_agree [OF assms(1,2)])
qed

lemma and_then_cong_on:
  assumes "\<And>a s'. m s = (Answer a, s') \<Longrightarrow> f a s' = g a s'"
  shows "and_then m f s = and_then m g s"
proof (cases "m s")
  case (Pair r s')
  then show ?thesis using assms by (cases r) (simp_all add: and_then_def)
qed

lemma and_then_Answer:
  assumes "and_then m f s = (Answer b, s')"
  obtains a s1 where "m s = (Answer a, s1)" "f a s1 = (Answer b, s')"
proof (cases "m s")
  case (Pair r s1)
  then show thesis using assms that by (cases r) (simp_all add: and_then_def)
qed

lemma resolve_tenant_Answer:
  assumes "resolve_tenant what h i s = (Answer r, s')"
  shows "case r of Some conn \<Rightarrow> hd_Resolve h i s = (Inr conn, s') | None \<Rightarrow> True"
  using assms by (auto simp: resolve_tenant_def split: prod.splits sum.splits if_splits)

section \<open>Codes are not stored\<close>

text \<open>A confirmation: a \<open>/delete_my_data\<close> with an argument, whoever typed it.\<close>

definition is_confirmation :: "(rune \<Rightarrow> rune) \<Rightarrow> Message \<Rightarrow> bool" where
  "is_confirmation lower m \<longleftrightarrow>
     ParseCommand lower (messageText m) = Some CommandDeleteMyData \<and> CommandArgument lower (messageText m) \<noteq> []"

lemma commands_differ: "CommandDeleteMyData \<noteq> CommandRetention"
  by (simp add: CommandDeleteMyData_def CommandRetention_def runes_def)

lemma answer_iff: "answer a s = (Answer b, s') \<longleftrightarrow> b = a \<and> s' = s"
  by (auto simp: answer_def)

lemma confirmation_handled:
  assumes "is_confirmation (hd_lower h) m" "handleControlCommand h m s = (Answer handled, s')"
  shows "handled \<or> unusable m"
proof (rule ccontr)
  assume no: "\<not> (handled \<or> unusable m)"
  then obtain r s1 where r: "resolve_tenant ''connection resolution for control command'' h (msg_BusinessConnectionID m) s = (Answer r, s1)"
    "(case r of None \<Rightarrow> answer True
        | Some conn \<Rightarrow> (case ParseCommand (hd_lower h) (messageText m) of None \<Rightarrow> answer False
          | Some command \<Rightarrow>
                 if command = CommandRetention then answer (\<not> from_owner conn m)
                 else if command \<noteq> CommandDeleteMyData then answer False
                 else if \<not> from_owner conn m then answer True
                 else if CommandArgument (hd_lower h) (messageText m) \<noteq> []
                      then and_then (handleDeleteMyData h conn (messageText m)) (\<lambda>_. answer True)
                 else if conn_IsEnabled conn then answer False
                 else and_then (handleDeleteMyData h conn (messageText m)) (\<lambda>_. answer True))) s1 = (Answer handled, s')"
    using assms(2) unfolding handleControlCommand_def by (auto elim!: and_then_Answer)
  have confirms: "ParseCommand (hd_lower h) (messageText m) = Some CommandDeleteMyData" "CommandArgument (hd_lower h) (messageText m) \<noteq> []"
    using assms(1) by (simp_all add: is_confirmation_def)
  show False
  proof (cases r)
    case (Some conn)
    show False
    proof (cases "from_owner conn m")
      case True
      then show False using r(2) Some confirms commands_differ no by (auto simp: answer_iff elim!: and_then_Answer)
    qed (use r(2) Some confirms commands_differ no in \<open>simp add: answer_iff\<close>)
  qed (use r(2) no in \<open>simp add: answer_iff\<close>)
qed

lemma confirmation_edit_dropped:
  assumes "is_confirmation (hd_lower h) m" "dropConfirmEdit h m s = (Answer dropped, s')"
  shows "dropped \<or> unusable m"
proof (cases "unusable m")
  case False
  then have "and_then (resolve_tenant ''connection resolution for edited command'' h (msg_BusinessConnectionID m)) (\<lambda>_. answer True) s = (Answer dropped, s')"
    using assms by (simp add: dropConfirmEdit_def is_confirmation_def Let_def)
  then show ?thesis by (auto simp: answer_iff elim: and_then_Answer)
qed simp

lemma unusable_not_saved: "unusable m \<Longrightarrow> saveMessage h m edited = answer None"
  by (simp add: saveMessage_def)

lemma consumed:
  assumes "b \<or> unusable m" "k None = answer ()"
  shows "(if b then answer () else and_then (saveMessage h m edited) k) s = (Answer (), s)"
  using assms by (auto simp: unusable_not_saved and_then_def answer_def)


section \<open>Strangers do not command\<close>

text \<open>The resolutions of a connection always name the same holder.\<close>

definition holder_is :: "'s handler \<Rightarrow> string \<Rightarrow> i64 \<Rightarrow> bool" where
  "holder_is h i t \<longleftrightarrow> (\<forall>s. case fst (hd_Resolve h i s) of Inr conn \<Rightarrow> conn_OwnerTelegramUserID conn = t | Inl _ \<Rightarrow> True)"

definition sent_by :: "i64 \<Rightarrow> Message \<Rightarrow> bool" where
  "sent_by t m \<longleftrightarrow> (case msg_From m of Some u \<Rightarrow> tu_ID u = t | None \<Rightarrow> False)"

lemma from_owner_sent: "from_owner conn m = sent_by (conn_OwnerTelegramUserID conn) m"
  by (simp add: from_owner_def sent_by_def)

lemma holder_of_resolved:
  assumes "holder_is h i t" "hd_Resolve h i s = (Inr conn, s')"
  shows "conn_OwnerTelegramUserID conn = t"
proof -
  have "case fst (hd_Resolve h i s) of Inr conn \<Rightarrow> conn_OwnerTelegramUserID conn = t | Inl _ \<Rightarrow> True"
    using assms(1) unfolding holder_is_def by (rule spec)
  then show ?thesis by (simp add: assms(2))
qed

lemma control_stranger:
  assumes "holder_is h (msg_BusinessConnectionID m) t" "\<not> sent_by t m" "hd_lower h' = hd_lower h" "hd_Resolve h' = hd_Resolve h"
  shows "handleControlCommand h' m s = handleControlCommand h m s"
proof (cases "unusable m")
  case False
  have "(case r of None \<Rightarrow> answer True
        | Some conn \<Rightarrow> (case ParseCommand (hd_lower h) (messageText m) of None \<Rightarrow> answer False
          | Some command \<Rightarrow>
                 if command = CommandRetention then answer (\<not> from_owner conn m)
                 else if command \<noteq> CommandDeleteMyData then answer False
                 else if \<not> from_owner conn m then answer True
                 else if CommandArgument (hd_lower h) (messageText m) \<noteq> []
                      then and_then (handleDeleteMyData h' conn (messageText m)) (\<lambda>_. answer True)
                 else if conn_IsEnabled conn then answer False
                 else and_then (handleDeleteMyData h' conn (messageText m)) (\<lambda>_. answer True))) s1 =
      (case r of None \<Rightarrow> answer True
        | Some conn \<Rightarrow> (case ParseCommand (hd_lower h) (messageText m) of None \<Rightarrow> answer False
          | Some command \<Rightarrow>
                 if command = CommandRetention then answer (\<not> from_owner conn m)
                 else if command \<noteq> CommandDeleteMyData then answer False
                 else if \<not> from_owner conn m then answer True
                 else if CommandArgument (hd_lower h) (messageText m) \<noteq> []
                      then and_then (handleDeleteMyData h conn (messageText m)) (\<lambda>_. answer True)
                 else if conn_IsEnabled conn then answer False
                 else and_then (handleDeleteMyData h conn (messageText m)) (\<lambda>_. answer True))) s1"
    if "resolve_tenant ''connection resolution for control command'' h (msg_BusinessConnectionID m) s = (Answer r, s1)" for r s1
  proof (cases r)
    case (Some conn)
    then have "hd_Resolve h (msg_BusinessConnectionID m) s = (Inr conn, s1)" using resolve_tenant_Answer [OF that] by simp
    then have "\<not> from_owner conn m" using holder_of_resolved [OF assms(1)] assms(2) by (simp add: from_owner_sent)
    then show ?thesis using Some by (simp split: option.splits)
  qed simp
  then show ?thesis
    using False
    by (simp only: handleControlCommand_def if_False assms(3) resolve_tenant_agree [OF assms(4)]) (intro and_then_cong_on, blast)
qed (simp add: handleControlCommand_def)

lemma enterSave_entered:
  assumes "enterSave h i conn s = (Answer (Some (fresh, hold)), s')"
  shows "(fresh = conn \<and> s' = s) \<or> (\<exists>s1. hd_Resolve h i s1 = (Inr fresh, s'))"
  using assms by (auto simp: enterSave_def Let_def split: option.splits prod.splits sum.splits if_splits)

lemma capture_returns: "capture h m edited conn s = (Answer r, s') \<Longrightarrow> r = Some conn"
  by (auto simp: capture_def Let_def answer_iff elim!: and_then_Answer)

lemma saved_holder:
  assumes "holder_is h (msg_BusinessConnectionID m) t" "saveMessage h m edited s = (Answer (Some saved), s')"
  shows "conn_OwnerTelegramUserID saved = t"
proof (cases "unusable m")
  case False
  then obtain r s1 where r: "resolve_tenant ''connection resolution for save'' h (msg_BusinessConnectionID m) s = (Answer r, s1)"
    "(case r of None \<Rightarrow> answer None
        | Some conn \<Rightarrow>
            if \<not> conn_IsEnabled conn then answer None
            else and_then (admit qp_AdmitCapture h (conn_OwnerUserID conn)) (\<lambda>admitted.
              if \<not> admitted then answer None
              else and_then (rechecked h (msg_BusinessConnectionID m) conn) (\<lambda>entered.
                case entered of
                  None \<Rightarrow> answer None
                | Some (fresh, hold) \<Rightarrow> releasing h hold (capture h m edited fresh)))) s1 = (Answer (Some saved), s')"
    using assms(2) by (auto simp: saveMessage_def elim: and_then_Answer)
  then obtain conn where conn: "r = Some conn" by (cases r) (auto simp: answer_iff)
  have c: "conn_OwnerTelegramUserID conn = t" using holder_of_resolved [OF assms(1)] resolve_tenant_Answer [OF r(1)] conn by simp
  obtain adm s2 where a: "(if \<not> adm then answer None
              else and_then (rechecked h (msg_BusinessConnectionID m) conn) (\<lambda>entered.
                case entered of
                  None \<Rightarrow> answer None
                | Some (fresh, hold) \<Rightarrow> releasing h hold (capture h m edited fresh))) s2 = (Answer (Some saved), s')"
    using r(2) conn by (auto simp: answer_iff split: if_splits elim!: and_then_Answer)
  then obtain entered s3 where e: "rechecked h (msg_BusinessConnectionID m) conn s2 = (Answer entered, s3)"
    "(case entered of None \<Rightarrow> answer None | Some (fresh, hold) \<Rightarrow> releasing h hold (capture h m edited fresh)) s3 = (Answer (Some saved), s')"
    by (auto simp: answer_iff split: if_splits elim!: and_then_Answer)
  then obtain fresh hold where f: "entered = Some (fresh, hold)" by (cases entered) (auto simp: answer_iff)
  have "saved = fresh" using e(2) f capture_returns by (fastforce simp: releasing_def split: prod.splits)
  moreover have "enterSave h (msg_BusinessConnectionID m) conn s2 = (Answer (Some (fresh, hold)), s3)"
    using e(1) f by (auto simp: rechecked_def answer_iff split: option.splits prod.splits if_splits elim!: and_then_Answer)
  then have "conn_OwnerTelegramUserID fresh = t" using enterSave_entered holder_of_resolved [OF assms(1)] c by metis
  ultimately show ?thesis by simp
qed (use assms(2) in \<open>simp add: unusable_not_saved answer_iff\<close>)

lemma answerCommand_stranger: "\<not> from_owner conn m \<Longrightarrow> answerCommand h conn m s = (Answer (), s)"
  by (simp add: answerCommand_def answer_def split: option.splits)


section \<open>Examples\<close>

text \<open>A handler on a counter of the messages it stored.\<close>

definition counting_handler :: "nat handler" where
  "counting_handler = \<lparr>
     hd_Resolve = (\<lambda>i s. (Inr (zero_connection\<lparr>conn_ID := i, conn_OwnerUserID := 1, conn_OwnerTelegramUserID := 7, conn_IsEnabled := True\<rparr>), s)),
     hd_HandleBusinessConnection = (\<lambda>_ s. (Inr (), s)), hd_Save = (\<lambda>_ _ _ s. (Inr (), Suc s)), hd_MarkDeleted = (\<lambda>_ _ _ _ _ s. (Inr [], s)),
     hd_media = None, hd_sender = Some (\<lambda>_ s. (None, s)), hd_eraser = None, hd_retention = None, hd_backupRetentionDays = 30,
     hd_guard = None, hd_quota = None, hd_lower = lower_ascii, hd_policy = []\<rparr>"

definition typed_message :: "gostr \<Rightarrow> Message" where
  "typed_message t = zero_message\<lparr>msg_MessageID := 5, msg_Chat := zero_chat\<lparr>chat_ID := 9\<rparr>, msg_BusinessConnectionID := ''bc'', msg_Text := t\<rparr>"

definition typed_code :: gostr where
  "typed_code = CommandDeleteMyData @ [32, 65, 66]"

lemma typed_code_confirms: "is_confirmation lower_ascii (typed_message typed_code)"
  by (simp add: is_confirmation_def typed_code_def messageText_def typed_message_def zero_message_def ParseCommand_def CommandArgument_def
      CommandDeleteMyData_def runes_def cut_before_def IsSpace_def lower_ascii_def slash_def at_sign_def TrimSpace_def TrimLeft_def TrimRight_def)



end
