(* ===== verification/Handler_Protocol.thy ===== *)
theory Handler_Protocol
  imports Handler_Laws
begin

text \<open>
  The order in which \<open>Handler\<close> calls its interfaces around the tenant exclusion. \<open>traced h\<close> is the handler \<open>h\<close> with a log
  of the calls that matter; the protocol is an automaton over that log. The locale \<open>exclusive_writes\<close> states what the
  interfaces do to the automaton's state, and is interpreted on the traced handler.
\<close>

section \<open>Events and the protocol\<close>

datatype event =
    Resolved "connection option"
  | Entered i64 \<comment> \<open>the shared side of a tenant is held\<close>
  | Left i64
  | Captured i64 \<comment> \<open>a message or an attachment of a tenant is written\<close>
  | Marked i64 \<comment> \<open>deletions of a tenant are marked\<close>
  | Asked \<comment> \<open>the erasure service, which takes the exclusive side\<close>

text \<open>Outside the exclusion, or inside a tenant's with what the connection resolved to since.\<close>

datatype tenure = Outside | Inside i64 "connection option"

fun protocol :: "event \<Rightarrow> tenure \<Rightarrow> tenure option" where
  "protocol (Resolved c) Outside = Some Outside"
| "protocol (Resolved c) (Inside t _) = Some (Inside t c)"
| "protocol (Entered t) Outside = Some (Inside t None)"
| "protocol (Left t) (Inside t' _) = (if t = t' then Some Outside else None)"
| "protocol (Captured owner) (Inside t (Some c)) =
     (if conn_IsEnabled c \<and> conn_OwnerUserID c = owner then Some (Inside t (Some c)) else None)"
| "protocol (Marked owner) (Inside t (Some c)) = (if conn_OwnerUserID c = owner then Some (Inside t (Some c)) else None)"
| "protocol Asked Outside = Some Outside"
| "protocol _ _ = None"

fun follows :: "event list \<Rightarrow> tenure \<Rightarrow> tenure option" where
  "follows [] x = Some x"
| "follows (e # es) x = (case protocol e x of None \<Rightarrow> None | Some y \<Rightarrow> follows es y)"

lemma follows_append: "follows (xs @ ys) x = (case follows xs x of None \<Rightarrow> None | Some y \<Rightarrow> follows ys y)"
  by (induction xs arbitrary: x) (auto split: option.splits)

section \<open>The traced handler\<close>

definition tracing :: "('r \<Rightarrow> event list) \<Rightarrow> ('s \<Rightarrow> 'r \<times> 's) \<Rightarrow> 's \<times> event list \<Rightarrow> 'r \<times> ('s \<times> event list)" where
  "tracing ev f p = (case f (fst p) of (r, s') \<Rightarrow> (r, (s', snd p @ ev r)))"

definition resolution :: "(go_error + connection) \<Rightarrow> event list" where
  "resolution r = [Resolved (case r of Inr c \<Rightarrow> Some c | Inl _ \<Rightarrow> None)]"

definition traced_guard :: "'s tenant_guard \<Rightarrow> ('s \<times> event list) tenant_guard" where
  "traced_guard g = \<lparr>
     tg_Shared = (\<lambda>owner. tracing (\<lambda>r. if r = None then [Entered owner] else []) (tg_Shared g owner)),
     tg_release = (\<lambda>owner p. (tg_release g owner (fst p), snd p @ [Left owner]))\<rparr>"

definition traced_eraser :: "'s eraser \<Rightarrow> ('s \<times> event list) eraser" where
  "traced_eraser e = \<lparr>ea_Request = (\<lambda>t. tracing (\<lambda>_. [Asked]) (ea_Request e t)), ea_Confirm = (\<lambda>t code. tracing (\<lambda>_. [Asked]) (ea_Confirm e t code))\<rparr>"

definition traced_retention :: "'s retention_store \<Rightarrow> ('s \<times> event list) retention_store" where
  "traced_retention r = \<lparr>rs_GetRetentionDays = (\<lambda>owner. tracing (\<lambda>_. []) (rs_GetRetentionDays r owner)),
     rs_SetRetentionDays = (\<lambda>owner days. tracing (\<lambda>_. []) (rs_SetRetentionDays r owner days))\<rparr>"

definition traced_quota :: "'s quota_port \<Rightarrow> ('s \<times> event list) quota_port" where
  "traced_quota q = \<lparr>qp_AdmitCapture = (\<lambda>owner. tracing (\<lambda>_. []) (qp_AdmitCapture q owner)),
     qp_AdmitMediaFile = (\<lambda>owner. tracing (\<lambda>_. []) (qp_AdmitMediaFile q owner))\<rparr>"

definition traced :: "'s tenant_guard \<Rightarrow> 's handler \<Rightarrow> ('s \<times> event list) handler" where
  "traced g h = \<lparr>
     hd_Resolve = (\<lambda>i. tracing resolution (hd_Resolve h i)),
     hd_HandleBusinessConnection = (\<lambda>c. tracing (\<lambda>_. []) (hd_HandleBusinessConnection h c)),
     hd_Save = (\<lambda>owner m edited. tracing (\<lambda>_. [Captured owner]) (hd_Save h owner m edited)),
     hd_MarkDeleted = (\<lambda>owner tg i chat ids. tracing (\<lambda>_. [Marked owner]) (hd_MarkDeleted h owner tg i chat ids)),
     hd_media = map_option (\<lambda>save owner m. tracing (\<lambda>_. [Captured owner]) (save owner m)) (hd_media h),
     hd_sender = map_option (\<lambda>send req. tracing (\<lambda>_. []) (send req)) (hd_sender h),
     hd_eraser = map_option traced_eraser (hd_eraser h),
     hd_retention = map_option traced_retention (hd_retention h),
     hd_backupRetentionDays = hd_backupRetentionDays h,
     hd_guard = Some (traced_guard g),
     hd_quota = map_option traced_quota (hd_quota h),
     hd_lower = hd_lower h, hd_policy = hd_policy h\<rparr>"

section \<open>The contract\<close>

text \<open>\<open>leads ph A f B\<close>: from a state whose phase satisfies \<open>A\<close>, the answer and the next phase satisfy \<open>B\<close>.\<close>

definition leads :: "('s \<Rightarrow> tenure option) \<Rightarrow> (tenure option \<Rightarrow> bool) \<Rightarrow> ('s \<Rightarrow> 'r \<times> 's) \<Rightarrow> ('r \<Rightarrow> tenure option \<Rightarrow> bool) \<Rightarrow> bool" where
  "leads ph A f B \<longleftrightarrow> (\<forall>s r s'. A (ph s) \<longrightarrow> f s = (r, s') \<longrightarrow> B r (ph s'))"

lemma leadsD: "leads ph A f B \<Longrightarrow> A (ph s) \<Longrightarrow> f s = (r, s') \<Longrightarrow> B r (ph s')"
  unfolding leads_def by blast

lemma leadsI: "(\<And>s r s'. A (ph s) \<Longrightarrow> f s = (r, s') \<Longrightarrow> B r (ph s')) \<Longrightarrow> leads ph A f B"
  unfolding leads_def by blast

lemma leads_answer: "(\<And>x. A x \<Longrightarrow> B (Answer a) x) \<Longrightarrow> leads ph A (answer a) B"
  by (rule leadsI) (simp add: answer_def)

lemma leads_and_then:
  assumes "leads ph A m M" "\<And>a. leads ph (M (Answer a)) (f a) B" "\<And>e x. M (Error e) x \<Longrightarrow> B (Error e) x" "\<And>x. M Panic x \<Longrightarrow> B Panic x"
  shows "leads ph A (and_then m f) B"
proof (rule leadsI)
  fix s r s'
  assume a: "A (ph s)" "and_then m f s = (r, s')"
  obtain r1 s1 where m: "m s = (r1, s1)" by fastforce
  have M: "M r1 (ph s1)" using leadsD [OF assms(1) a(1) m] .
  show "B r (ph s')"
  proof (cases r1)
    case (Answer x)
    then show ?thesis using leadsD [OF assms(2)] M a(2) m by (simp add: and_then_def)
  qed (use M a(2) m assms(3,4) in \<open>auto simp: and_then_def\<close>)
qed

abbreviation (input) "out \<equiv> (\<lambda>x. x = Some Outside)"
abbreviation (input) "at x \<equiv> (\<lambda>y. y = Some x)"

text \<open>A function that is called outside the exclusion and returns outside it.\<close>

abbreviation (input) "stays ph f \<equiv> leads ph out f (\<lambda>_. out)"

locale exclusive_writes =
  fixes h :: "'s handler" and g :: "'s tenant_guard" and ph :: "'s \<Rightarrow> tenure option"
  assumes guard: "hd_guard h = Some g"
    and resolves: "ph s = Some x \<Longrightarrow> hd_Resolve h i s = (r, s') \<Longrightarrow> ph s' = protocol (Resolved (case r of Inr c \<Rightarrow> Some c | Inl _ \<Rightarrow> None)) x"
    and connects: "ph (snd (hd_HandleBusinessConnection h c s)) = ph s"
    and saves: "ph s = Some x \<Longrightarrow> ph (snd (hd_Save h owner m edited s)) = protocol (Captured owner) x"
    and marks: "ph s = Some x \<Longrightarrow> ph (snd (hd_MarkDeleted h owner tg i chat ids s)) = protocol (Marked owner) x"
    and catalogues: "hd_media h = Some save \<Longrightarrow> ph s = Some x \<Longrightarrow> ph (snd (save owner mr s)) = protocol (Captured owner) x"
    and sends: "hd_sender h = Some send \<Longrightarrow> ph (snd (send req s)) = ph s"
    and requests: "hd_eraser h = Some e \<Longrightarrow> ph s = Some x \<Longrightarrow> ph (snd (ea_Request e t s)) = protocol Asked x"
    and confirms: "hd_eraser h = Some e \<Longrightarrow> ph s = Some x \<Longrightarrow> ph (snd (ea_Confirm e t code s)) = protocol Asked x"
    and reads: "hd_retention h = Some rs \<Longrightarrow> ph (snd (rs_GetRetentionDays rs owner s)) = ph s"
    and sets: "hd_retention h = Some rs \<Longrightarrow> ph (snd (rs_SetRetentionDays rs owner days s)) = ph s"
    and admits: "hd_quota h = Some q \<Longrightarrow> ph (snd (qp_AdmitCapture q owner s)) = ph s"
    and admits_media: "hd_quota h = Some q \<Longrightarrow> ph (snd (qp_AdmitMediaFile q owner s)) = ph s"
    and enters: "ph s = Some Outside \<Longrightarrow> ph (snd (tg_Shared g owner s)) =
      (if fst (tg_Shared g owner s) = None then protocol (Entered owner) Outside else Some Outside)"
    and leaves: "ph s = Some x \<Longrightarrow> ph (tg_release g owner s) = protocol (Left owner) x"
begin

lemma answer_stays: "stays ph (answer a)"
  by (rule leads_answer)

lemma then_stays: "stays ph m \<Longrightarrow> (\<And>a. stays ph (f a)) \<Longrightarrow> stays ph (and_then m f)"
  by (rule leads_and_then) auto

lemma sendCommandAnswer_stays: "stays ph (sendCommandAnswer h reqs)"
proof (rule leadsI)
  fix s r s'
  assume "ph s = Some Outside" "sendCommandAnswer h reqs s = (r, s')"
  then show "ph s' = Some Outside"
  proof (induction reqs arbitrary: s)
    case (Cons req reqs)
    show ?case
    proof (cases "hd_sender h")
      case (Some send)
      obtain e s1 where e: "send req s = (e, s1)" by fastforce
      then have "ph s1 = Some Outside" using sends [OF Some, of req s] Cons.prems(1) by simp
      then show ?thesis using Cons.IH [of s1] Cons.prems(2) Some e by (cases e) auto
    qed (use Cons.prems in simp)
  qed simp
qed

lemma answer_with_stays: "stays ph (answer_with h reqs)"
  unfolding answer_with_def by (intro then_stays sendCommandAnswer_stays answer_stays)

lemma case_stays:
  assumes "\<And>s. ph s = Some Outside \<Longrightarrow> ph (snd (m s)) = Some Outside" "\<And>r. stays ph (k r)"
  shows "stays ph (\<lambda>s. case m s of (r, s') \<Rightarrow> k r s')"
proof (rule leadsI)
  fix s r s'
  assume a: "ph s = Some Outside" "(case m s of (r, s') \<Rightarrow> k r s') = (r, s')"
  obtain r1 s1 where m: "m s = (r1, s1)" by fastforce
  then have "ph s1 = Some Outside" using assms(1) [OF a(1)] by simp
  then show "ph s' = Some Outside" using leadsD [OF assms(2)] a(2) m by simp
qed

lemma handleDeleteMyData_stays: "stays ph (handleDeleteMyData h conn t)"
proof (cases "hd_eraser h")
  case (Some e)
  have "stays ph (requestErasure h e conn tn)" for tn
  proof -
    have "requestErasure h e conn tn = (\<lambda>s. case ea_Request e tn s of (r, s') \<Rightarrow>
        (case r of Inl _ \<Rightarrow> answer () | Inr c \<Rightarrow> answer_with h [BuildErasureChallengeRequest (conn_OwnerTelegramUserID conn) (chl_Code c) ChallengeTTL]) s')"
      by (auto simp: requestErasure_def answer_def fun_eq_iff split: prod.splits sum.splits)
    then show ?thesis
      by (simp only:) (intro case_stays, use requests [OF Some] answer_stays answer_with_stays in \<open>auto split: sum.splits\<close>)
  qed
  moreover have "stays ph (confirmErasure h e conn tn code)" for tn code
  proof (rule leadsI)
    fix s r s'
    assume a: "ph s = Some Outside" "confirmErasure h e conn tn code s = (r, s')"
    obtain res err s1 where c: "ea_Confirm e tn code s = ((res, err), s1)" by (metis prod.exhaust)
    then have "ph s1 = Some Outside" using confirms [OF Some a(1), of tn code] by simp
    then show "ph s' = Some Outside" using leadsD [OF answer_with_stays] a(2) c by (cases err) (auto simp: confirmErasure_def)
  qed
  ultimately show ?thesis using Some by (simp add: handleDeleteMyData_def Let_def)
qed (simp add: handleDeleteMyData_def answer_stays)

lemma handleRetention_stays: "stays ph (handleRetention h conn t)"
proof (cases "hd_retention h")
  case (Some rs)
  have "answerRetention h rs conn = (\<lambda>s. case rs_GetRetentionDays rs (conn_OwnerUserID conn) s of (r, s') \<Rightarrow>
      (case r of Inl _ \<Rightarrow> answer () | Inr days \<Rightarrow> answer_with h [BuildRetentionStatusRequest (conn_OwnerTelegramUserID conn) days (hd_backupRetentionDays h)]) s')"
    by (auto simp: answerRetention_def answer_def fun_eq_iff split: prod.splits sum.splits)
  then have "stays ph (answerRetention h rs conn)"
    by (simp only:) (intro case_stays, use reads [OF Some] answer_stays answer_with_stays in \<open>auto split: sum.splits\<close>)
  moreover have "applyRetention h rs conn days = (\<lambda>s. case rs_SetRetentionDays rs (conn_OwnerUserID conn) days s of (r, s') \<Rightarrow>
      (case r of Inl _ \<Rightarrow> answer () | Inr _ \<Rightarrow> answer_with h [BuildRetentionChangedRequest (conn_OwnerTelegramUserID conn) days (hd_backupRetentionDays h)]) s')" for days
    by (auto simp: applyRetention_def answer_def fun_eq_iff split: prod.splits sum.splits)
  then have "stays ph (applyRetention h rs conn days)" for days
    by (simp only:) (intro case_stays, use sets [OF Some] answer_stays answer_with_stays in \<open>auto split: sum.splits\<close>)
  ultimately show ?thesis using Some answer_with_stays by (auto simp: handleRetention_def Let_def split: option.splits)
qed (simp add: handleRetention_def answer_stays)

lemma answerCommand_stays: "stays ph (answerCommand h conn m)"
  using answer_stays answer_with_stays handleDeleteMyData_stays handleRetention_stays
  by (auto simp: answerCommand_def sendPrivacyPolicy_def sendPrivacyAnswer_def split: option.splits)

lemma resolve_tenant_stays: "stays ph (resolve_tenant what h i)"
proof (rule leadsI)
  fix s r s'
  assume a: "ph s = Some Outside" "resolve_tenant what h i s = (r, s')"
  obtain c s1 where c: "hd_Resolve h i s = (c, s1)" by fastforce
  then have "s' = s1" using a(2) by (auto simp: resolve_tenant_def split: sum.splits)
  then show "ph s' = Some Outside" using resolves [OF a(1) c] by simp
qed

lemma handleControlCommand_stays: "stays ph (handleControlCommand h m)"
proof -
  have "stays ph (and_then (handleDeleteMyData h conn t) (\<lambda>_. answer b))" for conn t and b :: bool
    by (intro then_stays handleDeleteMyData_stays answer_stays)
  then show ?thesis
    unfolding handleControlCommand_def using answer_stays
    by (auto intro!: then_stays resolve_tenant_stays split: option.splits)
qed

lemma dropConfirmEdit_stays: "stays ph (dropConfirmEdit h m)"
  unfolding dropConfirmEdit_def using answer_stays by (auto simp: Let_def intro!: then_stays resolve_tenant_stays)

text \<open>Entering: either the tenant is held and the connection read since, or nothing is held.\<close>

definition entered :: "(connection \<times> i64 option) option answer \<Rightarrow> tenure option \<Rightarrow> bool" where
  "entered r x \<longleftrightarrow> (case r of Answer (Some (fresh, hold)) \<Rightarrow> (\<exists>t. hold = Some t \<and> x = Some (Inside t (Some fresh))) | _ \<Rightarrow> x = Some Outside)"

lemma enterSave_enters: "leads ph out (enterSave h i conn) entered"
proof (rule leadsI)
  fix s r s'
  assume a: "ph s = Some Outside" "enterSave h i conn s = (r, s')"
  let ?t = "conn_OwnerUserID conn"
  obtain e s1 where e: "tg_Shared g ?t s = (e, s1)" by fastforce
  obtain c s2 where c: "hd_Resolve h i s1 = (c, s2)" by fastforce
  show "entered r (ph s')"
  proof (cases e)
    case None
    then have "ph s1 = Some (Inside ?t None)" using enters [OF a(1), of ?t] e by simp
    note p2 = resolves [OF this c]
    show ?thesis
    proof (cases c)
      case (Inl err)
      then have "ph (tg_release g ?t s2) = Some Outside" using p2 leaves [of s2 "Inside ?t None" ?t] by simp
      then show ?thesis using a(2) guard e None c Inl by (auto simp: enterSave_def Let_def release_def entered_def)
    next
      case (Inr fresh)
      then show ?thesis using p2 a(2) guard e None c by (auto simp: enterSave_def Let_def entered_def)
    qed
  next
    case (Some err)
    then have "ph s1 = Some Outside" using enters [OF a(1), of ?t] e by simp
    then show ?thesis using a(2) guard e Some by (auto simp: enterSave_def Let_def entered_def)
  qed
qed

lemma rechecked_enters:
  "leads ph out (rechecked h i conn) (\<lambda>r x. entered r x \<and> (case r of Answer (Some (fresh, _)) \<Rightarrow> conn_IsEnabled fresh | _ \<Rightarrow> True))"
  unfolding rechecked_def
proof (rule leads_and_then [OF enterSave_enters])
  fix e :: "(connection \<times> i64 option) option"
  let ?B = "\<lambda>r x. entered r x \<and> (case r of Answer (Some (fresh, _)) \<Rightarrow> conn_IsEnabled fresh | _ \<Rightarrow> True)"
  show "leads ph (entered (Answer e)) (case e of None \<Rightarrow> answer None
      | Some (fresh, hold) \<Rightarrow> if \<not> conn_IsEnabled fresh then (\<lambda>s. (Answer None, release h hold s)) else answer (Some (fresh, hold))) ?B"
  proof (rule leadsI)
    fix s r s'
    assume p: "entered (Answer e) (ph s)" and r: "(case e of None \<Rightarrow> answer None
      | Some (fresh, hold) \<Rightarrow> if \<not> conn_IsEnabled fresh then (\<lambda>s. (Answer None, release h hold s)) else answer (Some (fresh, hold))) s = (r, s')"
    show "?B r (ph s')"
    proof (cases e)
      case (Some x)
      then obtain fresh t where x: "x = (fresh, Some t)" "ph s = Some (Inside t (Some fresh))" using p by (cases x) (auto simp: entered_def)
      then show ?thesis using Some r leaves [OF x(2), of t] guard by (auto simp: entered_def answer_def release_def split: if_splits)
    qed (use p r in \<open>auto simp: entered_def answer_def\<close>)
  qed
qed (simp_all add: entered_def)

lemma releasing_stays:
  assumes "\<And>s. ph s = Some (Inside t (Some c)) \<Longrightarrow> ph (snd (body s)) = Some (Inside t (Some c))"
  shows "leads ph (at (Inside t (Some c))) (releasing h (Some t) body) (\<lambda>_. out)"
proof (rule leadsI)
  fix s r s'
  assume a: "ph s = Some (Inside t (Some c))" "releasing h (Some t) body s = (r, s')"
  then have "s' = tg_release g t (snd (body s))" by (auto simp: releasing_def release_def guard split: prod.splits)
  then show "ph s' = Some Outside" using leaves [OF assms [OF a(1)], of t] by simp
qed

lemma admit_stays: "ask = qp_AdmitCapture \<or> ask = qp_AdmitMediaFile \<Longrightarrow> admit ask h owner s = (r, s') \<Longrightarrow> ph s' = ph s \<and> (\<exists>b. r = Answer b)"
proof (cases "hd_quota h")
  case (Some q)
  assume ask: "ask = qp_AdmitCapture \<or> ask = qp_AdmitMediaFile" and r: "admit ask h owner s = (r, s')"
  obtain adm s1 where a: "ask q owner s = (adm, s1)" by fastforce
  have "ph s1 = ph s" using ask a admits [OF Some, of owner s] admits_media [OF Some, of owner s] by auto
  then show ?thesis using r a Some by (auto simp: admit_def)
qed (auto simp: admit_def)

lemma call_wrapped_snd: "snd (call_wrapped what f s) = snd (f s)"
  by (auto simp: call_wrapped_def split: prod.splits sum.splits)

lemma saveMedia_inside:
  assumes "conn_IsEnabled c" "ph s = Some (Inside t (Some c))"
  shows "ph (snd (saveMedia h (conn_OwnerUserID c) m index as s)) = Some (Inside t (Some c))"
  using assms(2)
proof (induction "as" arbitrary: index s)
  case (Cons a "as")
  show ?case
  proof (cases "hd_media h")
    case (Some save)
    obtain b s1 where b: "admit qp_AdmitMediaFile h (conn_OwnerUserID c) s = (Answer b, s1)" "ph s1 = Some (Inside t (Some c))"
      using admit_stays [of qp_AdmitMediaFile] Cons.prems by (metis prod.exhaust)
    let ?call = "call_wrapped ''media catalogue'' (save (conn_OwnerUserID c) (media_record m index a)) s1"
    obtain r s2 where r: "?call = (r, s2)" by fastforce
    have "ph s2 = Some (Inside t (Some c))"
      using catalogues [OF Some b(2), of "conn_OwnerUserID c" "media_record m index a"] assms(1) r
        call_wrapped_snd [of "''media catalogue''" "save (conn_OwnerUserID c) (media_record m index a)" s1] by simp
    then show ?thesis
      using Cons.IH [of s2 "Suc index"] Some b r by (cases r; cases b) (simp_all add: and_then_def answer_def)
  qed (use Cons.prems in simp)
qed simp

lemma capture_inside:
  assumes "conn_IsEnabled c" "ph s = Some (Inside t (Some c))"
  shows "ph (snd (capture h m edited c s)) = Some (Inside t (Some c))"
proof -
  let ?owner = "conn_OwnerUserID c" and ?as = "ExtractMedia m"
  obtain r s1 where r: "call_wrapped ''message save'' (hd_Save h ?owner (message_record m ?as) edited) s = (r, s1)" by fastforce
  have p1: "ph s1 = Some (Inside t (Some c))"
    using saves [OF assms(2), of ?owner "message_record m ?as" edited] assms(1) r
      call_wrapped_snd [of "''message save''" "hd_Save h ?owner (message_record m ?as) edited" s] by simp
  obtain r2 s2 where m: "saveMedia h ?owner m 0 ?as s1 = (r2, s2)" by fastforce
  have "ph s2 = Some (Inside t (Some c))" using saveMedia_inside [OF assms(1) p1, of m 0 ?as] m by simp
  then show ?thesis using p1 r m by (cases r; cases r2) (simp_all add: capture_def Let_def and_then_def answer_def)
qed

lemma saveMessage_stays: "stays ph (saveMessage h m edited)"
proof -
  have admit: "stays ph (admit qp_AdmitCapture h owner)" for owner using admit_stays by (intro leadsI) metis
  have enter: "stays ph (and_then (rechecked h i conn) (\<lambda>entered. case entered of None \<Rightarrow> answer None
      | Some (fresh, hold) \<Rightarrow> releasing h hold (capture h m edited fresh)))" for i conn
  proof (rule leads_and_then [OF rechecked_enters])
    fix e :: "(connection \<times> i64 option) option"
    show "leads ph (\<lambda>x. entered (Answer e) x \<and> (case Answer e of Answer (Some (fresh, _)) \<Rightarrow> conn_IsEnabled fresh | _ \<Rightarrow> True))
      (case e of None \<Rightarrow> answer None | Some (fresh, hold) \<Rightarrow> releasing h hold (capture h m edited fresh)) (\<lambda>_. out)"
    proof (rule leadsI)
      fix s r s'
      assume p: "entered (Answer e) (ph s) \<and> (case Answer e of Answer (Some (fresh, _)) \<Rightarrow> conn_IsEnabled fresh | _ \<Rightarrow> True)"
        and r: "(case e of None \<Rightarrow> answer None | Some (fresh, hold) \<Rightarrow> releasing h hold (capture h m edited fresh)) s = (r, s')"
      show "ph s' = Some Outside"
      proof (cases e)
        case (Some x)
        then obtain fresh t where x: "x = (fresh, Some t)" "ph s = Some (Inside t (Some fresh))" "conn_IsEnabled fresh"
          using p by (cases x) (auto simp: entered_def)
        have "leads ph (at (Inside t (Some fresh))) (releasing h (Some t) (capture h m edited fresh)) (\<lambda>_. out)"
          by (rule releasing_stays) (rule capture_inside [OF x(3)])
        then show ?thesis using leadsD x r Some by fastforce
      qed (use p r in \<open>simp add: entered_def answer_def\<close>)
    qed
  qed (auto simp: entered_def)
  show ?thesis
    unfolding saveMessage_def using answer_stays
    by (auto intro!: then_stays resolve_tenant_stays admit enter split: option.splits)
qed

lemma handleDeleted_stays: "stays ph (handleDeleted h d)"
proof -
  have enter: "stays ph (and_then (enterSave h i conn) (\<lambda>entered. case entered of None \<Rightarrow> answer ()
      | Some (fresh, hold) \<Rightarrow> releasing h hold (and_then (call_wrapped what
            (hd_MarkDeleted h (conn_OwnerUserID fresh) (conn_OwnerTelegramUserID fresh) j chat ids)) (\<lambda>_. answer ()))))" for i j conn chat ids what
  proof (rule leads_and_then [OF enterSave_enters])
    fix e :: "(connection \<times> i64 option) option"
    show "leads ph (entered (Answer e)) (case e of None \<Rightarrow> answer () | Some (fresh, hold) \<Rightarrow> releasing h hold (and_then (call_wrapped what
            (hd_MarkDeleted h (conn_OwnerUserID fresh) (conn_OwnerTelegramUserID fresh) j chat ids)) (\<lambda>_. answer ()))) (\<lambda>_. out)"
    proof (rule leadsI)
      fix s r s'
      assume p: "entered (Answer e) (ph s)" and r: "(case e of None \<Rightarrow> answer () | Some (fresh, hold) \<Rightarrow> releasing h hold (and_then (call_wrapped what
            (hd_MarkDeleted h (conn_OwnerUserID fresh) (conn_OwnerTelegramUserID fresh) j chat ids)) (\<lambda>_. answer ()))) s = (r, s')"
      show "ph s' = Some Outside"
      proof (cases e)
        case (Some x)
        then obtain fresh t where x: "x = (fresh, Some t)" "ph s = Some (Inside t (Some fresh))" using p by (cases x) (auto simp: entered_def)
        let ?mark = "hd_MarkDeleted h (conn_OwnerUserID fresh) (conn_OwnerTelegramUserID fresh) j chat ids"
        have "ph (snd (and_then (call_wrapped what ?mark) (\<lambda>_. answer ()) s)) = Some (Inside t (Some fresh))"
          if "ph s = Some (Inside t (Some fresh))" for s
        proof (cases "call_wrapped what ?mark s")
          case (Pair r1 s1)
          then have "ph s1 = Some (Inside t (Some fresh))" using marks [OF that, of "conn_OwnerUserID fresh"] call_wrapped_snd [of what ?mark s] by simp
          then show ?thesis using Pair by (cases r1) (simp_all add: and_then_def answer_def)
        qed
        then have "leads ph (at (Inside t (Some fresh))) (releasing h (Some t) (and_then (call_wrapped what ?mark) (\<lambda>_. answer ()))) (\<lambda>_. out)"
          by (rule releasing_stays)
        then show ?thesis using leadsD x r Some by fastforce
      qed (use p r in \<open>simp add: entered_def answer_def\<close>)
    qed
  qed (auto simp: entered_def)
  show ?thesis
    unfolding handleDeleted_def using answer_stays
    by (auto intro!: then_stays resolve_tenant_stays enter split: option.splits)
qed

lemma handleUpdate_stays: "stays ph (handleUpdate h u)"
proof -
  have "stays ph (handle_connection h c)" for c
  proof (rule leadsI)
    fix s r s'
    assume a: "ph s = Some Outside" "handle_connection h c s = (r, s')"
    then have "s' = snd (hd_HandleBusinessConnection h c s)" by (auto simp: handle_connection_def split: prod.splits sum.splits)
    then show "ph s' = Some Outside" using connects [of c s] a(1) by simp
  qed
  moreover have "stays ph (handle_message h m)" for m
    unfolding handle_message_def using answer_stays answerCommand_stays
    by (auto intro!: then_stays handleControlCommand_stays saveMessage_stays split: option.splits)
  moreover have "stays ph (handle_edit h m)" for m
    unfolding handle_edit_def using answer_stays by (auto intro!: then_stays dropConfirmEdit_stays saveMessage_stays)
  ultimately show ?thesis unfolding handleUpdate_def using handleDeleted_stays answer_stays by (auto split: option.splits)
qed

end

section \<open>The traced handler keeps the contract\<close>

text \<open>The phase after the log so far.\<close>

definition phase_of :: "'s \<times> event list \<Rightarrow> tenure option" where
  "phase_of p = follows (snd p) Outside"

lemma phase_log: "phase_of p = Some x \<Longrightarrow> phase_of (s', snd p @ es) = follows es x"
  by (simp add: phase_of_def follows_append)

lemma phase_log_pair: "phase_of (s, log) = Some x \<Longrightarrow> phase_of (s', log @ es) = follows es x"
  by (simp add: phase_of_def follows_append)

lemma tracing_state: "tracing ev f p = (r, q) \<longleftrightarrow> (\<exists>s'. f (fst p) = (r, s') \<and> q = (s', snd p @ ev r))"
  by (auto simp: tracing_def split: prod.splits)

lemma tracing_phase: "phase_of p = Some x \<Longrightarrow> phase_of (snd (tracing ev f p)) = follows (ev (fst (f (fst p)))) x"
  by (auto simp: tracing_def phase_log split: prod.splits)

lemma follows_single: "follows [e] x = protocol e x"
  by (simp split: option.splits)

lemma tracing_silent: "phase_of (snd (tracing (\<lambda>_. []) f p)) = phase_of p"
  by (auto simp: tracing_def phase_of_def split: prod.splits)

interpretation traced: exclusive_writes "traced g h" "traced_guard g" phase_of for g :: "'s tenant_guard" and h :: "'s handler"
proof unfold_locales
  fix p :: "'s \<times> event list" and x owner
  show "phase_of p = Some Outside \<Longrightarrow> phase_of (snd (tg_Shared (traced_guard g) owner p)) =
      (if fst (tg_Shared (traced_guard g) owner p) = None then protocol (Entered owner) Outside else Some Outside)"
    by (auto simp: traced_guard_def tracing_def phase_log split: prod.splits)
  show "phase_of p = Some x \<Longrightarrow> phase_of (tg_release (traced_guard g) owner p) = protocol (Left owner) x"
    by (simp add: traced_guard_def phase_log follows_single del: follows.simps)
qed (auto simp: traced_def traced_eraser_def traced_retention_def traced_quota_def tracing_phase tracing_silent follows_single tracing_state resolution_def
    phase_log_pair simp del: follows.simps)

section \<open>The trace is the handler's\<close>

text \<open>\<open>erases f' f\<close>: forgetting the log, \<open>f'\<close> does what \<open>f\<close> does.\<close>

definition erases :: "('s \<times> event list \<Rightarrow> 'r \<times> ('s \<times> event list)) \<Rightarrow> ('s \<Rightarrow> 'r \<times> 's) \<Rightarrow> bool" where
  "erases f' f \<longleftrightarrow> (\<forall>s log. map_prod id fst (f' (s, log)) = f s)"

lemma erasesD: "erases f' f \<Longrightarrow> map_prod id fst (f' (s, log)) = f s"
  unfolding erases_def by blast

lemma erases_tracing: "erases (tracing ev f) f"
  by (auto simp: erases_def tracing_def split: prod.splits)

lemma erases_answer: "erases (answer a) (answer a)"
  by (simp add: erases_def answer_def)

lemma erases_step:
  assumes "erases f' f" "f' p = (r, q)"
  shows "f (fst p) = (r, fst q)"
  using erasesD [OF assms(1), of "fst p" "snd p"] assms(2) by simp

lemma erases_then:
  assumes "erases m' m" "\<And>a. erases (f' a) (f a)"
  shows "erases (and_then m' f') (and_then m f)"
  unfolding erases_def
proof (intro allI)
  fix s log
  obtain r q where q: "m' (s, log) = (r, q)" by (cases "m' (s, log)")
  have m: "m s = (r, fst q)" using erases_step [OF assms(1) q] by simp
  show "map_prod id fst (and_then m' f' (s, log)) = and_then m f s"
    using erasesD [OF assms(2), of _ "fst q" "snd q"] q m by (cases r) (simp_all add: and_then_def)
qed

lemma erases_case:
  assumes "erases m' m" "\<And>r. erases (k' r) (k r)"
  shows "erases (\<lambda>p. case m' p of (r, q) \<Rightarrow> k' r q) (\<lambda>s. case m s of (r, s') \<Rightarrow> k r s')"
  unfolding erases_def
proof (intro allI)
  fix s log
  obtain r q where q: "m' (s, log) = (r, q)" by (cases "m' (s, log)")
  have m: "m s = (r, fst q)" using erases_step [OF assms(1) q] by simp
  show "map_prod id fst (case m' (s, log) of (r, q) \<Rightarrow> k' r q) = (case m s of (r, s') \<Rightarrow> k r s')"
    using erasesD [OF assms(2), of r "fst q" "snd q"] q m by simp
qed

abbreviation (input) "guarded g h \<equiv> h\<lparr>hd_guard := Some g\<rparr>"

lemma erases_sendCommandAnswer: "erases (sendCommandAnswer (traced g h) reqs) (sendCommandAnswer (guarded g h) reqs)"
proof (induction reqs)
  case Nil
  then show ?case by (simp add: erases_def)
next
  case (Cons req reqs)
  show ?case
  proof (cases "hd_sender h")
    case None
    then show ?thesis by (simp add: erases_def traced_def)
  next
    case (Some send)
    have "sendCommandAnswer (traced g h) (req # reqs) = (\<lambda>p. case tracing (\<lambda>_. []) (send req) p of (e, q) \<Rightarrow>
        (case e of Some _ \<Rightarrow> (\<lambda>q. (Answer False, q)) | None \<Rightarrow> sendCommandAnswer (traced g h) reqs) q)"
      using Some by (auto simp: traced_def fun_eq_iff split: prod.splits option.splits)
    moreover have "sendCommandAnswer (guarded g h) (req # reqs) = (\<lambda>s. case send req s of (e, s') \<Rightarrow>
        (case e of Some _ \<Rightarrow> (\<lambda>q. (Answer False, q)) | None \<Rightarrow> sendCommandAnswer (guarded g h) reqs) s')"
      using Some by (auto simp: fun_eq_iff split: prod.splits option.splits)
    ultimately show ?thesis
      using Cons by (simp only:) (intro erases_case erases_tracing, auto simp: erases_def split: option.splits)
  qed
qed

lemma erases_answer_with: "erases (answer_with (traced g h) reqs) (answer_with (guarded g h) reqs)"
  unfolding answer_with_def by (intro erases_then erases_sendCommandAnswer erases_answer)

lemma traced_fields:
  "hd_lower (traced g h) = hd_lower h" "hd_policy (traced g h) = hd_policy h" "hd_backupRetentionDays (traced g h) = hd_backupRetentionDays h"
  "hd_Resolve (traced g h) i = tracing resolution (hd_Resolve h i)" "hd_guard (traced g h) = Some (traced_guard g)"
  "hd_sender (traced g h) = None \<longleftrightarrow> hd_sender h = None"
  "hd_eraser (traced g h) = map_option traced_eraser (hd_eraser h)" "hd_retention (traced g h) = map_option traced_retention (hd_retention h)"
  "hd_quota (traced g h) = map_option traced_quota (hd_quota h)"
  by (simp_all add: traced_def)

lemma erases_handleDeleteMyData: "erases (handleDeleteMyData (traced g h) conn t) (handleDeleteMyData (guarded g h) conn t)"
proof (cases "hd_eraser h")
  case (Some e)
  have "erases (requestErasure (traced g h) (traced_eraser e) conn tn) (requestErasure (guarded g h) e conn tn)" for tn
  proof -
    have r: "requestErasure h' e' conn tn = (\<lambda>s. case ea_Request e' tn s of (r, s') \<Rightarrow>
        (case r of Inl _ \<Rightarrow> answer () | Inr c \<Rightarrow> answer_with h' [BuildErasureChallengeRequest (conn_OwnerTelegramUserID conn) (chl_Code c) ChallengeTTL]) s')"
      for h' :: "'t handler" and e'
      by (auto simp: requestErasure_def answer_def fun_eq_iff split: prod.splits sum.splits)
    show ?thesis
      unfolding r by (intro erases_case) (auto simp: traced_eraser_def erases_tracing erases_answer erases_answer_with split: sum.splits)
  qed
  moreover have "erases (confirmErasure (traced g h) (traced_eraser e) conn tn code) (confirmErasure (guarded g h) e conn tn code)" for tn code
  proof -
    have c: "confirmErasure h' e' conn tn code = (\<lambda>s. case ea_Confirm e' tn code s of (r, s') \<Rightarrow>
        answer_with h' (case r of (_, Some _) \<Rightarrow> [BuildErasureNoticeRequest (conn_OwnerTelegramUserID conn) ErasureFailedNotice]
          | (result, None) \<Rightarrow> [case result of
               OutcomeErased \<Rightarrow> BuildErasureConfirmationRequest (conn_OwnerTelegramUserID conn) (hd_backupRetentionDays h')
             | OutcomeAlreadyErased \<Rightarrow> BuildErasureReplayRequest (conn_OwnerTelegramUserID conn) (hd_backupRetentionDays h')
             | OutcomeExpired \<Rightarrow> BuildErasureNoticeRequest (conn_OwnerTelegramUserID conn) ErasureExpiredNotice
             | OutcomeUnknown \<Rightarrow> BuildErasureNoticeRequest (conn_OwnerTelegramUserID conn) ErasureUnknownNotice]) s')"
      for h' :: "'t handler" and e'
      by (auto simp: confirmErasure_def fun_eq_iff split: prod.splits option.splits)
    have "hd_backupRetentionDays (guarded g h) = hd_backupRetentionDays h" by simp
    then show ?thesis
      unfolding c traced_fields by (simp only:) (intro erases_case erases_answer_with, simp add: traced_eraser_def erases_tracing)
  qed
  ultimately show ?thesis using Some by (simp add: handleDeleteMyData_def traced_fields Let_def)
qed (simp add: handleDeleteMyData_def traced_fields erases_answer)

lemma erases_handleRetention: "erases (handleRetention (traced g h) conn t) (handleRetention (guarded g h) conn t)"
proof (cases "hd_retention h")
  case (Some rs)
  have a: "answerRetention h' rs' conn = (\<lambda>s. case rs_GetRetentionDays rs' (conn_OwnerUserID conn) s of (r, s') \<Rightarrow>
      (case r of Inl _ \<Rightarrow> answer () | Inr days \<Rightarrow> answer_with h' [BuildRetentionStatusRequest (conn_OwnerTelegramUserID conn) days (hd_backupRetentionDays h')]) s')"
    for h' :: "'t handler" and rs'
    by (auto simp: answerRetention_def answer_def fun_eq_iff split: prod.splits sum.splits)
  have s: "applyRetention h' rs' conn days = (\<lambda>s. case rs_SetRetentionDays rs' (conn_OwnerUserID conn) days s of (r, s') \<Rightarrow>
      (case r of Inl _ \<Rightarrow> answer () | Inr _ \<Rightarrow> answer_with h' [BuildRetentionChangedRequest (conn_OwnerTelegramUserID conn) days (hd_backupRetentionDays h')]) s')"
    for h' :: "'t handler" and rs' days
    by (auto simp: applyRetention_def answer_def fun_eq_iff split: prod.splits sum.splits)
  have "erases (answerRetention (traced g h) (traced_retention rs) conn) (answerRetention (guarded g h) rs conn)"
    unfolding a by (intro erases_case) (auto simp: traced_retention_def traced_fields erases_tracing erases_answer erases_answer_with split: sum.splits)
  moreover have "erases (applyRetention (traced g h) (traced_retention rs) conn days) (applyRetention (guarded g h) rs conn days)" for days
    unfolding s by (intro erases_case) (auto simp: traced_retention_def traced_fields erases_tracing erases_answer erases_answer_with split: sum.splits)
  ultimately show ?thesis using Some erases_answer_with by (auto simp: handleRetention_def traced_fields Let_def split: option.splits)
qed (simp add: handleRetention_def traced_fields erases_answer)

lemma erases_answerCommand: "erases (answerCommand (traced g h) conn m) (answerCommand (guarded g h) conn m)"
  by (auto simp: answerCommand_def sendPrivacyPolicy_def sendPrivacyAnswer_def traced_fields erases_answer erases_answer_with erases_handleDeleteMyData
      erases_handleRetention split: option.splits)

lemma erases_resolve_tenant: "erases (resolve_tenant what (traced g h) i) (resolve_tenant what (guarded g h) i)"
  by (auto simp: erases_def resolve_tenant_def traced_fields tracing_def split: prod.splits sum.splits)

lemma erases_release: "fst (release (traced g h) hold p) = release (guarded g h) hold (fst p)"
  by (auto simp: release_def traced_fields traced_guard_def split: option.splits)

lemma erases_enterSave: "erases (enterSave (traced g h) i conn) (enterSave (guarded g h) i conn)"
proof -
  have "map_prod id fst (enterSave (traced g h) i conn p) = enterSave (guarded g h) i conn (fst p)" for p
    by (auto simp: enterSave_def Let_def traced_fields erases_release tracing_def traced_guard_def split: prod.splits option.splits sum.splits)
  then show ?thesis by (simp add: erases_def)
qed

lemma erases_rechecked: "erases (rechecked (traced g h) i conn) (rechecked (guarded g h) i conn)"
proof -
  have "erases (\<lambda>p. (Answer None, release (traced g h) hold p)) (\<lambda>s. (Answer None, release (guarded g h) hold s))" for hold
    using erases_release [of g h hold] by (simp add: erases_def)
  then show ?thesis
    unfolding rechecked_def by (auto intro!: erases_then erases_enterSave erases_answer split: option.splits)
qed

lemma erases_releasing: "erases b' b \<Longrightarrow> erases (releasing (traced g h) hold b') (releasing (guarded g h) hold b)"
  using erases_release [of g h hold] by (auto simp: erases_def releasing_def split: prod.splits) (metis fst_conv map_prod_simp prod.inject id_apply)+

lemma erases_admit:
  "erases (admit qp_AdmitCapture (traced g h) owner) (admit qp_AdmitCapture (guarded g h) owner)"
  "erases (admit qp_AdmitMediaFile (traced g h) owner) (admit qp_AdmitMediaFile (guarded g h) owner)"
  by (auto simp: erases_def admit_def traced_fields traced_quota_def tracing_def split: option.splits prod.splits)

lemma erases_call_wrapped: "erases (call_wrapped what (tracing ev f)) (call_wrapped what f)"
  by (auto simp: erases_def call_wrapped_def tracing_def split: prod.splits sum.splits)

lemma erases_saveMedia: "erases (saveMedia (traced g h) owner m index as) (saveMedia (guarded g h) owner m index as)"
proof (induction "as" arbitrary: index)
  case Nil
  then show ?case by (simp add: erases_def)
next
  case (Cons a "as")
  show ?case
  proof (cases "hd_media h")
    case None
    then show ?thesis by (simp add: erases_def traced_def)
  next
    case (Some save)
    have media: "hd_media (traced g h) = Some (\<lambda>owner m. tracing (\<lambda>_. [Captured owner]) (save owner m))" using Some by (simp add: traced_def)
    have "saveMedia (traced g h) owner m index (a # as) = and_then (admit qp_AdmitMediaFile (traced g h) owner) (\<lambda>admitted. if \<not> admitted then answer ()
        else and_then (call_wrapped ''media catalogue'' (tracing (\<lambda>_. [Captured owner]) (save owner (media_record m index a))))
          (\<lambda>_. saveMedia (traced g h) owner m (Suc index) as))"
      by (rule ext) (simp only: saveMedia.simps media option.case)
    moreover have "saveMedia (guarded g h) owner m index (a # as) = and_then (admit qp_AdmitMediaFile (guarded g h) owner) (\<lambda>admitted. if \<not> admitted then answer ()
        else and_then (call_wrapped ''media catalogue'' (save owner (media_record m index a))) (\<lambda>_. saveMedia (guarded g h) owner m (Suc index) as))"
      using Some by (simp add: fun_eq_iff)
    ultimately show ?thesis
      using Cons by (simp only:) (auto intro!: erases_then erases_admit erases_call_wrapped erases_answer)
  qed
qed

lemma erases_saveMessage: "erases (saveMessage (traced g h) m edited) (saveMessage (guarded g h) m edited)"
proof -
  have "erases (capture (traced g h) m edited conn) (capture (guarded g h) m edited conn)" for conn
    unfolding capture_def Let_def
    by (auto simp: traced_def intro!: erases_then erases_call_wrapped erases_saveMedia [unfolded traced_def] erases_answer)
  then show ?thesis
    unfolding saveMessage_def
    by (auto intro!: erases_then erases_resolve_tenant erases_admit erases_rechecked erases_releasing erases_answer split: option.splits)
qed

lemma erases_handleDeleted: "erases (handleDeleted (traced g h) d) (handleDeleted (guarded g h) d)"
proof -
  have "hd_MarkDeleted (traced g h) owner tg i chat ids = tracing (\<lambda>_. [Marked owner]) (hd_MarkDeleted (guarded g h) owner tg i chat ids)" for owner tg i chat ids
    by (simp add: traced_def)
  then show ?thesis
    unfolding handleDeleted_def
    by (auto intro!: erases_then erases_resolve_tenant erases_enterSave erases_releasing erases_call_wrapped erases_answer split: option.splits)
qed

lemma erases_handleUpdate: "erases (handleUpdate (traced g h) u) (handleUpdate (guarded g h) u)"
proof -
  have "erases (handle_connection (traced g h) c) (handle_connection (guarded g h) c)" for c
    by (auto simp: erases_def handle_connection_def traced_def tracing_def split: prod.splits sum.splits)
  moreover have "erases (handle_message (traced g h) m) (handle_message (guarded g h) m)" for m
  proof -
    have "erases (handleControlCommand (traced g h) m) (handleControlCommand (guarded g h) m)"
      unfolding handleControlCommand_def traced_fields
      by (auto intro!: erases_then erases_resolve_tenant erases_handleDeleteMyData erases_answer split: option.splits)
    then show ?thesis
      unfolding handle_message_def by (auto intro!: erases_then erases_saveMessage erases_answerCommand erases_answer split: option.splits)
  qed
  moreover have "erases (handle_edit (traced g h) m) (handle_edit (guarded g h) m)" for m
  proof -
    have "erases (dropConfirmEdit (traced g h) m) (dropConfirmEdit (guarded g h) m)"
      unfolding dropConfirmEdit_def traced_fields Let_def by (auto intro!: erases_then erases_resolve_tenant erases_answer)
    then show ?thesis unfolding handle_edit_def by (auto intro!: erases_then erases_saveMessage erases_answer)
  qed
  ultimately show ?thesis
    unfolding handleUpdate_def using erases_handleDeleted erases_answer by (auto split: option.splits)
qed

text \<open>C4. With a tenant exclusion configured, whatever the update and whatever the interfaces answer, a message, an attachment
  or a deletion mark is only ever written while the shared side of a tenant is held, after the connection was read again under
  it, for the owner that reading named (and enabled, for a capture); the exclusion is always left before the erasure service is
  called and before the update is done, on errors as well. The log is the handler's own: without it the run is the same.\<close>

theorem writes_under_exclusion:
  "case handleUpdate (traced g h) u (s, []) of
     (r, (s', log)) \<Rightarrow> follows log Outside = Some Outside \<and> handleUpdate (h\<lparr>hd_guard := Some g\<rparr>) u s = (r, s')"
proof -
  obtain r s' log where run: "handleUpdate (traced g h) u (s, []) = (r, (s', log))" by (metis prod.exhaust)
  have "phase_of (s, []) = Some Outside" by (simp add: phase_of_def)
  then have "phase_of (s', log) = Some Outside" using leadsD [OF traced.handleUpdate_stays _ run] by simp
  moreover have "handleUpdate (h\<lparr>hd_guard := Some g\<rparr>) u s = (r, s')" using erases_step [OF erases_handleUpdate run] by simp
  ultimately show ?thesis using run by (simp add: phase_of_def)
qed

end
