(* ===== verification/Store.thy ===== *)
theory Store
  imports "HOL-Library.Word" "HOL-Library.Sublist" Retention
begin

text \<open>
  \<open>bot/internal/media/store/store.go\<close>: the download of a file from the Bot API to the media directory.

  The disk maps a full path to a file, with its bytes, whether they were flushed, and its permissions, or to
  something that is not a regular file; directories are only what the kernel may refuse to create. \<open>sw_history\<close>
  keeps every state the disk goes through, one for each system call that changes it, so that a crash between any
  two of them can be stated. \<open>sw_requests\<close> and \<open>sw_waits\<close> record the requests that left the process, each with
  its \<open>Referer\<close>, and the waits between two attempts.

  What the network, the kernel and the contexts answer is \<open>store_env\<close>, with one \<open>attempt_env\<close> for each attempt.
  SHA-256 and the text of an error are arguments. \<open>net/http\<close> is modelled as far as redirects go: a \<open>Moved\<close> answer
  is followed, with the URL it came from as the referer, unless the client refuses. The date of \<open>Now\<close>, in UTC, is
  its year, month and day. A body is the list of the chunks the transport delivers, then the error that ends it.
\<close>

section \<open>Bytes and texts\<close>

type_synonym byte = "8 word"
type_synonym bytes = "byte list"

definition hexDigit :: "nat \<Rightarrow> rune" where
  "hexDigit n = (if n < 10 then 48 + n else 87 + n)"

text \<open>\<open>hex.EncodeToString\<close>.\<close>

definition hexEncode :: "bytes \<Rightarrow> gostr" where
  "hexEncode bs = concat (map (\<lambda>b. [hexDigit (unat b div 16), hexDigit (unat b mod 16)]) bs)"

text \<open>\<open>[]byte(s)\<close>: the UTF-8 encoding of a text.\<close>

definition utf8_rune :: "rune \<Rightarrow> bytes" where
  "utf8_rune r = map of_nat
     (if r < 128 then [r]
      else if r < 2048 then [192 + r div 64, 128 + r mod 64]
      else if r < 65536 then [224 + r div 4096, 128 + r div 64 mod 64, 128 + r mod 64]
      else [240 + r div 262144, 128 + r div 4096 mod 64, 128 + r div 64 mod 64, 128 + r mod 64])"

definition utf8 :: "gostr \<Rightarrow> bytes" where
  "utf8 t = concat (map utf8_rune t)"

text \<open>\<open>strings.EqualFold\<close> against a text of the digits 0 to 9 and a to f, whose only foldings are the ASCII ones.\<close>

definition fold_ascii :: "rune \<Rightarrow> rune" where
  "fold_ascii r = (if 65 \<le> r \<and> r \<le> 90 then r + 32 else r)"

definition EqualFold :: "gostr \<Rightarrow> gostr \<Rightarrow> bool" where
  "EqualFold s t \<longleftrightarrow> map fold_ascii s = map fold_ascii t"

text \<open>\<open>strings.Contains\<close> and \<open>strings.ReplaceAll\<close> (of a text that is not empty).\<close>

fun contains :: "'a list \<Rightarrow> 'a list \<Rightarrow> bool" where
  "contains p [] = (p = [])"
| "contains p (x # xs) = (take (length p) (x # xs) = p \<or> contains p xs)"

function replace_all :: "gostr \<Rightarrow> gostr \<Rightarrow> gostr \<Rightarrow> gostr" where
  "replace_all old new [] = []"
| "replace_all old new (r # rs) =
     (if old \<noteq> [] \<and> take (length old) (r # rs) = old then new @ replace_all old new (drop (length old - 1) rs)
      else r # replace_all old new rs)"
  by pat_completeness auto
termination by (relation "measure (\<lambda>(_, _, t). length t)") auto

text \<open>\<open>filepath.Clean\<close>, \<open>filepath.Join\<close> and \<open>filepath.IsAbs\<close> on a Unix system.\<close>

fun clean_components :: "bool \<Rightarrow> gostr list \<Rightarrow> gostr list \<Rightarrow> gostr list" where
  "clean_components rooted acc [] = acc"
| "clean_components rooted acc (c # cs) =
     (if c = [] \<or> c = [46] then clean_components rooted acc cs
      else if c = [46, 46]
        then clean_components rooted
          (if acc \<noteq> [] \<and> last acc \<noteq> [46, 46] then butlast acc else if rooted then acc else acc @ [c]) cs
      else clean_components rooted (acc @ [c]) cs)"

definition IsAbs :: "gostr \<Rightarrow> bool" where
  "IsAbs p \<longleftrightarrow> p \<noteq> [] \<and> hd p = sep"

definition path_clean :: "gostr \<Rightarrow> gostr" where
  "path_clean p =
     (let body = join_path (clean_components (IsAbs p) [] (components p))
      in if IsAbs p then sep # body else if body = [] then [46] else body)"

definition path_join :: "gostr list \<Rightarrow> gostr" where
  "path_join elems =
     (let parts = filter (\<lambda>e. e \<noteq> []) elems in if parts = [] then [] else path_clean (join_path parts))"

section \<open>Configuration\<close>

record http_client = hc_follows :: bool

definition noRedirect :: "http_client \<Rightarrow> http_client" where
  "noRedirect client = client\<lparr>hc_follows := False\<rparr>"

record store_config =
  so_BaseDir :: gostr
  so_HTTPClient :: "http_client option"
  so_BaseURL :: gostr
  so_MaxBytes :: i64
  so_RequestTimeout :: duration
  so_Retries :: i64
  so_Backoff :: duration

definition defaultBaseURL :: gostr where "defaultBaseURL = runes ''https://api.telegram.org/file/bot''"
definition defaultMaxBytes :: i64 where "defaultMaxBytes = 20 * 2 ^ 20"
definition defaultRequestTimeout :: duration where "defaultRequestTimeout = 60 * go_second"
definition defaultRetries :: i64 where "defaultRetries = 2"
definition defaultBackoff :: duration where "defaultBackoff = go_second div 2"

definition store_New :: "store_config \<Rightarrow> go_error + store_config" where
  "store_New cfg =
     (if TrimSpace (so_BaseDir cfg) = [] then Inl [Msg ''media: BaseDir is required'']
      else Inr (cfg\<lparr>
        so_HTTPClient := Some (noRedirect (case so_HTTPClient cfg of None \<Rightarrow> \<lparr>hc_follows = True\<rparr> | Some c \<Rightarrow> c)),
        so_BaseURL := if so_BaseURL cfg = [] then defaultBaseURL else so_BaseURL cfg,
        so_MaxBytes := if so_MaxBytes cfg \<le> 0 then defaultMaxBytes else so_MaxBytes cfg,
        so_RequestTimeout := if so_RequestTimeout cfg \<le> 0 then defaultRequestTimeout else so_RequestTimeout cfg,
        so_Retries := if so_Retries cfg < 0 then defaultRetries else so_Retries cfg,
        so_Backoff := if so_Backoff cfg \<le> 0 then defaultBackoff else so_Backoff cfg\<rparr>))"

record store_request =
  rq_OwnerUserID :: i64
  rq_FileID :: gostr
  rq_FilePath :: gostr
  rq_UniqueID :: gostr
  rq_ExpectedSHA256 :: gostr

record stored_media =
  sm_Path :: gostr
  sm_RelPath :: gostr
  sm_SHA256 :: gostr
  sm_Bytes :: i64
  sm_Reused :: bool

section \<open>The disk, the network and the contexts\<close>

datatype st_node = Blob bytes bool int | NotRegular bool

type_synonym st_disk = "gostr \<Rightarrow> st_node option"

record store_world =
  sw_disk :: st_disk
  sw_history :: "st_disk list"
  sw_requests :: "(gostr \<times> gostr option) list"
  sw_waits :: "duration list"

definition disk_op :: "(st_disk \<Rightarrow> st_disk) \<Rightarrow> store_world \<Rightarrow> store_world" where
  "disk_op f w = w\<lparr>sw_disk := f (sw_disk w), sw_history := sw_history w @ [f (sw_disk w)]\<rparr>"

text \<open>An answer: no response, a status with the announced length and the body, or a redirect.\<close>

datatype http_answer = Refused go_error | Answer int i64 "bytes list" "go_error option" | Moved int gostr

record attempt_env =
  ae_wait :: "go_error option" \<comment> \<open>the context ends during the wait before the attempt\<close>
  ae_request :: "go_error option" \<comment> \<open>\<open>http.NewRequestWithContext\<close>\<close>
  ae_server :: "gostr \<Rightarrow> http_answer"
  ae_ctx :: "go_error option" \<comment> \<open>\<open>ctx.Err()\<close> after a failure\<close>
  ae_deadline :: bool \<comment> \<open>\<open>reqCtx\<close> has passed its deadline\<close>
  ae_draws :: "nat list" \<comment> \<open>the random names \<open>os.CreateTemp\<close> draws\<close>
  ae_create :: "go_error option"
  ae_write :: "nat \<Rightarrow> go_error option" \<comment> \<open>the write of a chunk\<close>
  ae_sync :: "go_error option"
  ae_close :: "go_error option"
  ae_chmod :: "go_error option"
  ae_rename :: "go_error option"
  ae_remove :: bool \<comment> \<open>the kernel lets the temporary file go\<close>

record store_env =
  se_cwd :: "go_error + gostr"
  se_today :: "nat \<times> nat \<times> nat"
  se_sha :: "bytes \<Rightarrow> bytes"
  se_text :: "go_error \<Rightarrow> gostr"
  se_lstat :: "gostr \<Rightarrow> string option"
  se_read :: "gostr \<Rightarrow> go_error option"
  se_mkdir :: "gostr \<Rightarrow> go_error option"
  se_attempt :: "nat \<Rightarrow> attempt_env"

section \<open>Errors\<close>

text \<open>\<open>errors.As\<close> with \<open>interface{ Timeout() bool }\<close>: a network error, a deadline, an \<open>*url.Error\<close>, and also the
  \<open>PathError\<close> or the error number of a system call.\<close>

definition has_Timeout :: "cause \<Rightarrow> bool" where
  "has_Timeout c = (case c of NetError _ \<Rightarrow> True | CtxDeadlineExceeded \<Rightarrow> True | OsError _ \<Rightarrow> True | URLError _ \<Rightarrow> True | _ \<Rightarrow> False)"

definition isNetworkError :: "go_error \<Rightarrow> bool" where
  "isNetworkError err \<longleftrightarrow> list_ex has_Timeout err \<or> errors_is err UnexpectedEOF \<or> errors_is err ErrEOF"

definition HTTPStatus :: "go_error \<Rightarrow> int option" where
  "HTTPStatus err = as_http_status err"

definition mentions_transport :: "go_error \<Rightarrow> bool" where
  "mentions_transport err =
     list_ex (\<lambda>c. case c of Msg m \<Rightarrow> contains ''transport error'' m
                     | MsgText t \<Rightarrow> contains (runes ''transport error'') t | _ \<Rightarrow> False) err"

definition retryable :: "go_error \<Rightarrow> bool" where
  "retryable err =
     (if errors_is err ErrPathTraversal \<or> errors_is err ErrHashMismatch \<or> errors_is err ErrStoreTooLarge then False
      else if errors_is err CtxCanceled then False
      else if errors_is err ErrDownloadTimeout then True
      else case HTTPStatus err of
          Some status \<Rightarrow> statusInternalServerError \<le> status \<or> status = statusTooManyRequests \<or> status = statusRequestTimeout
        | None \<Rightarrow> isNetworkError err \<or> mentions_transport err)"

definition redacted :: gostr where "redacted = runes ''[REDACTED]''"

definition redact :: "gostr \<Rightarrow> gostr \<Rightarrow> gostr" where
  "redact s token = (if token = [] then s else replace_all token redacted s)"

definition redactErr :: "store_env \<Rightarrow> go_error \<Rightarrow> gostr \<Rightarrow> go_error" where
  "redactErr env err token =
     (let msg = redact (se_text env err) token in if msg = se_text env err then err else [MsgText msg])"

definition transportError :: "store_env \<Rightarrow> attempt_env \<Rightarrow> go_error \<Rightarrow> gostr \<Rightarrow> go_error option" where
  "transportError env a err token =
     (case ae_ctx a of
        Some e \<Rightarrow> Some e
      | None \<Rightarrow>
          if ae_deadline a \<or> errors_is err CtxDeadlineExceeded then Some [ErrDownloadTimeout]
          else case as_url_error err of
              Some inner \<Rightarrow> Some (Msg ''media: transport error'' # redactErr env inner token)
            | None \<Rightarrow> if isNetworkError err then Some (Msg ''media: transport error'' # redactErr env err token) else None)"

section \<open>Paths\<close>

definition pad :: "nat \<Rightarrow> nat \<Rightarrow> gostr" where
  "pad k n = replicate (k - length (dec n)) 48 @ dec n"

definition safe_byte :: "rune \<Rightarrow> bool" where
  "safe_byte c \<longleftrightarrow> (97 \<le> c \<and> c \<le> 122) \<or> (65 \<le> c \<and> c \<le> 90) \<or> (48 \<le> c \<and> c \<le> 57) \<or> c = 45 \<or> c = 95"

text \<open>A text with a rune above 127 has a byte that is not safe; a text without has one byte for each rune.\<close>

definition storageKey :: "(bytes \<Rightarrow> bytes) \<Rightarrow> gostr \<Rightarrow> gostr" where
  "storageKey sha i =
     (if 0 < length i \<and> length i \<le> 128 \<and> list_all safe_byte i then i else hexEncode (sha (utf8 i)))"

definition relPath :: "store_env \<Rightarrow> store_request \<Rightarrow> go_error + gostr" where
  "relPath env req =
     (if rq_OwnerUserID req = 0 then Inl [Msg ''media: OwnerUserID is required'']
      else if TrimSpace (rq_UniqueID req) = [] then Inl [Msg ''media: UniqueID is required'']
      else case se_today env of (year, month, day) \<Rightarrow>
        Inr (path_join [dec_int (rq_OwnerUserID req), pad 4 year @ [45] @ pad 2 month, pad 2 day,
          storageKey (se_sha env) (rq_UniqueID req)]))"

definition store_resolve :: "store_env \<Rightarrow> store_config \<Rightarrow> gostr \<Rightarrow> go_error + gostr" where
  "store_resolve env cfg rel =
     (if rel = [] \<or> IsAbs rel \<or> contains [46, 46] rel then Inl [ErrPathTraversal]
      else case (if IsAbs (so_BaseDir cfg) then Inr (path_clean (so_BaseDir cfg))
                 else map_sum id (\<lambda>cwd. path_join [cwd, so_BaseDir cfg]) (se_cwd env)) of
          Inl err \<Rightarrow> Inl (Msg ''media: resolving root'' # err)
        | Inr root \<Rightarrow>
            let full = path_join [root, rel]
            in if full \<noteq> root \<and> \<not> has_prefix (root @ [sep]) full then Inl [ErrPathTraversal] else Inr full)"

definition validateFilePath :: "gostr \<Rightarrow> go_error option" where
  "validateFilePath p =
     (if TrimSpace p = [] then Some [ErrPathTraversal]
      else if IsAbs p then Some [ErrPathTraversal]
      else if contains [46, 46] p \<or> backslash \<in> set p \<or> contains (runes ''://'') p then Some [ErrPathTraversal]
      else if list_ex (\<lambda>r. r < 32 \<or> r = 127) p then Some [ErrPathTraversal]
      else if list_ex (\<lambda>seg. seg = [] \<or> seg = [46]) (components p) then Some [ErrPathTraversal]
      else None)"

text \<open>\<open>filepath.Dir\<close>.\<close>

definition path_dir :: "gostr \<Rightarrow> gostr" where
  "path_dir p = path_clean (concat (map (\<lambda>w. w @ [sep]) (butlast (components p))))"

section \<open>Publishing a file\<close>

text \<open>\<open>os.CreateTemp\<close> with the pattern \<open>.dl-*\<close>: the first name drawn that is free, at most ten thousand draws.\<close>

definition temp_path :: "gostr \<Rightarrow> nat \<Rightarrow> gostr" where
  "temp_path dir n = (if dir \<noteq> [] \<and> last dir = sep then dir else dir @ [sep]) @ TempPrefix @ dec n"

definition CreateTemp :: "attempt_env \<Rightarrow> gostr \<Rightarrow> store_world \<Rightarrow> (go_error + gostr) \<times> store_world" where
  "CreateTemp a dir w =
     (case ae_create a of
        Some err \<Rightarrow> (Inl err, w)
      | None \<Rightarrow>
          (case find (\<lambda>n. sw_disk w (temp_path dir n) = None) (take 10000 (ae_draws a)) of
             None \<Rightarrow> (Inl [OsError ''file exists''], w)
           | Some n \<Rightarrow> (Inr (temp_path dir n), disk_op (\<lambda>d. d(temp_path dir n \<mapsto> Blob [] False 384)) w)))"

definition append_blob :: "gostr \<Rightarrow> bytes \<Rightarrow> st_disk \<Rightarrow> st_disk" where
  "append_blob p bs d = (case d p of Some (Blob old s m) \<Rightarrow> d(p \<mapsto> Blob (old @ bs) False m) | _ \<Rightarrow> d)"

definition flush_blob :: "gostr \<Rightarrow> st_disk \<Rightarrow> st_disk" where
  "flush_blob p d = (case d p of Some (Blob bs s m) \<Rightarrow> d(p \<mapsto> Blob bs True m) | _ \<Rightarrow> d)"

definition chmod_blob :: "gostr \<Rightarrow> int \<Rightarrow> st_disk \<Rightarrow> st_disk" where
  "chmod_blob p mode d = (case d p of Some (Blob bs s m) \<Rightarrow> d(p \<mapsto> Blob bs s mode) | _ \<Rightarrow> d)"

definition rename_blob :: "gostr \<Rightarrow> gostr \<Rightarrow> st_disk \<Rightarrow> st_disk" where
  "rename_blob old new d = (d(new := d old))(old := None)"

definition remove_blob :: "gostr \<Rightarrow> st_disk \<Rightarrow> st_disk" where
  "remove_blob p d = d(p := None)"

text \<open>\<open>io.Copy\<close> from the limited body to the file and the hash: what went through, and the error that ended it.\<close>

fun copy_body :: "attempt_env \<Rightarrow> gostr \<Rightarrow> nat \<Rightarrow> i64 \<Rightarrow> bytes list \<Rightarrow> go_error option \<Rightarrow> bytes \<Rightarrow> store_world \<Rightarrow>
    (go_error option \<times> bytes) \<times> store_world" where
  "copy_body a tmp i left chunks end_err hashed w =
     (if left \<le> 0 then ((None, hashed), w)
      else case chunks of
          [] \<Rightarrow> ((end_err, hashed), w)
        | chunk # rest \<Rightarrow>
            (let data = take (nat left) chunk in
             case ae_write a i of
               Some err \<Rightarrow> ((Some err, hashed), w)
             | None \<Rightarrow> copy_body a tmp (Suc i) (left - int (length data)) rest end_err (hashed @ data)
                 (disk_op (append_blob tmp data) w)))"

declare copy_body.simps [simp del]

lemma copy_body_end: "left \<le> 0 \<Longrightarrow> copy_body a tmp i left chunks end_err hashed w = ((None, hashed), w)"
  "0 < left \<Longrightarrow> copy_body a tmp i left [] end_err hashed w = ((end_err, hashed), w)"
  by (subst copy_body.simps; simp)+

lemma copy_body_chunk:
  "0 < left \<Longrightarrow> copy_body a tmp i left (chunk # rest) end_err hashed w =
    (case ae_write a i of
       Some err \<Rightarrow> ((Some err, hashed), w)
     | None \<Rightarrow> copy_body a tmp (Suc i) (left - int (length (take (nat left) chunk))) rest end_err
         (hashed @ take (nat left) chunk) (disk_op (append_blob tmp (take (nat left) chunk)) w))"
  by (subst copy_body.simps) (simp add: Let_def)

text \<open>What the deferred close and removal of the temporary file leave.\<close>

definition drop_temp :: "attempt_env \<Rightarrow> gostr \<Rightarrow> store_world \<Rightarrow> store_world" where
  "drop_temp a tmp w = (if ae_remove a \<and> sw_disk w tmp \<noteq> None then disk_op (remove_blob tmp) w else w)"

text \<open>From the copy to the rename, the temporary file being open.\<close>

definition publish :: "store_env \<Rightarrow> store_config \<Rightarrow> attempt_env \<Rightarrow> gostr \<Rightarrow> gostr \<Rightarrow> gostr \<Rightarrow> bytes list \<Rightarrow> go_error option \<Rightarrow> gostr \<Rightarrow>
    store_world \<Rightarrow> (go_error + gostr \<times> i64) \<times> store_world" where
  "publish env cfg a token tmp full chunks end_err wantSHA w =
     (case copy_body a tmp 0 (wrap64 (so_MaxBytes cfg + 1)) chunks end_err [] w of
        ((Some err, _), w1) \<Rightarrow>
          (Inl (case transportError env a err token of
                  Some e \<Rightarrow> e | None \<Rightarrow> Msg ''media: writing file'' # redactErr env err token), w1)
      | ((None, data), w1) \<Rightarrow>
          (let nbytes = int (length data); digest = hexEncode (se_sha env data) in
           if so_MaxBytes cfg < nbytes then (Inl [ErrStoreTooLarge], w1)
           else if wantSHA \<noteq> [] \<and> \<not> EqualFold digest wantSHA then (Inl [ErrHashMismatch], w1)
           else case ae_sync a of
               Some err \<Rightarrow> (Inl (Msg ''media: syncing temp file'' # redactErr env err token), w1)
             | None \<Rightarrow>
                 (let w2 = disk_op (flush_blob tmp) w1 in
                  case ae_close a of
                    Some err \<Rightarrow> (Inl (Msg ''media: closing temp file'' # redactErr env err token), w2)
                  | None \<Rightarrow>
                      (case ae_chmod a of
                         Some err \<Rightarrow> (Inl (Msg ''media: adjusting permissions'' # redactErr env err token), w2)
                       | None \<Rightarrow>
                           (let w3 = disk_op (chmod_blob tmp 416) w2 in
                            case (if sw_disk w3 full = Some (NotRegular True) then Some [OsError ''file exists''] else ae_rename a) of
                              Some err \<Rightarrow> (Inl (Msg ''media: publishing file'' # redactErr env err token), w3)
                            | None \<Rightarrow> (Inr (digest, nbytes), disk_op (rename_blob tmp full) w3))))))"

definition writeAtomically :: "store_env \<Rightarrow> store_config \<Rightarrow> attempt_env \<Rightarrow> gostr \<Rightarrow> gostr \<Rightarrow> bytes list \<Rightarrow> go_error option \<Rightarrow> gostr \<Rightarrow>
    store_world \<Rightarrow> (go_error + gostr \<times> i64) \<times> store_world" where
  "writeAtomically env cfg a token full chunks end_err wantSHA w =
     (case CreateTemp a (path_dir full) w of
        (Inl err, w1) \<Rightarrow> (Inl (Msg ''media: creating temp file'' # redactErr env err token), w1)
      | (Inr tmp, w1) \<Rightarrow>
          (case publish env cfg a token tmp full chunks end_err wantSHA w1 of
             (r, w2) \<Rightarrow> (r, drop_temp a tmp w2)))"

section \<open>The attempts\<close>

text \<open>\<open>Client.Do\<close>: the requests it sends and the answer. The referer is the URL of the redirect, unless the new
  request leaves HTTPS for HTTP; ten redirects at most are followed.\<close>

definition referer_for :: "gostr \<Rightarrow> gostr \<Rightarrow> gostr option" where
  "referer_for old new = (if has_prefix (runes ''https:'') old \<and> has_prefix (runes ''http:'') new then None else Some old)"

fun http_Do :: "nat \<Rightarrow> http_client \<Rightarrow> (gostr \<Rightarrow> http_answer) \<Rightarrow> gostr \<Rightarrow> gostr option \<Rightarrow>
    (gostr \<times> gostr option) list \<times> (go_error + int \<times> i64 \<times> bytes list \<times> go_error option)" where
  "http_Do hops client server url referer =
     (case server url of
        Refused err \<Rightarrow> ([(url, referer)], Inl (URLError url # err))
      | Answer status len chunks end_err \<Rightarrow> ([(url, referer)], Inr (status, len, chunks, end_err))
      | Moved status location \<Rightarrow>
          if \<not> hc_follows client then ([(url, referer)], Inr (status, 0, [], None))
          else case hops of
              0 \<Rightarrow> ([(url, referer)], Inl [URLError location, Msg ''stopped after 10 redirects''])
            | Suc n \<Rightarrow> (case http_Do n client server location (referer_for url location) of
                (sent, r) \<Rightarrow> ((url, referer) # sent, r)))"

declare http_Do.simps [simp del]

definition statusOK :: int where "statusOK = 200"

definition store_endpoint :: "store_config \<Rightarrow> gostr \<Rightarrow> store_request \<Rightarrow> gostr" where
  "store_endpoint cfg token req = so_BaseURL cfg @ token @ [sep] @ rq_FilePath req"

definition the_client :: "store_config \<Rightarrow> http_client" where
  "the_client cfg = (case so_HTTPClient cfg of None \<Rightarrow> \<lparr>hc_follows = True\<rparr> | Some c \<Rightarrow> c)"

definition attempt :: "store_env \<Rightarrow> store_config \<Rightarrow> attempt_env \<Rightarrow> gostr \<Rightarrow> gostr \<Rightarrow> store_request \<Rightarrow> store_world \<Rightarrow>
    (go_error + gostr \<times> i64) \<times> store_world" where
  "attempt env cfg a token full req w =
     (case ae_request a of
        Some err \<Rightarrow> (Inl (Msg ''media: building request'' # redactErr env err token), w)
      | None \<Rightarrow>
          (case http_Do 10 (the_client cfg) (ae_server a) (store_endpoint cfg token req) None of
             (sent, r) \<Rightarrow>
               (let w1 = w\<lparr>sw_requests := sw_requests w @ sent\<rparr> in
                case r of
                  Inl err \<Rightarrow>
                    (Inl (case transportError env a err token of
                            Some e \<Rightarrow> e | None \<Rightarrow> Msg ''media: transport error'' # redactErr env err token), w1)
                | Inr (status, len, chunks, end_err) \<Rightarrow>
                    if status \<noteq> statusOK then (Inl [HTTPStatusError status], w1)
                    else if 0 < len \<and> so_MaxBytes cfg < len then (Inl [ErrStoreTooLarge], w1)
                    else writeAtomically env cfg a token full chunks end_err (rq_ExpectedSHA256 req) w1)))"

fun fetch_attempts :: "store_env \<Rightarrow> store_config \<Rightarrow> gostr \<Rightarrow> gostr \<Rightarrow> store_request \<Rightarrow> nat \<Rightarrow> nat \<Rightarrow> duration \<Rightarrow> go_error option \<Rightarrow>
    store_world \<Rightarrow> (go_error + gostr \<times> i64) \<times> store_world" where
  "fetch_attempts env cfg token full req 0 i backoff lastErr w =
     (case lastErr of None \<Rightarrow> Inr ([], 0) | Some err \<Rightarrow> Inl err, w)"
| "fetch_attempts env cfg token full req (Suc n) i backoff lastErr w =
     (let a = se_attempt env i in
      case (if 0 < i then ae_wait a else None) of
        Some err \<Rightarrow> (Inl err, w)
      | None \<Rightarrow>
          (case attempt env cfg a token full req (if 0 < i then w\<lparr>sw_waits := sw_waits w @ [backoff]\<rparr> else w) of
             (Inr r, w1) \<Rightarrow> (Inr r, w1)
           | (Inl err, w1) \<Rightarrow>
               if \<not> retryable err then (Inl err, w1)
               else fetch_attempts env cfg token full req n (Suc i)
                 (if 0 < i then wrap64 (backoff * 2) else backoff) (Some err) w1))"

definition fetchInto :: "store_env \<Rightarrow> store_config \<Rightarrow> gostr \<Rightarrow> gostr \<Rightarrow> store_request \<Rightarrow> store_world \<Rightarrow>
    (go_error + gostr \<times> i64) \<times> store_world" where
  "fetchInto env cfg token full req w =
     fetch_attempts env cfg token full req (nat (so_Retries cfg + 1)) 0 (so_Backoff cfg) None w"

section \<open>Download and verification\<close>

text \<open>\<open>sha256File\<close> opens the file and hashes it; \<open>se_read\<close> is an error of the kernel there.\<close>

definition sha256File :: "store_env \<Rightarrow> gostr \<Rightarrow> st_disk \<Rightarrow> go_error + gostr" where
  "sha256File env path d =
     (case se_read env path of
        Some err \<Rightarrow> Inl err
      | None \<Rightarrow>
          (case d path of
             None \<Rightarrow> Inl [OsError ''open'', ErrNotExist]
           | Some (NotRegular _) \<Rightarrow> Inl [OsError ''read'']
           | Some (Blob bs s m) \<Rightarrow> Inr (hexEncode (se_sha env bs))))"

definition reuse :: "store_env \<Rightarrow> gostr \<Rightarrow> gostr \<Rightarrow> gostr \<Rightarrow> st_disk \<Rightarrow> go_error + stored_media option" where
  "reuse env full rel wantSHA d =
     (case (case se_lstat env full of Some m \<Rightarrow> Inl [OsError m] | None \<Rightarrow> (case d full of None \<Rightarrow> Inl [ErrNotExist] | Some nd \<Rightarrow> Inr nd)) of
        Inl err \<Rightarrow> if errors_is err ErrNotExist then Inr None else Inl (Msg ''media: inspecting target'' # err)
      | Inr (NotRegular _) \<Rightarrow> Inl [ErrPathTraversal]
      | Inr (Blob bs s m) \<Rightarrow>
          (case sha256File env full d of
             Inl err \<Rightarrow> Inl (Msg ''media: hashing stored file'' # err)
           | Inr digest \<Rightarrow>
               if wantSHA \<noteq> [] \<and> \<not> EqualFold digest wantSHA then Inr None
               else Inr (Some \<lparr>sm_Path = full, sm_RelPath = rel, sm_SHA256 = digest, sm_Bytes = int (length bs), sm_Reused = True\<rparr>)))"

definition store_Download :: "store_env \<Rightarrow> store_config \<Rightarrow> gostr \<Rightarrow> store_request \<Rightarrow> store_world \<Rightarrow>
    (go_error + stored_media) \<times> store_world" where
  "store_Download env cfg token req w =
     (case relPath env req of
        Inl err \<Rightarrow> (Inl err, w)
      | Inr rel \<Rightarrow>
          (case store_resolve env cfg rel of
             Inl err \<Rightarrow> (Inl err, w)
           | Inr full \<Rightarrow>
               (case validateFilePath (rq_FilePath req) of
                  Some err \<Rightarrow> (Inl err, w)
                | None \<Rightarrow>
                    (case reuse env full rel (rq_ExpectedSHA256 req) (sw_disk w) of
                       Inl err \<Rightarrow> (Inl err, w)
                     | Inr (Some stored) \<Rightarrow> (Inr stored, w)
                     | Inr None \<Rightarrow>
                         (case se_mkdir env (path_dir full) of
                            Some err \<Rightarrow> (Inl (Msg ''media: creating directory'' # redactErr env err token), w)
                          | None \<Rightarrow>
                              (case fetchInto env cfg token full req w of
                                 (Inl err, w1) \<Rightarrow> (Inl err, w1)
                               | (Inr (digest, nbytes), w1) \<Rightarrow>
                                   (Inr \<lparr>sm_Path = full, sm_RelPath = rel, sm_SHA256 = digest, sm_Bytes = nbytes, sm_Reused = False\<rparr>, w1)))))))"

definition store_Verify :: "store_env \<Rightarrow> gostr \<Rightarrow> gostr \<Rightarrow> st_disk \<Rightarrow> go_error option" where
  "store_Verify env path wantSHA d =
     (if wantSHA = [] then Some [Msg ''media: expected sha256 is empty'']
      else case sha256File env path d of
          Inl err \<Rightarrow> Some err
        | Inr digest \<Rightarrow> if \<not> EqualFold digest wantSHA then Some [ErrHashMismatch] else None)"

section \<open>The generated path\<close>

text \<open>The components the package generates hold no dot, no separator, no backslash and no NUL.\<close>

definition tame :: "gostr \<Rightarrow> bool" where
  "tame c \<longleftrightarrow> c \<noteq> [] \<and> (\<forall>r \<in> set c. r \<noteq> 46 \<and> r \<noteq> sep \<and> r \<noteq> backslash \<and> r \<noteq> 0)"

lemma tame_digits: "c \<noteq> [] \<Longrightarrow> list_all (\<lambda>r. isDigit r \<or> r = 45) c \<Longrightarrow> tame c"
  by (auto simp: tame_def list_all_iff isDigit_def sep_def backslash_def)

lemma tame_dec_int: "tame (dec_int n)"
  using dec_digits [of "nat n"] dec_digits [of "nat (- n)"]
  by (auto intro!: tame_digits simp: dec_int_def list_all_iff)

lemma pad_digits: "pad k n \<noteq> [] \<and> list_all isDigit (pad k n)"
  using dec_digits [of n] by (auto simp: pad_def list_all_iff isDigit_def)

lemma hexDigit_range: "n < 16 \<Longrightarrow> (48 \<le> hexDigit n \<and> hexDigit n \<le> 57) \<or> (97 \<le> hexDigit n \<and> hexDigit n \<le> 102)"
  by (auto simp: hexDigit_def)

lemma hexEncode_range: "r \<in> set (hexEncode bs) \<Longrightarrow> (48 \<le> r \<and> r \<le> 57) \<or> (97 \<le> r \<and> r \<le> 102)"
proof -
  have "unat b < 256" for b :: byte using unsigned_less [of b, where ?'a = nat] by simp
  then have d: "unat b div 16 < 16" for b :: byte by (auto simp: less_mult_imp_div_less)
  assume "r \<in> set (hexEncode bs)"
  then obtain b :: byte where "r = hexDigit (unat b div 16) \<or> r = hexDigit (unat b mod 16)" by (auto simp: hexEncode_def)
  then show ?thesis using hexDigit_range [OF d [of b]] hexDigit_range [of "unat b mod 16"] by auto
qed

lemma length_hexEncode [simp]: "length (hexEncode bs) = 2 * length bs"
  by (induction bs) (simp_all add: hexEncode_def)

lemma hexEncode_valid: "length bs = 32 \<Longrightarrow> ValidateSHA256 (hexEncode bs) = None"
  using hexEncode_range [of _ bs] by (fastforce simp: ValidateSHA256_def list_ex_iff)

lemma storageKey_tame:
  assumes "\<And>bs. length (sha bs) = 32"
  shows "tame (storageKey sha i)"
proof (cases "0 < length i \<and> length i \<le> 128 \<and> list_all safe_byte i")
  case True
  then show ?thesis by (auto simp: storageKey_def tame_def list_all_iff safe_byte_def sep_def backslash_def)
next
  case False
  have "hexEncode (sha (utf8 i)) \<noteq> []" using assms [of "utf8 i"] length_hexEncode [of "sha (utf8 i)"] by force
  then show ?thesis
    using False hexEncode_range [of _ "sha (utf8 i)"] by (force simp: storageKey_def tame_def sep_def backslash_def)
qed

lemma clean_components_plain:
  "list_all tame ds \<Longrightarrow> clean_components rooted acc (cs @ ds) = clean_components rooted acc cs @ ds"
proof (induction rooted acc cs rule: clean_components.induct)
  case (1 rooted acc)
  then show ?case by (induction ds arbitrary: acc) (auto simp: tame_def)
qed auto

lemma clean_components_set: "set (clean_components rooted acc cs) \<subseteq> set acc \<union> set cs"
proof (induction cs arbitrary: acc)
  case (Cons c cs)
  have b: "set (butlast acc) \<subseteq> set acc" by (auto dest: in_set_butlastD)
  show ?case
    using Cons.IH [of acc] Cons.IH [of "butlast acc"] Cons.IH [of "acc @ [c]"] b
    by (simp only: clean_components.simps split: if_split) auto
qed simp

lemma components_append: "components (p @ sep # q) = components p @ components q"
proof -
  have "split_at sep word (p @ sep # q) = split_at sep word p @ split_at sep [] q" for word
    by (induction p arbitrary: word) auto
  then show ?thesis by (simp add: components_def)
qed

lemma components_no_sep: "c \<in> set (components p) \<Longrightarrow> sep \<notin> set c"
  using components_join [of p] by blast

lemma join_path_Nil_iff: "list_all tame cs \<Longrightarrow> join_path cs = [] \<longleftrightarrow> cs = []"
  by (cases cs rule: remdups_adj.cases) (auto simp: join_path_def tame_def)

lemma join_path_rel:
  assumes "list_all tame cs" "cs \<noteq> []"
  shows "path_join cs = join_path cs" "components (join_path cs) = cs" "\<not> IsAbs (join_path cs)" "46 \<notin> set (join_path cs)"
    "ValidateRelativePath (join_path cs) = None"
proof -
  show c: "components (join_path cs) = cs"
    by (rule components_join_path) (use assms in \<open>auto simp: list_all_iff tame_def\<close>)
  have chars: "r \<in> set (join_path cs) \<Longrightarrow> r = sep \<or> (\<exists>c \<in> set cs. r \<in> set c)" for r
    by (induction cs rule: induct_list012) (auto simp: join_path_def)
  have h: "hd (join_path cs) = hd (hd cs)"
    using assms by (cases cs rule: remdups_adj.cases) (auto simp: join_path_def tame_def hd_append)
  have ne: "join_path cs \<noteq> []" using join_path_Nil_iff assms by blast
  have hh: "hd (hd cs) \<noteq> sep" using assms by (cases cs) (auto simp: tame_def)
  show a: "\<not> IsAbs (join_path cs)" using h hh by (simp add: IsAbs_def)
  show "46 \<notin> set (join_path cs)" using chars [of 46] assms(1) by (auto simp: sep_def list_all_iff tame_def)
  have "filter (\<lambda>e. e \<noteq> []) cs = cs" using assms(1) by (auto simp: filter_id_conv list_all_iff tame_def)
  moreover have "clean_components False [] cs = cs" using clean_components_plain [OF assms(1), of False "[]" "[]"] by simp
  ultimately show "path_join cs = join_path cs"
    using a c ne assms(2) by (simp add: path_join_def path_clean_def Let_def)
  have "backslash \<notin> set (join_path cs)" "0 \<notin> set (join_path cs)"
    using chars [of backslash] chars [of 0] assms(1) by (auto simp: sep_def backslash_def list_all_iff tame_def)
  moreover have "\<not> list_ex (\<lambda>c. c = [] \<or> c = [46] \<or> c = [46, 46]) cs"
    using assms(1) by (auto simp: list_ex_iff list_all_iff tame_def)
  ultimately show "ValidateRelativePath (join_path cs) = None"
    using ne h hh c by (simp add: ValidateRelativePath_def)
qed

text \<open>The path of a request is four tame components, the first one the tenant.\<close>

lemma relPath_Inr:
  assumes "relPath env req = Inr rel" "\<And>bs. length (se_sha env bs) = 32"
  shows "\<exists>ym dd. rel = join_path [dec_int (rq_OwnerUserID req), ym, dd, storageKey (se_sha env) (rq_UniqueID req)] \<and>
    list_all tame [dec_int (rq_OwnerUserID req), ym, dd, storageKey (se_sha env) (rq_UniqueID req)]"
proof -
  obtain year month day where t: "se_today env = (year, month, day)" by (cases "se_today env")
  let ?cs = "[dec_int (rq_OwnerUserID req), pad 4 year @ [45] @ pad 2 month, pad 2 day, storageKey (se_sha env) (rq_UniqueID req)]"
  have "tame (pad 4 year @ [45] @ pad 2 month)" "tame (pad 2 day)"
    using pad_digits [of 4 year] pad_digits [of 2 month] pad_digits [of 2 day]
    by (auto intro!: tame_digits simp: list_all_iff)
  then have tame: "list_all tame ?cs" using storageKey_tame [OF assms(2)] tame_dec_int by simp
  then have "rel = join_path ?cs" using assms(1) t join_path_rel(1) [OF tame] by (simp add: relPath_def split: if_splits)
  then show ?thesis using tame by blast
qed

lemma last_join:
  assumes "list_all tame cs" "cs \<noteq> []"
  shows "last (components (path_join [root, join_path cs])) = last cs"
proof -
  note rel = join_path_rel [OF assms]
  have ne: "join_path cs \<noteq> []" using join_path_Nil_iff assms by blast
  show ?thesis
  proof (cases "root = []")
    case True
    have "clean_components False [] cs = cs" using clean_components_plain [OF assms(1), of False "[]" "[]"] by simp
    then show ?thesis using True ne rel assms(2) by (simp add: path_join_def path_clean_def join_path_def Let_def)
  next
    case False
    let ?q = "root @ sep # join_path cs" and ?x = "clean_components (IsAbs root) [] (components root)"
    have q: "path_join [root, join_path cs] = path_clean ?q" using False ne by (simp add: path_join_def join_path_def)
    have "components ?q = components root @ cs" using components_append rel(2) by simp
    then have cl: "clean_components (IsAbs ?q) [] (components ?q) = ?x @ cs"
      using clean_components_plain [OF assms(1)] False by (simp add: IsAbs_def)
    have "\<forall>c \<in> set (?x @ cs). sep \<notin> set c"
      using clean_components_set [of "IsAbs root" "[]" "components root"] components_no_sep assms(1)
      by (auto simp: list_all_iff tame_def)
    then have body: "components (join_path (?x @ cs)) = ?x @ cs" using assms(2) by (intro components_join_path) simp_all
    have "join_path (?x @ cs) \<noteq> []"
    proof
      assume "join_path (?x @ cs) = []"
      then have "?x @ cs = [[]]" using body by (simp add: components_def)
      then have "last cs = []" using assms(2) by (metis last.simps last_appendR)
      moreover have "tame (last cs)" using assms by (simp add: list_all_iff)
      ultimately show False by (simp add: tame_def)
    qed
    moreover have "components (sep # t) = [] # components t" for t using components_append [of "[]" t] by (simp add: components_def)
    ultimately show ?thesis using q cl body assms(2) by (simp add: path_clean_def Let_def)
  qed
qed

section \<open>What a crash can leave\<close>

text \<open>A crash keeps what was flushed, in every file the directory names at that moment, and says nothing of the rest. A
  rename that \<open>syncDir\<close> did not persist shows the directory before it, which is an earlier state of the history.\<close>

definition crashed :: "st_disk \<Rightarrow> st_disk \<Rightarrow> bool" where
  "crashed d d' \<longleftrightarrow> (\<forall>p. (\<forall>bs m. d p \<noteq> Some (Blob bs False m)) \<longrightarrow> d' p = d p)"

definition is_temp :: "gostr \<Rightarrow> bool" where
  "is_temp p \<longleftrightarrow> has_prefix TempPrefix (last (components p))"

text \<open>Every state of the disk since the first \<open>k\<close> of the history, the current one included.\<close>

definition always :: "nat \<Rightarrow> (st_disk \<Rightarrow> bool) \<Rightarrow> store_world \<Rightarrow> bool" where
  "always k P w \<longleftrightarrow> P (sw_disk w) \<and> (\<forall>d \<in> set (drop k (sw_history w)). P d)"

lemma always_disk_op: "always k P w \<Longrightarrow> P (f (sw_disk w)) \<Longrightarrow> always k P (disk_op f w)"
  using set_drop_subset [of "k - length (sw_history w)" "[f (sw_disk w)]"] by (auto simp: always_def disk_op_def)

lemma disk_op_simps [simp]:
  "sw_disk (disk_op f w) = f (sw_disk w)" "sw_requests (disk_op f w) = sw_requests w" "sw_waits (disk_op f w) = sw_waits w"
  by (simp_all add: disk_op_def)

lemma is_temp_temp_path: "is_temp (temp_path dir n)"
proof -
  have "sep \<notin> set (TempPrefix @ dec n)"
    using dec_digits [of n] by (auto simp: TempPrefix_def runes_def sep_def list_all_iff isDigit_def)
  then have c: "components (TempPrefix @ dec n) = [TempPrefix @ dec n]"
    using split_at_word [of sep "TempPrefix @ dec n" "[]" "[]"] by (simp add: components_def)
  obtain x where "temp_path dir n = x @ sep # TempPrefix @ dec n"
  proof (cases "dir \<noteq> [] \<and> last dir = sep")
    case True
    then have "dir = butlast dir @ [sep]" by (metis append_butlast_last_id)
    then have "temp_path dir n = butlast dir @ sep # TempPrefix @ dec n"
      using True by (simp add: temp_path_def)
    then show ?thesis by (rule that)
  next
    case False
    then have "temp_path dir n = dir @ sep # TempPrefix @ dec n" by (simp add: temp_path_def)
    then show ?thesis by (rule that)
  qed
  then show ?thesis using components_append [of x "TempPrefix @ dec n"] c by (simp add: is_temp_def has_prefix_def)
qed

text \<open>An operation on a blob changes the entry of its path only.\<close>

lemma at_path:
  "\<exists>x. append_blob p bs d = d(p := x)" "\<exists>x. flush_blob p d = d(p := x)" "\<exists>x. chmod_blob p mode d = d(p := x)"
  "\<exists>x. remove_blob p d = d(p := x)"
  by (auto simp: append_blob_def flush_blob_def chmod_blob_def remove_blob_def intro: fun_upd_triv [symmetric]
      split: option.splits st_node.splits)

text \<open>
  The contract of the writer with whoever reads the disk: \<open>P\<close> survives any change to a temporary file, and survives
  the publication of a flushed file that is accepted. Then \<open>P\<close> holds of every state the disk goes through.
\<close>

locale crash_invariant =
  fixes P :: "st_disk \<Rightarrow> bool" and full :: gostr and accepted :: "bytes \<Rightarrow> bool"
  assumes temp_stable: "P d \<Longrightarrow> is_temp p \<Longrightarrow> P (d(p := x))"
    and publishes: "P d \<Longrightarrow> is_temp p \<Longrightarrow> d p = Some (Blob bs True 416) \<Longrightarrow> accepted bs \<Longrightarrow> P (rename_blob p full d)"
begin

lemma always_temp: "always k P w \<Longrightarrow> is_temp p \<Longrightarrow> \<exists>x. f (sw_disk w) = (sw_disk w)(p := x) \<Longrightarrow> always k P (disk_op f w)"
  by (metis always_disk_op always_def temp_stable)

lemma always_copy:
  "always k P w \<Longrightarrow> is_temp tmp \<Longrightarrow> always k P (snd (copy_body a tmp i left chunks end_err hashed w))"
proof (induction a tmp i left chunks end_err hashed w rule: copy_body.induct)
  case (1 a tmp i left chunks end_err hashed w)
  show ?case
  proof (cases "left \<le> 0 \<or> chunks = []")
    case False
    then obtain chunk rest where c: "chunks = chunk # rest" "\<not> left \<le> 0" by (cases chunks) auto
    then show ?thesis
      using "1.IH" [OF c(2,1) refl] "1.prems" always_temp at_path(1)
      by (cases "ae_write a i") (simp_all add: copy_body_chunk)
  next
    case True
    then show ?thesis using "1.prems" by (cases "left \<le> 0") (auto simp: not_le copy_body_end)
  qed
qed

end

lemma copy_body_blob:
  "copy_body a tmp i left chunks end_err hashed w = ((None, data), w1) \<Longrightarrow> sw_disk w tmp = Some (Blob hashed s m) \<Longrightarrow>
    (\<exists>s m. sw_disk w1 tmp = Some (Blob data s m)) \<and>
    (int (length data) < int (length hashed) + left \<longrightarrow> data = hashed @ concat chunks \<and> end_err = None)"
proof (induction a tmp i left chunks end_err hashed w arbitrary: s m rule: copy_body.induct)
  case (1 a tmp i left chunks end_err hashed w)
  show ?case
  proof (cases "left \<le> 0 \<or> chunks = []")
    case True
    then show ?thesis using "1.prems" copy_body_end by (cases "left \<le> 0") (auto simp: not_le copy_body_end)
  next
    case False
    then obtain chunk rest where c: "chunks = chunk # rest" "\<not> left \<le> 0" by (cases chunks) auto
    let ?data = "take (nat left) chunk"
    have n: "ae_write a i = None" using "1.prems"(1) c by (cases "ae_write a i") (simp_all add: copy_body_chunk)
    then have r: "copy_body a tmp (Suc i) (left - int (length ?data)) rest end_err (hashed @ ?data)
        (disk_op (append_blob tmp ?data) w) = ((None, data), w1)"
      using "1.prems"(1) c by (simp add: copy_body_chunk)
    have "sw_disk (disk_op (append_blob tmp ?data) w) tmp = Some (Blob (hashed @ ?data) False m)"
      using "1.prems"(2) by (simp add: append_blob_def)
    note ih = "1.IH" [OF c(2,1) refl n r this]
    show ?thesis
    proof (intro conjI impI)
      show "\<exists>s m. sw_disk w1 tmp = Some (Blob data s m)" using ih by blast
      assume l: "int (length data) < int (length hashed) + left"
      then have d: "data = (hashed @ ?data) @ concat rest \<and> end_err = None" using ih by simp
      then have "int (length ?data) < left" using l by (simp del: length_take)
      then have "?data = chunk" using c(2) by (cases "length chunk \<le> nat left") auto
      then show "data = hashed @ concat chunks" using d c by simp
      show "end_err = None" using d by simp
    qed
  qed
qed

text \<open>What a complete body has passed when it is published, and the answer it comes from.\<close>

definition within_limit :: "store_env \<Rightarrow> store_config \<Rightarrow> gostr \<Rightarrow> bytes \<Rightarrow> bool" where
  "within_limit env cfg wantSHA bs \<longleftrightarrow>
     int (length bs) \<le> so_MaxBytes cfg \<and> (wantSHA = [] \<or> EqualFold (hexEncode (se_sha env bs)) wantSHA)"

definition usable_limit :: "store_config \<Rightarrow> bool" where
  "usable_limit cfg \<longleftrightarrow> 0 < so_MaxBytes cfg \<and> so_MaxBytes cfg < 2 ^ 63 - 1"

definition answered :: "store_env \<Rightarrow> store_config \<Rightarrow> gostr \<Rightarrow> store_request \<Rightarrow> bytes \<Rightarrow> bool" where
  "answered env cfg token req bs \<longleftrightarrow> within_limit env cfg (rq_ExpectedSHA256 req) bs \<and>
     (\<exists>i len chunks. snd (http_Do 10 (the_client cfg) (ae_server (se_attempt env i)) (store_endpoint cfg token req) None) =
        Inr (statusOK, len, chunks, None) \<and> bs = concat chunks)"

lemma answeredI:
  "http_Do 10 (the_client cfg) (ae_server (se_attempt env i)) (store_endpoint cfg token req) None =
      (sent, Inr (statusOK, len, chunks, None)) \<Longrightarrow>
    within_limit env cfg (rq_ExpectedSHA256 req) (concat chunks) \<Longrightarrow> answered env cfg token req (concat chunks)"
  unfolding answered_def by (intro conjI exI [of _ i] exI [of _ len] exI [of _ chunks]) simp_all

text \<open>What a success says of the file.\<close>

definition landed :: "store_env \<Rightarrow> gostr \<Rightarrow> (bytes \<Rightarrow> bool) \<Rightarrow> (go_error + gostr \<times> i64) \<Rightarrow> st_disk \<Rightarrow> bool" where
  "landed env full accepted r d \<longleftrightarrow> (\<forall>digest n. r = Inr (digest, n) \<longrightarrow>
     (\<exists>bs. d full = Some (Blob bs True 416) \<and> accepted bs \<and> digest = hexEncode (se_sha env bs) \<and> n = int (length bs)))"

lemma landed_Inl [simp]: "landed env full accepted (Inl err) d"
  by (simp add: landed_def)

context crash_invariant
begin

lemma publish_always:
  assumes "always k P w" "is_temp tmp" "sw_disk w tmp = Some (Blob [] False m)" "usable_limit cfg" "tmp \<noteq> full"
    and "\<And>bs. end_err = None \<Longrightarrow> bs = concat chunks \<Longrightarrow> within_limit env cfg wantSHA bs \<Longrightarrow> accepted bs"
    and r: "publish env cfg a token tmp full chunks end_err wantSHA w = (r, w')"
  shows "always k P w' \<and> landed env full accepted r (sw_disk w')"
proof -
  let ?limit = "wrap64 (so_MaxBytes cfg + 1)"
  obtain e data w1 where c: "copy_body a tmp 0 ?limit chunks end_err [] w = ((e, data), w1)"
    by (metis surj_pair)
  have a1: "always k P w1" using always_copy [OF assms(1,2)] c by (metis snd_conv)
  have l: "?limit = so_MaxBytes cfg + 1" using assms(4) by (intro wrap64_id) (simp add: usable_limit_def in_i64_def)
  show ?thesis
  proof (cases "e = None \<and> \<not> so_MaxBytes cfg < int (length data) \<and>
      \<not> (wantSHA \<noteq> [] \<and> \<not> EqualFold (hexEncode (se_sha env data)) wantSHA)")
    case False
    then show ?thesis using r a1 c by (cases e) (auto simp: publish_def Let_def split: if_splits)
  next
    case True
    then have ok: "within_limit env cfg wantSHA data" by (auto simp: within_limit_def)
    obtain s m where "sw_disk w1 tmp = Some (Blob data s m)" "data = concat chunks" "end_err = None"
      using copy_body_blob [OF c [unfolded conjunct1 [OF True]] assms(3)] True l by auto
    then have acc: "accepted data" and b1: "sw_disk w1 tmp = Some (Blob data s m)" using assms(6) ok by auto
    let ?w2 = "disk_op (flush_blob tmp) w1" let ?w3 = "disk_op (chmod_blob tmp 416) ?w2" let ?w4 = "disk_op (rename_blob tmp full) ?w3"
    have a2: "always k P ?w2" using always_temp [OF a1 assms(2), of "flush_blob tmp"] at_path(2) by blast
    have a3: "always k P ?w3" using always_temp [OF a2 assms(2), of "chmod_blob tmp 416"] at_path(3) by blast
    have b3: "sw_disk ?w3 tmp = Some (Blob data True 416)" using b1 by (simp add: flush_blob_def chmod_blob_def)
    have "P (sw_disk ?w3)" using a3 by (simp only: always_def)
    then have a4: "always k P ?w4" using publishes [of "sw_disk ?w3" tmp data] assms(2) b3 acc always_disk_op [OF a3] by simp
    have b4: "sw_disk ?w4 full = Some (Blob data True 416)" using b3 assms(5) by (simp add: rename_blob_def)
    consider (failed) err where "r = Inl err" "w' \<in> {w1, ?w2, ?w3}"
      | (written) "r = Inr (hexEncode (se_sha env data), int (length data))" "w' = ?w4"
      using r c True by (auto simp: publish_def Let_def split: option.splits if_splits)
    then show ?thesis
    proof cases
      case failed
      then show ?thesis using a1 a2 a3 by auto
    next
      case written
      then show ?thesis using a4 b4 acc by (auto simp: landed_def)
    qed
  qed
qed

lemma writeAtomically_always:
  assumes "always k P w" "\<not> is_temp full" "usable_limit cfg"
    and "\<And>bs. end_err = None \<Longrightarrow> bs = concat chunks \<Longrightarrow> within_limit env cfg wantSHA bs \<Longrightarrow> accepted bs"
    and r: "writeAtomically env cfg a token full chunks end_err wantSHA w = (r, w')"
  shows "always k P w' \<and> landed env full accepted r (sw_disk w')"
proof (cases "CreateTemp a (path_dir full) w")
  case (Pair t w1)
  show ?thesis
  proof (cases t)
    case (Inl err)
    then have "w1 = w" using Pair by (auto simp: CreateTemp_def split: option.splits)
    then show ?thesis using r Pair Inl assms(1) by (auto simp: writeAtomically_def)
  next
    case (Inr tmp)
    then obtain n where n: "tmp = temp_path (path_dir full) n" "w1 = disk_op (\<lambda>d. d(tmp \<mapsto> Blob [] False 384)) w"
      using Pair by (auto simp: CreateTemp_def split: option.splits)
    have t: "is_temp tmp" "tmp \<noteq> full" by (metis is_temp_temp_path n(1) assms(2))+
    have a1: "always k P w1" unfolding n(2) by (rule always_temp [OF assms(1) t(1)]) auto
    have b1: "sw_disk w1 tmp = Some (Blob [] False 384)" using n(2) by simp
    obtain r2 w2 where p: "publish env cfg a token tmp full chunks end_err wantSHA w1 = (r2, w2)" by (metis surj_pair)
    have a2: "always k P w2 \<and> landed env full accepted r2 (sw_disk w2)"
      by (rule publish_always [OF a1 t(1) b1 assms(3) t(2) assms(4) p])
    have "r = r2" "w' = drop_temp a tmp w2" using r Pair Inr p by (simp_all add: writeAtomically_def)
    moreover have "always k P (drop_temp a tmp w2)"
      using always_temp [of k w2 tmp "remove_blob tmp"] a2 t(1) at_path(4) by (simp add: drop_temp_def)
    moreover have "sw_disk (drop_temp a tmp w2) full = sw_disk w2 full" using t(2) by (simp add: drop_temp_def remove_blob_def)
    ultimately show ?thesis using a2 by (simp add: landed_def)
  qed
qed

lemma attempt_always:
  assumes "always k P w" "\<not> is_temp full" "usable_limit cfg" "\<And>bs. answered env cfg token req bs \<Longrightarrow> accepted bs"
    and r: "attempt env cfg (se_attempt env i) token full req w = (r, w')"
  shows "always k P w' \<and> landed env full accepted r (sw_disk w')"
proof -
  let ?a = "se_attempt env i"
  obtain sent res where d: "http_Do 10 (the_client cfg) (ae_server ?a) (store_endpoint cfg token req) None = (sent, res)"
    by (metis surj_pair)
  let ?w1 = "w\<lparr>sw_requests := sw_requests w @ sent\<rparr>"
  have a1: "always k P ?w1" using assms(1) by (simp add: always_def)
  consider (failed) err where "r = Inl err" "w' = w \<or> w' = ?w1"
    | (body) len chunks end_err where "res = Inr (statusOK, len, chunks, end_err)"
        "writeAtomically env cfg ?a token full chunks end_err (rq_ExpectedSHA256 req) ?w1 = (r, w')"
    using r d by (auto simp: attempt_def Let_def split: option.splits sum.splits if_splits)
  then show ?thesis
  proof cases
    case failed
    then show ?thesis using assms(1) a1 by auto
  next
    case body
    show ?thesis
      by (rule writeAtomically_always [OF a1 assms(2,3) _ body(2)]) (use assms(4) answeredI d body(1) in auto)
  qed
qed

lemma fetch_attempts_always:
  assumes "always k P w" "\<not> is_temp full" "usable_limit cfg" "\<And>bs. answered env cfg token req bs \<Longrightarrow> accepted bs"
    and "fetch_attempts env cfg token full req n i backoff lastErr w = (r, w')"
    and "0 < n \<or> lastErr \<noteq> None"
  shows "always k P w' \<and> landed env full accepted r (sw_disk w')"
  using assms(1,5,6)
proof (induction n arbitrary: i backoff lastErr w)
  case 0
  then show ?case by auto
next
  case (Suc n)
  let ?a = "se_attempt env i"
  let ?w = "if 0 < i then w\<lparr>sw_waits := sw_waits w @ [backoff]\<rparr> else w"
  have a0: "always k P ?w" using Suc.prems(1) by (simp add: always_def)
  obtain r1 w1 where t: "attempt env cfg ?a token full req ?w = (r1, w1)" by (metis surj_pair)
  note a1 = attempt_always [OF a0 assms(2-4) t]
  consider (cancelled) err where "r = Inl err" "w' = w" | (ended) "r = r1" "w' = w1"
    | (again) err backoff' where "r1 = Inl err" "fetch_attempts env cfg token full req n (Suc i) backoff' (Some err) w1 = (r, w')"
  proof (cases "if 0 < i then ae_wait ?a else None")
    case (Some err)
    then have "r = Inl err" "w' = w" using Suc.prems(2) by (simp_all add: Let_def)
    then show ?thesis by (rule cancelled)
  next
    case None
    note step = Suc.prems(2) [unfolded fetch_attempts.simps Let_def None option.case t prod.case]
    show ?thesis
    proof (cases r1)
      case (Inl err)
      show ?thesis
      proof (cases "retryable err")
        case True
        then have "fetch_attempts env cfg token full req n (Suc i) (if 0 < i then wrap64 (backoff * 2) else backoff) (Some err) w1 = (r, w')"
          using step Inl by simp
        then show ?thesis by (rule again [OF Inl])
      next
        case False
        then have "r = r1" "w' = w1" using step Inl by simp_all
        then show ?thesis by (rule ended)
      qed
    next
      case (Inr x)
      then have "r = r1" "w' = w1" using step by simp_all
      then show ?thesis by (rule ended)
    qed
  qed
  then show ?case
  proof cases
    case cancelled
    then show ?thesis using Suc.prems(1) by auto
  next
    case ended
    then show ?thesis using a1 by blast
  next
    case again
    show ?thesis by (rule Suc.IH [OF _ again(2)]) (use a1 in auto)
  qed
qed

end

section \<open>The promises of a download\<close>

text \<open>A reader of the disk sees at the target the file that was there, or a complete answer that was flushed; and
  nothing else but temporary files has changed.\<close>

definition published :: "gostr \<Rightarrow> (bytes \<Rightarrow> bool) \<Rightarrow> st_disk \<Rightarrow> st_disk \<Rightarrow> bool" where
  "published full accepted before d \<longleftrightarrow>
     (is_temp full \<or> d full = before full \<or> (\<exists>bs. d full = Some (Blob bs True 416) \<and> accepted bs)) \<and>
     (\<forall>p. p \<noteq> full \<longrightarrow> \<not> is_temp p \<longrightarrow> d p = before p)"

interpretation download: crash_invariant "published full accepted before" full accepted for full accepted before
  by unfold_locales (auto simp: published_def rename_blob_def)

lemma relPath_last:
  assumes "relPath env req = Inr rel" "store_resolve env cfg rel = Inr full" "\<And>bs. length (se_sha env bs) = 32"
  shows "last (components full) = storageKey (se_sha env) (rq_UniqueID req)" "\<not> is_temp full"
proof -
  obtain ym dd where cs: "rel = join_path [dec_int (rq_OwnerUserID req), ym, dd, storageKey (se_sha env) (rq_UniqueID req)]"
      "list_all tame [dec_int (rq_OwnerUserID req), ym, dd, storageKey (se_sha env) (rq_UniqueID req)]"
    using relPath_Inr [OF assms(1,3)] by blast
  obtain root where root: "full = path_join [root, rel]"
    using assms(2) by (auto simp: store_resolve_def Let_def split: if_splits sum.splits)
  then show l: "last (components full) = storageKey (se_sha env) (rq_UniqueID req)" using last_join [OF cs(2)] cs(1) by simp
  have "tame (storageKey (se_sha env) (rq_UniqueID req))" by (rule storageKey_tame [OF assms(3)])
  then have "take (length TempPrefix) (storageKey (se_sha env) (rq_UniqueID req)) \<noteq> TempPrefix"
    by (cases "storageKey (se_sha env) (rq_UniqueID req)") (auto simp: tame_def TempPrefix_def runes_def)
  then show "\<not> is_temp full" using l by (simp add: is_temp_def has_prefix_def)
qed

text \<open>How a download ends: an error before anything is written, the file that was already there, or the attempts.\<close>

lemma store_Download_cases:
  assumes "store_Download env cfg token req w = (r, w')"
  obtains (refused) err where "r = Inl err" "w' = w"
  | (kept) rel full bs s m where "relPath env req = Inr rel" "store_resolve env cfg rel = Inr full" "w' = w"
      "sw_disk w full = Some (Blob bs s m)"
      "rq_ExpectedSHA256 req = [] \<or> EqualFold (hexEncode (se_sha env bs)) (rq_ExpectedSHA256 req)"
      "r = Inr \<lparr>sm_Path = full, sm_RelPath = rel, sm_SHA256 = hexEncode (se_sha env bs), sm_Bytes = int (length bs), sm_Reused = True\<rparr>"
  | (fetched) rel full res where "relPath env req = Inr rel" "store_resolve env cfg rel = Inr full"
      "validateFilePath (rq_FilePath req) = None" "reuse env full rel (rq_ExpectedSHA256 req) (sw_disk w) = Inr None"
      "fetchInto env cfg token full req w = (res, w')"
      "r = map_sum id (\<lambda>(digest, n). \<lparr>sm_Path = full, sm_RelPath = rel, sm_SHA256 = digest, sm_Bytes = n, sm_Reused = False\<rparr>) res"
proof (cases "relPath env req")
  case (Inl err)
  then show ?thesis using assms refused by (auto simp: store_Download_def)
next
  case rel: (Inr rel)
  show ?thesis
  proof (cases "store_resolve env cfg rel")
    case (Inl err)
    then show ?thesis using assms rel refused by (auto simp: store_Download_def)
  next
    case full: (Inr full)
    show ?thesis
    proof (cases "validateFilePath (rq_FilePath req)")
      case (Some err)
      then show ?thesis using assms rel full refused by (auto simp: store_Download_def)
    next
      case None
      note step = assms [unfolded store_Download_def rel full None sum.case option.case]
      show ?thesis
      proof (cases "reuse env full rel (rq_ExpectedSHA256 req) (sw_disk w)")
        case (Inl err)
        then show ?thesis using step refused by auto
      next
        case reused: (Inr old)
        show ?thesis
        proof (cases old)
          case (Some stored)
          then obtain bs s m where "sw_disk w full = Some (Blob bs s m)"
              "rq_ExpectedSHA256 req = [] \<or> EqualFold (hexEncode (se_sha env bs)) (rq_ExpectedSHA256 req)"
              "stored = \<lparr>sm_Path = full, sm_RelPath = rel, sm_SHA256 = hexEncode (se_sha env bs), sm_Bytes = int (length bs), sm_Reused = True\<rparr>"
            using reused by (auto simp: reuse_def sha256File_def split: option.splits sum.splits st_node.splits if_splits)
          then show ?thesis using kept [OF rel full] step reused Some by auto
        next
          case fresh: None
          show ?thesis
          proof (cases "se_mkdir env (path_dir full)")
            case (Some err)
            then show ?thesis using step reused fresh refused by auto
          next
            case mk: None
            obtain res w1 where f: "fetchInto env cfg token full req w = (res, w1)" by (metis surj_pair)
            then have "w' = w1" "r = map_sum id (\<lambda>(digest, n). \<lparr>sm_Path = full, sm_RelPath = rel, sm_SHA256 = digest, sm_Bytes = n, sm_Reused = False\<rparr>) res"
              using step reused fresh mk by (auto split: sum.splits prod.splits)
            then show ?thesis using fetched [OF rel full None] f reused fresh by auto
          qed
        qed
      qed
    qed
  qed
qed

lemma fetchInto_published:
  assumes "fetchInto env cfg token full req w = (r, w')" "\<not> is_temp full" "usable_limit cfg" "0 \<le> so_Retries cfg"
  shows "always (length (sw_history w)) (published full (answered env cfg token req) (sw_disk w)) w' \<and>
    landed env full (answered env cfg token req) r (sw_disk w')"
  by (rule download.fetch_attempts_always [OF _ assms(2,3) _ assms(1) [unfolded fetchInto_def]])
    (use assms(4) in \<open>auto simp: always_def published_def\<close>)

text \<open>What a download does to the other files, and to the target when no digest is asked for.\<close>

lemma store_Download_frame:
  assumes "store_Download env cfg token req w = (r, w')" "rq_ExpectedSHA256 req = []" "\<And>bs. length (se_sha env bs) = 32"
    and "usable_limit cfg" "0 \<le> so_Retries cfg" "\<not> is_temp p"
  shows "sw_disk w' p = sw_disk w p \<or> (\<forall>bs s m. sw_disk w p \<noteq> Some (Blob bs s m)) \<and> (\<exists>bs. sw_disk w' p = Some (Blob bs True 416))"
  using assms(1)
proof (cases rule: store_Download_cases)
  case (fetched rel full res)
  have t: "\<not> is_temp full" by (rule relPath_last(2) [OF fetched(1,2) assms(3)])
  have "published full (answered env cfg token req) (sw_disk w) (sw_disk w')"
    using fetchInto_published [OF fetched(5) t assms(4,5)] by (simp add: always_def)
  moreover have "sw_disk w full \<noteq> Some (Blob bs s m)" for bs s m
    using fetched(4) assms(2) by (auto simp: reuse_def sha256File_def errors_is_def split: option.splits st_node.splits sum.splits)
  ultimately show ?thesis using t assms(6) by (cases "p = full") (auto simp: published_def)
qed simp_all

lemma store_New_Inr:
  assumes "store_New raw = Inr cfg" "so_MaxBytes raw < 2 ^ 63 - 1"
  shows "usable_limit cfg" "0 \<le> so_Retries cfg" "hc_follows (the_client cfg) = False"
  using assms by (auto simp: store_New_def usable_limit_def the_client_def noRedirect_def defaultMaxBytes_def
      defaultRetries_def split: if_splits option.splits)

text \<open>C5. Crash safety of a download. At every moment of a download, whatever the network, the kernel and the contexts
  do, a crash leaves at the final path either what was there before or the complete body of a 200 answer, flushed,
  within the size limit and with the expected digest when one is asked for; and no other path has changed but
  those of temporary files.\<close>

theorem crash_leaves_whole_file:
  assumes "store_New raw = Inr cfg" "so_MaxBytes raw < 2 ^ 63 - 1" "\<And>bs. length (se_sha env bs) = 32"
    and "store_Download env cfg token req w = (r, w')"
    and "relPath env req = Inr rel" "store_resolve env cfg rel = Inr full"
    and "\<And>bs m. sw_disk w full \<noteq> Some (Blob bs False m)"
    and "d = sw_disk w' \<or> d \<in> set (drop (length (sw_history w)) (sw_history w'))" "crashed d d'"
  shows "(d' full = sw_disk w full \<or> (\<exists>bs. d' full = Some (Blob bs True 416) \<and> answered env cfg token req bs)) \<and>
    (\<forall>p. p \<noteq> full \<longrightarrow> \<not> is_temp p \<longrightarrow> d p = sw_disk w p)"
proof -
  have "published full (answered env cfg token req) (sw_disk w) d"
    using assms(4)
  proof (cases rule: store_Download_cases)
    case (fetched rel' full' res)
    then show ?thesis
      using fetchInto_published [OF fetched(5) relPath_last(2) [OF fetched(1,2) assms(3)]]
        store_New_Inr [OF assms(1,2)] assms(5,6,8) by (auto simp: always_def)
  qed (use assms(8) in \<open>auto simp: published_def\<close>)
  then have p: "d full = sw_disk w full \<or> (\<exists>bs. d full = Some (Blob bs True 416) \<and> answered env cfg token req bs)"
      "\<forall>p. p \<noteq> full \<longrightarrow> \<not> is_temp p \<longrightarrow> d p = sw_disk w p"
    using relPath_last(2) [OF assms(5,6,3)] by (auto simp: published_def)
  moreover have "d' full = d full" using assms(9) p(1) assms(7) by (auto simp: crashed_def)
  ultimately show ?thesis by simp
qed

lemma store_Download_result:
  assumes "store_New raw = Inr cfg" "so_MaxBytes raw < 2 ^ 63 - 1" "\<And>bs. length (se_sha env bs) = 32"
    and "store_Download env cfg token req w = (Inr m, w')"
  obtains full bs s mode where "relPath env req = Inr (sm_RelPath m)" "store_resolve env cfg (sm_RelPath m) = Inr full"
    "sm_Path m = full" "sw_disk w' full = Some (Blob bs s mode)" "sm_SHA256 m = hexEncode (se_sha env bs)"
    "sm_Bytes m = int (length bs)"
    "rq_ExpectedSHA256 req = [] \<or> EqualFold (hexEncode (se_sha env bs)) (rq_ExpectedSHA256 req)"
    "sm_Reused m \<or> within_limit env cfg (rq_ExpectedSHA256 req) bs" "sm_Reused m \<longrightarrow> w' = w"
  using assms(4)
proof (cases rule: store_Download_cases)
  case (kept rel full bs s mode)
  then show ?thesis using that [of full bs s mode] by auto
next
  case (fetched rel full res)
  then obtain digest n where res: "res = Inr (digest, n)"
    "m = \<lparr>sm_Path = full, sm_RelPath = rel, sm_SHA256 = digest, sm_Bytes = n, sm_Reused = False\<rparr>"
    by (cases res) auto
  then obtain bs where "sw_disk w' full = Some (Blob bs True 416)" "answered env cfg token req bs"
      "digest = hexEncode (se_sha env bs)" "n = int (length bs)"
    using fetchInto_published [OF fetched(5) relPath_last(2) [OF fetched(1,2) assms(3)]]
      store_New_Inr [OF assms(1,2)] by (auto simp: landed_def)
  then show ?thesis using that [of full bs True 416] fetched(1,2) res by (auto simp: answered_def within_limit_def)
qed simp

text \<open>C21. What a download returns is what the disk holds and what the catalogue accepts: the path it records is valid
  and starts with the tenant, as the purge requires; the digest is well formed, is the one of the bytes at the
  path, matches the expected one, and the size is theirs, within the limit unless the file was already there.\<close>

theorem stored_file_fits_catalogue:
  assumes "store_New raw = Inr cfg" "so_MaxBytes raw < 2 ^ 63 - 1" "\<And>bs. length (se_sha env bs) = 32"
    and "store_Download env cfg token req w = (Inr m, w')"
  shows "ValidateRelativePath (sm_RelPath m) = None \<and> ValidateSHA256 (sm_SHA256 m) = None \<and>
    length (components (sm_RelPath m)) = 4 \<and> hd (components (sm_RelPath m)) = dec_int (rq_OwnerUserID req) \<and>
    (\<exists>bs s mode. sw_disk w' (sm_Path m) = Some (Blob bs s mode) \<and> sm_SHA256 m = hexEncode (se_sha env bs) \<and>
      sm_Bytes m = int (length bs) \<and> (sm_Reused m \<or> sm_Bytes m \<le> so_MaxBytes cfg) \<and>
      (rq_ExpectedSHA256 req = [] \<or> EqualFold (sm_SHA256 m) (rq_ExpectedSHA256 req)))"
proof -
  obtain full bs s mode where d: "relPath env req = Inr (sm_RelPath m)" "sm_Path m = full"
    "sw_disk w' full = Some (Blob bs s mode)" "sm_SHA256 m = hexEncode (se_sha env bs)" "sm_Bytes m = int (length bs)"
    "rq_ExpectedSHA256 req = [] \<or> EqualFold (hexEncode (se_sha env bs)) (rq_ExpectedSHA256 req)"
    "sm_Reused m \<or> within_limit env cfg (rq_ExpectedSHA256 req) bs"
    using store_Download_result [OF assms] by metis
  obtain ym dd where cs: "sm_RelPath m = join_path [dec_int (rq_OwnerUserID req), ym, dd, storageKey (se_sha env) (rq_UniqueID req)]"
    "list_all tame [dec_int (rq_OwnerUserID req), ym, dd, storageKey (se_sha env) (rq_UniqueID req)]"
    using relPath_Inr [OF d(1) assms(3)] by blast
  show ?thesis
    using join_path_rel(2,5) [OF cs(2)] cs(1) d(2-7) hexEncode_valid [OF assms(3)] by (auto simp: within_limit_def)
qed

text \<open>C40. A download is idempotent: run again for the same request on the same day, over the disk the first one left
  and with the target readable, it returns the same file without a request to the network or a change to the disk.\<close>

theorem replayed_download_reuses:
  assumes "store_New raw = Inr cfg" "so_MaxBytes raw < 2 ^ 63 - 1" "\<And>bs. length (se_sha env bs) = 32"
    and "store_Download env cfg token req w = (Inr m, w')"
    and "se_today env' = se_today env" "se_sha env' = se_sha env" "se_cwd env' = se_cwd env"
    and "se_lstat env' (sm_Path m) = None" "se_read env' (sm_Path m) = None"
  shows "store_Download env' cfg token' req w' = (Inr (m\<lparr>sm_Reused := True\<rparr>), w')"
proof -
  obtain full bs s mode where d: "relPath env req = Inr (sm_RelPath m)" "store_resolve env cfg (sm_RelPath m) = Inr full"
    "sm_Path m = full" "sw_disk w' full = Some (Blob bs s mode)" "sm_SHA256 m = hexEncode (se_sha env bs)"
    "sm_Bytes m = int (length bs)"
    "rq_ExpectedSHA256 req = [] \<or> EqualFold (hexEncode (se_sha env bs)) (rq_ExpectedSHA256 req)"
    using store_Download_result [OF assms(1-4)] by metis
  have same: "relPath env' req = relPath env req" "store_resolve env' cfg = store_resolve env cfg"
    using assms(5-7) by (simp add: relPath_def) (intro ext, simp add: store_resolve_def assms(7))
  have v: "validateFilePath (rq_FilePath req) = None"
    using assms(4) d(1,2) by (auto simp: store_Download_def split: option.splits)
  have "reuse env' full (sm_RelPath m) (rq_ExpectedSHA256 req) (sw_disk w') = Inr (Some (m\<lparr>sm_Reused := True\<rparr>))"
    using d(3-7) assms(6,8,9) by (cases m) (auto simp: reuse_def sha256File_def)
  then show ?thesis using same d(1,2) v by (simp add: store_Download_def)
qed

section \<open>The requests and the waits\<close>

definition same_traffic :: "store_world \<Rightarrow> store_world \<Rightarrow> bool" where
  "same_traffic w w' \<longleftrightarrow> sw_requests w' = sw_requests w \<and> sw_waits w' = sw_waits w"

lemma same_traffic_copy: "same_traffic w (snd (copy_body a tmp i left chunks end_err hashed w))"
proof (induction a tmp i left chunks end_err hashed w rule: copy_body.induct)
  case (1 a tmp i left chunks end_err hashed w)
  show ?case
  proof (cases "left \<le> 0 \<or> chunks = []")
    case True
    then show ?thesis by (cases "left \<le> 0") (auto simp: same_traffic_def not_le copy_body_end)
  next
    case False
    then obtain chunk rest where c: "chunks = chunk # rest" "\<not> left \<le> 0" by (cases chunks) auto
    then show ?thesis
      using "1.IH" [OF c(2,1) refl] by (cases "ae_write a i") (simp_all add: copy_body_chunk same_traffic_def)
  qed
qed

lemma same_traffic_write: "same_traffic w (snd (writeAtomically env cfg a token full chunks end_err wantSHA w))"
proof -
  have t: "same_traffic w1 (snd (publish env cfg a token tmp full chunks end_err wantSHA w1))" for tmp w1
    using same_traffic_copy [of w1 a tmp 0 "wrap64 (so_MaxBytes cfg + 1)" chunks end_err "[]"]
    by (auto simp: publish_def Let_def same_traffic_def split: prod.splits option.splits)
  have c: "same_traffic w (snd (CreateTemp a dir w))" for dir
    by (auto simp: CreateTemp_def same_traffic_def split: option.splits)
  show ?thesis
  proof (cases "CreateTemp a (path_dir full) w")
    case (Pair r w1)
    then have w1: "same_traffic w w1" using c [of "path_dir full"] by simp
    show ?thesis
    proof (cases r)
      case (Inr tmp)
      then show ?thesis using Pair w1 t [of w1 tmp]
        by (cases "publish env cfg a token tmp full chunks end_err wantSHA w1")
          (simp add: writeAtomically_def drop_temp_def same_traffic_def)
    qed (use Pair w1 in \<open>simp add: writeAtomically_def\<close>)
  qed
qed

lemma http_Do_once: "\<not> hc_follows client \<Longrightarrow> fst (http_Do hops client server url referer) = [(url, referer)]"
  by (subst http_Do.simps) (simp split: http_answer.splits)

lemma attempt_traffic:
  assumes "\<not> hc_follows (the_client cfg)"
  shows "\<exists>k \<le> 1. sw_requests (snd (attempt env cfg a token full req w)) =
      sw_requests w @ replicate k (store_endpoint cfg token req, None) \<and>
    sw_waits (snd (attempt env cfg a token full req w)) = sw_waits w"
proof (cases "ae_request a")
  case (Some err)
  then show ?thesis by (intro exI [of _ 0]) (simp add: attempt_def)
next
  case None
  obtain res where d: "http_Do 10 (the_client cfg) (ae_server a) (store_endpoint cfg token req) None =
      ([(store_endpoint cfg token req, None)], res)"
    using http_Do_once [OF assms] by (metis prod.collapse)
  show ?thesis
    using None d same_traffic_write [of "w\<lparr>sw_requests := sw_requests w @ [(store_endpoint cfg token req, None)]\<rparr>"]
    by (intro exI [of _ 1]) (auto simp: attempt_def Let_def same_traffic_def split: sum.splits prod.splits)
qed

text \<open>The delay before the retry number \<open>k\<close>.\<close>

definition backoff_at :: "duration \<Rightarrow> nat \<Rightarrow> duration" where
  "backoff_at backoff k = ((\<lambda>b. wrap64 (b * 2)) ^^ k) backoff"

lemma backoff_at_Suc: "backoff_at (wrap64 (backoff * 2)) k = backoff_at backoff (Suc k)"
  by (simp add: backoff_at_def funpow_Suc_right del: funpow.simps(2))

lemma map_backoff_at: "map (backoff_at backoff) [0..<Suc j] = backoff # map (backoff_at (wrap64 (backoff * 2))) [0..<j]"
  unfolding upt_conv_Cons [OF zero_less_Suc] map_Suc_upt [symmetric]
  by (simp add: backoff_at_Suc backoff_at_def [of backoff 0] del: upt_Suc)

lemma fetch_attempts_traffic:
  assumes "\<not> hc_follows (the_client cfg)"
  shows "\<exists>k \<le> n. \<exists>j \<le> (if 0 < i then n else n - 1).
    sw_requests (snd (fetch_attempts env cfg token full req n i backoff lastErr w)) =
      sw_requests w @ replicate k (store_endpoint cfg token req, None) \<and>
    sw_waits (snd (fetch_attempts env cfg token full req n i backoff lastErr w)) =
      sw_waits w @ map (backoff_at backoff) [0..<j]"
proof (induction n arbitrary: i backoff lastErr w)
  case (Suc n)
  let ?a = "se_attempt env i" and ?w = "if 0 < i then w\<lparr>sw_waits := sw_waits w @ [backoff]\<rparr> else w"
  let ?run = "fetch_attempts env cfg token full req (Suc n) i backoff lastErr w"
  show ?case
  proof (cases "if 0 < i then ae_wait ?a else None")
    case (Some err)
    then show ?thesis by (intro exI [of _ 0] conjI) simp_all
  next
    case None
    obtain r1 w1 where t: "attempt env cfg ?a token full req ?w = (r1, w1)" by (metis surj_pair)
    obtain k where k: "k \<le> 1" "sw_requests w1 = sw_requests w @ replicate k (store_endpoint cfg token req, None)"
        "sw_waits w1 = (if 0 < i then sw_waits w @ [backoff] else sw_waits w)"
      using attempt_traffic [OF assms, of env ?a token full req ?w] t by auto
    show ?thesis
    proof (cases "\<exists>err. r1 = Inl err \<and> retryable err")
      case False
      then have "snd ?run = w1" using None t by (cases r1) (auto simp: Let_def)
      then show ?thesis using k by (intro exI [of _ k] conjI exI [of _ "if 0 < i then 1 else 0"]) (auto simp: backoff_at_def)
    next
      case True
      then obtain err where "r1 = Inl err" "retryable err" by blast
      then have run: "?run = fetch_attempts env cfg token full req n (Suc i) (if 0 < i then wrap64 (backoff * 2) else backoff) (Some err) w1"
        using None t by (simp add: Let_def)
      obtain k' j where j: "k' \<le> n" "j \<le> n" "sw_requests (snd ?run) = sw_requests w1 @ replicate k' (store_endpoint cfg token req, None)"
          "sw_waits (snd ?run) = sw_waits w1 @ map (backoff_at (if 0 < i then wrap64 (backoff * 2) else backoff)) [0..<j]"
        using Suc.IH [of "Suc i" "if 0 < i then wrap64 (backoff * 2) else backoff" "Some err" w1] unfolding run by auto
      show ?thesis
        using k j map_backoff_at [of backoff j]
        by (intro exI [of _ "k + k'"] conjI exI [of _ "if 0 < i then Suc j else j"]) (auto simp: replicate_add simp del: upt_Suc)
    qed
  qed
qed simp

text \<open>C24. The secret stays home and the retries are bounded. With the client that the constructor prepares, every request of a
  download goes to the configured file endpoint, without a referer, so that no redirect ever carries the token
  elsewhere; there are at most as many as the retries and one; and the waits between them double from the
  configured delay.\<close>

theorem requests_stay_home:
  assumes "store_New raw = Inr cfg" "so_MaxBytes raw < 2 ^ 63 - 1" "store_Download env cfg token req w = (r, w')"
  shows "\<exists>k j. int k \<le> so_Retries cfg + 1 \<and> int j \<le> so_Retries cfg \<and>
    sw_requests w' = sw_requests w @ replicate k (so_BaseURL cfg @ token @ [sep] @ rq_FilePath req, None) \<and>
    sw_waits w' = sw_waits w @ map (backoff_at (so_Backoff cfg)) [0..<j]"
  using assms(3)
proof (cases rule: store_Download_cases)
  case (fetched rel full res)
  have c: "\<not> hc_follows (the_client cfg)" "0 \<le> so_Retries cfg" using store_New_Inr [OF assms(1,2)] by simp_all
  obtain k j where "k \<le> nat (so_Retries cfg + 1)" "j \<le> nat (so_Retries cfg + 1) - 1"
    "sw_requests w' = sw_requests w @ replicate k (store_endpoint cfg token req, None)"
    "sw_waits w' = sw_waits w @ map (backoff_at (so_Backoff cfg)) [0..<j]"
    using fetch_attempts_traffic [OF c(1), of "nat (so_Retries cfg + 1)" 0 env token full req "so_Backoff cfg" None w]
      fetched(5) by (auto simp: fetchInto_def)
  then show ?thesis using c(2) by (intro exI [of _ k] exI [of _ j] conjI) (auto simp: store_endpoint_def)
next
  case refused
  have "0 \<le> so_Retries cfg" using store_New_Inr [OF assms(1,2)] by simp
  then show ?thesis using refused by (intro exI [of _ 0]) simp
next
  case kept
  have "0 \<le> so_Retries cfg" using store_New_Inr [OF assms(1,2)] by simp
  then show ?thesis using kept(3) by (intro exI [of _ 0]) simp
qed

section \<open>Redaction\<close>

lemma take_length_prefix: "take (length p) t = p \<longleftrightarrow> prefix p t"
  by (metis append_eq_conv_conj append_take_drop_id prefix_def)

lemma contains_sublist: "contains p t \<longleftrightarrow> sublist p t"
  by (induction t) (auto simp: take_length_prefix sublist_Cons_right simp del: take_Cons)

lemma replace_all_prefix:
  "prefix p (replace_all old (m # new) t) \<Longrightarrow> m \<notin> set p \<Longrightarrow> prefix p t"
proof (induction old "m # new" t arbitrary: p rule: replace_all.induct)
  case (2 old r rs)
  show ?case
  proof (cases p)
    case (Cons x p')
    then have "\<not> (old \<noteq> [] \<and> take (length old) (r # rs) = old)" using "2.prems" by auto
    then show ?thesis using 2(2) [of p'] "2.prems" Cons by auto
  qed simp
qed simp

text \<open>The marker has a bracket at each end and no colon; a token has a colon and no bracket.\<close>

text \<open>A redacted message never holds the token: replacing its occurrences by the marker makes no new one, for any
  message and any token with a colon and without brackets, which is the form of the tokens of the Bot API.\<close>

theorem redaction_removes_token:
  assumes "58 \<in> set token" "91 \<notin> set token" "93 \<notin> set token"
  shows "\<not> contains token (redact s token)"
proof -
  have ne: "token \<noteq> []" using assms(1) by auto
  have marker: "redacted = 91 # tl redacted" "last redacted = 93" "58 \<notin> set redacted" "redacted \<noteq> []"
    by (simp_all add: redacted_def runes_def)
  have "\<not> sublist token (replace_all token redacted s)"
  proof (induction s rule: length_induct)
    case (1 s)
    show ?case
    proof (cases s)
      case (Cons r rs)
      show ?thesis
      proof (cases "take (length token) s = token")
        case True
        let ?rest = "replace_all token redacted (drop (length token - 1) rs)"
        have r: "replace_all token redacted s = redacted @ ?rest" using Cons True ne by simp
        have "length (drop (length token - 1) rs) < length s" using Cons by simp
        then have ih: "\<not> sublist token ?rest" using 1 by blast
        have "\<not> (\<exists>xs ys. token = xs @ ys \<and> suffix xs redacted \<and> prefix ys ?rest)"
        proof (rule notI, elim exE conjE)
          fix xs ys assume x: "token = xs @ ys" "suffix xs redacted" "prefix ys ?rest"
          show False
          proof (cases xs rule: rev_cases)
            case Nil
            then show False using x ih by (simp add: prefix_imp_sublist)
          next
            case (snoc xs' y)
            then obtain zs where "redacted = (zs @ xs') @ [y]" using x(2) by (auto simp: suffix_def)
            then have "y = 93" using marker(2) by (metis last_snoc)
            then show False using assms(3) x(1) snoc by simp
          qed
        qed
        moreover have "\<not> sublist token redacted" using set_mono_sublist [of token redacted] assms(1) marker(3) by blast
        ultimately show ?thesis using r ih by (auto simp: sublist_append)
      next
        case False
        then have r: "replace_all token redacted s = r # replace_all token redacted rs" using Cons by simp
        have ih: "\<not> sublist token (replace_all token redacted rs)" using 1 Cons by simp
        have "\<not> prefix token (r # replace_all token redacted rs)"
        proof
          assume p: "prefix token (r # replace_all token redacted rs)"
          then obtain t where t: "token = r # t" "prefix t (replace_all token redacted rs)" using ne by (cases token) auto
          have "prefix t rs" using replace_all_prefix [of t token 91 "tl redacted" rs] t assms(2) marker(1) by simp
          then show False using False t(1) Cons by (simp add: take_length_prefix)
        qed
        then show ?thesis using r ih by (simp add: sublist_Cons_right)
      qed
    qed (use ne in simp)
  qed
  then show ?thesis using ne by (simp add: redact_def contains_sublist)
qed

section \<open>A local failure counts as a network error\<close>

text \<open>The errors of system calls have a \<open>Timeout\<close> method, so a full disk is retried like a network glitch.\<close>

lemma local_failure_retried:
  "retryable (Msg ''media: syncing temp file'' # [OsError e])" "retryable (Msg ''media: creating temp file'' # [OsError e])"
  by (simp_all add: retryable_def isNetworkError_def has_Timeout_def HTTPStatus_def errors_is_def)

section \<open>Witnesses\<close>

definition sample_attempt :: attempt_env where
  "sample_attempt = \<lparr>ae_wait = None, ae_request = None, ae_server = (\<lambda>_. Answer 200 3 [[1, 2], [3]] None), ae_ctx = None,
     ae_deadline = False, ae_draws = [7], ae_create = None, ae_write = (\<lambda>_. None), ae_sync = None, ae_close = None,
     ae_chmod = None, ae_rename = None, ae_remove = True\<rparr>"

definition sample_store_env :: store_env where
  "sample_store_env = \<lparr>se_cwd = Inr (runes ''/srv''), se_today = (2025, 3, 9), se_sha = (\<lambda>_. replicate 32 0), se_text = (\<lambda>_. []),
     se_lstat = (\<lambda>_. None), se_read = (\<lambda>_. None), se_mkdir = (\<lambda>_. None),
     se_attempt = (\<lambda>i. if i = 0 then sample_attempt\<lparr>ae_server := \<lambda>_. Refused [NetError True]\<rparr> else sample_attempt)\<rparr>"

definition sample_raw :: store_config where
  "sample_raw = \<lparr>so_BaseDir = runes ''m'', so_HTTPClient = None, so_BaseURL = [], so_MaxBytes = 0,
     so_RequestTimeout = 0, so_Retries = 1, so_Backoff = 0\<rparr>"

definition sample_cfg :: store_config where
  "sample_cfg = sample_raw\<lparr>so_HTTPClient := Some \<lparr>hc_follows = False\<rparr>, so_BaseURL := defaultBaseURL, so_MaxBytes := defaultMaxBytes,
     so_RequestTimeout := defaultRequestTimeout, so_Backoff := defaultBackoff\<rparr>"

definition sample_request :: store_request where
  "sample_request = \<lparr>rq_OwnerUserID = 7, rq_FileID = runes ''f'', rq_FilePath = runes ''photos/a.jpg'', rq_UniqueID = runes ''AgAD'',
     rq_ExpectedSHA256 = []\<rparr>"

definition empty_store :: store_world where
  "empty_store = \<lparr>sw_disk = (\<lambda>_. None), sw_history = [], sw_requests = [], sw_waits = []\<rparr>"

definition sample_target :: gostr where "sample_target = runes ''/srv/m/7/2025-03/09/AgAD''"

definition sample_media :: stored_media where
  "sample_media = \<lparr>sm_Path = sample_target, sm_RelPath = runes ''7/2025-03/09/AgAD'', sm_SHA256 = replicate 64 48, sm_Bytes = 3,
     sm_Reused = False\<rparr>"

lemma sample_New: "store_New sample_raw = Inr sample_cfg" "so_MaxBytes sample_raw < 2 ^ 63 - 1"
  "length (se_sha sample_store_env bs) = 32"
  by (simp_all add: store_New_def sample_raw_def sample_cfg_def noRedirect_def sample_store_env_def runes_def TrimSpace_def
      TrimLeft_def TrimRight_def IsSpace_def)

lemmas sample_path_defs = path_join_def path_clean_def join_path_def components_def IsAbs_def has_prefix_def sep_def runes_def

lemma sample_dec: "dec 2025 = [50, 48, 50, 53]" "dec 3 = [51]" "dec 9 = [57]" "dec 7 = [55]"
  by (simp_all add: dec.simps [of 2025] dec.simps [of 202] dec.simps [of 20] dec.simps [of 2] dec.simps [of 3]
      dec.simps [of 9] dec.simps [of 7])

lemma sample_rel: "relPath sample_store_env sample_request = Inr (runes ''7/2025-03/09/AgAD'')"
  by (simp add: relPath_def sample_store_env_def sample_request_def sample_path_defs TrimSpace_def TrimLeft_def TrimRight_def
      IsSpace_def pad_def sample_dec dec_int_def storageKey_def safe_byte_def)

lemma sample_full: "store_resolve sample_store_env sample_cfg (runes ''7/2025-03/09/AgAD'') = Inr sample_target"
  by (simp add: store_resolve_def sample_store_env_def sample_cfg_def sample_raw_def sample_target_def sample_path_defs)

lemma http_Do_answer:
  "server url = Answer status len chunks e \<Longrightarrow> http_Do hops client server url referer = ([(url, referer)], Inr (status, len, chunks, e))"
  "server url = Refused err \<Longrightarrow> http_Do hops client server url referer = ([(url, referer)], Inl (URLError url # err))"
  by (subst http_Do.simps, simp)+

lemma sample_dir: "path_dir sample_target = runes ''/srv/m/7/2025-03/09''"
  by (simp add: path_dir_def sample_target_def sample_path_defs)

lemma sample_limit: "wrap64 (so_MaxBytes sample_cfg + 1) = 20971521"
  by (simp add: sample_cfg_def sample_raw_def defaultMaxBytes_def wrap64_def)

lemma sample_digest: "hexEncode (se_sha sample_store_env bs) = replicate 64 48"
proof -
  have "hexEncode (replicate n 0) = replicate (2 * n) 48" for n
    by (induction n) (simp_all add: hexEncode_def hexDigit_def)
  from this [of 32] show ?thesis by (simp add: sample_store_env_def)
qed

lemma sample_write:
  assumes "sw_disk w = (\<lambda>_. None)"
  shows "fst (writeAtomically sample_store_env sample_cfg sample_attempt tok sample_target [[1, 2], [3]] None [] w) = Inr (replicate 64 48, 3)"
proof -
  have t: "temp_path (runes ''/srv/m/7/2025-03/09'') 7 \<noteq> sample_target"
    by (simp add: temp_path_def sample_target_def sample_dec TempPrefix_def runes_def sep_def)
  show ?thesis
    unfolding writeAtomically_def sample_dir
    using t assms
    by (simp add: CreateTemp_def sample_attempt_def publish_def sample_limit copy_body_chunk copy_body_end
        sample_digest Let_def append_blob_def flush_blob_def chmod_blob_def)
      (simp add: sample_cfg_def sample_raw_def defaultMaxBytes_def)
qed

definition sample_download :: "(go_error + stored_media) \<times> store_world" where
  "sample_download = store_Download sample_store_env sample_cfg (runes ''1:a'') sample_request empty_store"

lemma sample_fetch: "fst (fetchInto sample_store_env sample_cfg tok sample_target sample_request empty_store) = Inr (replicate 64 48, 3)"
proof -
  have two: "nat (so_Retries sample_cfg + 1) = Suc (Suc 0)" by (simp add: sample_cfg_def sample_raw_def)
  let ?url = "store_endpoint sample_cfg tok sample_request"
  have a0: "attempt sample_store_env sample_cfg (se_attempt sample_store_env 0) tok sample_target sample_request empty_store =
      (Inl (Msg ''media: transport error'' # [NetError True]), empty_store\<lparr>sw_requests := [(?url, None)]\<rparr>)"
    by (simp add: attempt_def http_Do_answer sample_store_env_def sample_attempt_def empty_store_def transportError_def
        redactErr_def redact_def errors_is_def)
  have re: "retryable (Msg ''media: transport error'' # [NetError True])"
    by (simp add: retryable_def isNetworkError_def has_Timeout_def HTTPStatus_def errors_is_def)
  have e1: "se_attempt sample_store_env (Suc 0) = sample_attempt" by (simp add: sample_store_env_def)
  have a1: "fst (attempt sample_store_env sample_cfg sample_attempt tok sample_target sample_request w) =
      Inr (replicate 64 48, 3)" if "sw_disk w = (\<lambda>_. None)" for w
  proof -
    have h: "http_Do 10 c (ae_server sample_attempt) url None = ([(url, None)], Inr (200, 3, [[1, 2], [3]], None))" for c url
      by (rule http_Do_answer) (simp add: sample_attempt_def)
    have "ae_request sample_attempt = None" "rq_ExpectedSHA256 sample_request = []" "\<not> so_MaxBytes sample_cfg < 3"
      by (simp_all add: sample_attempt_def sample_request_def sample_cfg_def sample_raw_def defaultMaxBytes_def)
    then show ?thesis using sample_write that by (simp add: attempt_def h statusOK_def Let_def)
  qed
  obtain w2 where a2: "attempt sample_store_env sample_cfg sample_attempt tok sample_target sample_request
      (empty_store\<lparr>sw_requests := [(?url, None)], sw_waits := [so_Backoff sample_cfg]\<rparr>) = (Inr (replicate 64 48, 3), w2)"
    using a1 [of "empty_store\<lparr>sw_requests := [(?url, None)], sw_waits := [so_Backoff sample_cfg]\<rparr>"]
    by (simp add: empty_store_def) (metis prod.collapse)
  have w: "ae_wait sample_attempt = None" "sw_waits empty_store = []" by (simp_all add: sample_attempt_def empty_store_def)
  show ?thesis
    unfolding fetchInto_def two fetch_attempts.simps Let_def by (simp add: a0 re e1 w a2)
qed

lemma sample_download_ok: "fst sample_download = Inr sample_media"
proof -
  have v: "validateFilePath (rq_FilePath sample_request) = None"
    by (simp add: validateFilePath_def sample_request_def sample_path_defs TrimSpace_def TrimLeft_def TrimRight_def IsSpace_def
        backslash_def)
  have r: "reuse sample_store_env sample_target rel want (sw_disk empty_store) = Inr None" for rel want
    by (simp add: reuse_def sample_store_env_def empty_store_def errors_is_def)
  have m: "se_mkdir sample_store_env d = None" for d by (simp add: sample_store_env_def)
  show ?thesis
    unfolding sample_download_def store_Download_def sample_rel sum.case sample_full v option.case r m
    using sample_fetch [of "runes ''1:a''"] by (auto simp: sample_media_def split: prod.splits)
qed

lemma sample_store_Download:
  "store_Download sample_store_env sample_cfg (runes ''1:a'') sample_request empty_store = (Inr sample_media, snd sample_download)"
  using sample_download_ok unfolding sample_download_def by (metis prod.collapse)

theorem crash_leaves_whole_file_witness:
  "(case sw_disk (snd sample_download) sample_target of
      None \<Rightarrow> True
    | Some (Blob bs s m) \<Rightarrow> s \<and> answered sample_store_env sample_cfg (runes ''1:a'') sample_request bs
    | Some (NotRegular _) \<Rightarrow> False) \<and> sw_disk (snd sample_download) (runes ''/srv/m/other'') = None"
proof -
  let ?d = "sw_disk (snd sample_download)"
  have t: "\<not> is_temp (runes ''/srv/m/other'')" "runes ''/srv/m/other'' \<noteq> sample_target"
    by (simp_all add: is_temp_def sample_path_defs TempPrefix_def sample_target_def)
  have "(?d sample_target = sw_disk empty_store sample_target \<or>
      (\<exists>bs. ?d sample_target = Some (Blob bs True 416) \<and> answered sample_store_env sample_cfg (runes ''1:a'') sample_request bs)) \<and>
    (\<forall>p. p \<noteq> sample_target \<longrightarrow> \<not> is_temp p \<longrightarrow> ?d p = sw_disk empty_store p)"
    by (rule crash_leaves_whole_file [OF sample_New sample_store_Download sample_rel sample_full])
      (simp_all add: empty_store_def crashed_def)
  then show ?thesis using t by (auto simp: empty_store_def)
qed

theorem stored_file_fits_catalogue_witness:
  "ValidateRelativePath (runes ''7/2025-03/09/AgAD'') = None \<and> ValidateSHA256 (replicate 64 48) = None \<and>
   (\<exists>bs s mode. sw_disk (snd sample_download) sample_target = Some (Blob bs s mode) \<and> length bs = 3)"
  using stored_file_fits_catalogue [OF sample_New sample_store_Download]
  by (auto simp: sample_media_def)

theorem replayed_download_reuses_witness:
  "store_Download sample_store_env sample_cfg (runes ''1:a'') sample_request (snd sample_download) =
    (Inr (sample_media\<lparr>sm_Reused := True\<rparr>), snd sample_download)"
  by (rule replayed_download_reuses [OF sample_New sample_store_Download])
    (simp_all add: sample_store_env_def)

theorem requests_stay_home_witness:
  "\<exists>k j. k \<le> 2 \<and> j \<le> 1 \<and>
    sw_requests (snd sample_download) = replicate k (runes ''https://api.telegram.org/file/bot1:a/photos/a.jpg'', None) \<and>
    sw_waits (snd sample_download) = map (backoff_at (go_second div 2)) [0..<j]"
proof -
  obtain k j where "int k \<le> so_Retries sample_cfg + 1 \<and> int j \<le> so_Retries sample_cfg \<and>
    sw_requests (snd sample_download) = sw_requests empty_store @
      replicate k (so_BaseURL sample_cfg @ runes ''1:a'' @ [sep] @ rq_FilePath sample_request, None) \<and>
    sw_waits (snd sample_download) = sw_waits empty_store @ map (backoff_at (so_Backoff sample_cfg)) [0..<j]"
    using requests_stay_home [OF sample_New(1,2) sample_store_Download] by blast
  then show ?thesis
    by (intro exI [of _ k] exI [of _ j])
      (simp add: sample_cfg_def sample_raw_def empty_store_def defaultBaseURL_def sample_request_def sep_def runes_def
        defaultBackoff_def)
qed

theorem redaction_removes_token_witness:
  "\<not> contains (runes ''1:a'') (redact (runes ''Get bot11:a:a/1:a'') (runes ''1:a''))"
  by (rule redaction_removes_token) (simp_all add: runes_def)

end
