(* ===== verification/Fetch.thy ===== *)
theory Fetch
  imports Store Quotas
begin

text \<open>
  \<open>bot/internal/media/fetch/fetch.go\<close>: the loop that turns the pending rows of the catalogue into files on disk. It is
  modelled over the catalogue (Media\_Catalogue), the store (Store) and the quotas (Quotas) themselves; \<open>getFile\<close> of
  the Bot API, the contexts and the transactions answer as \<open>fetch_env\<close> says, one \<open>file_env\<close> for each row of the
  batch. The batch holds the tenant's shared side of the exclusion from the listing to the end: nothing else touches
  the tenant's rows meanwhile. A fetcher without a quota tracker has \<open>None\<close> in its world.
\<close>

section \<open>State and environment\<close>

record fetch_world =
  fw_media :: media_table
  fw_quota :: "Tracker option"
  fw_store :: store_world

record file_env =
  fl_dead :: bool \<comment> \<open>\<open>ctx.Err()\<close> before the row\<close>
  fl_admit_now :: instant
  fl_seed :: source_answer
  fl_verify :: source_answer
  fl_GetFile :: "go_error + gostr"
  fl_store :: store_env
  fl_now :: instant
  fl_stored_tx :: tx_env
  fl_purged_tx :: tx_env
  fl_dead_after :: bool \<comment> \<open>\<open>ctx.Err()\<close> after a failure\<close>
  fl_add_now :: instant
  fl_add_seed :: source_answer

record fetch_env =
  fv_shared :: "go_error option"
  fv_list_tx :: tx_env
  fv_file :: "nat \<Rightarrow> file_env"

definition fetch_defaultBatch :: nat where "fetch_defaultBatch = 20"

section \<open>The verdict on an error\<close>

definition isDefinitive :: "go_error \<Rightarrow> bool" where
  "isDefinitive err =
     (if errors_is err CtxCanceled \<or> errors_is err CtxDeadlineExceeded then False
      else if errors_is err ErrStoreTooLarge \<or> errors_is err ErrPathTraversal then True
      else case as_api_error err of
          Some (code, _) \<Rightarrow> statusBadRequest \<le> code \<and> code < statusInternalServerError \<and> code \<noteq> statusTooManyRequests
        | None \<Rightarrow>
            (case HTTPStatus err of
               Some status \<Rightarrow> statusBadRequest \<le> status \<and> status < statusInternalServerError \<and>
                 status \<noteq> statusTooManyRequests \<and> status \<noteq> statusRequestTimeout
             | None \<Rightarrow> False))"

section \<open>One file\<close>

definition file_request :: "i64 \<Rightarrow> File \<Rightarrow> gostr \<Rightarrow> store_request" where
  "file_request owner file path = \<lparr>rq_OwnerUserID = owner, rq_FileID = file_TelegramFileID file, rq_FilePath = path,
     rq_UniqueID = file_TelegramFileUniqueID file, rq_ExpectedSHA256 = []\<rparr>"

definition fetchOne :: "file_env \<Rightarrow> store_config \<Rightarrow> gostr \<Rightarrow> i64 \<Rightarrow> File \<Rightarrow> fetch_world \<Rightarrow> (go_error + i64) \<times> fetch_world" where
  "fetchOne f cfg token owner file w =
     (case fl_GetFile f of
        Inl err \<Rightarrow> (Inl (Msg ''resolving media'' # err), w)
      | Inr path \<Rightarrow>
          if path = [] then (Inl [Msg ''media'', ErrStoreTooLarge], w)
          else case store_Download (fl_store f) cfg token (file_request owner file path) (fw_store w) of
              (Inl err, d) \<Rightarrow> (Inl (Msg ''downloading media'' # err), w\<lparr>fw_store := d\<rparr>)
            | (Inr saved, d) \<Rightarrow>
                (case MarkStored (fl_stored_tx f) (fl_now f) owner (file_ID file)
                     \<lparr>sf_RelativePath = sm_RelPath saved, sf_ThumbnailRelativePath = [], sf_SHA256 = sm_SHA256 saved,
                       sf_ByteSize = sm_Bytes saved\<rparr> (fw_media w) of
                   (Inl err, mt) \<Rightarrow> (Inl err, w\<lparr>fw_store := d, fw_media := mt\<rparr>)
                 | (Inr _, mt) \<Rightarrow> (Inr (sm_Bytes saved), w\<lparr>fw_store := d, fw_media := mt\<rparr>)))"

section \<open>One batch\<close>

definition give_up :: "file_env \<Rightarrow> i64 \<Rightarrow> File \<Rightarrow> fetch_world \<Rightarrow> (go_error + unit) \<times> fetch_world" where
  "give_up f owner file w =
     (case MarkPurged (fl_purged_tx f) (fl_now f) owner (file_ID file) (fw_media w) of
        (r, mt) \<Rightarrow> (r, w\<lparr>fw_media := mt\<rparr>))"

definition admit_file :: "file_env \<Rightarrow> i64 \<Rightarrow> fetch_world \<Rightarrow> bool \<times> fetch_world" where
  "admit_file f owner w =
     (case fw_quota w of
        None \<Rightarrow> (True, w)
      | Some tk \<Rightarrow>
          (case AdmitMediaBytes (fl_seed f) (fl_verify f) owner (fl_admit_now f) tk of
             (adm, tk') \<Rightarrow> (Allowed adm, w\<lparr>fw_quota := Some tk'\<rparr>)))"

definition count_bytes :: "file_env \<Rightarrow> i64 \<Rightarrow> i64 \<Rightarrow> fetch_world \<Rightarrow> fetch_world" where
  "count_bytes f owner n w =
     (case fw_quota w of
        None \<Rightarrow> w
      | Some tk \<Rightarrow> w\<lparr>fw_quota := Some (snd (AddMediaBytes (fl_add_seed f) owner n (fl_add_now f) tk))\<rparr>)"

text \<open>The body of the loop: whether it goes on, with how many files stored, or returns with an error or without.\<close>

datatype fetch_outcome = GoOn int | Return "go_error option"

definition fetch_turn :: "file_env \<Rightarrow> store_config \<Rightarrow> gostr \<Rightarrow> i64 \<Rightarrow> File \<Rightarrow> fetch_world \<Rightarrow> fetch_outcome \<times> fetch_world" where
  "fetch_turn f cfg token owner file w0 =
     (if fl_dead f then (Return None, w0)
      else case admit_file f owner w0 of
          (allowed, w) \<Rightarrow>
            if \<not> allowed
            then (case give_up f owner file w of
                    (Inl err, w1) \<Rightarrow> (Return (Some err), w1)
                  | (Inr _, w1) \<Rightarrow> (GoOn 0, w1))
            else case fetchOne f cfg token owner file w of
                (Inr n, w1) \<Rightarrow> (GoOn 1, count_bytes f owner n w1)
              | (Inl err, w1) \<Rightarrow>
                  if isDefinitive err
                  then (case give_up f owner file w1 of
                          (Inl err', w2) \<Rightarrow> (Return (Some err'), w2)
                        | (Inr _, w2) \<Rightarrow> (GoOn 0, w2))
                  else if fl_dead_after f then (Return None, w1)
                  else (GoOn 0, w1))"

fun fetch_rows :: "(nat \<Rightarrow> file_env) \<Rightarrow> store_config \<Rightarrow> gostr \<Rightarrow> i64 \<Rightarrow> nat \<Rightarrow> File list \<Rightarrow> int \<Rightarrow> fetch_world \<Rightarrow>
    (int \<times> go_error option) \<times> fetch_world" where
  "fetch_rows fe cfg token owner i [] stored w = ((stored, None), w)"
| "fetch_rows fe cfg token owner i (file # files) stored w =
     (case fetch_turn (fe i) cfg token owner file w of
        (Return err, w1) \<Rightarrow> ((stored, err), w1)
      | (GoOn k, w1) \<Rightarrow> fetch_rows fe cfg token owner (Suc i) files (stored + k) w1)"

definition ProcessTenant :: "fetch_env \<Rightarrow> store_config \<Rightarrow> gostr \<Rightarrow> nat \<Rightarrow> i64 \<Rightarrow> fetch_world \<Rightarrow> (int \<times> go_error option) \<times> fetch_world" where
  "ProcessTenant env cfg token batch owner w =
     (case fv_shared env of
        Some err \<Rightarrow> ((0, Some err), w)
      | None \<Rightarrow>
          (case ListPending (fv_list_tx env) owner batch (fw_media w) of
             Inl err \<Rightarrow> ((0, Some err), w)
           | Inr pending \<Rightarrow> fetch_rows (fv_file env) cfg token owner 0 pending 0 w))"

section \<open>The two verdicts\<close>



section \<open>What a turn does to the catalogue\<close>

definition stored_row :: "mf_row \<Rightarrow> mf_row \<Rightarrow> bool" where
  "stored_row r q \<longleftrightarrow> (\<exists>p h n now. ValidateRelativePath p = None \<and> ValidateSHA256 h = None \<and>
     q = r\<lparr>mf_status := StatusStored, mf_path := Some p, mf_thumb := None, mf_sha := Some h, mf_size := Some n, mf_updated := now\<rparr>)"

definition purged_row :: "mf_row \<Rightarrow> mf_row \<Rightarrow> bool" where
  "purged_row r q \<longleftrightarrow> (\<exists>now. q = r\<lparr>mf_status := StatusPurged, mf_path := None, mf_thumb := None, mf_updated := now\<rparr>)"

lemma MarkPurged_effect:
  assumes "MarkPurged tx now owner i mt = (r, mt')"
  shows "(\<exists>err. r = Inl err) \<and> mt' = mt \<or> r = Inr () \<and>
    mt' = mt\<lparr>mt_rows := t_update mf_owner owner (\<lambda>q. mf_id q = i)
      (\<lambda>q. q\<lparr>mf_status := StatusPurged, mf_path := None, mf_thumb := None, mf_updated := now\<rparr>) (mt_rows mt)\<rparr>"
  using InTenant_cases [OF assms [unfolded MarkPurged_def]] by (auto dest: update_media_cases)

lemma MarkStored_effect:
  assumes "MarkStored tx now owner i s mt = (r, mt')" "sf_ThumbnailRelativePath s = []"
  shows "(\<exists>err. r = Inl err) \<and> mt' = mt \<or> r = Inr () \<and> ValidateRelativePath (sf_RelativePath s) = None \<and> ValidateSHA256 (sf_SHA256 s) = None \<and>
    mt' = mt\<lparr>mt_rows := t_update mf_owner owner (\<lambda>q. mf_id q = i)
      (\<lambda>q. q\<lparr>mf_status := StatusStored, mf_path := Some (sf_RelativePath s), mf_thumb := None, mf_sha := Some (sf_SHA256 s),
        mf_size := Some (sf_ByteSize s), mf_updated := now\<rparr>) (mt_rows mt)\<rparr>"
proof (cases "ValidateRelativePath (sf_RelativePath s) = None \<and> ValidateSHA256 (sf_SHA256 s) = None")
  case True
  then show ?thesis using assms
    by (auto simp: MarkStored_def nullif_empty_def dest!: InTenant_cases update_media_cases)
next
  case False
  then show ?thesis using assms by (auto simp: MarkStored_def split: option.splits)
qed

text \<open>Why the loop gives a row up: the quota refuses it, or its failure is definitive.\<close>

definition hopeless :: "file_env \<Rightarrow> store_config \<Rightarrow> gostr \<Rightarrow> i64 \<Rightarrow> File \<Rightarrow> fetch_world \<Rightarrow> bool" where
  "hopeless f cfg token owner file w \<longleftrightarrow> \<not> fl_dead f \<and>
     (case admit_file f owner w of (allowed, w1) \<Rightarrow>
        \<not> allowed \<or> (case fetchOne f cfg token owner file w1 of (Inl err, _) \<Rightarrow> isDefinitive err | (Inr _, _) \<Rightarrow> False))"

fun gave_up_on :: "(nat \<Rightarrow> file_env) \<Rightarrow> store_config \<Rightarrow> gostr \<Rightarrow> i64 \<Rightarrow> nat \<Rightarrow> File list \<Rightarrow> fetch_world \<Rightarrow> i64 \<Rightarrow> bool" where
  "gave_up_on fe cfg token owner i [] w k = False"
| "gave_up_on fe cfg token owner i (file # files) w k =
     ((file_ID file = k \<and> hopeless (fe i) cfg token owner file w) \<or>
      (case fetch_turn (fe i) cfg token owner file w of
         (GoOn _, w1) \<Rightarrow> gave_up_on fe cfg token owner (Suc i) files w1 k
       | (Return _, _) \<Rightarrow> False))"

definition fate :: "i64 \<Rightarrow> i64 set \<Rightarrow> (i64 \<Rightarrow> bool) \<Rightarrow> mf_row \<Rightarrow> mf_row \<Rightarrow> bool" where
  "fate owner ids given_up r q \<longleftrightarrow> mf_id q = mf_id r \<and> mf_owner q = mf_owner r \<and> mf_key q = mf_key r \<and>
     (q = r \<or> mf_owner r = owner \<and> mf_id r \<in> ids \<and>
       (mf_status q = StatusStored \<and> row_ok q \<or> mf_status q = StatusPurged \<and> row_ok q \<and> given_up (mf_id r)))"

lemma fate_refl: "fate owner ids given_up r r"
  by (simp add: fate_def)

lemma fate_mono: "fate owner ids g r q \<Longrightarrow> ids \<subseteq> ids' \<Longrightarrow> (\<And>k. g k \<Longrightarrow> g' k) \<Longrightarrow> fate owner ids' g' r q"
  by (auto simp: fate_def)

lemma fate_trans: "fate owner ids g r q \<Longrightarrow> fate owner ids g q s \<Longrightarrow> fate owner ids g r s"
  by (auto simp: fate_def)

lemma fates_trans:
  "list_all2 (fate owner ids g) xs ys \<Longrightarrow> list_all2 (fate owner ids g) ys zs \<Longrightarrow> list_all2 (fate owner ids g) xs zs"
  by (rule list_all2_trans) (rule fate_trans)

lemma list_all2_update:
  "(\<And>r. R r r) \<Longrightarrow> (\<And>r. own r = t \<Longrightarrow> P r \<Longrightarrow> R r (f r)) \<Longrightarrow> list_all2 R rows (t_update own t P f rows)"
  by (induction rows) (auto simp: t_update_def)

lemma give_up_rows:
  assumes "give_up f owner file w = (r, w')"
  shows "list_all2 (fate owner {file_ID file} (\<lambda>_. True)) (mt_rows (fw_media w)) (mt_rows (fw_media w'))"
    "fw_store w' = fw_store w" "fw_quota w' = fw_quota w"
proof -
  obtain mt where m: "MarkPurged (fl_purged_tx f) (fl_now f) owner (file_ID file) (fw_media w) = (r, mt)"
    using assms by (cases "MarkPurged (fl_purged_tx f) (fl_now f) owner (file_ID file) (fw_media w)") (auto simp: give_up_def)
  then have w': "w' = w\<lparr>fw_media := mt\<rparr>" using assms by (simp add: give_up_def)
  show "list_all2 (fate owner {file_ID file} (\<lambda>_. True)) (mt_rows (fw_media w)) (mt_rows (fw_media w'))"
    using MarkPurged_effect [OF m] w'
    by (auto simp: list_all2_refl fate_refl fate_def row_ok_def mf_key_def intro!: list_all2_update)
  show "fw_store w' = fw_store w" "fw_quota w' = fw_quota w" using w' by simp_all
qed

lemma fetchOne_cases:
  assumes "fetchOne f cfg token owner file w = (r, w')"
  obtains (kept) err d where "r = Inl err" "w' = w\<lparr>fw_store := d\<rparr>"
      "d = fw_store w \<or> (\<exists>path e. store_Download (fl_store f) cfg token (file_request owner file path) (fw_store w) = (e, d))"
  | (stored) path saved d where
      "store_Download (fl_store f) cfg token (file_request owner file path) (fw_store w) = (Inr saved, d)" "r = Inr (sm_Bytes saved)"
      "ValidateRelativePath (sm_RelPath saved) = None" "ValidateSHA256 (sm_SHA256 saved) = None"
      "w' = w\<lparr>fw_store := d, fw_media := (fw_media w)\<lparr>mt_rows := t_update mf_owner owner (\<lambda>q. mf_id q = file_ID file)
        (\<lambda>q. q\<lparr>mf_status := StatusStored, mf_path := Some (sm_RelPath saved), mf_thumb := None, mf_sha := Some (sm_SHA256 saved),
          mf_size := Some (sm_Bytes saved), mf_updated := fl_now f\<rparr>) (mt_rows (fw_media w))\<rparr>\<rparr>"
proof (cases "fl_GetFile f")
  case (Inl err)
  have s: "w = w\<lparr>fw_store := fw_store w\<rparr>" by simp
  show ?thesis using kept [of _ "fw_store w"] assms Inl s by (auto simp: fetchOne_def)
next
  case (Inr path)
  show ?thesis
  proof (cases "path = []")
    case True
    have s: "w = w\<lparr>fw_store := fw_store w\<rparr>" by simp
    show ?thesis using kept [of _ "fw_store w"] assms Inr True s by (auto simp: fetchOne_def)
  next
    case False
    obtain e d where d: "store_Download (fl_store f) cfg token (file_request owner file path) (fw_store w) = (e, d)"
      by (metis surj_pair)
    show ?thesis
    proof (cases e)
      case (Inl err)
      then show ?thesis using kept [of _ d] assms Inr False d by (auto simp: fetchOne_def)
    next
      case saved: (Inr saved)
      let ?s = "\<lparr>sf_RelativePath = sm_RelPath saved, sf_ThumbnailRelativePath = [], sf_SHA256 = sm_SHA256 saved, sf_ByteSize = sm_Bytes saved\<rparr>"
      obtain r1 mt where m: "MarkStored (fl_stored_tx f) (fl_now f) owner (file_ID file) ?s (fw_media w) = (r1, mt)"
        by (metis surj_pair)
      from MarkStored_effect [OF m]
      consider (no) err where "r1 = Inl err" "mt = fw_media w"
        | (yes) "r1 = Inr ()" "ValidateRelativePath (sm_RelPath saved) = None" "ValidateSHA256 (sm_SHA256 saved) = None"
          "mt = (fw_media w)\<lparr>mt_rows := t_update mf_owner owner (\<lambda>q. mf_id q = file_ID file)
            (\<lambda>q. q\<lparr>mf_status := StatusStored, mf_path := Some (sm_RelPath saved), mf_thumb := None, mf_sha := Some (sm_SHA256 saved),
              mf_size := Some (sm_Bytes saved), mf_updated := fl_now f\<rparr>) (mt_rows (fw_media w))\<rparr>"
        by auto
      then show ?thesis
      proof cases
        case no
        then have "r = Inl err" "w' = w\<lparr>fw_store := d\<rparr>" using assms Inr False d saved m by (simp_all add: fetchOne_def)
        then show ?thesis by (rule kept) (use d in blast)
      next
        case yes
        then have "r = Inr (sm_Bytes saved)" "w' = w\<lparr>fw_store := d, fw_media := mt\<rparr>"
          using assms Inr False d saved m by (simp_all add: fetchOne_def)
        then show ?thesis using stored [OF d [unfolded saved] _ yes(2,3)] yes(4) by blast
      qed
    qed
  qed
qed

lemma fetchOne_rows:
  assumes "fetchOne f cfg token owner file w = (r, w')"
  shows "list_all2 (fate owner {file_ID file} (\<lambda>_. False)) (mt_rows (fw_media w)) (mt_rows (fw_media w'))"
  using assms
proof (cases rule: fetchOne_cases)
  case kept
  then show ?thesis by (simp add: list_all2_refl fate_refl)
next
  case stored
  then show ?thesis by (auto simp: fate_refl fate_def row_ok_def mf_key_def intro!: list_all2_update)
qed

lemma admit_file_keeps: "admit_file f owner w = (b, w') \<Longrightarrow> fw_media w' = fw_media w \<and> fw_store w' = fw_store w"
  by (auto simp: admit_file_def split: option.splits prod.splits)

lemma count_bytes_keeps [simp]: "fw_media (count_bytes f owner n w) = fw_media w" "fw_store (count_bytes f owner n w) = fw_store w"
  by (simp_all add: count_bytes_def split: option.splits)

text \<open>The ways a turn ends.\<close>

lemma fetch_turn_cases:
  assumes "fetch_turn f cfg token owner file w = (t, w')"
  obtains (stopped) "fl_dead f" "t = Return None" "w' = w"
  | (refused) w1 r where "\<not> fl_dead f" "admit_file f owner w = (False, w1)" "give_up f owner file w1 = (r, w')"
      "t = (case r of Inl err \<Rightarrow> Return (Some err) | Inr _ \<Rightarrow> GoOn 0)"
  | (stored) w1 w2 n where "\<not> fl_dead f" "admit_file f owner w = (True, w1)" "fetchOne f cfg token owner file w1 = (Inr n, w2)"
      "t = GoOn 1" "w' = count_bytes f owner n w2"
  | (hopeless) w1 w2 err r where "\<not> fl_dead f" "admit_file f owner w = (True, w1)" "fetchOne f cfg token owner file w1 = (Inl err, w2)"
      "isDefinitive err" "give_up f owner file w2 = (r, w')" "t = (case r of Inl err \<Rightarrow> Return (Some err) | Inr _ \<Rightarrow> GoOn 0)"
  | (postponed) w1 err where "\<not> fl_dead f" "admit_file f owner w = (True, w1)" "fetchOne f cfg token owner file w1 = (Inl err, w')"
      "\<not> isDefinitive err" "t = (if fl_dead_after f then Return None else GoOn 0)"
proof (cases "fl_dead f")
  case True
  then show ?thesis using assms stopped by (auto simp: fetch_turn_def)
next
  case alive: False
  obtain b w1 where a: "admit_file f owner w = (b, w1)" by (metis surj_pair)
  show ?thesis
  proof (cases b)
    case False
    obtain r w2 where g: "give_up f owner file w1 = (r, w2)" by (metis surj_pair)
    then show ?thesis using assms alive a False refused [of w1 r] by (cases r) (auto simp: fetch_turn_def)
  next
    case True
    obtain r w2 where o: "fetchOne f cfg token owner file w1 = (r, w2)" by (metis surj_pair)
    show ?thesis
    proof (cases r)
      case (Inr n)
      then show ?thesis using assms alive a True o stored [of w1 n w2] by (auto simp: fetch_turn_def)
    next
      case (Inl err)
      obtain g w3 where g: "give_up f owner file w2 = (g, w3)" by (metis surj_pair)
      show ?thesis
      proof (cases "isDefinitive err")
        case d: True
        then show ?thesis using assms alive a True o Inl g hopeless [of w1 err w2 g] by (cases g) (auto simp: fetch_turn_def)
      next
        case False
        then show ?thesis using assms alive a True o Inl postponed [of w1 err] by (auto simp: fetch_turn_def split: if_splits)
      qed
    qed
  qed
qed

lemma fetch_turn_rows:
  assumes "fetch_turn f cfg token owner file w = (t, w')"
  shows "list_all2 (fate owner {file_ID file} (\<lambda>_. hopeless f cfg token owner file w)) (mt_rows (fw_media w)) (mt_rows (fw_media w'))"
  using assms
proof (cases rule: fetch_turn_cases)
  case stopped
  then show ?thesis by (simp add: list_all2_refl fate_refl)
next
  case (refused w1 r)
  then have "hopeless f cfg token owner file w" by (simp add: hopeless_def)
  then show ?thesis using give_up_rows(1) [OF refused(3)] admit_file_keeps [OF refused(2)] by simp
next
  case (stored w1 w2 n)
  then show ?thesis
    using list_all2_mono [OF fetchOne_rows [OF stored(3)] fate_mono] admit_file_keeps [OF stored(2)] by auto
next
  case (hopeless w1 w2 err r)
  then have h: "hopeless f cfg token owner file w" by (simp add: hopeless_def)
  have "list_all2 (fate owner {file_ID file} (\<lambda>_. True)) (mt_rows (fw_media w1)) (mt_rows (fw_media w2))"
    using list_all2_mono [OF fetchOne_rows [OF hopeless(3)] fate_mono] by auto
  then show ?thesis
    using fates_trans [OF _ give_up_rows(1) [OF hopeless(5)]] admit_file_keeps [OF hopeless(2)] h by simp
next
  case (postponed w1 err)
  then show ?thesis
    using list_all2_mono [OF fetchOne_rows [OF postponed(3)] fate_mono] admit_file_keeps [OF postponed(2)] by auto
qed

lemma fetch_rows_fate:
  "fetch_rows fe cfg token owner i files stored w = (r, w') \<Longrightarrow>
    list_all2 (fate owner (file_ID ` set files) (gave_up_on fe cfg token owner i files w)) (mt_rows (fw_media w)) (mt_rows (fw_media w')) \<and>
    stored \<le> fst r \<and> fst r \<le> stored + int (length files)"
proof (induction files arbitrary: i stored w)
  case Nil
  then show ?case by (auto simp: list_all2_refl fate_refl)
next
  case (Cons fl fls)
  obtain t w1 where t: "fetch_turn (fe i) cfg token owner fl w = (t, w1)" by (metis surj_pair)
  let ?g = "gave_up_on fe cfg token owner i (fl # fls) w"
  have first: "list_all2 (fate owner (file_ID ` set (fl # fls)) ?g) (mt_rows (fw_media w)) (mt_rows (fw_media w1))"
    by (rule list_all2_mono [OF fetch_turn_rows [OF t]]) (auto simp: fate_def)
  show ?case
  proof (cases t)
    case (Return err)
    then have "w' = w1" "r = (stored, err)" using Cons.prems t by auto
    then show ?thesis using first by (simp del: gave_up_on.simps)
  next
    case (GoOn k)
    from t have "t = GoOn k \<Longrightarrow> k = 0 \<or> k = 1"
      by (cases rule: fetch_turn_cases) (auto split: sum.splits if_splits)
    then have k: "k = 0 \<or> k = 1" using GoOn by simp
    have "fetch_rows fe cfg token owner (Suc i) fls (stored + k) w1 = (r, w')" using Cons.prems t GoOn by simp
    note ih = Cons.IH [OF this]
    have "list_all2 (fate owner (file_ID ` set (fl # fls)) ?g) (mt_rows (fw_media w1)) (mt_rows (fw_media w'))"
      by (rule list_all2_mono [OF conjunct1 [OF ih]]) (auto simp: t GoOn fate_def)
    then show ?thesis using fates_trans [OF first] ih k by (auto simp del: gave_up_on.simps)
  qed
qed

section \<open>The catalogue and the disk\<close>

text \<open>Every stored row of the catalogue points to a file that was flushed and holds what the row says.\<close>

definition backed :: "store_env \<Rightarrow> store_config \<Rightarrow> media_table \<Rightarrow> st_disk \<Rightarrow> bool" where
  "backed env cfg mt d \<longleftrightarrow> (\<forall>r \<in> set (mt_rows mt). mf_status r = StatusStored \<longrightarrow>
     (\<exists>p full bs m. mf_path r = Some p \<and> store_resolve env cfg p = Inr full \<and> \<not> is_temp full \<and> d full = Some (Blob bs True m) \<and>
        mf_sha r = Some (hexEncode (se_sha env bs)) \<and> mf_size r = Some (int (length bs))))"

definition settled :: "st_disk \<Rightarrow> bool" where
  "settled d \<longleftrightarrow> (\<forall>p bs m. \<not> is_temp p \<longrightarrow> d p \<noteq> Some (Blob bs False m))"

text \<open>The working directory and the digest do not change during a run of the process.\<close>

definition same_process :: "store_env \<Rightarrow> store_env \<Rightarrow> bool" where
  "same_process env env' \<longleftrightarrow> se_cwd env' = se_cwd env \<and> se_sha env' = se_sha env"

lemma same_process_resolve: "same_process env env' \<Longrightarrow> store_resolve env' cfg rel = store_resolve env cfg rel"
  by (simp add: same_process_def store_resolve_def)

definition grows :: "st_disk \<Rightarrow> st_disk \<Rightarrow> bool" where
  "grows d d' \<longleftrightarrow> (\<forall>p bs s m. \<not> is_temp p \<longrightarrow> d p = Some (Blob bs s m) \<longrightarrow> d' p = Some (Blob bs s m))"

lemma backed_grows: "backed env cfg mt d \<Longrightarrow> grows d d' \<Longrightarrow> backed env cfg mt d'"
  unfolding backed_def grows_def by meson

lemma backed_update:
  assumes "backed env cfg mt d"
    and "\<And>r. mf_status (f r) = StatusStored \<Longrightarrow> \<exists>p full bs m. mf_path (f r) = Some p \<and> store_resolve env cfg p = Inr full \<and>
      \<not> is_temp full \<and> d full = Some (Blob bs True m) \<and> mf_sha (f r) = Some (hexEncode (se_sha env bs)) \<and>
      mf_size (f r) = Some (int (length bs))"
  shows "backed env cfg (mt\<lparr>mt_rows := t_update mf_owner owner P f (mt_rows mt)\<rparr>) d"
  unfolding backed_def
proof (intro ballI impI)
  fix r assume r: "r \<in> set (mt_rows (mt\<lparr>mt_rows := t_update mf_owner owner P f (mt_rows mt)\<rparr>))" "mf_status r = StatusStored"
  then obtain q where q: "q \<in> set (mt_rows mt)" "r = (if mf_owner q = owner \<and> P q then f q else q)"
    by (auto simp: t_update_def set_update_where)
  show "\<exists>p full bs m. mf_path r = Some p \<and> store_resolve env cfg p = Inr full \<and> \<not> is_temp full \<and> d full = Some (Blob bs True m) \<and>
        mf_sha r = Some (hexEncode (se_sha env bs)) \<and> mf_size r = Some (int (length bs))"
  proof (cases "mf_owner q = owner \<and> P q")
    case True
    then show ?thesis using assms(2) [of q] q(2) r(2) by simp
  next
    case False
    then show ?thesis using assms(1) q r(2) unfolding backed_def by auto
  qed
qed

text \<open>What holds between two turns.\<close>

definition in_step :: "store_env \<Rightarrow> store_config \<Rightarrow> fetch_world \<Rightarrow> bool" where
  "in_step env cfg w \<longleftrightarrow> backed env cfg (fw_media w) (sw_disk (fw_store w)) \<and> settled (sw_disk (fw_store w))"

lemma Download_grows:
  assumes "store_Download env cfg token req w = (r, w')" "rq_ExpectedSHA256 req = []" "\<And>bs. length (se_sha env bs) = 32"
    and "usable_limit cfg" "0 \<le> so_Retries cfg"
  shows "grows (sw_disk w) (sw_disk w')" "settled (sw_disk w) \<Longrightarrow> settled (sw_disk w')"
  using store_Download_frame [OF assms] by (fastforce simp: grows_def settled_def)+

lemma fetchOne_in_step:
  assumes "fetchOne f cfg token owner file w = (r, w')" "in_step env cfg w" "same_process env (fl_store f)"
    and "store_New raw = Inr cfg" "so_MaxBytes raw < 2 ^ 63 - 1" "\<And>bs. length (se_sha env bs) = 32"
  shows "in_step env cfg w'"
proof -
  have sha: "length (se_sha (fl_store f) bs) = 32" for bs using assms(3,6) by (simp add: same_process_def)
  note cfg = store_New_Inr [OF assms(4,5)]
  have step: "grows (sw_disk (fw_store w)) (sw_disk d) \<and> settled (sw_disk d)"
    if "store_Download (fl_store f) cfg token (file_request owner file path) (fw_store w) = (e, d)" for path e d
    using Download_grows [OF that _ sha cfg(1,2)] assms(2) by (simp add: file_request_def in_step_def)
  from assms(1) show ?thesis
  proof (cases rule: fetchOne_cases)
    case (kept err d)
    then show ?thesis using assms(2) step by (auto simp: in_step_def intro: backed_grows)
  next
    case (stored path saved d)
    note s = step [OF stored(1)]
    obtain full bs st mode where d: "relPath (fl_store f) (file_request owner file path) = Inr (sm_RelPath saved)"
        "store_resolve (fl_store f) cfg (sm_RelPath saved) = Inr full" "sw_disk d full = Some (Blob bs st mode)"
        "sm_SHA256 saved = hexEncode (se_sha (fl_store f) bs)" "sm_Bytes saved = int (length bs)"
      using store_Download_result [OF assms(4,5) sha stored(1)] by metis
    have t: "\<not> is_temp full" by (rule relPath_last(2) [OF d(1,2) sha])
    then have "st" using s d(3) by (cases st) (auto simp: settled_def)
    then have whole: "\<exists>full bs m. store_resolve env cfg (sm_RelPath saved) = Inr full \<and> \<not> is_temp full \<and>
        sw_disk d full = Some (Blob bs True m) \<and> sm_SHA256 saved = hexEncode (se_sha env bs) \<and> sm_Bytes saved = int (length bs)"
      using d t assms(3) same_process_resolve [OF assms(3)] by (auto simp: same_process_def)
    have "backed env cfg (fw_media w) (sw_disk d)" using backed_grows s assms(2) by (auto simp: in_step_def)
    then show ?thesis using s stored(5) whole by (auto simp: in_step_def intro!: backed_update)
  qed
qed

lemma give_up_in_step: "give_up f owner file w = (r, w') \<Longrightarrow> in_step env cfg w \<Longrightarrow> in_step env cfg w'"
  using MarkPurged_effect by (fastforce simp: give_up_def in_step_def intro!: backed_update split: prod.splits)

lemma fetch_turn_in_step:
  assumes "fetch_turn f cfg token owner file w = (t, w')" "in_step env cfg w" "same_process env (fl_store f)"
    and "store_New raw = Inr cfg" "so_MaxBytes raw < 2 ^ 63 - 1" "\<And>bs. length (se_sha env bs) = 32"
  shows "in_step env cfg w'"
proof -
  have a: "in_step env cfg w1" if "admit_file f owner w = (b, w1)" for b w1
    using admit_file_keeps [OF that] assms(2) by (simp add: in_step_def)
  have o: "in_step env cfg w2" if "fetchOne f cfg token owner file w1 = (r, w2)" "in_step env cfg w1" for w1 r w2
    by (rule fetchOne_in_step [OF that assms(3-6)])
  from assms(1) show ?thesis
  proof (cases rule: fetch_turn_cases)
    case (stored w1 w2 n)
    then show ?thesis using o [OF stored(3) a [OF stored(2)]] by (simp add: in_step_def)
  qed (use assms(2) a o give_up_in_step in metis)+
qed

lemma fetch_rows_in_step:
  assumes "store_New raw = Inr cfg" "so_MaxBytes raw < 2 ^ 63 - 1" "\<And>bs. length (se_sha env bs) = 32"
    and "\<And>i. same_process env (fl_store (fe i))"
  shows "fetch_rows fe cfg token owner i files stored w = (r, w') \<Longrightarrow> in_step env cfg w \<Longrightarrow> in_step env cfg w'"
proof (induction files arbitrary: i stored w)
  case (Cons fl fls)
  obtain t w1 where t: "fetch_turn (fe i) cfg token owner fl w = (t, w1)" by (metis surj_pair)
  have w1: "in_step env cfg w1" by (rule fetch_turn_in_step [OF t Cons.prems(2) assms(4) assms(1-3)])
  show ?case using Cons.prems(1) t w1 Cons.IH by (cases t) auto
qed simp

section \<open>Properties\<close>

lemma media_read_Inr: "media_read tx q owner mt = Inr x \<Longrightarrow> x = q owner (mt_rows mt)"
  by (cases "InTenant tx (\<lambda>t mt. Inr (q t (mt_rows mt), mt)) owner mt") (auto simp: media_read_def dest: InTenant_Inr)

lemma file_ID_scan_file [simp]: "file_ID (scan_file r) = mf_id r"
  by (simp add: scan_file_def)

lemma ListPending_rows:
  assumes "ListPending tx owner n mt = Inr pending"
  shows "length pending \<le> n" "k \<in> file_ID ` set pending \<Longrightarrow> \<exists>r \<in> set (mt_rows mt). mf_owner r = owner \<and> mf_status r = StatusPending \<and> mf_id r = k"
proof -
  define page where "page = take n (sort_key mf_id (t_select mf_owner owner (\<lambda>r. mf_status r = StatusPending) (mt_rows mt)))"
  have p: "pending = map scan_file page"
    using media_read_Inr [OF assms [unfolded ListPending_def media_page_def]] by (simp add: scanFiles_def page_def)
  show "length pending \<le> n" by (simp add: p page_def)
  assume "k \<in> file_ID ` set pending"
  then obtain r where "r \<in> set page" "mf_id r = k" by (auto simp: p)
  moreover have "set page \<subseteq> set (t_select mf_owner owner (\<lambda>r. mf_status r = StatusPending) (mt_rows mt))"
    unfolding page_def using set_take_subset by fastforce
  ultimately show "\<exists>r \<in> set (mt_rows mt). mf_owner r = owner \<and> mf_status r = StatusPending \<and> mf_id r = k"
    by (auto simp: t_select_def)
qed

text \<open>C15. What a batch does to the catalogue, whatever the Bot API, the network, the disk, the quotas and the transactions
  answer. Each row keeps its identity and is left as it was, with two exceptions among the pending rows of the
  tenant: a row becomes stored, with a valid path and digest; or it is purged, and then the loop gave it up, because
  the quota refused it or because its failure was definitive. No failure the loop takes for transient costs a row,
  and no row of another tenant moves. The batch stores at most as many files as it listed.\<close>

theorem pending_rows_fate:
  assumes "media_inv (fw_media w)" "ListPending (fv_list_tx env) owner batch (fw_media w) = Inr pending"
    and "ProcessTenant env cfg token batch owner w = ((n, err), w')"
  shows "list_all2 (\<lambda>r q. mf_id q = mf_id r \<and> mf_owner q = mf_owner r \<and> mf_key q = mf_key r \<and>
      (q = r \<or> mf_owner r = owner \<and> mf_status r = StatusPending \<and> row_ok q \<and>
        (mf_status q = StatusStored \<or> mf_status q = StatusPurged \<and>
          gave_up_on (fv_file env) cfg token owner 0 pending w (mf_id r)))) (mt_rows (fw_media w)) (mt_rows (fw_media w')) \<and>
    0 \<le> n \<and> n \<le> int (length pending) \<and> length pending \<le> batch"
proof (cases "fv_shared env")
  case (Some e)
  then show ?thesis using assms ListPending_rows(1) [OF assms(2)] by (auto simp: ProcessTenant_def list_all2_same)
next
  case None
  then have r: "fetch_rows (fv_file env) cfg token owner 0 pending 0 w = ((n, err), w')"
    using assms(2,3) by (simp add: ProcessTenant_def)
  note f = fetch_rows_fate [OF r]
  have "mf_status r = StatusPending" if "r \<in> set (mt_rows (fw_media w))" "mf_owner r = owner" "mf_id r \<in> file_ID ` set pending" for r
    using ListPending_rows(2) [OF assms(2) that(3)] that(1) assms(1) media_id_unique by metis
  then show ?thesis
    using f ListPending_rows(1) [OF assms(2)] by (auto simp: fate_def list_all2_conv_all_nth)
qed

text \<open>C6. The catalogue never lies about the disk. If every stored row points to a flushed file with its digest and its
  size, and no published file is half flushed, then both hold after any batch: the rows it stores are backed too,
  and no download harms a file another row points to. This composes the catalogue, the quotas and the store.\<close>

theorem stored_rows_backed:
  assumes "store_New raw = Inr cfg" "so_MaxBytes raw < 2 ^ 63 - 1" "\<And>bs. length (se_sha env bs) = 32"
    and "\<And>i. same_process env (fl_store (fv_file fenv i))"
    and "backed env cfg (fw_media w) (sw_disk (fw_store w))" "settled (sw_disk (fw_store w))"
    and "ProcessTenant fenv cfg token batch owner w = (r, w')"
  shows "backed env cfg (fw_media w') (sw_disk (fw_store w')) \<and> settled (sw_disk (fw_store w'))"
proof -
  have i: "in_step env cfg w" using assms(5,6) by (simp add: in_step_def)
  have "in_step env cfg w'"
    using assms(7) i fetch_rows_in_step [OF assms(1-4)]
    by (auto simp: ProcessTenant_def split: option.splits sum.splits)
  then show ?thesis by (simp add: in_step_def)
qed

section \<open>Witnesses\<close>

definition sample_pending :: mf_row where
  "sample_pending = new_media_row 0 7 1 \<lparr>mr_BusinessConnectionID = ''A'', mr_ChatID = 5, mr_MessageID = 9, mr_FileIndex = 0,
     mr_TelegramFileID = runes ''f'', mr_TelegramFileUniqueID = runes ''AgAD'', mr_MediaType = ''photo'', mr_MimeType = [],
     mr_FileName = [], mr_ByteSize = None, mr_Width = None, mr_Height = None, mr_DurationSec = None, mr_MediaGroupID = []\<rparr>"

definition sample_file_env :: file_env where
  "sample_file_env = \<lparr>fl_dead = False, fl_admit_now = 0, fl_seed = None, fl_verify = None, fl_GetFile = Inr (runes ''photos/a.jpg''),
     fl_store = sample_store_env, fl_now = 3, fl_stored_tx = good_tx, fl_purged_tx = good_tx, fl_dead_after = False, fl_add_now = 0,
     fl_add_seed = None\<rparr>"

definition sample_fetch_env :: fetch_env where
  "sample_fetch_env = \<lparr>fv_shared = None, fv_list_tx = good_tx, fv_file = (\<lambda>_. sample_file_env)\<rparr>"

definition sample_fetch_world :: fetch_world where
  "sample_fetch_world = \<lparr>fw_media = \<lparr>mt_rows = [sample_pending], mt_seq = 2\<rparr>, fw_quota = None, fw_store = empty_store\<rparr>"

lemma sample_ListPending: "ListPending good_tx 7 20 (fw_media sample_fetch_world) = Inr [scan_file sample_pending]"
  by (simp add: ListPending_def media_page_def media_read_def InTenant_ok sample_fetch_world_def t_select_def scanFiles_def)
    (simp add: sample_pending_def)

lemma sample_ProcessTenant:
  "\<exists>w'. ProcessTenant sample_fetch_env sample_cfg (runes ''1:a'') 20 7 sample_fetch_world = ((1, None), w') \<and>
    map mf_status (mt_rows (fw_media w')) = [StatusStored]"
proof -
  have rq: "file_request 7 (scan_file sample_pending) (runes ''photos/a.jpg'') = sample_request"
    by (simp add: file_request_def scan_file_def sample_pending_def sample_request_def new_media_row_def)
  have v: "ValidateRelativePath (sm_RelPath sample_media) = None" "ValidateSHA256 (sm_SHA256 sample_media) = None"
    by (simp_all add: sample_media_def ValidateRelativePath_def sample_path_defs backslash_def ValidateSHA256_def list_ex_iff)
  have pending: "mf_owner sample_pending = 7" "mf_id sample_pending = 1" "media_checks (sample_pending\<lparr>mf_status := StatusStored,
      mf_path := Some p, mf_thumb := None, mf_sha := Some h, mf_size := Some 3, mf_updated := 3\<rparr>)" for p h
    by (simp_all add: sample_pending_def new_media_row_def media_checks_def knownMediaFields_def MediaTypePhoto_def)
  have "runes ''photos/a.jpg'' \<noteq> []" by (simp add: runes_def)
  then have one: "\<exists>w'. fetchOne sample_file_env sample_cfg (runes ''1:a'') 7 (scan_file sample_pending) sample_fetch_world = (Inr 3, w') \<and>
      map mf_status (mt_rows (fw_media w')) = [StatusStored]"
    using v pending sample_store_Download
    by (simp add: fetchOne_def sample_file_env_def rq sample_fetch_world_def MarkStored_def InTenant_ok update_media_def
        t_update_def nullif_empty_def sample_media_def)
  then show ?thesis
    using sample_ListPending
    by (auto simp: ProcessTenant_def sample_fetch_env_def fetch_turn_def sample_file_env_def admit_file_def sample_fetch_world_def)
qed

theorem pending_rows_fate_witness:
  "\<exists>w' q. ProcessTenant sample_fetch_env sample_cfg (runes ''1:a'') 20 7 sample_fetch_world = ((1, None), w') \<and>
    mt_rows (fw_media w') = [q] \<and> mf_id q = 1 \<and> mf_status q = StatusStored \<and> row_ok q"
proof -
  obtain w' where w': "ProcessTenant sample_fetch_env sample_cfg (runes ''1:a'') 20 7 sample_fetch_world = ((1, None), w')"
      "map mf_status (mt_rows (fw_media w')) = [StatusStored]"
    using sample_ProcessTenant by (elim exE conjE)
  have inv: "media_inv (fw_media sample_fetch_world)"
    by (simp add: media_inv_def sample_fetch_world_def sample_pending_def row_ok_new)
  have l: "ListPending (fv_list_tx sample_fetch_env) 7 20 (fw_media sample_fetch_world) = Inr [scan_file sample_pending]"
    using sample_ListPending by (simp add: sample_fetch_env_def)
  obtain q where q: "mt_rows (fw_media w') = [q]" "mf_status q = StatusStored" using w'(2) by auto
  have "mf_status sample_pending = StatusPending" "mf_id sample_pending = 1" by (simp_all add: sample_pending_def)
  then have "mf_id q = 1 \<and> row_ok q"
    using pending_rows_fate [OF inv l w'(1)] q by (simp add: sample_fetch_world_def del: gave_up_on.simps) auto
  then show ?thesis using w'(1) q by (intro exI [of _ w'] exI [of _ q]) simp
qed

theorem stored_rows_backed_witness:
  "\<exists>w' r full bs m. ProcessTenant sample_fetch_env sample_cfg (runes ''1:a'') 20 7 sample_fetch_world = ((1, None), w') \<and>
    mt_rows (fw_media w') = [r] \<and> mf_status r = StatusStored \<and> sw_disk (fw_store w') full = Some (Blob bs True m) \<and>
    mf_size r = Some (int (length bs))"
proof -
  obtain w' where w': "ProcessTenant sample_fetch_env sample_cfg (runes ''1:a'') 20 7 sample_fetch_world = ((1, None), w')"
      "map mf_status (mt_rows (fw_media w')) = [StatusStored]"
    using sample_ProcessTenant by (elim exE conjE)
  have b: "backed sample_store_env sample_cfg (fw_media w') (sw_disk (fw_store w')) \<and> settled (sw_disk (fw_store w'))"
    by (rule stored_rows_backed [OF sample_New _ _ _ w'(1)])
      (simp_all add: same_process_def sample_fetch_env_def sample_file_env_def backed_def settled_def sample_fetch_world_def
        sample_pending_def empty_store_def)
  obtain r where r: "mt_rows (fw_media w') = [r]" "mf_status r = StatusStored" using w'(2) by auto
  then obtain full bs m where "sw_disk (fw_store w') full = Some (Blob bs True m)" "mf_size r = Some (int (length bs))"
    using b by (auto simp: backed_def)
  then show ?thesis using w'(1) r
    by (intro exI [of _ w'] exI [of _ r] exI [of _ full] exI [of _ bs] exI [of _ m]) simp
qed

end
