(* ===== verification/Client.thy ===== *)
theory Client
  imports Alerts Store
begin

text \<open>
  \<open>bot/internal/telegram/client.go\<close>, \<open>files.go\<close> and the welcome message of \<open>alerts.go\<close>: the calls to the Bot API.

  A call posts to the base URL, the token and the method, reads a bounded body and decodes the envelope. The encoding of
  the parameters and the two JSON decoders are arguments; \<open>net/http\<close> is \<open>http_Do\<close> of Store, with the client as
  \<open>NewClient\<close> makes it, which follows redirects. A call answers with the requests it sent.
\<close>

section \<open>One call\<close>

record tg_client =
  tc_token :: gostr
  tc_http :: http_client
  tc_baseURL :: gostr

definition apiBaseURL :: gostr where "apiBaseURL = runes ''https://api.telegram.org/bot''"
definition maxResponseBytes :: nat where "maxResponseBytes = 10 * 2 ^ 20"

definition NewClient :: "gostr \<Rightarrow> gostr option \<Rightarrow> tg_client" where
  "NewClient token base = \<lparr>tc_token = token, tc_http = \<lparr>hc_follows = True\<rparr>,
     tc_baseURL = (case base of None \<Rightarrow> apiBaseURL | Some b \<Rightarrow> b)\<rparr>"

record envelope =
  ev_OK :: bool
  ev_ErrorCode :: int
  ev_RetryAfter :: "int option" \<comment> \<open>the parameters, when the answer has them\<close>
  ev_Result :: bytes

record client_env =
  cv_marshal :: "go_error option"
  cv_request :: "go_error option" \<comment> \<open>\<open>http.NewRequestWithContext\<close>: what \<open>url.Parse\<close> refuses in the URL\<close>
  cv_server :: "gostr \<Rightarrow> http_answer"
  cv_json :: "bytes \<Rightarrow> go_error + envelope"

text \<open>\<open>io.ReadAll(io.LimitReader(body, n))\<close>.\<close>

definition read_limited :: "nat \<Rightarrow> bytes list \<Rightarrow> go_error option \<Rightarrow> go_error + bytes" where
  "read_limited n chunks end_err =
     (let body = concat chunks in
      if n \<le> length body then Inr (take n body)
      else case end_err of Some err \<Rightarrow> Inl err | None \<Rightarrow> Inr body)"

text \<open>\<open>do\<close>; \<open>out\<close> decodes the result into the destination, and a nil destination is \<open>no_result\<close>.\<close>

definition no_result :: "bytes \<Rightarrow> go_error + unit" where "no_result raw = Inr ()"

definition client_do :: "client_env \<Rightarrow> tg_client \<Rightarrow> gostr \<Rightarrow> (bytes \<Rightarrow> go_error + 'a) \<Rightarrow>
    (gostr \<times> gostr option) list \<times> (go_error + 'a)" where
  "client_do env c url out =
     (case http_Do 10 (tc_http c) (cv_server env) url None of
        (sent, Inl err) \<Rightarrow>
          (sent, Inl (case as_url_error err of Some inner \<Rightarrow> Msg ''calling'' # inner | None \<Rightarrow> [Msg ''transport error'']))
      | (sent, Inr (status, len, chunks, end_err)) \<Rightarrow>
          (sent,
           case read_limited (maxResponseBytes + 1) chunks end_err of
             Inl err \<Rightarrow> Inl (Msg ''reading response'' # err)
           | Inr raw \<Rightarrow>
               if maxResponseBytes < length raw then Inl [Msg ''body exceeds the limit'']
               else case cv_json env raw of
                   Inl err \<Rightarrow> Inl (Msg ''decoding envelope'' # err)
                 | Inr e \<Rightarrow>
                     if \<not> ev_OK e
                     then Inl [APIError (ev_ErrorCode e) (case ev_RetryAfter e of None \<Rightarrow> 0 | Some after \<Rightarrow> after)]
                     else case out (ev_Result e) of
                         Inl err \<Rightarrow> Inl (Msg ''decoding result'' # err)
                       | Inr x \<Rightarrow> Inr x))"

definition client_call :: "client_env \<Rightarrow> tg_client \<Rightarrow> string \<Rightarrow> (bytes \<Rightarrow> go_error + 'a) \<Rightarrow>
    (gostr \<times> gostr option) list \<times> (go_error + 'a)" where
  "client_call env c method out =
     (case cv_marshal env of
        Some err \<Rightarrow> ([], Inl (Msg ''serializing request'' # err))
      | None \<Rightarrow>
          (case cv_request env of
             Some err \<Rightarrow> ([], Inl (Msg ''building request'' # err))
           | None \<Rightarrow> client_do env c (tc_baseURL c @ tc_token c @ [sep] @ runes method) out))"

section \<open>The methods\<close>

record getUpdatesRequest =
  gu_Offset :: i64
  gu_Timeout :: int
  gu_AllowedUpdates :: "string list"

text \<open>The parameters of \<open>GetUpdates\<close>, and the methods: the marshaller may depend on the parameters.\<close>

definition getUpdates_params :: "i64 \<Rightarrow> int \<Rightarrow> getUpdatesRequest" where
  "getUpdates_params offset timeout = \<lparr>gu_Offset = offset, gu_Timeout = timeout, gu_AllowedUpdates = AllowedUpdates\<rparr>"

definition client_GetUpdates :: "(getUpdatesRequest \<Rightarrow> client_env) \<Rightarrow> tg_client \<Rightarrow> (bytes \<Rightarrow> go_error + Update list) \<Rightarrow> i64 \<Rightarrow> int \<Rightarrow>
    go_error + Update list" where
  "client_GetUpdates env c decode offset timeout =
     snd (client_call (env (getUpdates_params offset timeout)) c ''getUpdates'' decode)"

definition SendMessageOnce :: "client_env \<Rightarrow> tg_client \<Rightarrow> go_error option" where
  "SendMessageOnce env c =
     (case snd (client_call env c ''sendMessage'' no_result) of
        Inl err \<Rightarrow> Some err | Inr _ \<Rightarrow> None)"

definition client_GetBusinessConnection :: "client_env \<Rightarrow> tg_client \<Rightarrow> (bytes \<Rightarrow> go_error + BusinessConnection) \<Rightarrow>
    go_error + BusinessConnection" where
  "client_GetBusinessConnection env c decode = snd (client_call env c ''getBusinessConnection'' decode)"

text \<open>\<open>GetFile\<close>: of the file, the download path is the only field that is read.\<close>

definition client_GetFile :: "client_env \<Rightarrow> tg_client \<Rightarrow> (bytes \<Rightarrow> go_error + gostr) \<Rightarrow> go_error + gostr" where
  "client_GetFile env c decode = snd (client_call env c ''getFile'' decode)"

section \<open>Sending with retries\<close>

definition sendMessageAttempts :: nat where "sendMessageAttempts = 3"
definition sendMessageMaxWait :: duration where "sendMessageMaxWait = go_minute"

definition sendMessageWait :: "int \<times> int \<Rightarrow> duration \<Rightarrow> duration" where
  "sendMessageWait apiErr backoff =
     (case apiErr of (code, after) \<Rightarrow>
        if IsRateLimited code after
        then (let wait = wrap64 (after * go_second) in if sendMessageMaxWait < wait then sendMessageMaxWait else wait)
        else backoff)"

record send_env =
  sn_client :: "nat \<Rightarrow> client_env"
  sn_cancel :: "nat \<Rightarrow> go_error option" \<comment> \<open>the context ends during the wait after this attempt\<close>

record send_result =
  sr_error :: "go_error option"
  sr_sends :: nat
  sr_waits :: "duration list"

text \<open>The loop, from an attempt on.\<close>

function send_attempts :: "send_env \<Rightarrow> tg_client \<Rightarrow> nat \<Rightarrow> duration \<Rightarrow> duration list \<Rightarrow> send_result" where
  "send_attempts env c k backoff waits =
     (case SendMessageOnce (sn_client env k) c of
        None \<Rightarrow> \<lparr>sr_error = None, sr_sends = k, sr_waits = waits\<rparr>
      | Some err \<Rightarrow>
          if (case as_api_error err of
                Some (code, after) \<Rightarrow> code < statusInternalServerError \<and> \<not> IsRateLimited code after \<and> code \<noteq> statusTooManyRequests
              | None \<Rightarrow> False)
          then \<lparr>sr_error = Some err, sr_sends = k, sr_waits = waits\<rparr>
          else if sendMessageAttempts \<le> k
          then \<lparr>sr_error = Some (Msg ''sendMessage after 3 attempts'' # err), sr_sends = k, sr_waits = waits\<rparr>
          else case sn_cancel env k of
              Some ctx \<Rightarrow> \<lparr>sr_error = Some ctx, sr_sends = k, sr_waits = waits\<rparr>
            | None \<Rightarrow>
                (let wait = (case as_api_error err of Some apiErr \<Rightarrow> sendMessageWait apiErr backoff | None \<Rightarrow> backoff)
                 in send_attempts env c (Suc k) (2 * backoff) (waits @ [wait])))"
  by pat_completeness auto
termination send_attempts
  by (relation "measure (\<lambda>(_, _, k, _, _). sendMessageAttempts - k)") auto

declare send_attempts.simps [simp del]

definition SendMessage :: "send_env \<Rightarrow> tg_client \<Rightarrow> send_result" where
  "SendMessage env c = send_attempts env c 1 go_second []"

section \<open>The welcome message\<close>

definition welcomeMessageText :: gostr where
  "welcomeMessageText = runes ''undelete is connected. All chats reachable through this Telegram Business connection ''
     @ runes ''will now be backed up automatically, without per-chat selection. ''
     @ runes ''You will be notified here when a message is deleted.''"

definition BuildWelcomeMessageRequest :: "i64 \<Rightarrow> i64 \<Rightarrow> SendMessageRequest" where
  "BuildWelcomeMessageRequest userChatID userID =
     \<lparr>smr_ChatID = (if userChatID = 0 then userID else userChatID), smr_Text = welcomeMessageText\<rparr>"

lemma welcome_fits: "utf16Units (smr_Text (BuildWelcomeMessageRequest chat user)) \<le> telegramTextLimit"
  by (simp add: BuildWelcomeMessageRequest_def welcomeMessageText_def runes_def runeUTF16Units_def RuneLen_def telegramTextLimit_def)

section \<open>The retries\<close>

text \<open>The last answer of the loop decides, and is the only one that does.\<close>

definition refusal :: "go_error \<Rightarrow> bool" where
  "refusal err \<longleftrightarrow> (case as_api_error err of
      Some (code, _) \<Rightarrow> code < statusInternalServerError \<and> code \<noteq> statusTooManyRequests | None \<Rightarrow> False)"

lemma refusal_iff:
  "(case as_api_error err of
      Some (code, after) \<Rightarrow> code < statusInternalServerError \<and> \<not> IsRateLimited code after \<and> code \<noteq> statusTooManyRequests
    | None \<Rightarrow> False) = refusal err"
  by (auto simp: refusal_def IsRateLimited_def split: option.splits)

lemma sendMessageWait_le: "backoff \<le> sendMessageMaxWait \<Longrightarrow> sendMessageWait e backoff \<le> sendMessageMaxWait"
  by (cases e) (auto simp: sendMessageWait_def Let_def)

lemma send_attempts_bounds:
  assumes "1 \<le> k" "k \<le> 3" "backoff = 2 ^ (k - 1) * go_second" "Suc (length waits) = k"
    and "\<forall>d \<in> set waits. d \<le> sendMessageMaxWait"
    and "\<forall>i. 1 \<le> i \<and> i < k \<longrightarrow> (\<exists>err. SendMessageOnce (sn_client env i) c = Some err \<and> \<not> refusal err)"
    and "res = send_attempts env c k backoff waits"
  shows "sr_sends res \<le> 3 \<and> Suc (length (sr_waits res)) = sr_sends res \<and> (\<forall>d \<in> set (sr_waits res). d \<le> sendMessageMaxWait) \<and>
    (sr_error res = None \<longleftrightarrow> SendMessageOnce (sn_client env (sr_sends res)) c = None) \<and>
    (\<forall>i. 1 \<le> i \<and> i < sr_sends res \<longrightarrow> (\<exists>err. SendMessageOnce (sn_client env i) c = Some err \<and> \<not> refusal err))"
  using assms
proof (induction env c k backoff waits rule: send_attempts.induct)
  case (1 env c k backoff waits)
  note step = "1.prems"(7) [unfolded send_attempts.simps [of env c k] refusal_iff]
  show ?case
  proof (cases "SendMessageOnce (sn_client env k) c")
    case None
    then show ?thesis using step "1.prems" by simp
  next
    case (Some err)
    show ?thesis
    proof (cases "refusal err \<or> 3 \<le> k \<or> sn_cancel env k \<noteq> None")
      case True
      then have "res = \<lparr>sr_error = sr_error res, sr_sends = k, sr_waits = waits\<rparr>" "sr_error res \<noteq> None"
        using step Some by (auto simp: sendMessageAttempts_def split: if_splits option.splits)
      then show ?thesis using Some "1.prems" by (metis (no_types, lifting) option.distinct(1) send_result.select_convs(2,3))
    next
      case False
      let ?wait = "case as_api_error err of Some apiErr \<Rightarrow> sendMessageWait apiErr backoff | None \<Rightarrow> backoff"
      have later: "res = send_attempts env c (Suc k) (2 * backoff) (waits @ [?wait])"
        using step Some False by (simp add: sendMessageAttempts_def Let_def)
      have "k = 1 \<or> k = 2" using False "1.prems"(1) by linarith
      then have b: "backoff \<le> sendMessageMaxWait" "2 * backoff = 2 ^ (Suc k - 1) * go_second"
        using "1.prems"(3) by (auto simp: sendMessageMaxWait_def go_minute_def go_second_def)
      have w: "?wait \<le> sendMessageMaxWait" using b(1) sendMessageWait_le by (auto split: option.splits)
      have "\<forall>i. 1 \<le> i \<and> i < Suc k \<longrightarrow> (\<exists>err. SendMessageOnce (sn_client env i) c = Some err \<and> \<not> refusal err)"
        using "1.prems"(6) Some False by (metis less_Suc_eq)
      then show ?thesis
        using "1.IH" [of err ?wait] Some False later b w "1.prems" refusal_iff [of err]
        by (auto simp: sendMessageAttempts_def)
    qed
  qed
qed

text \<open>A message without durable retries is sent at most three times, with a wait of at most a minute between two sends
  whatever delay the server asks for. It succeeds exactly when its last send did, and it was sent again only after
  failures that a retry can clear: a definitive refusal is never insisted upon.\<close>

theorem sends_bounded:
  assumes "res = SendMessage env c"
  shows "sr_sends res \<le> 3 \<and> Suc (length (sr_waits res)) = sr_sends res \<and> (\<forall>d \<in> set (sr_waits res). d \<le> go_minute) \<and>
    (sr_error res = None \<longleftrightarrow> SendMessageOnce (sn_client env (sr_sends res)) c = None) \<and>
    (\<forall>i. 1 \<le> i \<and> i < sr_sends res \<longrightarrow> (\<exists>err. SendMessageOnce (sn_client env i) c = Some err \<and> \<not> refusal err))"
  using send_attempts_bounds [of 1 go_second "[]" env c res] assms by (simp add: SendMessage_def sendMessageMaxWait_def)

text \<open>A server that answers nothing usable, then a message accepted.\<close>

definition sample_client_env :: "nat \<Rightarrow> client_env" where
  "sample_client_env k = \<lparr>cv_marshal = None, cv_request = None,
     cv_server = (\<lambda>url. if k < 2 then Refused [NetError True] else Answer 200 2 [[123, 125]] None),
     cv_json = (\<lambda>raw. Inr \<lparr>ev_OK = True, ev_ErrorCode = 0, ev_RetryAfter = None, ev_Result = []\<rparr>)\<rparr>"

section \<open>What an error of a call carries\<close>

definition names_URL :: "go_error \<Rightarrow> bool" where
  "names_URL err \<longleftrightarrow> list_ex (\<lambda>c. case c of URLError _ \<Rightarrow> True | _ \<Rightarrow> False) err"

text \<open>The transport, the body and the decoders report no \<open>*url.Error\<close> of their own.\<close>

definition plain_server :: "client_env \<Rightarrow> bool" where
  "plain_server env \<longleftrightarrow>
     (\<forall>url err. cv_server env url = Refused err \<longrightarrow> \<not> names_URL err) \<and>
     (\<forall>url status len chunks err. cv_server env url = Answer status len chunks (Some err) \<longrightarrow> \<not> names_URL err) \<and>
     (\<forall>raw err. cv_json env raw = Inl err \<longrightarrow> \<not> names_URL err) \<and>
     (\<forall>err. cv_marshal env = Some err \<longrightarrow> \<not> names_URL err)"

lemma names_URL_simps [simp]:
  "\<not> names_URL []" "names_URL (URLError url # err)" "names_URL (Msg m # err) = names_URL err"
  "names_URL (APIError code retry # err) = names_URL err"
  by (simp_all add: names_URL_def)

lemma http_Do_error:
  "http_Do hops client server url referer = (sent, Inl err) \<Longrightarrow> \<forall>url err. server url = Refused err \<longrightarrow> \<not> names_URL err \<Longrightarrow>
    \<exists>u inner. err = URLError u # inner \<and> \<not> names_URL inner"
proof (induction hops arbitrary: url referer sent)
  case 0
  then show ?case by (subst (asm) http_Do.simps) (auto split: http_answer.splits if_splits)
next
  case (Suc n)
  then show ?case by (subst (asm) (2) http_Do.simps) (auto split: http_answer.splits if_splits prod.splits)
qed

lemma http_Do_body:
  "http_Do hops client server url referer = (sent, Inr (status, len, chunks, Some err)) \<Longrightarrow>
    \<exists>u status len chunks. server u = Answer status len chunks (Some err)"
proof (induction hops arbitrary: url referer sent)
  case 0
  then show ?case by (subst (asm) http_Do.simps) (auto split: http_answer.splits if_splits)
next
  case (Suc n)
  then show ?case by (subst (asm) (2) http_Do.simps) (auto split: http_answer.splits if_splits prod.splits)
qed

lemma client_do_hides_URL:
  assumes "plain_server env" "\<forall>raw err. out raw = Inl err \<longrightarrow> \<not> names_URL err" "snd (client_do env c url out) = Inl err"
  shows "\<not> names_URL err"
proof -
  obtain sent r where r: "http_Do 10 (tc_http c) (cv_server env) url None = (sent, r)" by fastforce
  show ?thesis
  proof (cases r)
    case (Inl e)
    then obtain u inner where "e = URLError u # inner" "\<not> names_URL inner"
      using http_Do_error [of 10 "tc_http c" "cv_server env" url None sent e] r assms(1) by (auto simp: plain_server_def)
    then show ?thesis using assms(3) Inl r by (auto simp: client_do_def)
  next
    case (Inr answer)
    obtain status len chunks end_err where a: "answer = (status, len, chunks, end_err)" by (cases answer) auto
    have "\<not> names_URL e" if "read_limited n chunks end_err = Inl e" for n e
      using that http_Do_body [of 10 "tc_http c" "cv_server env" url None sent status len chunks e] assms(1) r Inr a
      by (auto simp: read_limited_def Let_def plain_server_def split: if_splits option.splits)
    then show ?thesis using assms a Inr r
      by (auto simp: client_do_def plain_server_def split: sum.splits if_splits)
  qed
qed

text \<open>C16. An error of a call to the Bot API names a URL, and with it the token of the bot, in one case only: the request
  could not be built and its error named it. Every other failure is stripped of it.\<close>

theorem call_error_names_URL:
  assumes "plain_server env" "\<forall>raw err. out raw = Inl err \<longrightarrow> \<not> names_URL err"
    and "snd (client_call env c method out) = Inl err"
  shows "names_URL err \<longleftrightarrow> cv_marshal env = None \<and> (\<exists>e. cv_request env = Some e \<and> err = Msg ''building request'' # e \<and> names_URL e)"
proof (cases "cv_marshal env = None \<and> cv_request env = None")
  case True
  then show ?thesis using client_do_hides_URL [OF assms(1,2)] assms(3) by (simp add: client_call_def)
next
  case False
  then show ?thesis using assms(1,3) by (auto simp: client_call_def plain_server_def split: option.splits)
qed

text \<open>\<open>url.Parse\<close> refuses a control character, and its error names the URL: a token read with a line feed at its end.\<close>

definition sample_bad_token :: client_env where
  "sample_bad_token = (sample_client_env 1)\<lparr>cv_request := Some [URLError (runes ''https://api.telegram.org/bot1:a'' @ [newline]),
     Msg ''net/url: invalid control character in URL'']\<rparr>"

theorem call_error_names_URL_witness:
  "names_URL (Msg ''building request'' # the (cv_request sample_bad_token)) \<and>
   \<not> names_URL [Msg ''calling'', NetError True]"
proof -
  have p: "plain_server sample_bad_token" "plain_server (sample_client_env 1)"
    by (auto simp: plain_server_def sample_bad_token_def sample_client_env_def names_URL_def)
  have "snd (client_call sample_bad_token (NewClient [49] None) ''getUpdates'' no_result) =
      Inl (Msg ''building request'' # the (cv_request sample_bad_token))"
    by (simp add: client_call_def sample_bad_token_def sample_client_env_def)
  from call_error_names_URL [OF p(1) _ this]
  have a: "names_URL (Msg ''building request'' # the (cv_request sample_bad_token))"
    by (simp add: no_result_def sample_bad_token_def sample_client_env_def)
  have "snd (client_call (sample_client_env 1) (NewClient [49] None) ''getUpdates'' no_result) = Inl [Msg ''calling'', NetError True]"
    by (simp add: client_call_def client_do_def sample_client_env_def http_Do.simps)
  from call_error_names_URL [OF p(2) _ this] have "\<not> names_URL [Msg ''calling'', NetError True]"
    by (simp add: no_result_def sample_client_env_def)
  then show ?thesis using a by blast
qed

section \<open>Where it departs from its intent\<close>

text \<open>A retry delay above 9223372036 seconds overflows: the wait is negative, and the message is sent again at once.\<close>

lemma huge_retry_after_sends_at_once: "sendMessageWait (429, 9223372037) go_second < 0"
  by (simp add: sendMessageWait_def IsRateLimited_def statusTooManyRequests_def sendMessageMaxWait_def go_minute_def go_second_def
      wrap64_def Let_def)

text \<open>The store refuses redirects because the next request carries the URL, and the token in it, as its referer; the client
  of the Bot API follows them.\<close>

lemma redirected_call_shows_token:
  assumes "cv_marshal env = None" "cv_request env = None" "url = tc_baseURL c @ tc_token c @ [sep] @ runes method"
    and "cv_server env url = Moved status location" "\<not> has_prefix (runes ''http:'') location" "hc_follows (tc_http c)"
  shows "(location, Some url) \<in> set (fst (client_call env c method out))"
proof -
  have "(location, Some url) \<in> set (fst (http_Do 9 (tc_http c) (cv_server env) location (referer_for url location)))"
    using assms(5) by (subst http_Do.simps)
      (auto simp: referer_for_def split: http_answer.splits nat.splits prod.splits)
  moreover have "(10::nat) = Suc 9" by simp
  ultimately have "(location, Some url) \<in> set (fst (http_Do 10 (tc_http c) (cv_server env) url None))"
    using assms(4,6) by (subst http_Do.simps) (auto split: prod.splits)
  moreover have "fst (client_do env c url out) = fst (http_Do 10 (tc_http c) (cv_server env) url None)"
    by (auto simp: client_do_def split: prod.splits sum.splits)
  ultimately show ?thesis using assms(1-3) by (simp add: client_call_def)
qed

end
