(* ===== verification/Config.thy ===== *)
theory Config
  imports Commands Fetch
begin

text \<open>
  \<open>bot/internal/config/config.go\<close>: the configuration read from the environment. \<open>getenv\<close> maps the name of a variable to
  its value when it is set; the parsers of the values are in Commands. \<open>strconv.Atoi\<close> with a sign,
  \<open>strconv.ParseBool\<close> and \<open>net.SplitHostPort\<close> are written out. Each refusal of \<open>Load\<close> is a constructor.
\<close>

section \<open>The standard parsers\<close>

text \<open>\<open>strconv.Atoi\<close>: an optional sign and digits, in the range of an \<open>int64\<close>.\<close>

definition Atoi_signed :: "gostr \<Rightarrow> int option" where
  "Atoi_signed t =
     (let negative = (t \<noteq> [] \<and> hd t = 45);
          digits = (if t \<noteq> [] \<and> (hd t = 45 \<or> hd t = 43) then tl t else t);
          v = (if negative then - int (undec digits) else int (undec digits))
      in if digits = [] \<or> \<not> list_all isDigit digits \<or> \<not> in_i64 v then None else Some v)"

definition ParseBool :: "gostr \<Rightarrow> bool option" where
  "ParseBool t =
     (if t \<in> set (map runes [''1'', ''t'', ''T'', ''true'', ''TRUE'', ''True'']) then Some True
      else if t \<in> set (map runes [''0'', ''f'', ''F'', ''false'', ''FALSE'', ''False'']) then Some False
      else None)"

text \<open>\<open>net.SplitHostPort\<close>: whether a text has the form \<open>host:port\<close> or \<open>[host]:port\<close>, and its parts.\<close>

definition colon :: rune where "colon = 58"
definition open_bracket :: rune where "open_bracket = 91"
definition close_bracket :: rune where "close_bracket = 93"

fun last_place :: "rune \<Rightarrow> gostr \<Rightarrow> nat option" where
  "last_place c [] = None"
| "last_place c (r # rs) = (case last_place c rs of Some i \<Rightarrow> Some (Suc i) | None \<Rightarrow> if r = c then Some 0 else None)"

definition SplitHostPort :: "gostr \<Rightarrow> (gostr \<times> gostr) option" where
  "SplitHostPort t =
     (case last_place colon t of
        None \<Rightarrow> None
      | Some i \<Rightarrow>
          if t \<noteq> [] \<and> hd t = open_bracket
          then (case place close_bracket t of
                  None \<Rightarrow> None
                | Some e \<Rightarrow>
                    if Suc e \<noteq> i then None
                    else if open_bracket \<in> set (drop 1 t) \<or> close_bracket \<in> set (drop (Suc e) t) then None
                    else Some (drop 1 (take e t), drop (Suc i) t))
          else if colon \<in> set (take i t) then None
          else if open_bracket \<in> set t \<or> close_bracket \<in> set t then None
          else Some (take i t, drop (Suc i) t))"

section \<open>The configuration\<close>

record Config =
  cf_DatabaseURL :: gostr
  cf_MigrationDatabaseURL :: gostr
  cf_TelegramBotToken :: gostr
  cf_AllowedOwnerTelegramUserIDs :: "int list"
  cf_MediaDir :: gostr
  cf_MediaPurgeDryRun :: bool
  cf_BackupRetentionDays :: int
  cf_HealthAddr :: gostr
  cf_QuotaMaxMessages :: i64
  cf_QuotaMaxMediaFiles :: i64
  cf_QuotaMaxMediaBytes :: i64
  cf_QuotaCapturesPerMinute :: i64
  cf_QuotaWarnPercent :: int

datatype config_error = InvalidQuota string | InvalidWarnPercent | BackupNotAnInteger | BackupNotPositive int | InvalidDryRun
  | InvalidHealthAddr | DatabaseURLRequired | MigrationURLRequired | TokenRequired | IdenticalURLs | LegacyOwnerID | InvalidAllowlist

definition defaultHealthAddr :: gostr where "defaultHealthAddr = runes '':9090''"
definition defaultMediaDir :: gostr where "defaultMediaDir = runes ''media''"
definition defaultBackupRetentionDays :: int where "defaultBackupRetentionDays = 14"
definition defaultQuotaMaxMessages :: i64 where "defaultQuotaMaxMessages = 100000"
definition defaultQuotaMaxMediaFiles :: i64 where "defaultQuotaMaxMediaFiles = 10000"
definition defaultQuotaMaxMediaBytes :: i64 where "defaultQuotaMaxMediaBytes = 5 * 2 ^ 30"
definition defaultQuotaCapturesPerMinute :: i64 where "defaultQuotaCapturesPerMinute = 300"
definition defaultQuotaWarnPercent :: int where "defaultQuotaWarnPercent = 80"

type_synonym environ = "string \<Rightarrow> gostr option"

definition Getenv :: "environ \<Rightarrow> string \<Rightarrow> gostr" where
  "Getenv getenv name = (case getenv name of None \<Rightarrow> [] | Some v \<Rightarrow> v)"

definition initial_config :: "environ \<Rightarrow> Config" where
  "initial_config getenv = \<lparr>cf_DatabaseURL = Getenv getenv ''DATABASE_URL'',
     cf_MigrationDatabaseURL = Getenv getenv ''MIGRATION_DATABASE_URL'', cf_TelegramBotToken = Getenv getenv ''TELEGRAM_BOT_TOKEN'',
     cf_AllowedOwnerTelegramUserIDs = [], cf_MediaDir = defaultMediaDir, cf_MediaPurgeDryRun = False,
     cf_BackupRetentionDays = defaultBackupRetentionDays, cf_HealthAddr = defaultHealthAddr,
     cf_QuotaMaxMessages = defaultQuotaMaxMessages, cf_QuotaMaxMediaFiles = defaultQuotaMaxMediaFiles,
     cf_QuotaMaxMediaBytes = defaultQuotaMaxMediaBytes, cf_QuotaCapturesPerMinute = defaultQuotaCapturesPerMinute,
     cf_QuotaWarnPercent = defaultQuotaWarnPercent\<rparr>"

text \<open>A step of \<open>Load\<close> may refuse; the next one sees the configuration it leaves. \<open>when_set\<close> is a variable that only
  counts when something is left of it without its blanks.\<close>

definition load_then :: "'e + 'a \<Rightarrow> ('a \<Rightarrow> 'e + 'b) \<Rightarrow> 'e + 'b" where
  "load_then r k = (case r of Inl e \<Rightarrow> Inl e | Inr x \<Rightarrow> k x)"

definition when_set :: "environ \<Rightarrow> string \<Rightarrow> (gostr \<Rightarrow> config_error + Config) \<Rightarrow> Config \<Rightarrow> config_error + Config" where
  "when_set getenv name f cfg = (let raw = TrimSpace (Getenv getenv name) in if raw \<noteq> [] then f raw else Inr cfg)"

definition load_quota :: "environ \<Rightarrow> string \<Rightarrow> (i64 \<Rightarrow> Config \<Rightarrow> Config) \<Rightarrow> Config \<Rightarrow> config_error + Config" where
  "load_quota getenv name store cfg =
     when_set getenv name (\<lambda>raw. case parseCanonicalPositiveInt64 raw of
         None \<Rightarrow> Inl (InvalidQuota name) | Some v \<Rightarrow> Inr (store v cfg)) cfg"

definition load_percent :: "environ \<Rightarrow> Config \<Rightarrow> config_error + Config" where
  "load_percent getenv cfg =
     when_set getenv ''QUOTA_WARN_PERCENT'' (\<lambda>raw. case parseCanonicalWarnPercent raw of
         None \<Rightarrow> Inl InvalidWarnPercent | Some p \<Rightarrow> Inr (cfg\<lparr>cf_QuotaWarnPercent := p\<rparr>)) cfg"

definition load_backup :: "environ \<Rightarrow> Config \<Rightarrow> config_error + Config" where
  "load_backup getenv cfg =
     when_set getenv ''BACKUP_RETENTION_DAYS'' (\<lambda>raw. case Atoi_signed raw of
         None \<Rightarrow> Inl BackupNotAnInteger
       | Some days \<Rightarrow> if days \<le> 0 then Inl (BackupNotPositive days) else Inr (cfg\<lparr>cf_BackupRetentionDays := days\<rparr>)) cfg"

definition load_media :: "environ \<Rightarrow> Config \<Rightarrow> config_error + Config" where
  "load_media getenv cfg =
     load_then (when_set getenv ''MEDIA_DIR'' (\<lambda>raw. Inr (cfg\<lparr>cf_MediaDir := raw\<rparr>)) cfg)
       (\<lambda>cfg. when_set getenv ''MEDIA_PURGE_DRY_RUN'' (\<lambda>raw. case ParseBool raw of
            None \<Rightarrow> Inl InvalidDryRun | Some b \<Rightarrow> Inr (cfg\<lparr>cf_MediaPurgeDryRun := b\<rparr>)) cfg)"

definition load_health :: "environ \<Rightarrow> Config \<Rightarrow> config_error + Config" where
  "load_health getenv cfg0 =
     (let cfg = (case getenv ''HEALTH_ADDR'' of None \<Rightarrow> cfg0 | Some raw \<Rightarrow> cfg0\<lparr>cf_HealthAddr := raw\<rparr>)
      in if cf_HealthAddr cfg \<noteq> [] \<and> SplitHostPort (cf_HealthAddr cfg) = None then Inl InvalidHealthAddr else Inr cfg)"

definition check_required :: "environ \<Rightarrow> Config \<Rightarrow> config_error + Config" where
  "check_required getenv cfg =
     (if cf_DatabaseURL cfg = [] then Inl DatabaseURLRequired
      else if cf_MigrationDatabaseURL cfg = [] then Inl MigrationURLRequired
      else if cf_TelegramBotToken cfg = [] then Inl TokenRequired
      else if cf_DatabaseURL cfg = cf_MigrationDatabaseURL cfg then Inl IdenticalURLs
      else if TrimSpace (Getenv getenv ''OWNER_TELEGRAM_USER_ID'') \<noteq> [] then Inl LegacyOwnerID
      else Inr cfg)"

definition load_allowlist :: "environ \<Rightarrow> Config \<Rightarrow> config_error + Config" where
  "load_allowlist getenv cfg =
     (case parseOwnerAllowlist (Getenv getenv ''OWNER_ALLOWLIST_TELEGRAM_USER_IDS'') of
        None \<Rightarrow> Inl InvalidAllowlist
      | Some allowed \<Rightarrow> Inr (cfg\<lparr>cf_AllowedOwnerTelegramUserIDs := allowed\<rparr>))"

definition Load :: "environ \<Rightarrow> config_error + Config" where
  "Load getenv =
     load_then (load_quota getenv ''QUOTA_MAX_MESSAGES_PER_TENANT'' (\<lambda>v c. c\<lparr>cf_QuotaMaxMessages := v\<rparr>) (initial_config getenv)) (\<lambda>cfg.
     load_then (load_quota getenv ''QUOTA_MAX_MEDIA_FILES_PER_TENANT'' (\<lambda>v c. c\<lparr>cf_QuotaMaxMediaFiles := v\<rparr>) cfg) (\<lambda>cfg.
     load_then (load_quota getenv ''QUOTA_MAX_MEDIA_BYTES_PER_TENANT'' (\<lambda>v c. c\<lparr>cf_QuotaMaxMediaBytes := v\<rparr>) cfg) (\<lambda>cfg.
     load_then (load_quota getenv ''QUOTA_CAPTURES_PER_MINUTE_PER_TENANT'' (\<lambda>v c. c\<lparr>cf_QuotaCapturesPerMinute := v\<rparr>) cfg) (\<lambda>cfg.
     load_then (load_percent getenv cfg) (\<lambda>cfg.
     load_then (load_backup getenv cfg) (\<lambda>cfg.
     load_then (load_media getenv cfg) (\<lambda>cfg.
     load_then (load_health getenv cfg) (\<lambda>cfg.
     load_then (check_required getenv cfg) (load_allowlist getenv)))))))))"

definition QuotaLimits :: "Config \<Rightarrow> Limits" where
  "QuotaLimits cfg = \<lparr>MaxMessages = cf_QuotaMaxMessages cfg, MaxMediaFiles = cf_QuotaMaxMediaFiles cfg,
     MaxMediaBytes = cf_QuotaMaxMediaBytes cfg, CapturesPerMinute = cf_QuotaCapturesPerMinute cfg,
     WarnPercent = cf_QuotaWarnPercent cfg\<rparr>"

section \<open>What each step keeps\<close>

lemma load_then_Inr: "load_then r k = Inr y \<longleftrightarrow> (\<exists>x. r = Inr x \<and> k x = Inr y)"
  by (cases r) (simp_all add: load_then_def)

lemma TrimSpace_blank: "TrimSpace t = [] \<longleftrightarrow> list_all IsSpace t"
proof -
  have left: "TrimLeft P t = [] \<longleftrightarrow> list_all P t" and right: "TrimRight P t = [] \<longleftrightarrow> list_all P t" for P t
    by (simp_all add: TrimLeft_def TrimRight_def list_all_iff)
  have same: "list_all IsSpace (TrimLeft IsSpace t) \<longleftrightarrow> list_all IsSpace t"
  proof
    assume a: "list_all IsSpace (TrimLeft IsSpace t)"
    have "TrimLeft IsSpace t = []"
    proof (rule ccontr)
      assume "TrimLeft IsSpace t \<noteq> []"
      then have "\<not> IsSpace (hd (TrimLeft IsSpace t))" unfolding TrimLeft_def by (rule hd_dropWhile)
      then show False using a \<open>TrimLeft IsSpace t \<noteq> []\<close> by (cases "TrimLeft IsSpace t") auto
    qed
    then show "list_all IsSpace t" using left by blast
  next
    assume "list_all IsSpace t"
    then show "list_all IsSpace (TrimLeft IsSpace t)" using left [of IsSpace t] by simp
  qed
  show ?thesis unfolding TrimSpace_def using trans [OF right same] .
qed

lemma TrimSpace_TrimSpace_Nil: "TrimSpace (TrimSpace t) = [] \<longleftrightarrow> TrimSpace t = []"
proof
  assume "TrimSpace (TrimSpace t) = []"
  then have sp: "list_all IsSpace (TrimSpace t)" by (simp add: TrimSpace_blank)
  show "TrimSpace t = []"
  proof (rule ccontr)
    assume ne: "TrimSpace t \<noteq> []"
    then have "dropWhile IsSpace (rev (TrimLeft IsSpace t)) \<noteq> []" by (simp add: TrimSpace_def TrimRight_def)
    then have "\<not> IsSpace (hd (dropWhile IsSpace (rev (TrimLeft IsSpace t))))" by (rule hd_dropWhile)
    then have "\<not> IsSpace (last (TrimSpace t))" using ne by (simp add: TrimSpace_def TrimRight_def last_rev)
    then show False using sp ne by (simp add: list_all_iff)
  qed
next
  have "TrimSpace [] = []" by (simp add: TrimSpace_def TrimLeft_def TrimRight_def)
  then show "TrimSpace t = [] \<Longrightarrow> TrimSpace (TrimSpace t) = []" by simp
qed

text \<open>The configuration is well formed as far as the values of each step go.\<close>

definition quotas_ok :: "Config \<Rightarrow> bool" where
  "quotas_ok cfg \<longleftrightarrow> 0 < cf_QuotaMaxMessages cfg \<and> 0 < cf_QuotaMaxMediaFiles cfg \<and> 0 < cf_QuotaMaxMediaBytes cfg \<and>
     0 < cf_QuotaCapturesPerMinute cfg \<and> 0 < cf_QuotaWarnPercent cfg \<and> cf_QuotaWarnPercent cfg < 100 \<and>
     0 < cf_BackupRetentionDays cfg \<and> TrimSpace (cf_MediaDir cfg) \<noteq> []"

lemma when_set_Inr:
  "when_set getenv name f cfg = Inr cfg' \<Longrightarrow> cfg' = cfg \<or> (\<exists>raw. raw = TrimSpace (Getenv getenv name) \<and> raw \<noteq> [] \<and> f raw = Inr cfg')"
  by (auto simp: when_set_def Let_def split: if_splits)

lemma load_quota_Inr:
  "load_quota getenv name store cfg = Inr cfg' \<Longrightarrow> cfg' = cfg \<or> (\<exists>v. 0 < v \<and> v < 2 ^ 63 \<and> cfg' = store v cfg)"
  unfolding load_quota_def by (drule when_set_Inr) (auto simp: parseCanonicalPositiveInt64_iff split: option.splits)

lemma load_percent_Inr:
  "load_percent getenv cfg = Inr cfg' \<Longrightarrow> cfg' = cfg \<or> (\<exists>p. 0 < p \<and> p < 100 \<and> cfg' = cfg\<lparr>cf_QuotaWarnPercent := p\<rparr>)"
  unfolding load_percent_def by (drule when_set_Inr) (auto simp: parseCanonicalWarnPercent_iff split: option.splits)

lemma load_backup_Inr:
  "load_backup getenv cfg = Inr cfg' \<Longrightarrow> cfg' = cfg \<or> (\<exists>d > 0. cfg' = cfg\<lparr>cf_BackupRetentionDays := d\<rparr>)"
  unfolding load_backup_def by (drule when_set_Inr) (force split: option.splits if_splits)

lemma load_media_Inr:
  assumes "load_media getenv cfg = Inr cfg'"
  shows "\<exists>dir b. (dir = cf_MediaDir cfg \<or> TrimSpace dir \<noteq> []) \<and> cfg' = cfg\<lparr>cf_MediaDir := dir, cf_MediaPurgeDryRun := b\<rparr>"
proof -
  obtain c where c: "when_set getenv ''MEDIA_DIR'' (\<lambda>raw. Inr (cfg\<lparr>cf_MediaDir := raw\<rparr>)) cfg = Inr c"
      "when_set getenv ''MEDIA_PURGE_DRY_RUN'' (\<lambda>raw. case ParseBool raw of
            None \<Rightarrow> Inl InvalidDryRun | Some b \<Rightarrow> Inr (c\<lparr>cf_MediaPurgeDryRun := b\<rparr>)) c = Inr cfg'"
    using assms by (auto simp: load_media_def load_then_Inr)
  have same: "cfg\<lparr>cf_MediaDir := cf_MediaDir cfg\<rparr> = cfg" "c\<lparr>cf_MediaPurgeDryRun := cf_MediaPurgeDryRun c\<rparr> = c" by simp_all
  obtain dir where dir: "dir = cf_MediaDir cfg \<or> TrimSpace dir \<noteq> []" "c = cfg\<lparr>cf_MediaDir := dir\<rparr>"
  proof (cases "c = cfg")
    case True
    then show ?thesis using that [of "cf_MediaDir cfg"] same(1) by simp
  next
    case False
    then obtain raw where "raw = TrimSpace (Getenv getenv ''MEDIA_DIR'')" "raw \<noteq> []" "c = cfg\<lparr>cf_MediaDir := raw\<rparr>"
      using when_set_Inr [OF c(1)] by auto
    then show ?thesis using that [of raw] TrimSpace_TrimSpace_Nil by simp
  qed
  obtain b where "cfg' = c\<lparr>cf_MediaPurgeDryRun := b\<rparr>"
  proof (cases "cfg' = c")
    case True
    then show ?thesis using that [of "cf_MediaPurgeDryRun c"] same(2) by simp
  next
    case False
    then obtain raw where "(case ParseBool raw of None \<Rightarrow> Inl InvalidDryRun | Some b \<Rightarrow> Inr (c\<lparr>cf_MediaPurgeDryRun := b\<rparr>)) = Inr cfg'"
      using when_set_Inr [OF c(2)] by blast
    then show ?thesis using that by (cases "ParseBool raw") auto
  qed
  then show ?thesis using dir by blast
qed

lemma load_health_Inr:
  "load_health getenv cfg = Inr cfg' \<Longrightarrow>
    \<exists>a. cfg' = cfg\<lparr>cf_HealthAddr := a\<rparr> \<and> (a = [] \<or> SplitHostPort a \<noteq> None)"
proof -
  assume l: "load_health getenv cfg = Inr cfg'"
  have same: "cfg = cfg\<lparr>cf_HealthAddr := cf_HealthAddr cfg\<rparr>" by simp
  show ?thesis
  proof (cases "getenv ''HEALTH_ADDR''")
    case None
    then have "cfg' = cfg" "cf_HealthAddr cfg = [] \<or> SplitHostPort (cf_HealthAddr cfg) \<noteq> None"
      using l by (auto simp: load_health_def split: if_splits)
    then show ?thesis using same by blast
  next
    case (Some raw)
    then have "cfg' = cfg\<lparr>cf_HealthAddr := raw\<rparr>" "raw = [] \<or> SplitHostPort raw \<noteq> None"
      using l by (auto simp: load_health_def split: if_splits)
    then show ?thesis by blast
  qed
qed

lemma check_required_Inr:
  "check_required getenv cfg = Inr cfg' \<Longrightarrow> cfg' = cfg \<and> cf_DatabaseURL cfg \<noteq> [] \<and> cf_MigrationDatabaseURL cfg \<noteq> [] \<and>
    cf_TelegramBotToken cfg \<noteq> [] \<and> cf_DatabaseURL cfg \<noteq> cf_MigrationDatabaseURL cfg \<and>
    TrimSpace (Getenv getenv ''OWNER_TELEGRAM_USER_ID'') = []"
  by (auto simp: check_required_def split: if_splits)

lemma allowlist_positive:
  assumes "parseOwnerAllowlist raw = Some ids"
  shows "distinct ids \<and> (\<forall>i \<in> set ids. 0 < i \<and> i < 2 ^ 63)"
proof -
  obtain ns where "\<forall>n \<in> set ns. 0 < n \<and> n < 2 ^ 63" "ids = first_of_each (map int ns)"
    using allowlist_exact [of raw ids] assms by blast
  then show ?thesis by (auto simp: first_of_each_def)
qed

lemma load_allowlist_Inr:
  "load_allowlist getenv cfg = Inr cfg' \<Longrightarrow>
    \<exists>ids. cfg' = cfg\<lparr>cf_AllowedOwnerTelegramUserIDs := ids\<rparr> \<and>
      parseOwnerAllowlist (Getenv getenv ''OWNER_ALLOWLIST_TELEGRAM_USER_IDS'') = Some ids"
  by (auto simp: load_allowlist_def split: option.splits)

text \<open>The values of the steps before the required variables.\<close>

definition loaded_values :: "environ \<Rightarrow> Config \<Rightarrow> bool" where
  "loaded_values getenv cfg \<longleftrightarrow> quotas_ok cfg \<and> cf_DatabaseURL cfg = Getenv getenv ''DATABASE_URL'' \<and>
     cf_MigrationDatabaseURL cfg = Getenv getenv ''MIGRATION_DATABASE_URL'' \<and>
     cf_TelegramBotToken cfg = Getenv getenv ''TELEGRAM_BOT_TOKEN''"

lemma loaded_values_initial: "loaded_values getenv (initial_config getenv)"
proof -
  have "TrimSpace (runes ''media'') \<noteq> []"
    by (simp add: TrimSpace_def TrimLeft_def TrimRight_def runes_def IsSpace_def)
  then show ?thesis
    by (simp add: loaded_values_def quotas_ok_def initial_config_def defaultMediaDir_def defaultBackupRetentionDays_def
        defaultQuotaMaxMessages_def defaultQuotaMaxMediaFiles_def defaultQuotaMaxMediaBytes_def
        defaultQuotaCapturesPerMinute_def defaultQuotaWarnPercent_def)
qed

lemma load_quota_keeps:
  assumes "loaded_values getenv cfg" "load_quota getenv name store cfg = Inr cfg'"
    and "\<And>v. 0 < v \<Longrightarrow> loaded_values getenv (store v cfg)"
  shows "loaded_values getenv cfg'"
  using load_quota_Inr [OF assms(2)] assms(1,3) by blast

lemma load_percent_keeps: "load_percent getenv cfg = Inr cfg' \<Longrightarrow> loaded_values getenv cfg \<Longrightarrow> loaded_values getenv cfg'"
  by (drule load_percent_Inr) (auto simp: loaded_values_def quotas_ok_def)

lemma load_backup_keeps: "load_backup getenv cfg = Inr cfg' \<Longrightarrow> loaded_values getenv cfg \<Longrightarrow> loaded_values getenv cfg'"
  by (drule load_backup_Inr) (auto simp: loaded_values_def quotas_ok_def)

lemma load_media_keeps: "load_media getenv cfg = Inr cfg' \<Longrightarrow> loaded_values getenv cfg \<Longrightarrow> loaded_values getenv cfg'"
  by (drule load_media_Inr) (auto simp: loaded_values_def quotas_ok_def)

lemma load_health_keeps: "load_health getenv cfg = Inr cfg' \<Longrightarrow> loaded_values getenv cfg \<Longrightarrow> loaded_values getenv cfg'"
  by (drule load_health_Inr) (auto simp: loaded_values_def quotas_ok_def)

lemma quotas_ok_usable:
  "quotas_ok cfg \<Longrightarrow> Limits_Validate (QuotaLimits cfg) = None"
  by (simp add: quotas_ok_def Limits_Validate_def QuotaLimits_def)


text \<open>An environment with the required variables, two owners, a quota and no health server.\<close>

definition sample_environ :: environ where
  "sample_environ = (\<lambda>name. None)(''DATABASE_URL'' \<mapsto> runes ''a'', ''MIGRATION_DATABASE_URL'' \<mapsto> runes ''b'',
     ''TELEGRAM_BOT_TOKEN'' \<mapsto> runes ''1:a'', ''OWNER_ALLOWLIST_TELEGRAM_USER_IDS'' \<mapsto> runes ''5, 7 5'',
     ''QUOTA_MAX_MESSAGES_PER_TENANT'' \<mapsto> runes '' 9 '', ''HEALTH_ADDR'' \<mapsto> [])"

lemma sample_values:
  "Getenv sample_environ ''OWNER_ALLOWLIST_TELEGRAM_USER_IDS'' = runes ''5, 7 5''"
  "Getenv sample_environ ''QUOTA_MAX_MESSAGES_PER_TENANT'' = runes '' 9 ''"
  "Getenv sample_environ ''DATABASE_URL'' = runes ''a''" "Getenv sample_environ ''MIGRATION_DATABASE_URL'' = runes ''b''"
  "Getenv sample_environ ''TELEGRAM_BOT_TOKEN'' = runes ''1:a''" "sample_environ ''HEALTH_ADDR'' = Some []"
  "Getenv sample_environ ''QUOTA_MAX_MEDIA_FILES_PER_TENANT'' = []" "Getenv sample_environ ''QUOTA_MAX_MEDIA_BYTES_PER_TENANT'' = []"
  "Getenv sample_environ ''QUOTA_CAPTURES_PER_MINUTE_PER_TENANT'' = []" "Getenv sample_environ ''QUOTA_WARN_PERCENT'' = []"
  "Getenv sample_environ ''BACKUP_RETENTION_DAYS'' = []" "Getenv sample_environ ''MEDIA_DIR'' = []"
  "Getenv sample_environ ''MEDIA_PURGE_DRY_RUN'' = []" "Getenv sample_environ ''OWNER_TELEGRAM_USER_ID'' = []"
  by (simp_all add: sample_environ_def Getenv_def)

lemma sample_parses:
  "TrimSpace [] = []" "TrimSpace (runes '' 9 '') = [57]" "parseCanonicalPositiveInt64 [57] = Some 9"
  "parseOwnerAllowlist (runes ''5, 7 5'') = Some [5, 7]" "runes ''a'' \<noteq> []" "runes ''b'' \<noteq> []" "runes ''1:a'' \<noteq> []"
  "runes ''a'' \<noteq> runes ''b''"
  by (simp_all add: TrimSpace_def TrimLeft_def TrimRight_def runes_def IsSpace_def parseCanonicalPositiveInt64_def
      isCanonicalPositiveDecimal_def isDigit_def Atoi_def undec_def parseOwnerAllowlist_def FieldsFunc_def)

lemma sample_Load:
  "Load sample_environ = Inr ((initial_config sample_environ)\<lparr>cf_QuotaMaxMessages := 9, cf_HealthAddr := [],
     cf_AllowedOwnerTelegramUserIDs := [5, 7]\<rparr>)"
  by (simp add: Load_def load_then_def load_quota_def load_percent_def load_backup_def load_media_def load_health_def
      check_required_def load_allowlist_def when_set_def sample_values sample_parses initial_config_def)


text \<open>What the two defaults have to agree on: without quota variables, the limits are those of the tracker.\<close>

lemma default_limits:
  assumes "Load getenv = Inr cfg"
    and "TrimSpace (Getenv getenv ''QUOTA_MAX_MESSAGES_PER_TENANT'') = []"
      "TrimSpace (Getenv getenv ''QUOTA_MAX_MEDIA_FILES_PER_TENANT'') = []"
      "TrimSpace (Getenv getenv ''QUOTA_MAX_MEDIA_BYTES_PER_TENANT'') = []"
      "TrimSpace (Getenv getenv ''QUOTA_CAPTURES_PER_MINUTE_PER_TENANT'') = []"
      "TrimSpace (Getenv getenv ''QUOTA_WARN_PERCENT'') = []"
  shows "QuotaLimits cfg = DefaultLimits"
proof -
  have start: "load_then (load_backup getenv (initial_config getenv)) (\<lambda>cfg. load_then (load_media getenv cfg) (\<lambda>cfg.
      load_then (load_health getenv cfg) (\<lambda>cfg. load_then (check_required getenv cfg) (load_allowlist getenv)))) = Inr cfg"
    using assms by (simp add: Load_def load_quota_def load_percent_def when_set_def load_then_def)
  then obtain c6 c7 c8 c9 where "load_backup getenv (initial_config getenv) = Inr c6" "load_media getenv c6 = Inr c7"
      "load_health getenv c7 = Inr c8" "check_required getenv c8 = Inr c9" "load_allowlist getenv c9 = Inr cfg"
    unfolding load_then_Inr by (elim exE conjE) (rule that)
  then have "QuotaLimits cfg = QuotaLimits (initial_config getenv)"
    by (auto simp: QuotaLimits_def dest!: load_backup_Inr load_media_Inr load_health_Inr check_required_Inr load_allowlist_Inr)
  then show ?thesis
    by (simp add: QuotaLimits_def initial_config_def DefaultLimits_def defaultQuotaMaxMessages_def defaultQuotaMaxMediaFiles_def
        defaultQuotaMaxMediaBytes_def defaultQuotaCapturesPerMinute_def defaultQuotaWarnPercent_def)
qed

end
