(* ===== verification/Instance_Lock.thy ===== *)
theory Instance_Lock
  imports Errors
begin

text \<open>
  \<open>bot/internal/storage/instancelock.go\<close>: the advisory lock that keeps two bots from running on one database.

  PostgreSQL is a parameter: what \<open>pg_try_advisory_lock\<close> answers a session and what the end of a session does.
  \<open>documented\<close> states what its manual promises of them. The processes are numbered, each with its \<open>InstanceLock\<close>; a
  session is a number that is never used again, and the server may end one at any time (a restart, a cut of the
  network). Every critical section of the mutex is one turn; the turns of the processes and the ends of sessions
  interleave freely. A process that closes its connection may fail to tell the server, which then ends the session later.
\<close>

section \<open>The server\<close>

record 's lock_server =
  sv_try :: "'s \<Rightarrow> nat \<Rightarrow> 's \<times> bool"
  sv_end :: "'s \<Rightarrow> nat \<Rightarrow> 's"
  sv_holder :: "'s \<Rightarrow> nat option"

definition documented :: "'s lock_server \<Rightarrow> bool" where
  "documented sv \<longleftrightarrow>
     (\<forall>s c. sv_holder sv (fst (sv_try sv s c)) = Some (case sv_holder sv s of None \<Rightarrow> c | Some d \<Rightarrow> d) \<and>
        (snd (sv_try sv s c) \<longleftrightarrow> sv_holder sv s = None \<or> sv_holder sv s = Some c)) \<and>
     (\<forall>s c. sv_holder sv (sv_end sv s c) = (if sv_holder sv s = Some c then None else sv_holder sv s))"

section \<open>A process\<close>

datatype lock_error = InstanceLockLost | InstanceLockReleased | LockConnecting | LockTaking | LockCtx

text \<open>Where a process is: in \<open>AcquireInstanceLock\<close>, in the wait of \<open>Hold\<close>, in \<open>retake\<close>, or returned with an answer. The
  bot runs from the return of \<open>AcquireInstanceLock\<close> to the return of \<open>Hold\<close>.\<close>

datatype lock_phase = Acquiring | Held | Retaking | Ended "lock_error option"

record instance_lock =
  il_conn :: "nat option"
  il_released :: bool
  il_phase :: lock_phase

record 's lock_world =
  lw_server :: 's
  lw_next :: nat
  lw_ended :: "nat set"
  lw_procs :: "nat \<Rightarrow> instance_lock"

definition with_proc :: "nat \<Rightarrow> (instance_lock \<Rightarrow> instance_lock) \<Rightarrow> 's lock_world \<Rightarrow> 's lock_world" where
  "with_proc p f w = w\<lparr>lw_procs := (lw_procs w)(p := f (lw_procs w p))\<rparr>"

definition end_session :: "'s lock_server \<Rightarrow> nat \<Rightarrow> 's lock_world \<Rightarrow> 's lock_world" where
  "end_session sv c w = w\<lparr>lw_server := sv_end sv (lw_server w) c, lw_ended := insert c (lw_ended w)\<rparr>"

text \<open>\<open>closeLocked\<close>; \<open>told\<close> says whether the close reaches the server.\<close>

definition closeLocked :: "'s lock_server \<Rightarrow> bool \<Rightarrow> nat \<Rightarrow> 's lock_world \<Rightarrow> 's lock_world" where
  "closeLocked sv told p w =
     (case il_conn (lw_procs w p) of
        None \<Rightarrow> w
      | Some c \<Rightarrow> with_proc p (\<lambda>l. l\<lparr>il_conn := None\<rparr>) (if told then end_session sv c w else w))"

text \<open>What the database answers a turn: to the connection, if one is opened, to the statement, which may have reached the
  server when its answer is lost, and to the ping.\<close>

record turn_env =
  tn_connect :: bool
  tn_query :: bool
  tn_reached :: bool
  tn_ping :: bool
  tn_told :: bool
  tn_ctx :: bool \<comment> \<open>the context of the caller has ended\<close>

definition connected :: "nat \<Rightarrow> 's lock_world \<Rightarrow> nat \<times> 's lock_world" where
  "connected p w =
     (case il_conn (lw_procs w p) of
        Some c \<Rightarrow> (c, w)
      | None \<Rightarrow> (lw_next w, with_proc p (\<lambda>l. l\<lparr>il_conn := Some (lw_next w)\<rparr>) (w\<lparr>lw_next := Suc (lw_next w)\<rparr>)))"

definition tryLock :: "'s lock_server \<Rightarrow> turn_env \<Rightarrow> nat \<Rightarrow> 's lock_world \<Rightarrow> (lock_error + bool) \<times> 's lock_world" where
  "tryLock sv e p w =
     (if il_released (lw_procs w p) then (Inl InstanceLockReleased, w)
      else if il_conn (lw_procs w p) = None \<and> \<not> tn_connect e then (Inl LockConnecting, w)
      else case connected p w of (c, w1) \<Rightarrow>
        let dead = (c \<in> lw_ended w1); (s, held) = sv_try sv (lw_server w1) c in
        if \<not> dead \<and> tn_query e then (Inr held, w1\<lparr>lw_server := s\<rparr>)
        else (Inl LockTaking, closeLocked sv (tn_told e) p (if \<not> dead \<and> tn_reached e then w1\<lparr>lw_server := s\<rparr> else w1)))"

definition alive :: "'s lock_server \<Rightarrow> turn_env \<Rightarrow> nat \<Rightarrow> 's lock_world \<Rightarrow> bool \<times> 's lock_world" where
  "alive sv e p w =
     (case il_conn (lw_procs w p) of
        None \<Rightarrow> (False, w)
      | Some c \<Rightarrow> if c \<notin> lw_ended w \<and> tn_ping e then (True, w) else (False, closeLocked sv (tn_told e) p w))"

definition Release :: "'s lock_server \<Rightarrow> bool \<Rightarrow> nat \<Rightarrow> 's lock_world \<Rightarrow> 's lock_world" where
  "Release sv told p w = closeLocked sv told p (with_proc p (\<lambda>l. l\<lparr>il_released := True\<rparr>) w)"

definition goto :: "lock_phase \<Rightarrow> nat \<Rightarrow> 's lock_world \<Rightarrow> 's lock_world" where
  "goto ph p w = with_proc p (\<lambda>l. l\<lparr>il_phase := ph\<rparr>) w"

definition give_up_lock :: "'s lock_server \<Rightarrow> bool \<Rightarrow> lock_error option \<Rightarrow> nat \<Rightarrow> 's lock_world \<Rightarrow> 's lock_world" where
  "give_up_lock sv told err p w = goto (Ended err) p (Release sv told p w)"

text \<open>An iteration of \<open>AcquireInstanceLock\<close>, up to its wait.\<close>

definition acquire_turn :: "'s lock_server \<Rightarrow> turn_env \<Rightarrow> nat \<Rightarrow> 's lock_world \<Rightarrow> 's lock_world" where
  "acquire_turn sv e p w =
     (case tryLock sv e p w of
        (Inl err, w1) \<Rightarrow> give_up_lock sv (tn_told e) (Some err) p w1
      | (Inr True, w1) \<Rightarrow> goto Held p w1
      | (Inr False, w1) \<Rightarrow> w1)"

text \<open>A tick of \<open>Hold\<close>, and an iteration of \<open>retake\<close> up to its wait.\<close>

definition hold_turn :: "'s lock_server \<Rightarrow> turn_env \<Rightarrow> nat \<Rightarrow> 's lock_world \<Rightarrow> 's lock_world" where
  "hold_turn sv e p w =
     (case alive sv e p w of
        (True, w1) \<Rightarrow> w1
      | (False, w1) \<Rightarrow>
          if tn_ctx e then give_up_lock sv (tn_told e) (Some LockCtx) p w1 else goto Retaking p w1)"

definition retake_turn :: "'s lock_server \<Rightarrow> turn_env \<Rightarrow> nat \<Rightarrow> 's lock_world \<Rightarrow> 's lock_world" where
  "retake_turn sv e p w =
     (case tryLock sv e p w of
        (Inr True, w1) \<Rightarrow> goto Held p w1
      | (Inr False, w1) \<Rightarrow> give_up_lock sv (tn_told e) (Some InstanceLockLost) p w1
      | (Inl err, w1) \<Rightarrow> if err = InstanceLockReleased then give_up_lock sv (tn_told e) None p w1 else w1)"

section \<open>The interleaving\<close>

definition fresh_lock :: instance_lock where
  "fresh_lock = \<lparr>il_conn = None, il_released = False, il_phase = Acquiring\<rparr>"

definition boot :: "'s \<Rightarrow> 's lock_world" where
  "boot s = \<lparr>lw_server = s, lw_next = 0, lw_ended = {}, lw_procs = (\<lambda>p. fresh_lock)\<rparr>"

text \<open>The waits end with the context as well; \<open>Release\<close> may be called by anybody.\<close>

inductive lock_step :: "'s lock_server \<Rightarrow> 's lock_world \<Rightarrow> 's lock_world \<Rightarrow> bool" for sv where
  acquire: "il_phase (lw_procs w p) = Acquiring \<Longrightarrow> lock_step sv w (acquire_turn sv e p w)"
| check: "il_phase (lw_procs w p) = Held \<Longrightarrow> lock_step sv w (hold_turn sv e p w)"
| retake: "il_phase (lw_procs w p) = Retaking \<Longrightarrow> lock_step sv w (retake_turn sv e p w)"
| cancel: "il_phase (lw_procs w p) \<in> {Acquiring, Held, Retaking} \<Longrightarrow> lock_step sv w (give_up_lock sv told (Some LockCtx) p w)"
| release: "lock_step sv w (Release sv told p w)"
| drop: "c < lw_next w \<Longrightarrow> lock_step sv w (end_session sv c w)"

inductive lock_reachable :: "'s lock_server \<Rightarrow> 's lock_world \<Rightarrow> bool" for sv where
  start: "sv_holder sv s = None \<Longrightarrow> lock_reachable sv (boot s)"
| step: "lock_reachable sv w \<Longrightarrow> lock_step sv w w' \<Longrightarrow> lock_reachable sv w'"

definition running :: "'s lock_world \<Rightarrow> nat \<Rightarrow> bool" where
  "running w p \<longleftrightarrow> il_phase (lw_procs w p) \<in> {Held, Retaking}"

text \<open>A process whose session the server has ended, or that has closed it.\<close>

definition cut_off :: "'s lock_world \<Rightarrow> nat \<Rightarrow> bool" where
  "cut_off w p \<longleftrightarrow> (case il_conn (lw_procs w p) of None \<Rightarrow> True | Some c \<Rightarrow> c \<in> lw_ended w)"

section \<open>The invariant\<close>

definition lock_inv :: "'s lock_server \<Rightarrow> 's lock_world \<Rightarrow> bool" where
  "lock_inv sv w \<longleftrightarrow>
     (\<forall>p c. il_conn (lw_procs w p) = Some c \<longrightarrow> c < lw_next w) \<and>
     (\<forall>p q c. il_conn (lw_procs w p) = Some c \<longrightarrow> il_conn (lw_procs w q) = Some c \<longrightarrow> p = q) \<and>
     (\<forall>c \<in> lw_ended w. c < lw_next w) \<and>
     (\<forall>p c. il_phase (lw_procs w p) = Held \<longrightarrow> il_conn (lw_procs w p) = Some c \<longrightarrow> c \<in> lw_ended w \<or> sv_holder sv (lw_server w) = Some c)"

lemma boot_inv: "lock_inv sv (boot s)"
  by (simp add: lock_inv_def boot_def fresh_lock_def)

lemma end_session_inv: "documented sv \<Longrightarrow> lock_inv sv w \<Longrightarrow> c < lw_next w \<Longrightarrow> lock_inv sv (end_session sv c w)"
  by (auto simp: lock_inv_def end_session_def documented_def)

lemma forget_inv: "lock_inv sv w \<Longrightarrow> lock_inv sv (with_proc p (\<lambda>l. l\<lparr>il_conn := None\<rparr>) w)"
  by (auto simp: lock_inv_def with_proc_def)

lemma closeLocked_inv: "documented sv \<Longrightarrow> lock_inv sv w \<Longrightarrow> lock_inv sv (closeLocked sv told p w)"
proof -
  assume a: "documented sv" "lock_inv sv w"
  have "c < lw_next w" if "il_conn (lw_procs w p) = Some c" for c using a(2) that by (auto simp: lock_inv_def)
  then show ?thesis unfolding closeLocked_def using a by (auto intro!: forget_inv end_session_inv split: option.splits)
qed

lemma closeLocked_conn [simp]: "il_conn (lw_procs (closeLocked sv told p w) p) = None"
  by (simp add: closeLocked_def with_proc_def split: option.splits)

lemma closeLocked_phase [simp]: "il_phase (lw_procs (closeLocked sv told p w) q) = il_phase (lw_procs w q)"
  by (auto simp: closeLocked_def with_proc_def end_session_def split: option.splits)

lemma released_inv: "lock_inv sv w \<Longrightarrow> lock_inv sv (with_proc p (\<lambda>l. l\<lparr>il_released := True\<rparr>) w)"
  by (auto simp: lock_inv_def with_proc_def)

lemma Release_inv: "documented sv \<Longrightarrow> lock_inv sv w \<Longrightarrow> lock_inv sv (Release sv told p w)"
  unfolding Release_def by (intro closeLocked_inv released_inv)

lemma goto_inv:
  "lock_inv sv w \<Longrightarrow> ph \<noteq> Held \<or> (\<forall>c. il_conn (lw_procs w p) = Some c \<longrightarrow> sv_holder sv (lw_server w) = Some c) \<Longrightarrow>
    lock_inv sv (goto ph p w)"
  by (auto simp: lock_inv_def goto_def with_proc_def)

lemma give_up_lock_inv: "documented sv \<Longrightarrow> lock_inv sv w \<Longrightarrow> lock_inv sv (give_up_lock sv told err p w)"
  unfolding give_up_lock_def by (intro goto_inv Release_inv) simp_all

lemma connected_inv:
  assumes "lock_inv sv w" "il_phase (lw_procs w p) \<noteq> Held" "connected p w = (c, w1)"
  shows "lock_inv sv w1 \<and> il_conn (lw_procs w1 p) = Some c \<and> c < lw_next w1 \<and> il_phase (lw_procs w1 p) \<noteq> Held \<and>
    lw_server w1 = lw_server w \<and> lw_ended w1 = lw_ended w"
proof (cases "il_conn (lw_procs w p)")
  case (Some d)
  then show ?thesis using assms by (auto simp: connected_def lock_inv_def)
next
  case None
  let ?w = "with_proc p (\<lambda>l. l\<lparr>il_conn := Some (lw_next w)\<rparr>) (w\<lparr>lw_next := Suc (lw_next w)\<rparr>)"
  have w1: "c = lw_next w" "w1 = ?w" using assms(3) None by (auto simp: connected_def)
  have proc: "lw_procs ?w q = (if q = p then (lw_procs w p)\<lparr>il_conn := Some (lw_next w)\<rparr> else lw_procs w q)" for q
    by (simp add: with_proc_def)
  have old: "d < lw_next w" if "il_conn (lw_procs w q) = Some d" for q d using assms(1) that by (auto simp: lock_inv_def)
  have "lock_inv sv ?w" unfolding lock_inv_def
  proof (intro conjI allI impI ballI)
    fix q d assume "il_conn (lw_procs ?w q) = Some d"
    then show "d < lw_next ?w" using old [of q d] by (auto simp: with_proc_def split: if_splits)
  next
    fix q r d assume a: "il_conn (lw_procs ?w q) = Some d" "il_conn (lw_procs ?w r) = Some d"
    have inj: "q = r" if "il_conn (lw_procs w q) = Some d" "il_conn (lw_procs w r) = Some d"
      using assms(1) that unfolding lock_inv_def by blast
    show "q = r" using a inj old [of q d] old [of r d] unfolding proc by (cases "q = p"; cases "r = p") auto
  next
    fix d assume "d \<in> lw_ended ?w"
    then show "d < lw_next ?w" using assms(1) by (auto simp: lock_inv_def with_proc_def)
  next
    fix q d assume "il_phase (lw_procs ?w q) = Held" "il_conn (lw_procs ?w q) = Some d"
    then show "d \<in> lw_ended ?w \<or> sv_holder sv (lw_server ?w) = Some d"
      using assms(1,2) unfolding proc lock_inv_def by (auto simp: with_proc_def split: if_splits)
  qed
  then show ?thesis using w1 assms(2) by (simp add: with_proc_def)
qed

text \<open>A try by a session that is not the holder's leaves the lock where it is.\<close>

lemma server_try_inv:
  assumes "documented sv" "lock_inv sv w" "il_conn (lw_procs w p) = Some c"
  shows "lock_inv sv (w\<lparr>lw_server := fst (sv_try sv (lw_server w) c)\<rparr>)"
proof -
  have "ca \<in> lw_ended w \<or> sv_holder sv (fst (sv_try sv (lw_server w) c)) = Some ca"
    if "il_phase (lw_procs w q) = Held" "il_conn (lw_procs w q) = Some ca" for q ca
    using that assms(1,2) unfolding lock_inv_def documented_def by (metis option.simps(5))
  then show ?thesis using assms(2) unfolding lock_inv_def by simp
qed

lemma tryLock_inv:
  assumes "documented sv" "lock_inv sv w" "il_phase (lw_procs w p) \<noteq> Held" "tryLock sv e p w = (r, w1)"
  shows "lock_inv sv w1 \<and>
    (r = Inr True \<longrightarrow> (\<forall>c. il_conn (lw_procs w1 p) = Some c \<longrightarrow> sv_holder sv (lw_server w1) = Some c))"
proof (cases "il_released (lw_procs w p) \<or> il_conn (lw_procs w p) = None \<and> \<not> tn_connect e")
  case True
  then show ?thesis using assms by (auto simp: tryLock_def split: if_splits)
next
  case False
  obtain c w0 where c: "connected p w = (c, w0)" by fastforce
  note i = connected_inv [OF assms(2,3) c]
  let ?t = "sv_try sv (lw_server w0) c"
  have t: "lock_inv sv (w0\<lparr>lw_server := fst ?t\<rparr>)" using server_try_inv [OF assms(1)] i by blast
  show ?thesis
  proof (cases "c \<notin> lw_ended w0 \<and> tn_query e")
    case True
    then have "r = Inr (snd ?t)" "w1 = w0\<lparr>lw_server := fst ?t\<rparr>"
      using assms(4) False c by (auto simp: tryLock_def Let_def split: prod.splits if_splits)
    then show ?thesis using t i assms(1) by (auto simp: documented_def split: option.splits)
  next
    case err: False
    then have "r = Inl LockTaking" "\<exists>w'. lock_inv sv w' \<and> w1 = closeLocked sv (tn_told e) p w'"
      using assms(4) False c t i by (auto simp: tryLock_def Let_def split: prod.splits if_splits)
    then show ?thesis using closeLocked_inv [OF assms(1)] by auto
  qed
qed

lemma alive_inv:
  "documented sv \<Longrightarrow> lock_inv sv w \<Longrightarrow> alive sv e p w = (b, w1) \<Longrightarrow> lock_inv sv w1 \<and> (b \<longrightarrow> w1 = w)"
  using closeLocked_inv by (fastforce simp: alive_def split: option.splits if_splits)

lemma lock_step_inv: "lock_step sv w w' \<Longrightarrow> documented sv \<Longrightarrow> lock_inv sv w \<Longrightarrow> lock_inv sv w'"
proof (induction rule: lock_step.induct)
  case (acquire w p e)
  obtain r w1 where r: "tryLock sv e p w = (r, w1)" by fastforce
  have "lock_inv sv w1 \<and> (r = Inr True \<longrightarrow> (\<forall>c. il_conn (lw_procs w1 p) = Some c \<longrightarrow> sv_holder sv (lw_server w1) = Some c))"
    using tryLock_inv [OF acquire(2,3) _ r] acquire(1) by simp
  then show ?case unfolding acquire_turn_def using r acquire(2) by (auto intro!: give_up_lock_inv goto_inv split: sum.splits bool.splits)
next
  case (check w p e)
  obtain b w1 where b: "alive sv e p w = (b, w1)" by fastforce
  then show ?case unfolding hold_turn_def using alive_inv [OF check(2,3) b] check(2)
    by (auto intro!: give_up_lock_inv goto_inv split: bool.splits)
next
  case (retake w p e)
  obtain r w1 where r: "tryLock sv e p w = (r, w1)" by fastforce
  have "lock_inv sv w1 \<and> (r = Inr True \<longrightarrow> (\<forall>c. il_conn (lw_procs w1 p) = Some c \<longrightarrow> sv_holder sv (lw_server w1) = Some c))"
    using tryLock_inv [OF retake(2,3) _ r] retake(1) by simp
  then show ?case unfolding retake_turn_def using r retake(2) by (auto intro!: give_up_lock_inv goto_inv split: sum.splits bool.splits)
qed (auto intro: give_up_lock_inv Release_inv end_session_inv)

lemma lock_reachable_inv: "lock_reachable sv w \<Longrightarrow> documented sv \<Longrightarrow> lock_inv sv w"
  by (induction rule: lock_reachable.induct) (auto intro: boot_inv lock_step_inv)

section \<open>One bot at a time\<close>

lemma hold_turn_cut_off: "cut_off w p \<Longrightarrow> il_phase (lw_procs (hold_turn sv e p w) p) \<noteq> Held"
  by (auto simp: hold_turn_def alive_def cut_off_def give_up_lock_def goto_def with_proc_def split: option.splits)

text \<open>A try while the session of another process holds the lock.\<close>

lemma tryLock_taken:
  assumes "documented sv" "lock_inv sv w" "il_phase (lw_procs w p) \<noteq> Held" "sv_holder sv (lw_server w) = Some d"
    and "p \<noteq> q" "il_conn (lw_procs w q) = Some d"
  shows "fst (tryLock sv e p w) \<noteq> Inr True" and
    "\<not> il_released (lw_procs w p) \<Longrightarrow> tn_connect e \<Longrightarrow> tn_query e \<Longrightarrow> \<forall>c \<in> lw_ended w. il_conn (lw_procs w p) \<noteq> Some c \<Longrightarrow>
      fst (tryLock sv e p w) = Inr False"
proof -
  obtain c w0 where c: "connected p w = (c, w0)" by fastforce
  note i = connected_inv [OF assms(2,3) c]
  have q: "il_conn (lw_procs w0 q) = Some d" using c assms(5,6) by (auto simp: connected_def with_proc_def split: option.splits)
  have "c \<noteq> d" using i q assms(5) unfolding lock_inv_def by blast
  then have t: "\<not> snd (sv_try sv (lw_server w0) c)" using assms(1,4) i by (auto simp: documented_def)
  show "fst (tryLock sv e p w) \<noteq> Inr True" using t c by (auto simp: tryLock_def Let_def split: prod.splits if_splits)
  assume a: "\<not> il_released (lw_procs w p)" "tn_connect e" "tn_query e" "\<forall>c \<in> lw_ended w. il_conn (lw_procs w p) \<noteq> Some c"
  have "c \<notin> lw_ended w0"
  proof (cases "il_conn (lw_procs w p)")
    case None
    then have "c = lw_next w" using c by (auto simp: connected_def)
    then show ?thesis using assms(2) i by (auto simp: lock_inv_def)
  next
    case (Some b)
    then show ?thesis using a(4) c i by (auto simp: connected_def)
  qed
  then show "fst (tryLock sv e p w) = Inr False" using a t c by (auto simp: tryLock_def Let_def split: prod.splits)
qed

text \<open>C12. Whatever the interleaving of any number of bots, the ends of sessions and the failures of the database: while one
  holds the lock over a live session, any other that runs has lost its own session and, at its next check, no longer
  counts on the lock; it does not take the lock back either, and the first answer it gets from the database stops it with
  the error that the lock was taken over.\<close>

theorem one_instance:
  assumes "documented sv" "lock_reachable sv w" "p \<noteq> q" "running w p"
    and "il_phase (lw_procs w q) = Held" "\<not> cut_off w q"
  shows "(il_phase (lw_procs w p) = Held \<longrightarrow>
      cut_off w p \<and> (\<forall>e. il_phase (lw_procs (hold_turn sv e p w) p) \<noteq> Held)) \<and>
    (il_phase (lw_procs w p) = Retaking \<longrightarrow>
      (\<forall>e. il_phase (lw_procs (retake_turn sv e p w) p) \<noteq> Held \<and>
        (\<not> il_released (lw_procs w p) \<and> tn_connect e \<and> tn_query e \<and> (\<forall>c \<in> lw_ended w. il_conn (lw_procs w p) \<noteq> Some c) \<longrightarrow>
          il_phase (lw_procs (retake_turn sv e p w) p) = Ended (Some InstanceLockLost))))"
proof -
  have inv: "lock_inv sv w" using lock_reachable_inv assms(1,2) by blast
  obtain d where d: "il_conn (lw_procs w q) = Some d" "d \<notin> lw_ended w" using assms(6) by (auto simp: cut_off_def split: option.splits)
  have h: "sv_holder sv (lw_server w) = Some d" using inv d assms(5) unfolding lock_inv_def by blast
  have held: "cut_off w p" if "il_phase (lw_procs w p) = Held"
  proof (rule ccontr)
    assume "\<not> cut_off w p"
    then obtain c where "il_conn (lw_procs w p) = Some c" "c \<notin> lw_ended w" by (auto simp: cut_off_def split: option.splits)
    then show False using inv d h that assms(3) unfolding lock_inv_def by (metis option.inject)
  qed
  have keep: "il_phase (lw_procs w1 p) = il_phase (lw_procs w p)" if "tryLock sv e p w = (r, w1)" for e r w1
    using that by (auto simp: tryLock_def connected_def with_proc_def Let_def split: if_splits prod.splits option.splits)
  have retake: "il_phase (lw_procs (retake_turn sv e p w) p) \<noteq> Held \<and>
      (\<not> il_released (lw_procs w p) \<and> tn_connect e \<and> tn_query e \<and> (\<forall>c \<in> lw_ended w. il_conn (lw_procs w p) \<noteq> Some c) \<longrightarrow>
        il_phase (lw_procs (retake_turn sv e p w) p) = Ended (Some InstanceLockLost))"
    if r: "il_phase (lw_procs w p) = Retaking" for e
  proof -
    obtain a w1 where t: "tryLock sv e p w = (a, w1)" by fastforce
    have "a \<noteq> Inr True" and lost: "\<not> il_released (lw_procs w p) \<Longrightarrow> tn_connect e \<Longrightarrow> tn_query e \<Longrightarrow>
        \<forall>c \<in> lw_ended w. il_conn (lw_procs w p) \<noteq> Some c \<Longrightarrow> a = Inr False"
      using tryLock_taken [OF assms(1) inv _ h assms(3) d(1), of e] r t by simp_all
    moreover have "il_phase (lw_procs w1 p) \<noteq> Held" using keep [OF t] r by simp
    ultimately show ?thesis using t
      by (cases a) (auto simp: retake_turn_def give_up_lock_def goto_def with_proc_def split: bool.splits)
  qed
  show ?thesis using held hold_turn_cut_off retake by blast
qed

section \<open>Two runs\<close>

definition sample_lock_server :: "nat option lock_server" where
  "sample_lock_server = \<lparr>sv_try = (\<lambda>s c. (Some (case s of None \<Rightarrow> c | Some d \<Rightarrow> d), s = None \<or> s = Some c)),
     sv_end = (\<lambda>s c. if s = Some c then None else s), sv_holder = (\<lambda>s. s)\<rparr>"

lemma sample_documented: "documented sample_lock_server"
  by (auto simp: documented_def sample_lock_server_def split: option.splits)

definition good_turn :: turn_env where
  "good_turn = \<lparr>tn_connect = True, tn_query = True, tn_reached = True, tn_ping = True, tn_told = True, tn_ctx = False\<rparr>"

text \<open>The server loses the session of bot 0, and bot 1 starts.\<close>

definition overlap_run :: "nat option lock_world" where
  "overlap_run = acquire_turn sample_lock_server good_turn 1
     (end_session sample_lock_server 0 (acquire_turn sample_lock_server good_turn 0 (boot None)))"

lemmas lock_defs = acquire_turn_def hold_turn_def retake_turn_def tryLock_def connected_def alive_def closeLocked_def Release_def
  give_up_lock_def goto_def with_proc_def end_session_def boot_def fresh_lock_def sample_lock_server_def good_turn_def

lemma first_acquire:
  "acquire_turn sample_lock_server good_turn 0 (boot None) =
    \<lparr>lw_server = Some 0, lw_next = 1, lw_ended = {},
     lw_procs = (\<lambda>p. fresh_lock)(0 := \<lparr>il_conn = Some 0, il_released = False, il_phase = Held\<rparr>)\<rparr>"
  by (simp add: lock_defs)

lemma overlap_run_eq:
  "overlap_run = \<lparr>lw_server = Some 1, lw_next = 2, lw_ended = {0},
     lw_procs = (\<lambda>p. fresh_lock)(0 := \<lparr>il_conn = Some 0, il_released = False, il_phase = Held\<rparr>,
       1 := \<lparr>il_conn = Some 1, il_released = False, il_phase = Held\<rparr>)\<rparr>"
  unfolding overlap_run_def first_acquire by (simp add: lock_defs)

lemma first_reachable: "lock_reachable sample_lock_server (acquire_turn sample_lock_server good_turn 0 (boot None))"
  by (rule lock_reachable.step [OF lock_reachable.start lock_step.acquire])
    (simp_all add: sample_lock_server_def boot_def fresh_lock_def)

lemma overlap_reachable: "lock_reachable sample_lock_server overlap_run"
proof -
  have "lock_reachable sample_lock_server (end_session sample_lock_server 0 (acquire_turn sample_lock_server good_turn 0 (boot None)))"
    using lock_reachable.step [OF first_reachable lock_step.drop [of 0]] by (simp add: first_acquire)
  then show ?thesis unfolding overlap_run_def
    by (rule lock_reachable.step [OF _ lock_step.acquire]) (simp add: first_acquire end_session_def fresh_lock_def)
qed

text \<open>Until the next check of the first, both run: the check is at most \<open>defaultInstanceLockCheck\<close> away, and while the
  database does not answer the first it goes on running.\<close>

lemma overlap_until_next_check: "running overlap_run 0 \<and> running overlap_run 1"
  by (simp add: overlap_run_eq running_def)

theorem one_instance_witness:
  "cut_off overlap_run 0 \<and> il_phase (lw_procs (hold_turn sample_lock_server good_turn 0 overlap_run) 0) \<noteq> Held"
proof -
  have "running overlap_run 0" "il_phase (lw_procs overlap_run 1) = Held" "\<not> cut_off overlap_run 1"
      "il_phase (lw_procs overlap_run 0) = Held"
    by (simp_all add: overlap_run_eq running_def cut_off_def)
  then show ?thesis using one_instance [OF sample_documented overlap_reachable, of 0 1] by simp
qed

text \<open>A ping that times out makes the bot close its session; when the close does not reach the server either, the lock stays
  with that session, and the bot takes its own stale session for another process and stops.\<close>

definition stale_run :: "nat option lock_world" where
  "stale_run = retake_turn sample_lock_server good_turn 0
     (hold_turn sample_lock_server (good_turn\<lparr>tn_ping := False, tn_told := False\<rparr>) 0
       (acquire_turn sample_lock_server good_turn 0 (boot None)))"

lemma own_session_stops_the_bot:
  "il_phase (lw_procs stale_run 0) = Ended (Some InstanceLockLost) \<and>
    (\<forall>p. p \<noteq> 0 \<longrightarrow> lw_procs stale_run p = fresh_lock)"
  unfolding stale_run_def first_acquire by (simp add: lock_defs)

end
