(* ===== verification/Cycles.thy ===== *)
theory Cycles
  imports Worker Messages Retention Fetch
begin

text \<open>
  The background loops of \<open>bot/cmd/bot/main.go\<close>: what one cycle of each runs, over the components themselves, in which
  order, and what a failure skips. The tickers and the wait between two cycles are not modelled.
\<close>

section \<open>Delivering alerts\<close>

definition maxJobsPerTenantPerTick :: nat where "maxJobsPerTenantPerTick = 100"

type_synonym call_env = "pg_env \<times> worker_env"

text \<open>The inner loop of \<open>runOutboxLoop\<close>; \<open>k\<close> counts the calls for the tenant, \<open>n\<close> is what is left of the bound. The answer
  is that of each call.\<close>

fun tenant_jobs :: "(nat \<Rightarrow> call_env) \<Rightarrow> i64 \<Rightarrow> nat \<Rightarrow> nat \<Rightarrow> outbox \<Rightarrow> (outcome \<times> sending list) list \<times> outbox" where
  "tenant_jobs envs owner k 0 ox = ([], ox)"
| "tenant_jobs envs owner k (Suc n) ox =
     (case ProcessOne (pg_store (fst (envs k))) (snd (envs k)) owner ox of
        ((didProcess, err), sends, ox1) \<Rightarrow>
          if err \<noteq> None \<or> \<not> didProcess then ([((didProcess, err), sends)], ox1)
          else case tenant_jobs envs owner (Suc k) n ox1 of
              (calls, ox2) \<Rightarrow> (((didProcess, err), sends) # calls, ox2))"

fun outbox_tenants :: "(i64 \<Rightarrow> nat \<Rightarrow> call_env) \<Rightarrow> TenantRetention list \<Rightarrow> outbox \<Rightarrow>
    (i64 \<times> (outcome \<times> sending list) list) list \<times> outbox" where
  "outbox_tenants envs [] ox = ([], ox)"
| "outbox_tenants envs (t # ts) ox =
     (case tenant_jobs (envs (tr_OwnerUserID t)) (tr_OwnerUserID t) 0 maxJobsPerTenantPerTick ox of
        (calls, ox1) \<Rightarrow> (case outbox_tenants envs ts ox1 of (rest, ox2) \<Rightarrow> ((tr_OwnerUserID t, calls) # rest, ox2)))"

definition outbox_cycle :: "bool \<Rightarrow> (i64 \<Rightarrow> nat \<Rightarrow> call_env) \<Rightarrow> users_table \<Rightarrow> outbox \<Rightarrow>
    (i64 \<times> (outcome \<times> sending list) list) list \<times> outbox" where
  "outbox_cycle db_ok envs users ox =
     (case ListTenantsForRetention db_ok users of Inl err \<Rightarrow> ([], ox) | Inr tenants \<Rightarrow> outbox_tenants envs tenants ox)"

section \<open>Downloading attachments\<close>

text \<open>\<open>runMediaLoop\<close>: a failure of one tenant is logged, and the next tenant has its turn.\<close>

fun media_tenants :: "(i64 \<Rightarrow> fetch_env) \<Rightarrow> store_config \<Rightarrow> gostr \<Rightarrow> nat \<Rightarrow> TenantRetention list \<Rightarrow> fetch_world \<Rightarrow>
    (i64 \<times> int \<times> go_error option) list \<times> fetch_world" where
  "media_tenants envs cfg token batch [] w = ([], w)"
| "media_tenants envs cfg token batch (t # ts) w =
     (case ProcessTenant (envs (tr_OwnerUserID t)) cfg token batch (tr_OwnerUserID t) w of
        (r, w1) \<Rightarrow> (case media_tenants envs cfg token batch ts w1 of (rest, w2) \<Rightarrow> ((tr_OwnerUserID t, r) # rest, w2)))"

definition media_cycle :: "bool \<Rightarrow> (i64 \<Rightarrow> fetch_env) \<Rightarrow> store_config \<Rightarrow> gostr \<Rightarrow> nat \<Rightarrow> users_table \<Rightarrow> fetch_world \<Rightarrow>
    (i64 \<times> int \<times> go_error option) list \<times> fetch_world" where
  "media_cycle db_ok envs cfg token batch users w =
     (case ListTenantsForRetention db_ok users of Inl err \<Rightarrow> ([], w) | Inr tenants \<Rightarrow> media_tenants envs cfg token batch tenants w)"

section \<open>The gauge of the backlog\<close>

text \<open>\<open>runBacklogLoop\<close>: the gauge keeps its value when the listing or the count fails.\<close>

definition backlog_cycle :: "bool \<Rightarrow> (i64 \<Rightarrow> tx_env) \<Rightarrow> users_table \<Rightarrow> outbox \<Rightarrow> int \<Rightarrow> int" where
  "backlog_cycle db_ok txs users ox gauge =
     (case ListTenantsForRetention db_ok users of
        Inl err \<Rightarrow> gauge
      | Inr tenants \<Rightarrow> (case CountBacklog txs tenants ox 0 of (None, backlog) \<Rightarrow> backlog | (Some err, _) \<Rightarrow> gauge))"

section \<open>Retention\<close>

text \<open>The world of \<open>runRetentionOnce\<close>: the messages and the queue of \<open>tenant_db\<close>, and the purger with the catalogue and the disk
  (the catalogue of \<open>tenant_db\<close> is not read here).\<close>

record retention_world =
  rw_users :: users_table
  rw_db :: tenant_db
  rw_media :: "pg_media purger"

record retention_env =
  re_list :: bool
  re_msg_txs :: "i64 \<Rightarrow> tx_env"
  re_msg_now :: instant
  re_dead_messages :: bool \<comment> \<open>\<open>ctx.Err()\<close> after each phase\<close>
  re_ob_txs :: "i64 \<Rightarrow> tx_env"
  re_ob_now :: instant
  re_dead_outbox :: bool
  re_media :: pg_media_env
  re_cfg :: purge_config
  re_dead_media :: bool

text \<open>The answer says whether the cycle reports itself complete.\<close>

definition runRetentionOnce :: "retention_env \<Rightarrow> retention_world \<Rightarrow> bool \<times> retention_world" where
  "runRetentionOnce e w =
     (case ListTenantsForRetention (re_list e) (rw_users w) of
        Inl err \<Rightarrow> (False, w)
      | Inr tenants \<Rightarrow>
          (case msg_PurgeExpired (re_msg_txs e) (re_msg_now e) tenants (rw_db w) 0 of
             (err1, purged, db1) \<Rightarrow>
               let w1 = w\<lparr>rw_db := db1\<rparr> in
               if re_dead_messages e then (False, w1)
               else case ob_PurgeExpired (re_ob_txs e) (re_ob_now e) tenants (db_outbox db1) 0 of
                   (err2, purgedOutbox, ox) \<Rightarrow>
                     let w2 = w1\<lparr>rw_db := db1\<lparr>db_outbox := ox\<rparr>\<rparr> in
                     if re_dead_outbox e then (False, w2)
                     else case Purger_Run (pg_catalogue (re_media e)) (re_cfg e) tenants (rw_media w2) of
                         (stats, err3, p) \<Rightarrow> (\<not> re_dead_media e, w2\<lparr>rw_media := p\<rparr>)))"

text \<open>What \<open>run\<close> answers once its loops have stopped: the loss of the instance lock, nothing on a signal, or the error of
  the poller.\<close>

definition run_answer :: "go_error option \<Rightarrow> bool \<Rightarrow> go_error option \<Rightarrow> go_error option" where
  "run_answer lock_lost signalled err =
     (case lock_lost of Some cause \<Rightarrow> Some cause | None \<Rightarrow> if signalled then None else err)"

section \<open>Every tenant has its turn\<close>

definition turn_fair :: "(outcome \<times> sending list) list \<Rightarrow> bool" where
  "turn_fair calls \<longleftrightarrow> calls \<noteq> [] \<and> length calls \<le> maxJobsPerTenantPerTick \<and>
     (\<forall>(out, sends) \<in> set (butlast calls). out = (True, None)) \<and>
     (length calls < maxJobsPerTenantPerTick \<longrightarrow> fst (last calls) \<noteq> (True, None))"

lemma tenant_jobs_shape:
  assumes "tenant_jobs envs owner k n ox = (calls, ox')"
  shows "length calls \<le> n \<and> (0 < n \<longrightarrow> calls \<noteq> []) \<and> (\<forall>(out, sends) \<in> set (butlast calls). out = (True, None)) \<and>
    (length calls < n \<longrightarrow> fst (last calls) \<noteq> (True, None))"
  using assms
proof (induction n arbitrary: k ox calls ox')
  case (Suc n)
  obtain did err sends ox1 where p: "ProcessOne (pg_store (fst (envs k))) (snd (envs k)) owner ox = ((did, err), sends, ox1)"
    by (metis surj_pair)
  show ?case
  proof (cases "err \<noteq> None \<or> \<not> did")
    case True
    then show ?thesis using Suc.prems p by auto
  next
    case False
    obtain cs ox2 where r: "tenant_jobs envs owner (Suc k) n ox1 = (cs, ox2)" by fastforce
    then have "calls = ((True, None), sends) # cs" using Suc.prems p False by auto
    then show ?thesis using Suc.IH [OF r] by (cases n) auto
  qed
qed simp

text \<open>A waiting alert is still waiting after the calls, or one of them, for its owner, delivered it.\<close>

definition waits_in :: "ob_row \<Rightarrow> outbox \<Rightarrow> bool" where
  "waits_in r ox \<longleftrightarrow> (\<exists>r' \<in> set (ox_rows ox). frozen r' = frozen r \<and> ob_status r' \<noteq> Sent)"

definition delivered_by :: "ob_row \<Rightarrow> i64 \<Rightarrow> (outcome \<times> sending list) list \<Rightarrow> bool" where
  "delivered_by r owner calls \<longleftrightarrow> ob_owner r = owner \<and>
     (\<exists>(out, sends) \<in> set calls. sends \<noteq> [] \<and> delivers (ob_tg r) (ob_text r) (ob_media r) (last sends))"

lemma delivered_by_frozen: "frozen r' = frozen r \<Longrightarrow> delivered_by r' owner calls = delivered_by r owner calls"
  using frozen_fields [of r' r] by (simp add: delivered_by_def)

lemma ProcessOne_inv: "ob_inv ox \<Longrightarrow> ProcessOne (pg_store pe) env owner ox = (out, sends, ox') \<Longrightarrow> ob_inv ox'"
  using pg.process_inv [of ox "map frozen (ox_rows ox)" pe env owner] by simp

lemma tenant_jobs_keep:
  assumes "ob_inv ox" "tenant_jobs envs owner k n ox = (calls, ox')"
  shows "ob_inv ox' \<and> (\<forall>r. waits_in r ox \<longrightarrow> waits_in r ox' \<or> delivered_by r owner calls)"
  using assms
proof (induction n arbitrary: k ox calls ox')
  case 0
  then show ?case by simp
next
  case (Suc n)
  obtain did err sends ox1 where p: "ProcessOne (pg_store (fst (envs k))) (snd (envs k)) owner ox = ((did, err), sends, ox1)"
    by (metis surj_pair)
  have inv: "ob_inv ox1" using ProcessOne_inv [OF Suc.prems(1) p] .
  have one: "waits_in r ox1 \<or> delivered_by r owner [((did, err), sends)]" if w: "waits_in r ox" for r
  proof -
    obtain q where q: "q \<in> set (ox_rows ox)" "frozen q = frozen r" "ob_status q \<noteq> Sent" using w by (auto simp: waits_in_def)
    then have "waits_in q ox1 \<or> delivered_by q owner [((did, err), sends)]"
      using process_keeps_or_delivers [OF Suc.prems(1) p q(1,3)] by (simp add: waits_in_def delivered_by_def)
    then show ?thesis using q(2) delivered_by_frozen [OF q(2)] by (simp add: waits_in_def)
  qed
  show ?case
  proof (cases "err \<noteq> None \<or> \<not> did")
    case True
    then have "calls = [((did, err), sends)]" "ox' = ox1" using Suc.prems(2) p by (simp_all add: split_beta)
    then show ?thesis using inv one by simp
  next
    case False
    obtain cs ox2 where t: "tenant_jobs envs owner (Suc k) n ox1 = (cs, ox2)" by fastforce
    then have c: "calls = ((did, err), sends) # cs" "ox' = ox2" using Suc.prems(2) p False by auto
    have later: "delivered_by r owner calls" if "delivered_by r owner cs" for r
      using that by (simp add: c(1) delivered_by_def)
    have now: "delivered_by r owner calls" if "delivered_by r owner [((did, err), sends)]" for r
      using that by (auto simp: c(1) delivered_by_def)
    note ih = Suc.IH [OF inv t]
    show ?thesis
    proof (intro conjI allI impI)
      show "ob_inv ox'" using ih c(2) by simp
      fix r assume "waits_in r ox"
      from one [OF this] show "waits_in r ox' \<or> delivered_by r owner calls"
      proof
        assume "waits_in r ox1"
        then have "waits_in r ox2 \<or> delivered_by r owner cs" using ih by simp
        then show ?thesis using later c(2) by auto
      qed (simp add: now)
    qed
  qed
qed

lemma outbox_tenants_keep:
  assumes "ob_inv ox" "outbox_tenants envs ts ox = (turns, ox')"
  shows "ob_inv ox' \<and> map fst turns = map tr_OwnerUserID ts \<and> (\<forall>(owner, calls) \<in> set turns. turn_fair calls) \<and>
    (\<forall>r. waits_in r ox \<longrightarrow> waits_in r ox' \<or> (\<exists>(owner, calls) \<in> set turns. delivered_by r owner calls))"
  using assms
proof (induction ts arbitrary: ox turns ox')
  case (Cons t ts)
  obtain calls ox1 where j: "tenant_jobs (envs (tr_OwnerUserID t)) (tr_OwnerUserID t) 0 maxJobsPerTenantPerTick ox = (calls, ox1)"
    by fastforce
  obtain rest ox2 where r: "outbox_tenants envs ts ox1 = (rest, ox2)" by fastforce
  have eq: "turns = (tr_OwnerUserID t, calls) # rest" "ox' = ox2" using Cons.prems(2) j r by auto
  note k = tenant_jobs_keep [OF Cons.prems(1) j]
  have "turn_fair calls" using tenant_jobs_shape [OF j] by (simp add: turn_fair_def maxJobsPerTenantPerTick_def)
  then show ?case using Cons.IH [OF conjunct1 [OF k] r] k unfolding eq by auto
qed simp

text \<open>C19. A cycle of the delivery loop is fair and loses nothing. When the tenants can be listed, each of them has its turn,
  in the order of the list and whatever happened to those before: at least one call of the worker and at most a hundred,
  stopping early only at a call that failed or found nothing to deliver. And whatever the database, the contexts and
  Telegram do during all those calls, an alert that was waiting, of whichever tenant, is still waiting with its content
  afterwards, unless a call of its own tenant's turn delivered it to its owner.\<close>

theorem outbox_cycle_fair:
  assumes "ob_inv ox" "outbox_cycle True envs users ox = (turns, ox')"
  shows "map fst turns = map user_ID (ut_rows users) \<and> (\<forall>(owner, calls) \<in> set turns. turn_fair calls) \<and>
    (\<forall>r. waits_in r ox \<longrightarrow> waits_in r ox' \<or> (\<exists>(owner, calls) \<in> set turns. delivered_by r owner calls))"
proof -
  let ?ts = "map (\<lambda>u. \<lparr>tr_OwnerUserID = user_ID u, tr_RetentionDays = user_RetentionDays u\<rparr>) (ut_rows users)"
  have "outbox_tenants envs ?ts ox = (turns, ox')" using assms(2) by (simp add: outbox_cycle_def ListTenantsForRetention_def)
  moreover have "map tr_OwnerUserID ?ts = map user_ID (ut_rows users)" by simp
  ultimately show ?thesis using outbox_tenants_keep [OF assms(1), of envs ?ts turns ox'] by (simp only:) blast
qed

section \<open>What a retention cycle leaves\<close>

lemma msg_PurgeExpired_all:
  assumes "\<forall>t \<in> set ts. tx_ok (txs (tr_OwnerUserID t))"
  shows "fst (msg_PurgeExpired txs now ts db acc) = None \<and>
    snd (snd (msg_PurgeExpired txs now ts db acc)) =
      db\<lparr>db_messages := filter (\<lambda>m. \<not> (\<exists>t \<in> set ts. expired_message now t m)) (db_messages db)\<rparr>"
  using assms
proof (induction ts arbitrary: db acc)
  case (Cons t ts)
  have "t_delete ms_owner (tr_OwnerUserID t) (expired_message now t) rows = filter (\<lambda>m. \<not> expired_message now t m) rows" for rows
    by (auto simp: t_delete_def expired_message_def intro: filter_cong)
  then show ?case using Cons by (simp add: Let_def InTenant_ok purge_body_def conj_commute)
qed simp

lemma msg_PurgeExpired_only:
  "\<exists>P. snd (snd (msg_PurgeExpired txs now ts db acc)) = db\<lparr>db_messages := filter P (db_messages db)\<rparr> \<and>
    (\<forall>m. \<not> P m \<longrightarrow> (\<exists>t \<in> set ts. expired_message now t m))"
proof (induction ts arbitrary: db acc)
  case Nil
  show ?case by (intro exI [of _ "\<lambda>m. True"]) simp
next
  case (Cons t ts)
  obtain r db1 where t: "InTenant (txs (tr_OwnerUserID t)) (purge_body now t) (tr_OwnerUserID t) db = (r, db1)" by fastforce
  show ?case
  proof (cases r)
    case (Inl err)
    then have "db1 = db" using InTenant_Inl t by fast
    then show ?thesis using t Inl by (intro exI [of _ "\<lambda>m. True"]) (simp add: Let_def)
  next
    case (Inr n)
    then have "db1 = db\<lparr>db_messages := filter (\<lambda>m. \<not> expired_message now t m) (db_messages db)\<rparr>"
      using InTenant_Inr [of "txs (tr_OwnerUserID t)" "purge_body now t" "tr_OwnerUserID t" db n db1] t
      by (auto simp: purge_body_def t_delete_def expired_message_def intro!: arg_cong [where f = "\<lambda>f. db\<lparr>db_messages := filter f (db_messages db)\<rparr>"])
    then show ?thesis using Cons.IH [of db1 "acc + int (length (t_select ms_owner (tr_OwnerUserID t) (expired_message now t) (db_messages db)))"] t Inr
      by (auto simp: Let_def)
  qed
qed

lemma ob_PurgeExpired_all:
  assumes "\<forall>t \<in> set ts. tx_ok (txs (tr_OwnerUserID t))"
  shows "snd (snd (ob_PurgeExpired txs now ts ox acc)) =
      ox\<lparr>ox_rows := filter (\<lambda>r. \<not> (\<exists>t \<in> set ts. expired_alert now t r)) (ox_rows ox)\<rparr>"
  using assms
proof (induction ts arbitrary: ox acc)
  case (Cons t ts)
  have "t_delete ob_owner (tr_OwnerUserID t) (expired_alert now t) rows = filter (\<lambda>m. \<not> expired_alert now t m) rows" for rows
    by (auto simp: t_delete_def expired_alert_def intro: filter_cong)
  then show ?case using Cons by (simp add: InTenant_ok conj_commute)
qed simp

definition tenant_of :: "User \<Rightarrow> TenantRetention" where
  "tenant_of u = \<lparr>tr_OwnerUserID = user_ID u, tr_RetentionDays = user_RetentionDays u\<rparr>"

text \<open>C22. What a retention cycle leaves, when the tenants can be listed. It removes no message that has not outlived the
  retention of a tenant. If the database answers the purge of the messages, every tenant is rid of exactly its overdue
  messages; and whatever became of that phase, if the process is not stopping, the same holds of the overdue alerts if the
  database answers their purge, and the pass over the attachments runs for every tenant. The cycle reports itself complete
  only if nothing cut it short.\<close>

theorem retention_cycle:
  assumes "re_list e" "runRetentionOnce e w = (completed, w')"
  defines "tenants \<equiv> map tenant_of (ut_rows (rw_users w))"
  shows "(\<forall>m \<in> set (db_messages (rw_db w)). m \<notin> set (db_messages (rw_db w')) \<longrightarrow>
      (\<exists>t \<in> set tenants. expired_message (re_msg_now e) t m)) \<and>
    ((\<forall>t \<in> set tenants. tx_ok (re_msg_txs e (tr_OwnerUserID t))) \<longrightarrow>
      db_messages (rw_db w') = filter (\<lambda>m. \<not> (\<exists>t \<in> set tenants. expired_message (re_msg_now e) t m)) (db_messages (rw_db w))) \<and>
    (\<not> re_dead_messages e \<and> (\<forall>t \<in> set tenants. tx_ok (re_ob_txs e (tr_OwnerUserID t))) \<longrightarrow>
      ox_rows (db_outbox (rw_db w')) =
        filter (\<lambda>r. \<not> (\<exists>t \<in> set tenants. expired_alert (re_ob_now e) t r)) (ox_rows (db_outbox (rw_db w)))) \<and>
    (\<not> re_dead_messages e \<and> \<not> re_dead_outbox e \<longrightarrow>
      rw_media w' = snd (snd (Purger_Run (pg_catalogue (re_media e)) (re_cfg e) tenants (rw_media w)))) \<and>
    (completed \<longleftrightarrow> \<not> re_dead_messages e \<and> \<not> re_dead_outbox e \<and> \<not> re_dead_media e)"
proof -
  have list: "ListTenantsForRetention (re_list e) (rw_users w) = Inr tenants"
    using assms(1) by (simp add: ListTenantsForRetention_def tenants_def tenant_of_def [abs_def])
  obtain err1 n1 db1 where m: "msg_PurgeExpired (re_msg_txs e) (re_msg_now e) tenants (rw_db w) 0 = (err1, n1, db1)" by (metis surj_pair)
  obtain err2 n2 ox where o: "ob_PurgeExpired (re_ob_txs e) (re_ob_now e) tenants (db_outbox db1) 0 = (err2, n2, ox)" by (metis surj_pair)
  obtain st err3 p where r: "Purger_Run (pg_catalogue (re_media e)) (re_cfg e) tenants (rw_media w) = (st, err3, p)" by (metis surj_pair)
  obtain P where P: "db1 = rw_db w\<lparr>db_messages := filter P (db_messages (rw_db w))\<rparr>"
      "\<forall>x. \<not> P x \<longrightarrow> (\<exists>t \<in> set tenants. expired_message (re_msg_now e) t x)"
    using msg_PurgeExpired_only [of "re_msg_txs e" "re_msg_now e" tenants "rw_db w" 0] m by auto
  have w': "db_messages (rw_db w') = db_messages db1"
      "\<not> re_dead_messages e \<Longrightarrow> db_outbox (rw_db w') = ox"
      "\<not> re_dead_messages e \<Longrightarrow> \<not> re_dead_outbox e \<Longrightarrow> rw_media w' = p"
      "completed \<longleftrightarrow> \<not> re_dead_messages e \<and> \<not> re_dead_outbox e \<and> \<not> re_dead_media e"
    using assms(2) list m o r by (auto simp: runRetentionOnce_def Let_def split: if_splits)
  show ?thesis
  proof (intro conjI impI ballI)
    fix x assume "x \<in> set (db_messages (rw_db w))" "x \<notin> set (db_messages (rw_db w'))"
    then show "\<exists>t \<in> set tenants. expired_message (re_msg_now e) t x" using w'(1) P by auto
  next
    assume "\<forall>t \<in> set tenants. tx_ok (re_msg_txs e (tr_OwnerUserID t))"
    from msg_PurgeExpired_all [OF this, of "re_msg_now e" "rw_db w" 0]
    show "db_messages (rw_db w') = filter (\<lambda>m. \<not> (\<exists>t \<in> set tenants. expired_message (re_msg_now e) t m)) (db_messages (rw_db w))"
      using m w'(1) by simp
  next
    assume a: "\<not> re_dead_messages e \<and> (\<forall>t \<in> set tenants. tx_ok (re_ob_txs e (tr_OwnerUserID t)))"
    from ob_PurgeExpired_all [OF conjunct2 [OF a], of "re_ob_now e" "db_outbox db1" 0]
    show "ox_rows (db_outbox (rw_db w')) =
        filter (\<lambda>r. \<not> (\<exists>t \<in> set tenants. expired_alert (re_ob_now e) t r)) (ox_rows (db_outbox (rw_db w)))"
      using a o w'(2) P(1) by simp
  next
    assume "\<not> re_dead_messages e \<and> \<not> re_dead_outbox e"
    then show "rw_media w' = snd (snd (Purger_Run (pg_catalogue (re_media e)) (re_cfg e) tenants (rw_media w)))" using w'(3) r by simp
  qed (use w'(4) in simp_all)
qed

section \<open>Examples\<close>

definition sample_users :: users_table where
  "sample_users = \<lparr>ut_rows = [\<lparr>user_ID = 3, user_TelegramUserID = 30, user_RetentionDays = 7\<rparr>,
     \<lparr>user_ID = 7, user_TelegramUserID = 70, user_RetentionDays = 7\<rparr>], ut_seq = 8\<rparr>"

definition old_message :: message_row where
  "old_message = \<lparr>ms_owner = 7, ms_conn = [], ms_chat = 1, ms_msg = 1, ms_from = None, ms_display = [], ms_type = [], ms_text = [],
     ms_date = 0, ms_saved = 0, ms_edited = None, ms_deleted = None\<rparr>"

text \<open>The alert of tenant 7 fails to go out in its turn, after that of tenant 3, and waits on.\<close>

theorem outbox_cycle_fair_witness:
  "\<exists>turns ox'. outbox_cycle True (\<lambda>owner k. (pg_calm 5, calm\<lparr>we_SendMessageOnce := (\<lambda>_. Some [APIError 500 0])\<rparr>)) sample_users sample_outbox =
      (turns, ox') \<and> map fst turns = [3, 7]"
proof -
  let ?envs = "\<lambda>owner k. (pg_calm 5, calm\<lparr>we_SendMessageOnce := (\<lambda>_. Some [APIError 500 0])\<rparr>)"
  obtain turns ox' where o: "outbox_cycle True ?envs sample_users sample_outbox = (turns, ox')" by fastforce
  have inv: "ob_inv sample_outbox" unfolding sample_outbox_def InsertTx_def by (intro insertTx_inv ob_inv_empty)
  show ?thesis using outbox_cycle_fair [OF inv o] o by (auto simp: sample_users_def)
qed

definition sample_retention_world :: retention_world where
  "sample_retention_world = \<lparr>rw_users = sample_users, rw_db = empty_db\<lparr>db_messages := [old_message]\<rparr>, rw_media = sample_purger\<rparr>"

definition sample_retention_env :: retention_env where
  "sample_retention_env = \<lparr>re_list = True, re_msg_txs = (\<lambda>t. good_tx), re_msg_now = 40 * day, re_dead_messages = False,
     re_ob_txs = (\<lambda>t. good_tx), re_ob_now = 40 * day, re_dead_outbox = False, re_media = late_pg, re_cfg = late_config,
     re_dead_media = False\<rparr>"

theorem retention_cycle_witness:
  "\<exists>w'. runRetentionOnce sample_retention_env sample_retention_world = (True, w') \<and> db_messages (rw_db w') = []"
proof -
  obtain c w' where r: "runRetentionOnce sample_retention_env sample_retention_world = (c, w')" by fastforce
  have "re_list sample_retention_env" by (simp add: sample_retention_env_def)
  from retention_cycle [OF this r] show ?thesis using r
    by (simp add: sample_retention_env_def sample_retention_world_def sample_users_def tenant_of_def expired_message_def
        old_message_def days_ago_def day_def)
qed

end
