(* ===== verification/Probes.thy ===== *)
theory Probes
  imports Poller
begin

text \<open>
  \<open>bot/internal/health/health.go\<close> and \<open>bot/internal/metrics/metrics.go\<close>: the probes, and the counters in the text format
  of Prometheus. The HTTP server and the JSON encoder are not modelled: an answer is its status and its fields.
\<close>

section \<open>Readiness\<close>

definition pollerFreshnessThreshold :: duration where "pollerFreshnessThreshold = 90 * go_second"
definition httpStatusOK :: int where "httpStatusOK = 200"
definition httpServiceUnavailable :: int where "httpServiceUnavailable = 503"

datatype reason = ReasonOK | ReasonDBUnreachable | ReasonPollerNoPoll | ReasonPollerStale

text \<open>A nil dependency is \<open>None\<close>; the database answers the ping with an error or nothing.\<close>

definition checkDatabase :: "go_error option option \<Rightarrow> reason" where
  "checkDatabase db = (case db of None \<Rightarrow> ReasonDBUnreachable | Some (Some err) \<Rightarrow> ReasonDBUnreachable | Some None \<Rightarrow> ReasonOK)"

definition checkPoller :: "poller option \<Rightarrow> instant \<Rightarrow> reason" where
  "checkPoller source now =
     (case source of
        None \<Rightarrow> ReasonPollerNoPoll
      | Some p \<Rightarrow>
          (case LastSuccessfulPoll p of
             None \<Rightarrow> ReasonPollerNoPoll
           | Some t \<Rightarrow> if pollerFreshnessThreshold < now - t then ReasonPollerStale else ReasonOK))"

definition handleReady :: "go_error option option \<Rightarrow> poller option \<Rightarrow> instant \<Rightarrow> int \<times> bool \<times> reason list" where
  "handleReady db source now =
     (let checks = [checkDatabase db, checkPoller source now]; ok = list_all (\<lambda>r. r = ReasonOK) checks
      in (if ok then httpStatusOK else httpServiceUnavailable, ok, checks))"

definition handleLive :: "int \<times> bool" where "handleLive = (httpStatusOK, True)"

text \<open>\<open>Serve\<close>: what it returns; \<open>served\<close> is the error of the server when it stops before the context.\<close>

datatype serve_event = ServerStopped "go_error option" | CtxDone "go_error option"

definition Serve :: "gostr \<Rightarrow> go_error option \<Rightarrow> serve_event \<Rightarrow> go_error option" where
  "Serve addr listen event =
     (if addr = [] then None
      else case listen of
          Some err \<Rightarrow> Some err
        | None \<Rightarrow> (case event of ServerStopped err \<Rightarrow> err | CtxDone shutdown \<Rightarrow> shutdown))"

text \<open>The probe is degraded exactly when the database does not answer or the last successful poll is older than the
  threshold; after a poll that succeeded it stays ready for that long.\<close>

lemma ready_iff:
  "fst (handleReady db source now) = httpStatusOK \<longleftrightarrow>
    db = Some None \<and> (\<exists>p t. source = Some p \<and> LastSuccessfulPoll p = Some t \<and> now \<le> t + pollerFreshnessThreshold)"
  by (auto simp: handleReady_def checkDatabase_def checkPoller_def Let_def httpStatusOK_def httpServiceUnavailable_def
      split: option.splits)

lemma ready_after_poll:
  assumes "\<not> rd_cancelled r" "rd_GetUpdates r (po_offset p) = Inr updates" "rd_now r \<noteq> 0" "now \<le> rd_now r + pollerFreshnessThreshold"
  shows "fst (handleReady (Some None) (Some (snd (poll_round r p))) now) = httpStatusOK"
proof -
  have "po_lastSuccess (snd (poll_round r p)) = rd_now r"
    using assms(1,2) by (auto simp: poll_round_def poll_fetched_def Let_def split: prod.splits)
  then show ?thesis unfolding ready_iff using assms(3,4) by (simp add: LastSuccessfulPoll_def)
qed

section \<open>Counters\<close>

record Counters =
  cn_updates :: i64
  cn_updateErrors :: i64
  cn_outboxRetries :: i64
  cn_outboxFailed :: i64
  cn_deletions :: i64
  cn_outboxBacklog :: i64
  cn_quotaDrops :: i64
  cn_quotaWarnings :: i64
  cn_updateRetries :: i64
  cn_updatesDroppedTransient :: i64

text \<open>An atomic addition wraps around; the gauge is stored.\<close>

definition atomic_add :: "i64 \<Rightarrow> i64 \<Rightarrow> i64" where "atomic_add n v = wrap64 (v + n)"

definition AddUpdates :: "i64 \<Rightarrow> Counters \<Rightarrow> Counters" where "AddUpdates n = cn_updates_update (atomic_add n)"
definition AddUpdateErrors :: "i64 \<Rightarrow> Counters \<Rightarrow> Counters" where "AddUpdateErrors n = cn_updateErrors_update (atomic_add n)"
definition AddOutboxRetries :: "i64 \<Rightarrow> Counters \<Rightarrow> Counters" where "AddOutboxRetries n = cn_outboxRetries_update (atomic_add n)"
definition AddOutboxFailed :: "i64 \<Rightarrow> Counters \<Rightarrow> Counters" where "AddOutboxFailed n = cn_outboxFailed_update (atomic_add n)"
definition AddDeletions :: "i64 \<Rightarrow> Counters \<Rightarrow> Counters" where "AddDeletions n = cn_deletions_update (atomic_add n)"
definition AddQuotaDrops :: "i64 \<Rightarrow> Counters \<Rightarrow> Counters" where "AddQuotaDrops n = cn_quotaDrops_update (atomic_add n)"
definition AddQuotaWarnings :: "i64 \<Rightarrow> Counters \<Rightarrow> Counters" where "AddQuotaWarnings n = cn_quotaWarnings_update (atomic_add n)"
definition AddUpdateRetries :: "i64 \<Rightarrow> Counters \<Rightarrow> Counters" where "AddUpdateRetries n = cn_updateRetries_update (atomic_add n)"
definition AddUpdatesDroppedTransient :: "i64 \<Rightarrow> Counters \<Rightarrow> Counters" where "AddUpdatesDroppedTransient n = cn_updatesDroppedTransient_update (atomic_add n)"
definition SetOutboxBacklog :: "i64 \<Rightarrow> Counters \<Rightarrow> Counters" where "SetOutboxBacklog n c = c\<lparr>cn_outboxBacklog := n\<rparr>"

record series =
  sr_name :: string
  sr_help :: string
  sr_kind :: string
  sr_value :: "Counters \<Rightarrow> i64"

definition allSeries :: "series list" where
  "allSeries =
     [\<lparr>sr_name = ''undelete_updates_total'', sr_help = ''Total number of Telegram updates received and delivered to the '' @ ''handler.'',
        sr_kind = ''counter'', sr_value = cn_updates\<rparr>,
      \<lparr>sr_name = ''undelete_update_errors_total'', sr_help = ''Total number of update fetch or processing errors.'',
        sr_kind = ''counter'', sr_value = cn_updateErrors\<rparr>,
      \<lparr>sr_name = ''undelete_outbox_retries_total'', sr_help = ''Total number of outbox alert reschedules.'',
        sr_kind = ''counter'', sr_value = cn_outboxRetries\<rparr>,
      \<lparr>sr_name = ''undelete_outbox_failed_total'', sr_help = ''Total number of outbox alerts that exhausted the fast lane and entered '' @ ''the slow lane (deferred with a fresh budget, never abandoned).'',
        sr_kind = ''counter'', sr_value = cn_outboxFailed\<rparr>,
      \<lparr>sr_name = ''undelete_deletions_total'', sr_help = ''Total number of deleted messages recovered and marked in the database.'',
        sr_kind = ''counter'', sr_value = cn_deletions\<rparr>,
      \<lparr>sr_name = ''undelete_outbox_backlog'', sr_help = ''Number of outbox alerts still to be delivered (pending, processing or '' @ ''failed).'',
        sr_kind = ''gauge'', sr_value = cn_outboxBacklog\<rparr>,
      \<lparr>sr_name = ''undelete_quota_drops_total'', sr_help = ''Total number of captures dropped past a per-tenant quota (messages, '' @ ''media attachments, media downloads).'',
        sr_kind = ''counter'', sr_value = cn_quotaDrops\<rparr>,
      \<lparr>sr_name = ''undelete_quota_warnings_total'', sr_help = ''Total number of per-tenant volume-quota pre-saturation alerts '' @ ''(threshold crossings and fresh volume refusals, never rate refusals).'',
        sr_kind = ''counter'', sr_value = cn_quotaWarnings\<rparr>,
      \<lparr>sr_name = ''undelete_update_retries_total'', sr_help = ''Total number of in-place retries of an update whose handling failed '' @ ''transiently (database connection, Telegram 429/5xx).'',
        sr_kind = ''counter'', sr_value = cn_updateRetries\<rparr>,
      \<lparr>sr_name = ''undelete_updates_dropped_transient_total'', sr_help = ''Total number of updates skipped while still failing transiently after '' @ ''their retry budget (captures lost to an outage).'',
        sr_kind = ''counter'', sr_value = cn_updatesDroppedTransient\<rparr>]"

definition render_series :: "Counters \<Rightarrow> series \<Rightarrow> gostr" where
  "render_series c s =
     runes ''# HELP '' @ runes (sr_name s) @ runes '' '' @ runes (sr_help s) @ [newline] @
     runes ''# TYPE '' @ runes (sr_name s) @ runes '' '' @ runes (sr_kind s) @ [newline] @
     runes (sr_name s) @ runes '' '' @ dec_int (sr_value s c) @ [newline]"

definition RenderPrometheus :: "Counters \<Rightarrow> gostr" where
  "RenderPrometheus c = concat (map (render_series c) allSeries)"

section \<open>Reading the exposition back\<close>

text \<open>A scraper: the lines that are not comments, cut at the last blank.\<close>

fun lines_from :: "gostr \<Rightarrow> gostr \<Rightarrow> gostr list" where
  "lines_from acc [] = (if acc = [] then [] else [acc])"
| "lines_from acc (r # rs) = (if r = newline then acc # lines_from [] rs else lines_from (acc @ [r]) rs)"

definition samples :: "gostr \<Rightarrow> gostr list" where
  "samples t = filter (\<lambda>l. l \<noteq> [] \<and> hd l \<noteq> 35) (lines_from [] t)"

lemma lines_from_line: "newline \<notin> set l \<Longrightarrow> lines_from acc (l @ newline # rest) = (acc @ l) # lines_from [] rest"
  by (induction l arbitrary: acc) auto

definition plain_series :: "series \<Rightarrow> bool" where
  "plain_series s \<longleftrightarrow> newline \<notin> set (runes (sr_name s)) \<and> newline \<notin> set (runes (sr_help s)) \<and> newline \<notin> set (runes (sr_kind s)) \<and>
     sr_name s \<noteq> [] \<and> hd (runes (sr_name s)) \<noteq> 35"

lemma dec_int_no_newline: "newline \<notin> set (dec_int n)"
  using dec_digits [of "nat n"] dec_digits [of "nat (- n)"]
  by (auto simp: dec_int_def newline_def isDigit_def list_all_iff)

lemma samples_series:
  assumes "plain_series s"
  shows "samples (render_series c s @ rest) = (runes (sr_name s) @ runes '' '' @ dec_int (sr_value s c)) # samples rest"
proof -
  let ?h = "runes ''# HELP '' @ runes (sr_name s) @ runes '' '' @ runes (sr_help s)"
  let ?t = "runes ''# TYPE '' @ runes (sr_name s) @ runes '' '' @ runes (sr_kind s)"
  let ?v = "runes (sr_name s) @ runes '' '' @ dec_int (sr_value s c)"
  have ok: "newline \<notin> set ?h" "newline \<notin> set ?t" "newline \<notin> set ?v"
    using assms dec_int_no_newline [of "sr_value s c"] by (auto simp: plain_series_def runes_def newline_def)
  have "render_series c s @ rest = ?h @ newline # ?t @ newline # ?v @ newline # rest" by (simp add: render_series_def)
  then have "lines_from [] (render_series c s @ rest) = ?h # ?t # ?v # lines_from [] rest"
    using lines_from_line [OF ok(1), of "[]" "?t @ newline # ?v @ newline # rest"]
      lines_from_line [OF ok(2), of "[]" "?v @ newline # rest"] lines_from_line [OF ok(3), of "[]" rest] by simp
  moreover have "hd ?h = 35" "hd ?t = 35" "?v \<noteq> []" "hd ?v \<noteq> 35"
    using assms by (auto simp: plain_series_def runes_def hd_append)
  moreover have "?h \<noteq> []" "?t \<noteq> []" by (simp_all add: runes_def)
  ultimately show ?thesis by (simp only: samples_def filter.simps) simp
qed

lemma allSeries_plain: "\<forall>s \<in> set allSeries. plain_series s"
  by (simp add: allSeries_def plain_series_def runes_def newline_def)

text \<open>A scrape gets one sample for each of the ten series, its name and its value, and nothing else: no label.\<close>

lemma exposition_round_trip:
  "samples (RenderPrometheus c) = map (\<lambda>s. runes (sr_name s) @ runes '' '' @ dec_int (sr_value s c)) allSeries"
proof -
  have "\<forall>s \<in> set ss. plain_series s \<Longrightarrow>
      samples (concat (map (render_series c) ss)) = map (\<lambda>s. runes (sr_name s) @ runes '' '' @ dec_int (sr_value s c)) ss" for ss
    by (induction ss) (simp_all add: samples_series, simp add: samples_def)
  then show ?thesis using allSeries_plain by (simp add: RenderPrometheus_def)
qed

end
