(* ===== verification/Spec2Isabelle.thy ===== *)
theory Spec2Isabelle
  imports Business Guard Quotas Commands Send_Media Worker Messages Retention Erasure Poller Handler_Protocol Fetch Client Config Instance_Lock Cycles Probes
begin

text \<open>
  Undelete: a Telegram Business bot that captures the messages of its holders' chats, and sends a holder the text and
  the attachments of a message that is deleted. This development models the Go program under \<open>src/bot/internal/\<close> and
  proves what makes its parts correct, alone and together.

  THE PROGRAM. The poller (\<open>telegram/poller.go\<close>) fetches batches of updates and hands them to the dispatcher
  (\<open>telegram/shard.go\<close>), which partitions them by connection and chat over workers; each worker calls the update handler
  (\<open>app/handler.go\<close>) under bounded retries (\<open>app/transient.go\<close>). The handler resolves the Business connection of the
  update (\<open>business/service.go\<close>: cache, then database, then Bot API), enters the tenant's shared exclusion
  (\<open>tenantexcl/guard.go\<close>), resolves again, and then captures the message (\<open>messages/repository.go\<close>,
  \<open>media/repository.go\<close>) if the quotas (\<open>quotas/quotas.go\<close>) admit it, or marks a deletion, which queues alerts in the
  same transaction (\<open>messages/media_alerts.go\<close>, \<open>outbox/repository.go\<close>). An advisory lock keeps a second bot out (\<open>storage/instancelock.go\<close>).
  Three loops run beside it (\<open>cmd/bot/main.go\<close>): the worker that
  delivers alerts (\<open>outbox/worker.go\<close>, \<open>telegram/sendmedia.go\<close>), the fetch loop that downloads attachments
  (\<open>media/fetch/fetch.go\<close> over \<open>media/store/store.go\<close>), and the purge that expires and reconciles them
  (\<open>media/purge/purge.go\<close>). A holder can erase everything with two commands (\<open>erasure/erasure.go\<close>), under the exclusive
  side of the exclusion. All tables sit behind row level security (\<open>storage/db.go\<close>).

  HOW CODE BECOMES DEFINITIONS. A struct is a record, an enum a datatype, a method a function from the state to an
  answer and the next state; what the outside answers during a call (clock, PostgreSQL, the Bot API, the kernel, the
  contexts) is an argument of the call, a record with a name ending in \<open>env\<close>. A Go error is the list of the causes it
  wraps (Errors), so that \<open>errors.Is\<close> and \<open>errors.As\<close> are what they are in Go; a call that can fail returns a sum. An
  \<open>int64\<close> is an integer, with the wrap-around written out (\<open>wrap64\<close>) wherever an operand is not bounded by the code. Text
  is a list of runes, bytes are 8-bit words. Where the code is concurrent (Guard, Dispatcher, Business) the model is a
  step relation or a split of the operation at its lock regions, and the theorems quantify over every interleaving.
  Where a package states an interface, the model has it as a record of operations on an abstract state, the laws the
  package relies on are a locale, and the locale is interpreted on the program's own implementation.

  THE THEORIES, bottom up.
   Prelude: types, Go arithmetic, lists, runs of operations.  Errors: the causes.  Text: runes, UTF-16, decimals.
   Telegram\_Types: \<open>telegram/types.go\<close>.  Tenant\_Table: \<open>storage/db.go\<close>, the statements under row level security and
     \<open>InTenant\<close>; locale \<open>tenant_op\<close> (an operation leaves other tenants' rows), interpreted by each repository.
   Users: \<open>users/repository.go\<close>.  Connection\_Cache: \<open>business/cache.go\<close>, refined to an abstract LRU.
   Business: \<open>business/service.go\<close>.  Guard: \<open>tenantexcl/guard.go\<close> as a transition system with its invariant.
   Quotas: \<open>quotas/quotas.go\<close>.  Commands: \<open>telegram/commands.go\<close> and the value parsers of \<open>config/config.go\<close>.
   Alerts, Answers: \<open>telegram/alerts.go\<close>.  Media\_Extract: \<open>telegram/media.go\<close>.  Send\_Media: \<open>telegram/sendmedia.go\<close>.
   Media\_Path: \<open>media/path.go\<close>.  Media\_Catalogue: \<open>media/repository.go\<close> with the catalogue's invariant.
   Outbox: \<open>outbox/repository.go\<close>, \<open>payload.go\<close>.  Messages: \<open>messages/\<close>.  Worker: \<open>outbox/worker.go\<close>.
   Disk: the media directory and \<open>purge/saferemove.go\<close>.  Purge, Retention: \<open>purge/purge.go\<close>.
   Erasure\_Store: \<open>erasure/repository.go\<close>, refined to a register of codes.  Erasure: \<open>erasure/erasure.go\<close>; the locale
     \<open>erasing\<close> holds its guarantees, interpreted on the composition of Business, Messages, Outbox, Purge and Erasure\_Store.
   Dispatcher: \<open>telegram/shard.go\<close>.  Poller: \<open>telegram/poller.go\<close>.  Transient: \<open>app/transient.go\<close>.
   Handler: \<open>app/handler.go\<close>.  Handler\_Laws: what it can store or answer.  Handler\_Protocol: the order of its calls around
     the exclusion, an automaton in the locale \<open>exclusive_writes\<close>, interpreted on the traced handler.
   Store: \<open>media/store/store.go\<close>; the locale \<open>crash_invariant\<close> is the contract between the writer of a file and whoever
     reads the disk after a crash.  Fetch: \<open>media/fetch/fetch.go\<close> over Media\_Catalogue, Quotas and Store themselves.
   Client: \<open>telegram/client.go\<close> and \<open>files.go\<close>, over the HTTP client of Store.  Config: \<open>config/config.go\<close>, with what the
     tracker and the store ask of it.  Instance\_Lock: \<open>storage/instancelock.go\<close> as a transition system of any number of
     processes and their sessions.  Cycles: the loops of \<open>cmd/bot/main.go\<close>, one cycle of each over Worker, Messages, Outbox,
     Retention and Fetch.  Probes: \<open>health/health.go\<close> and \<open>metrics/metrics.go\<close>.

  WHAT IS PROVED. Isolation: a repository touches the rows of one tenant; a resolution stays with its tenant; writes
  happen inside the tenant's exclusion, after a fresh resolution of an enabled connection. Delivery: an alert is never
  lost, a lease is exclusive, a deletion queues every chunk once, updates of a chat are handled in order and never
  acknowledged before they were handled. Erasure: a confirmed erasure leaves nothing of the tenant in the tables or on
  the disk, only a live code starts it, and an interrupted one resumes to completion. Media: at every moment a crash
  leaves a complete file or the one before; every stored row is backed by its file; a file is given up only for a
  definitive reason; retention removes overdue files and reconciliation spares referenced ones. Start: a configuration that loads is one the
  components accept, and one bot at a time relies on the lock; cycles: every tenant has its turn, and a failed phase of the
  retention starves no other; secrets: where an error or a request may show the token. Bounds: rates, quotas,
  retries, message lengths. Refinements: the cache to an LRU, the requests to a register. The findings of the manifest
  are theorems as well: they show on a concrete run where the code does not do what its comments say.

  BOUNDS AND FUEL. Loops that the code bounds are recursive functions on what bounds them (attempts, pages, entries of a
  list, depth of a directory). Only the two loops of \<open>EraseTenant\<close> (Purge) have no bound in the code: they take fuel, and
  \<open>media_erasure_returns\<close> shows that one unit more than the rows of the catalogue is enough. A dispatched batch returns
  within five moves for each update and six more (\<open>dispatch_returns\<close>). A download makes at most one attempt more than the
  configured retries (\<open>requests_stay_home\<close>), a transient failure at most four attempts.

  NOT MODELLED. The SQL of the migrations (their constraints and policies are in the table models), the opening of the
  connection pool, the HTTP server and the JSON encoder of \<open>health\<close>, the fixed wording of the answers, the embedded text of
  \<open>privacy\<close>, logging, and the wiring, the tickers and the signals of \<open>cmd/bot/main.go\<close>: input and output
  with no decision of their own. SHA-256, Unicode case mappings outside ASCII, time zones and JSON are arguments.
\<close>

end
